(* ===== verification/RtlPrelude.thy ===== *)
theory RtlPrelude
  imports Main "HOL-Library.Word" "HOL-Library.Monad_Syntax"
begin

text \<open>
  Shared material of the development: the machine types of the NT headers, the status
  codes the modelled routines return, bounds-checked access to C arrays, and the generic
  facts on words, lists and searches that the component theories use.

  An access outside an object is the value \<open>None\<close> of the option type, so a theorem that
  an operation returns \<open>Some\<close> is also a memory-safety statement.
\<close>

unbundle bit_operations_syntax

section \<open>Machine types and status codes\<close>

type_synonym UCHAR = "8 word"
type_synonym USHORT = "16 word"
type_synonym WCHAR = "16 word"
type_synonym ULONG = "32 word"
type_synonym ULONGLONG = "64 word"
type_synonym ACCESS_MASK = "32 word"

datatype NTSTATUS =
    STATUS_SUCCESS
  | STATUS_SOME_NOT_MAPPED
  | STATUS_NO_MORE_ENTRIES
  | STATUS_UNSUCCESSFUL
  | STATUS_INVALID_PARAMETER
  | STATUS_INVALID_PARAMETER_4
  | STATUS_INVALID_PARAMETER_5
  | STATUS_NO_MEMORY
  | STATUS_BUFFER_TOO_SMALL
  | STATUS_REVISION_MISMATCH
  | STATUS_INVALID_ACL
  | STATUS_INVALID_SID
  | STATUS_ALLOTTED_SPACE_EXCEEDED
  | STATUS_INSUFFICIENT_RESOURCES
  | STATUS_INVALID_INFO_CLASS
  | STATUS_RANGE_NOT_FOUND
  | STATUS_BUFFER_OVERFLOW
  | STATUS_ACCESS_VIOLATION
  | STATUS_NAME_TOO_LONG
  | STATUS_NOT_FOUND
  | STATUS_NOT_IMPLEMENTED
  | STATUS_ACCESS_DENIED
  | STATUS_UNKNOWN_REVISION
  | STATUS_PRIVILEGE_NOT_HELD
  | STATUS_BAD_IMPERSONATION_LEVEL
  | STATUS_NO_IMPERSONATION_TOKEN
  | STATUS_INVALID_SECURITY_DESCR
  | STATUS_GENERIC_NOT_MAPPED
  | STATUS_BAD_DESCRIPTOR_FORMAT
  | STATUS_INVALID_PARAMETER_1
  | STATUS_INVALID_PARAMETER_2
  | STATUS_DATA_ERROR
  | STATUS_OBJECT_PATH_NOT_FOUND

text \<open>The codes of \<^verbatim>\<open>ntstatus.h\<close>; \<open>NT_SUCCESS\<close> tests the sign of the 32-bit code.\<close>

fun status_code :: "NTSTATUS \<Rightarrow> ULONG" where
  "status_code STATUS_SUCCESS = 0x00000000"
| "status_code STATUS_SOME_NOT_MAPPED = 0x00000107"
| "status_code STATUS_NO_MORE_ENTRIES = 0x8000001A"
| "status_code STATUS_UNSUCCESSFUL = 0xC0000001"
| "status_code STATUS_INVALID_PARAMETER = 0xC000000D"
| "status_code STATUS_INVALID_PARAMETER_4 = 0xC00000F2"
| "status_code STATUS_INVALID_PARAMETER_5 = 0xC00000F3"
| "status_code STATUS_NO_MEMORY = 0xC0000017"
| "status_code STATUS_BUFFER_TOO_SMALL = 0xC0000023"
| "status_code STATUS_REVISION_MISMATCH = 0xC0000059"
| "status_code STATUS_INVALID_ACL = 0xC0000077"
| "status_code STATUS_INVALID_SID = 0xC0000078"
| "status_code STATUS_ALLOTTED_SPACE_EXCEEDED = 0xC0000099"
| "status_code STATUS_INSUFFICIENT_RESOURCES = 0xC000009A"
| "status_code STATUS_INVALID_INFO_CLASS = 0xC0000003"
| "status_code STATUS_RANGE_NOT_FOUND = 0xC000028C"
| "status_code STATUS_BUFFER_OVERFLOW = 0x80000005"
| "status_code STATUS_ACCESS_VIOLATION = 0xC0000005"
| "status_code STATUS_NAME_TOO_LONG = 0xC0000106"
| "status_code STATUS_NOT_FOUND = 0xC0000225"
| "status_code STATUS_NOT_IMPLEMENTED = 0xC0000002"
| "status_code STATUS_ACCESS_DENIED = 0xC0000022"
| "status_code STATUS_UNKNOWN_REVISION = 0xC0000058"
| "status_code STATUS_PRIVILEGE_NOT_HELD = 0xC0000061"
| "status_code STATUS_BAD_IMPERSONATION_LEVEL = 0xC00000A5"
| "status_code STATUS_NO_IMPERSONATION_TOKEN = 0xC000005C"
| "status_code STATUS_INVALID_SECURITY_DESCR = 0xC0000079"
| "status_code STATUS_GENERIC_NOT_MAPPED = 0xC00000E6"
| "status_code STATUS_BAD_DESCRIPTOR_FORMAT = 0xC00000E7"
| "status_code STATUS_INVALID_PARAMETER_1 = 0xC00000EF"
| "status_code STATUS_INVALID_PARAMETER_2 = 0xC00000F0"
| "status_code STATUS_DATA_ERROR = 0xC000003E"
| "status_code STATUS_OBJECT_PATH_NOT_FOUND = 0xC000003A"

definition NT_SUCCESS :: "NTSTATUS \<Rightarrow> bool" where
  "NT_SUCCESS s \<longleftrightarrow> 0 \<le> sint (status_code s)"

text \<open>
  Where the code computes with signed or mixed integers the model uses \<open>int\<close> and writes the
  conversion of each assignment: the low bits, read as a signed or as an unsigned number.
\<close>

definition to_CSHORT :: "int \<Rightarrow> int" where "to_CSHORT x = signed_take_bit 15 x"

definition to_LONGLONG :: "int \<Rightarrow> int" where "to_LONGLONG x = signed_take_bit 63 x"

definition to_ULONG :: "int \<Rightarrow> int" where "to_ULONG x = x mod 2 ^ 32"

definition to_ULONGLONG :: "int \<Rightarrow> int" where "to_ULONGLONG x = x mod 2 ^ 64"

text \<open>A counted string: the length in bytes, the size of the buffer in bytes, and the buffer.\<close>

record UNICODE_STRING =
  UsLength :: USHORT
  UsMaximumLength :: USHORT
  UsBuffer :: "WCHAR list"

section \<open>Arrays of the C heap\<close>

definition array_get :: "'a list \<Rightarrow> nat \<Rightarrow> 'a option" where
  "array_get xs i = (if i < length xs then Some (xs ! i) else None)"

definition array_set :: "'a list \<Rightarrow> nat \<Rightarrow> 'a \<Rightarrow> 'a list option" where
  "array_set xs i v = (if i < length xs then Some (xs[i := v]) else None)"

text \<open>A block write of \<open>vs\<close> at index \<open>i\<close> (\<^verbatim>\<open>memcpy\<close>, \<^verbatim>\<open>memset\<close>, a fill loop).\<close>

definition array_blit :: "'a list \<Rightarrow> nat \<Rightarrow> 'a list \<Rightarrow> 'a list option" where
  "array_blit xs i vs =
     (if i + length vs \<le> length xs
      then Some (take i xs @ vs @ drop (i + length vs) xs) else None)"

definition array_slice :: "'a list \<Rightarrow> nat \<Rightarrow> nat \<Rightarrow> 'a list option" where
  "array_slice xs i n =
     (if i + n \<le> length xs then Some (take n (drop i xs)) else None)"

lemma NT_SUCCESS_iff [simp]:
  "NT_SUCCESS s \<longleftrightarrow> s = STATUS_SUCCESS \<or> s = STATUS_SOME_NOT_MAPPED"
  by (cases s) (simp_all add: NT_SUCCESS_def)

lemma array_get_Some [simp]: "i < length xs \<Longrightarrow> array_get xs i = Some (xs ! i)"
  by (simp add: array_get_def)

lemma array_get_eq_Some_iff: "array_get xs i = Some v \<longleftrightarrow> i < length xs \<and> v = xs ! i"
  by (auto simp: array_get_def)

lemma array_get_None [simp]: "array_get xs i = None \<longleftrightarrow> length xs \<le> i"
  by (simp add: array_get_def)

lemma array_set_Some [simp]: "i < length xs \<Longrightarrow> array_set xs i v = Some (xs[i := v])"
  by (simp add: array_set_def)

lemma array_blit_Some:
  "i + length vs \<le> length xs \<Longrightarrow>
   array_blit xs i vs = Some (take i xs @ vs @ drop (i + length vs) xs)"
  by (simp add: array_blit_def)

lemma array_blit_length: "array_blit xs i vs = Some ys \<Longrightarrow> length ys = length xs"
  by (auto simp: array_blit_def split: if_splits)

lemma array_blit_nth:
  assumes "array_blit xs i vs = Some ys" and "j < length xs"
  shows "ys ! j = (if i \<le> j \<and> j < i + length vs then vs ! (j - i) else xs ! j)"
proof -
  have le: "i + length vs \<le> length xs"
    and ys: "ys = take i xs @ vs @ drop (i + length vs) xs"
    using assms(1) by (auto simp: array_blit_def split: if_splits)
  show ?thesis
    using le assms(2) unfolding ys
    by (auto simp: nth_append min_def)
qed

section \<open>Integers at their width\<close>

lemma to_CSHORT_id [simp]: "- 32768 \<le> x \<Longrightarrow> x < 32768 \<Longrightarrow> to_CSHORT x = x"
  by (simp add: to_CSHORT_def signed_take_bit_int_eq_self)

lemma to_LONGLONG_id: "- (2 ^ 63) \<le> x \<Longrightarrow> x < 2 ^ 63 \<Longrightarrow> to_LONGLONG x = x"
  by (simp add: to_LONGLONG_def signed_take_bit_int_eq_self)

lemma to_ULONG_id: "0 \<le> x \<Longrightarrow> x < 2 ^ 32 \<Longrightarrow> to_ULONG x = x"
  by (simp add: to_ULONG_def)

lemma to_ULONGLONG_id: "0 \<le> x \<Longrightarrow> x < 2 ^ 64 \<Longrightarrow> to_ULONGLONG x = x"
  by (simp add: to_ULONGLONG_def)

section \<open>Words\<close>

lemma unat_and_mask: "unat ((x :: 'a::len word) AND mask n) = unat x mod 2 ^ n"
  by (metis take_bit_eq_mask take_bit_eq_mod unsigned_take_bit_eq)

lemma unat_and_31 [simp]: "unat ((x :: ULONG) AND 31) = unat x mod 32"
  using unat_and_mask [of x 5] by (simp add: mask_numeral)

lemma unat_and_7 [simp]: "unat ((x :: ULONG) AND 7) = unat x mod 8"
  using unat_and_mask [of x 3] by (simp add: mask_numeral)

lemma unat_div_32 [simp]: "unat ((x :: ULONG) div 32) = unat x div 32"
  by (simp add: unat_div)

lemma unat_add_small:
  "unat (x :: 'a::len word) + unat y < 2 ^ LENGTH('a) \<Longrightarrow> unat (x + y) = unat x + unat y"
  by (rule unat_add_lem [THEN iffD1])

lemma unat_min: "unat (min x y) = min (unat x) (unat (y :: 'a::len word))"
  by (auto simp: min_def word_le_nat_alt)

lemma unat_ulong_less [simp]: "unat (x :: ULONG) < 4294967296"
  using unsigned_less [of x] by simp

lemma unat_ulonglong_less [simp]: "unat (x :: ULONGLONG) < 18446744073709551616"
  using unsigned_less [of x] by simp

lemma word_eq_0_bits: "(v :: 'a::len word) = 0 \<longleftrightarrow> (\<forall>i < LENGTH('a). \<not> bit v i)"
  by (auto simp: bit_eq_iff dest: bit_imp_le_length)

lemma and_exp_cases: "(w :: 'a::len word) AND 2 ^ k = (if bit w k then 2 ^ k else 0)"
  by (rule bit_word_eqI) (auto simp: bit_and_iff bit_exp_iff)

lemma and_31_eq_0_iff: "(x :: ULONG) AND 31 = 0 \<longleftrightarrow> unat x mod 32 = 0"
  by (metis unat_and_31 unat_eq_zero)

lemma and_7_eq_0_iff: "(x :: ULONG) AND 7 = 0 \<longleftrightarrow> unat x mod 8 = 0"
  by (metis unat_and_7 unat_eq_zero)

lemma unat_of_nat_small: "n < 2 ^ LENGTH('a) \<Longrightarrow> unat (of_nat n :: 'a::len word) = n"
  by (simp add: unat_of_nat)

lemma unat_of_nat_USHORT: "n < 65536 \<Longrightarrow> unat (of_nat n :: USHORT) = n"
  by (simp add: unat_of_nat)

lemma unat_ucast_UCHAR: "unat (ucast (x :: UCHAR) :: ULONG) = unat x"
proof -
  have "unat x < 2 ^ 8" using unsigned_less [of x, where ?'a = nat] by simp
  then show ?thesis by (simp add: unsigned_ucast_eq take_bit_nat_eq_self)
qed

lemma unat_ucast_USHORT: "unat (ucast (x :: USHORT) :: ULONG) = unat x"
proof -
  have "unat x < 2 ^ 16" using unsigned_less [of x, where ?'a = nat] by simp
  then show ?thesis by (simp add: unsigned_ucast_eq take_bit_nat_eq_self)
qed

lemma unat_add_le:
  "unat (x :: 'a::len word) + unat y \<le> unat (z :: 'a word) \<Longrightarrow> unat (x + y) = unat x + unat y"
  by (rule unat_add_small) (auto intro: le_less_trans)

lemma unat_add_no_wrap:
  assumes "Start < Start + (n :: ULONG)"
  shows "unat (Start + n) = unat Start + unat n"
proof (cases "unat Start + unat n < 2 ^ 32")
  case True
  then show ?thesis by (intro unat_add_small) simp
next
  case False
  then have "unat (Start + n) = unat Start + unat n - 2 ^ 32" by (simp add: unat_plus_if')
  moreover have "unat Start < unat (Start + n)" using assms by (simp add: word_less_nat_alt)
  moreover have "unat n < 2 ^ 32" by simp
  ultimately show ?thesis by linarith
qed

lemma bit_unat: "bit (unat (x :: 'a::len word)) j \<longleftrightarrow> bit x j"
  by (auto simp: bit_unsigned_iff dest: bit_imp_le_length)

lemma unat_and_not_mask: "unat ((x :: 'a::len word) AND NOT (mask k)) = unat x div 2 ^ k * 2 ^ k"
proof -
  have "unat (x AND NOT (mask k)) = push_bit k (drop_bit k (unat x))"
    by (rule bit_eqI) (auto simp: bit_unat bit_and_iff bit_not_iff bit_mask_iff bit_push_bit_iff bit_drop_bit_eq
        dest: bit_imp_le_length)
  then show ?thesis by (simp add: push_bit_eq_mult drop_bit_eq_div)
qed

lemma if_less_min: "(if b < a then b else a) = min a (b :: 'a::linorder)"
  by (auto simp: min_def)

section \<open>Bit positions in an array of 32-bit words\<close>

lemma div_mod_32_cases:
  obtains d m where "(i :: nat) = 32 * d + m" "m < 32" "i div 32 = d" "i mod 32 = m"
  by (rule that [of "i div 32" "i mod 32"]) simp_all

lemma div_32_tail:
  assumes "r < (32 :: nat)"
  shows "32 * p \<le> i \<and> i < 32 * p + (32 * k + r) \<longleftrightarrow>
     (32 * p \<le> i \<and> i < 32 * (p + k)) \<or> (i div 32 = p + k \<and> i mod 32 < r)"
proof -
  obtain d m where i: "i = 32 * d + m" "m < 32" "i div 32 = d" "i mod 32 = m" by (rule div_mod_32_cases)
  show ?thesis unfolding i(3,4) using i(1,2) assms
    by (cases d "p + k" rule: linorder_cases) auto
qed

lemma div_32_head:
  assumes "k < 32" "32 - k \<le> (n :: nat)"
  shows "32 * p + k \<le> i \<and> i < 32 * p + k + n \<longleftrightarrow>
     (i div 32 = p \<and> k \<le> i mod 32) \<or> (32 * Suc p \<le> i \<and> i < 32 * Suc p + (n - (32 - k)))"
proof -
  obtain d m where i: "i = 32 * d + m" "m < 32" "i div 32 = d" "i mod 32 = m" by (rule div_mod_32_cases)
  show ?thesis unfolding i(3,4) using i(1,2) assms
    by (cases d p rule: linorder_cases) auto
qed

lemma div_32_range:
  assumes "c \<le> (32 :: nat)"
  shows "i div 32 = p \<and> a \<le> i mod 32 \<and> i mod 32 < c \<longleftrightarrow> 32 * p + a \<le> i \<and> i < 32 * p + c"
proof -
  obtain d m where i: "i = 32 * d + m" "m < 32" "i div 32 = d" "i mod 32 = m" by (rule div_mod_32_cases)
  show ?thesis unfolding i(3,4) using i(1,2) assms 
    by (cases d p rule: linorder_cases) auto
qed
section \<open>Bounded searches\<close>

lemma find_upt_Some:
  "find P [a..<b] = Some i \<longleftrightarrow>
   a \<le> i \<and> i < b \<and> P i \<and> (\<forall>j. a \<le> j \<and> j < i \<longrightarrow> \<not> P j)"
proof
  assume "find P [a..<b] = Some i"
  then obtain k where k: "k < b - a" "P (a + k)" "i = a + k" "\<forall>j<k. \<not> P (a + j)"
    by (auto simp: find_Some_iff)
  have "\<not> P j" if "a \<le> j" "j < i" for j
    using that k(3,4) by (metis add_less_cancel_left le_Suc_ex)
  with k show "a \<le> i \<and> i < b \<and> P i \<and> (\<forall>j. a \<le> j \<and> j < i \<longrightarrow> \<not> P j)" by auto
next
  assume "a \<le> i \<and> i < b \<and> P i \<and> (\<forall>j. a \<le> j \<and> j < i \<longrightarrow> \<not> P j)"
  then show "find P [a..<b] = Some i"
    by (auto simp: find_Some_iff intro!: exI [of _ "i - a"])
qed

lemma find_upt_None: "find P [a..<b] = None \<longleftrightarrow> (\<forall>i. a \<le> i \<and> i < b \<longrightarrow> \<not> P i)"
  by (auto simp: find_None_iff)

end
