(* ===== verification/RtlBitmap.thy ===== *)
theory RtlBitmap
  imports RtlPrelude
begin

text \<open>
  The bitmap package of the run-time library, \<^verbatim>\<open>sdk/lib/rtl/bitmap.c\<close>, in its 32-bit
  instance (\<open>_BITCOUNT = 32\<close>). A bitmap is a header with a bit count and an array of
  32-bit words. A pointer into the array is its element index; reading or writing an
  element outside the array is \<open>None\<close>. \<open>BITMAP_INDEX\<close> arithmetic is 32-bit and wraps.
\<close>

section \<open>Data\<close>

record RTL_BITMAP =
  SizeOfBitMap :: ULONG
  Buffer :: "ULONG list"

record RTL_BITMAP_RUN =
  StartingIndex :: ULONG
  NumberOfBits :: ULONG

abbreviation MAXINDEX :: ULONG where "MAXINDEX \<equiv> 0xFFFFFFFF"

definition BitCountTable :: "nat list" where
  "BitCountTable =
    [0, 1, 1, 2, 1, 2, 2, 3, 1, 2, 2, 3, 2, 3, 3, 4,
     1, 2, 2, 3, 2, 3, 3, 4, 2, 3, 3, 4, 3, 4, 4, 5,
     1, 2, 2, 3, 2, 3, 3, 4, 2, 3, 3, 4, 3, 4, 4, 5,
     2, 3, 3, 4, 3, 4, 4, 5, 3, 4, 4, 5, 4, 5, 5, 6,
     1, 2, 2, 3, 2, 3, 3, 4, 2, 3, 3, 4, 3, 4, 4, 5,
     2, 3, 3, 4, 3, 4, 4, 5, 3, 4, 4, 5, 4, 5, 5, 6,
     2, 3, 3, 4, 3, 4, 4, 5, 3, 4, 4, 5, 4, 5, 5, 6,
     3, 4, 4, 5, 4, 5, 5, 6, 4, 5, 5, 6, 5, 6, 6, 7,
     1, 2, 2, 3, 2, 3, 3, 4, 2, 3, 3, 4, 3, 4, 4, 5,
     2, 3, 3, 4, 3, 4, 4, 5, 3, 4, 4, 5, 4, 5, 5, 6,
     2, 3, 3, 4, 3, 4, 4, 5, 3, 4, 4, 5, 4, 5, 5, 6,
     3, 4, 4, 5, 4, 5, 5, 6, 4, 5, 5, 6, 5, 6, 6, 7,
     2, 3, 3, 4, 3, 4, 4, 5, 3, 4, 4, 5, 4, 5, 5, 6,
     3, 4, 4, 5, 4, 5, 5, 6, 4, 5, 5, 6, 5, 6, 6, 7,
     3, 4, 4, 5, 4, 5, 5, 6, 4, 5, 5, 6, 5, 6, 6, 7,
     4, 5, 5, 6, 5, 6, 6, 7, 5, 6, 6, 7, 6, 7, 7, 8]"

text \<open>
  The bit-scan intrinsics: the index of the lowest (highest) set bit, and \<open>None\<close> where
  the intrinsic returns 0 and leaves the index undefined.
\<close>

definition BitScanForward :: "'a::len word \<Rightarrow> nat option" where
  "BitScanForward v = find (bit v) [0..<LENGTH('a)]"

definition BitScanReverse :: "'a::len word \<Rightarrow> nat option" where
  "BitScanReverse v = find (bit v) (rev [0..<LENGTH('a)])"

section \<open>Run lengths\<close>

text \<open>
  The scanning loop of the two run-length functions,
  \<^verbatim>\<open>while (Value == 0 && Buffer < MaxBuffer) Value = f(*Buffer++)\<close>, where \<open>f\<close> is the
  identity for clear runs and the complement for set runs. It returns the last value read
  and the index after it.
\<close>

function skip_ulongs ::
  "(ULONG \<Rightarrow> ULONG) \<Rightarrow> ULONG list \<Rightarrow> nat \<Rightarrow> ULONG \<Rightarrow> nat \<Rightarrow> (ULONG \<times> nat) option" where
  "skip_ulongs f buf MaxBuffer Value p =
     (if Value = 0 \<and> p < MaxBuffer
      then (case array_get buf p of
              None \<Rightarrow> None
            | Some v \<Rightarrow> skip_ulongs f buf MaxBuffer (f v) (Suc p))
      else Some (Value, p))"
  by pat_completeness auto
termination
  by (relation "measure (\<lambda>(f, buf, m, v, p). m - p)") auto

declare skip_ulongs.simps [simp del]

definition RtlpGetLengthOfRunClear :: "RTL_BITMAP \<Rightarrow> ULONG \<Rightarrow> ULONG \<Rightarrow> ULONG option" where
  "RtlpGetLengthOfRunClear bm Start MaxLen =
     (if Start \<ge> SizeOfBitMap bm then Some 0
      else
        let p = unat (Start div 32);
            BitPos = Start AND 31;
            MaxLength = min MaxLen (SizeOfBitMap bm - Start);
            MaxBuffer = p + unat ((BitPos + MaxLength + 32 - 1) div 32)
        in do {
          v \<leftarrow> array_get (Buffer bm) p;
          (Value, q) \<leftarrow> skip_ulongs (\<lambda>w. w) (Buffer bm) MaxBuffer
                        (push_bit (unat BitPos) (drop_bit (unat BitPos) v)) (Suc p);
          if Value = 0 then Some MaxLength
          else do {
            pos \<leftarrow> BitScanForward Value;
            let Length = of_nat q * 32 - Start;
                Length = Length + (of_nat pos - 32)
            in Some (if Length > SizeOfBitMap bm - Start then SizeOfBitMap bm - Start
                     else Length)
          }
        })"

definition RtlpGetLengthOfRunSet :: "RTL_BITMAP \<Rightarrow> ULONG \<Rightarrow> ULONG \<Rightarrow> ULONG option" where
  "RtlpGetLengthOfRunSet bm Start MaxLen =
     (if Start \<ge> SizeOfBitMap bm then Some 0
      else
        let p = unat (Start div 32);
            BitPos = Start AND 31;
            MaxLength = min MaxLen (SizeOfBitMap bm - Start);
            MaxBuffer = p + unat ((BitPos + MaxLength + 32 - 1) div 32)
        in do {
          v \<leftarrow> array_get (Buffer bm) p;
          (InvValue, q) \<leftarrow> skip_ulongs (\<lambda>w. NOT w) (Buffer bm) MaxBuffer
                        (push_bit (unat BitPos) (drop_bit (unat BitPos) (NOT v))) (Suc p);
          if InvValue = 0 then Some MaxLength
          else do {
            pos \<leftarrow> BitScanForward InvValue;
            let Length = of_nat q * 32 - Start;
                Length = Length + (of_nat pos - 32)
            in Some (if Length > SizeOfBitMap bm - Start then SizeOfBitMap bm - Start
                     else Length)
          }
        })"

section \<open>Single-value scans\<close>

definition RtlFindMostSignificantBit :: "ULONGLONG \<Rightarrow> int" where
  "RtlFindMostSignificantBit Value =
     (case BitScanReverse (ucast (drop_bit 32 Value) :: ULONG) of
        Some Position \<Rightarrow> int (Position + 32)
      | None \<Rightarrow>
          (case BitScanReverse (ucast Value :: ULONG) of
             Some Position \<Rightarrow> int Position
           | None \<Rightarrow> - 1))"

definition RtlFindLeastSignificantBit :: "ULONGLONG \<Rightarrow> int" where
  "RtlFindLeastSignificantBit Value =
     (case BitScanForward (ucast Value :: ULONG) of
        Some Position \<Rightarrow> int Position
      | None \<Rightarrow>
          (case BitScanForward (ucast (drop_bit 32 Value) :: ULONG) of
             Some Position \<Rightarrow> int (Position + 32)
           | None \<Rightarrow> - 1))"

section \<open>Initialisation, single bits and bit ranges\<close>

definition RtlInitializeBitMap :: "ULONG list \<Rightarrow> ULONG \<Rightarrow> RTL_BITMAP" where
  "RtlInitializeBitMap BitMapBuffer Size = \<lparr>SizeOfBitMap = Size, Buffer = BitMapBuffer\<rparr>"

text \<open>\<open>RtlFillMemoryUlong\<close> on the array from index \<open>p\<close>: \<open>Length\<close> is in bytes.\<close>

definition RtlFillMemoryUlong :: "ULONG list \<Rightarrow> nat \<Rightarrow> nat \<Rightarrow> ULONG \<Rightarrow> ULONG list option" where
  "RtlFillMemoryUlong buf p Length Fill = array_blit buf p (replicate (Length div 4) Fill)"

definition RtlClearAllBits :: "RTL_BITMAP \<Rightarrow> RTL_BITMAP option" where
  "RtlClearAllBits bm =
     (let LengthInUlongs = (SizeOfBitMap bm + 32 - 1) div 32
      in do {
        buf \<leftarrow> RtlFillMemoryUlong (Buffer bm) 0 (unat (LengthInUlongs * 4)) 0;
        Some (bm\<lparr>Buffer := buf\<rparr>)
      })"

definition RtlSetAllBits :: "RTL_BITMAP \<Rightarrow> RTL_BITMAP option" where
  "RtlSetAllBits bm =
     (let LengthInUlongs = (SizeOfBitMap bm + 32 - 1) div 32
      in do {
        buf \<leftarrow> RtlFillMemoryUlong (Buffer bm) 0 (unat (LengthInUlongs * 4)) (NOT 0);
        Some (bm\<lparr>Buffer := buf\<rparr>)
      })"

definition RtlClearBit :: "RTL_BITMAP \<Rightarrow> ULONG \<Rightarrow> RTL_BITMAP option" where
  "RtlClearBit bm BitNumber =
     do {
       v \<leftarrow> array_get (Buffer bm) (unat (BitNumber div 32));
       buf \<leftarrow> array_set (Buffer bm) (unat (BitNumber div 32))
                (v AND NOT (push_bit (unat (BitNumber AND 31)) 1));
       Some (bm\<lparr>Buffer := buf\<rparr>)
     }"

definition RtlSetBit :: "RTL_BITMAP \<Rightarrow> ULONG \<Rightarrow> RTL_BITMAP option" where
  "RtlSetBit bm BitNumber =
     do {
       v \<leftarrow> array_get (Buffer bm) (unat (BitNumber div 32));
       buf \<leftarrow> array_set (Buffer bm) (unat (BitNumber div 32))
                (v OR push_bit (unat (BitNumber AND 31)) 1);
       Some (bm\<lparr>Buffer := buf\<rparr>)
     }"

text \<open>\<open>array_modify\<close> is \<^verbatim>\<open>*Buffer op= Mask\<close>.\<close>

definition array_modify :: "'a list \<Rightarrow> nat \<Rightarrow> ('a \<Rightarrow> 'a) \<Rightarrow> 'a list option" where
  "array_modify xs i f = do { v \<leftarrow> array_get xs i; array_set xs i (f v) }"

text \<open>
  The part of \<open>RtlClearBits\<close> and \<open>RtlSetBits\<close> after the unaligned head: the whole
  words, then the low bits of the last one.
\<close>

definition RtlClearBits_tail :: "ULONG list \<Rightarrow> nat \<Rightarrow> ULONG \<Rightarrow> ULONG list option" where
  "RtlClearBits_tail buf p NumberToClear =
     do {
       buf \<leftarrow> RtlFillMemoryUlong buf p (unat (drop_bit 3 NumberToClear)) 0;
       let p = p + unat (NumberToClear div 32);
           NumberToClear = NumberToClear AND 31
       in if NumberToClear \<noteq> 0
          then array_modify buf p (\<lambda>v. v AND push_bit (unat NumberToClear) MAXINDEX)
          else Some buf
     }"

definition RtlClearBits :: "RTL_BITMAP \<Rightarrow> ULONG \<Rightarrow> ULONG \<Rightarrow> RTL_BITMAP option" where
  "RtlClearBits bm Start NumberToClear =
     (let p = unat (Start div 32);
          Bits = Start AND 31
      in if Bits \<noteq> 0
         then
           let Mask = push_bit (unat Bits) MAXINDEX;
               Bits = 32 - Bits
           in if NumberToClear < Bits
              then
                let Bits = Bits - NumberToClear;
                    Mask = drop_bit (unat Bits) (push_bit (unat Bits) Mask)
                in do {
                  buf \<leftarrow> array_modify (Buffer bm) p (\<lambda>v. v AND NOT Mask);
                  Some (bm\<lparr>Buffer := buf\<rparr>)
                }
              else do {
                buf \<leftarrow> array_modify (Buffer bm) p (\<lambda>v. v AND NOT Mask);
                buf \<leftarrow> RtlClearBits_tail buf (Suc p) (NumberToClear - Bits);
                Some (bm\<lparr>Buffer := buf\<rparr>)
              }
         else do {
           buf \<leftarrow> RtlClearBits_tail (Buffer bm) p NumberToClear;
           Some (bm\<lparr>Buffer := buf\<rparr>)
         })"

definition RtlSetBits_tail :: "ULONG list \<Rightarrow> nat \<Rightarrow> ULONG \<Rightarrow> ULONG list option" where
  "RtlSetBits_tail buf p NumberToSet =
     do {
       buf \<leftarrow> RtlFillMemoryUlong buf p (unat (drop_bit 3 NumberToSet)) MAXINDEX;
       let p = p + unat (NumberToSet div 32);
           NumberToSet = NumberToSet AND 31
       in if NumberToSet \<noteq> 0
          then array_modify buf p (\<lambda>v. v OR NOT (push_bit (unat NumberToSet) MAXINDEX))
          else Some buf
     }"

definition RtlSetBits :: "RTL_BITMAP \<Rightarrow> ULONG \<Rightarrow> ULONG \<Rightarrow> RTL_BITMAP option" where
  "RtlSetBits bm Start NumberToSet =
     (let p = unat (Start div 32);
          Bits = Start AND 31
      in if Bits \<noteq> 0
         then
           let Mask = push_bit (unat Bits) MAXINDEX;
               Bits = 32 - Bits
           in if NumberToSet < Bits
              then
                let Bits = Bits - NumberToSet;
                    Mask = drop_bit (unat Bits) (push_bit (unat Bits) Mask)
                in do {
                  buf \<leftarrow> array_modify (Buffer bm) p (\<lambda>v. v OR Mask);
                  Some (bm\<lparr>Buffer := buf\<rparr>)
                }
              else do {
                buf \<leftarrow> array_modify (Buffer bm) p (\<lambda>v. v OR Mask);
                buf \<leftarrow> RtlSetBits_tail buf (Suc p) (NumberToSet - Bits);
                Some (bm\<lparr>Buffer := buf\<rparr>)
              }
         else do {
           buf \<leftarrow> RtlSetBits_tail (Buffer bm) p NumberToSet;
           Some (bm\<lparr>Buffer := buf\<rparr>)
         })"

section \<open>Queries\<close>

definition RtlTestBit :: "RTL_BITMAP \<Rightarrow> ULONG \<Rightarrow> bool option" where
  "RtlTestBit bm BitNumber =
     do {
       v \<leftarrow> array_get (Buffer bm) (unat (BitNumber div 32));
       Some (drop_bit (unat (BitNumber AND 31)) v AND 1 \<noteq> 0)
     }"

definition RtlAreBitsClear :: "RTL_BITMAP \<Rightarrow> ULONG \<Rightarrow> ULONG \<Rightarrow> bool option" where
  "RtlAreBitsClear bm Start Length =
     (if Start + Length > SizeOfBitMap bm \<or> Start + Length \<le> Start then Some False
      else do {
        n \<leftarrow> RtlpGetLengthOfRunClear bm Start Length;
        Some (n \<ge> Length)
      })"

definition RtlAreBitsSet :: "RTL_BITMAP \<Rightarrow> ULONG \<Rightarrow> ULONG \<Rightarrow> bool option" where
  "RtlAreBitsSet bm Start Length =
     (if Start + Length > SizeOfBitMap bm \<or> Start + Length \<le> Start then Some False
      else do {
        n \<leftarrow> RtlpGetLengthOfRunSet bm Start Length;
        Some (n \<ge> Length)
      })"

text \<open>The \<open>k\<close>-th byte of the word array on a little-endian machine.\<close>

definition buffer_byte :: "ULONG list \<Rightarrow> nat \<Rightarrow> UCHAR option" where
  "buffer_byte buf k =
     do { v \<leftarrow> array_get buf (k div 4); Some (ucast (drop_bit (8 * (k mod 4)) v)) }"

fun count_bytes :: "ULONG list \<Rightarrow> nat \<Rightarrow> nat \<Rightarrow> ULONG \<Rightarrow> ULONG option" where
  "count_bytes buf k 0 BitCount = Some BitCount"
| "count_bytes buf k (Suc n) BitCount =
     do {
       b \<leftarrow> buffer_byte buf k;
       count_bytes buf (Suc k) n (BitCount + of_nat (BitCountTable ! unat b))
     }"

definition RtlNumberOfSetBits :: "RTL_BITMAP \<Rightarrow> ULONG option" where
  "RtlNumberOfSetBits bm =
     do {
       BitCount \<leftarrow> count_bytes (Buffer bm) 0 (unat (SizeOfBitMap bm div 8)) 0;
       if SizeOfBitMap bm AND 7 \<noteq> 0
       then do {
         b \<leftarrow> buffer_byte (Buffer bm) (unat (SizeOfBitMap bm div 8));
         let Shift = unat (8 - (SizeOfBitMap bm AND 7))
         in Some (BitCount + of_nat (BitCountTable ! unat (push_bit Shift b)))
       }
       else Some BitCount
     }"

definition RtlNumberOfClearBits :: "RTL_BITMAP \<Rightarrow> ULONG option" where
  "RtlNumberOfClearBits bm =
     do { n \<leftarrow> RtlNumberOfSetBits bm; Some (SizeOfBitMap bm - n) }"

section \<open>Searches\<close>

text \<open>
  The search loop of \<open>RtlFindClearBits\<close> and \<open>RtlFindSetBits\<close>. \<open>within\<close> is the comparison
  of its guard, \<open>skip\<close> and \<open>len\<close> the two run-length functions. The loop need not end: the
  guard adds with wrap-around, so past the end of a bitmap of more than \<open>2 ^ 31\<close> bits it can
  hold for ever. That is also \<open>None\<close>.
\<close>

partial_function (option) find_bits_loop ::
  "(ULONG \<Rightarrow> ULONG \<Rightarrow> bool) \<Rightarrow> (RTL_BITMAP \<Rightarrow> ULONG \<Rightarrow> ULONG \<Rightarrow> ULONG option) \<Rightarrow>
   (RTL_BITMAP \<Rightarrow> ULONG \<Rightarrow> ULONG \<Rightarrow> ULONG option) \<Rightarrow>
   RTL_BITMAP \<Rightarrow> ULONG \<Rightarrow> ULONG \<Rightarrow> ULONG \<Rightarrow> ULONG option option" where
  [code]: "find_bits_loop within skip len bm NumberToFind Margin CurrentBit =
     (if within (CurrentBit + NumberToFind) Margin
      then do {
        s \<leftarrow> skip bm CurrentBit MAXINDEX;
        CurrentLength \<leftarrow> len bm (CurrentBit + s) NumberToFind;
        if CurrentLength \<ge> NumberToFind then Some (Some (CurrentBit + s))
        else find_bits_loop within skip len bm NumberToFind Margin
               (CurrentBit + s + CurrentLength)
      }
      else Some None)"

definition find_bits ::
  "(ULONG \<Rightarrow> ULONG \<Rightarrow> bool) \<Rightarrow> (RTL_BITMAP \<Rightarrow> ULONG \<Rightarrow> ULONG \<Rightarrow> ULONG option) \<Rightarrow>
   (RTL_BITMAP \<Rightarrow> ULONG \<Rightarrow> ULONG \<Rightarrow> ULONG option) \<Rightarrow>
   RTL_BITMAP \<Rightarrow> ULONG \<Rightarrow> ULONG \<Rightarrow> ULONG option" where
  "find_bits within skip len bm NumberToFind Hint =
     (if NumberToFind > SizeOfBitMap bm then Some MAXINDEX
      else
        let HintIndex = (if Hint \<ge> SizeOfBitMap bm then 0 else Hint)
        in if NumberToFind = 0 then Some (HintIndex AND NOT 7)
           else do {
             r \<leftarrow> find_bits_loop within skip len bm NumberToFind (SizeOfBitMap bm) HintIndex;
             case r of
               Some Position \<Rightarrow> Some Position
             | None \<Rightarrow>
                 if HintIndex \<noteq> 0
                 then do {
                   r \<leftarrow> find_bits_loop within skip len bm NumberToFind
                          (min (HintIndex + NumberToFind) (SizeOfBitMap bm)) 0;
                   Some (case r of Some Position \<Rightarrow> Position | None \<Rightarrow> MAXINDEX)
                 }
                 else Some MAXINDEX
           })"

text \<open>
  The two searches differ in the comparison of the guard:
  \<^verbatim>\<open>while (CurrentBit + NumberToFind < Margin)\<close> against
  \<^verbatim>\<open>while (CurrentBit + NumberToFind <= Margin)\<close>. A null header is \<open>None\<close>.
\<close>

definition RtlFindClearBits :: "RTL_BITMAP option \<Rightarrow> ULONG \<Rightarrow> ULONG \<Rightarrow> ULONG option" where
  "RtlFindClearBits BitMapHeader NumberToFind HintIndex =
     (case BitMapHeader of
        None \<Rightarrow> Some MAXINDEX
      | Some bm \<Rightarrow> find_bits (<) RtlpGetLengthOfRunSet RtlpGetLengthOfRunClear
                     bm NumberToFind HintIndex)"

definition RtlFindSetBits :: "RTL_BITMAP option \<Rightarrow> ULONG \<Rightarrow> ULONG \<Rightarrow> ULONG option" where
  "RtlFindSetBits BitMapHeader NumberToFind HintIndex =
     (case BitMapHeader of
        None \<Rightarrow> Some MAXINDEX
      | Some bm \<Rightarrow> find_bits (\<le>) RtlpGetLengthOfRunClear RtlpGetLengthOfRunSet
                     bm NumberToFind HintIndex)"

definition RtlFindClearBitsAndSet ::
  "RTL_BITMAP \<Rightarrow> ULONG \<Rightarrow> ULONG \<Rightarrow> (ULONG \<times> RTL_BITMAP) option" where
  "RtlFindClearBitsAndSet bm NumberToFind HintIndex =
     do {
       Position \<leftarrow> RtlFindClearBits (Some bm) NumberToFind HintIndex;
       if Position \<noteq> MAXINDEX
       then do { bm' \<leftarrow> RtlSetBits bm Position NumberToFind; Some (Position, bm') }
       else Some (Position, bm)
     }"

definition RtlFindSetBitsAndClear ::
  "RTL_BITMAP \<Rightarrow> ULONG \<Rightarrow> ULONG \<Rightarrow> (ULONG \<times> RTL_BITMAP) option" where
  "RtlFindSetBitsAndClear bm NumberToFind HintIndex =
     do {
       Position \<leftarrow> RtlFindSetBits (Some bm) NumberToFind HintIndex;
       if Position \<noteq> MAXINDEX
       then do { bm' \<leftarrow> RtlClearBits bm Position NumberToFind; Some (Position, bm') }
       else Some (Position, bm)
     }"

section \<open>Runs\<close>

text \<open>
  A run search returns the length of the run and writes its start; the pair holds both,
  length first.
\<close>

definition next_forward_run ::
  "(RTL_BITMAP \<Rightarrow> ULONG \<Rightarrow> ULONG \<Rightarrow> ULONG option) \<Rightarrow>
   (RTL_BITMAP \<Rightarrow> ULONG \<Rightarrow> ULONG \<Rightarrow> ULONG option) \<Rightarrow>
   RTL_BITMAP \<Rightarrow> ULONG \<Rightarrow> (ULONG \<times> ULONG) option" where
  "next_forward_run skip len bm FromIndex =
     (if FromIndex \<ge> SizeOfBitMap bm then Some (0, FromIndex)
      else do {
        Length \<leftarrow> skip bm FromIndex MAXINDEX;
        n \<leftarrow> len bm (FromIndex + Length) MAXINDEX;
        Some (n, FromIndex + Length)
      })"

definition RtlFindNextForwardRunClear :: "RTL_BITMAP \<Rightarrow> ULONG \<Rightarrow> (ULONG \<times> ULONG) option" where
  "RtlFindNextForwardRunClear =
     next_forward_run RtlpGetLengthOfRunSet RtlpGetLengthOfRunClear"

definition RtlFindNextForwardRunSet :: "RTL_BITMAP \<Rightarrow> ULONG \<Rightarrow> (ULONG \<times> ULONG) option" where
  "RtlFindNextForwardRunSet =
     next_forward_run RtlpGetLengthOfRunClear RtlpGetLengthOfRunSet"

definition RtlFindFirstRunClear :: "RTL_BITMAP \<Rightarrow> (ULONG \<times> ULONG) option" where
  "RtlFindFirstRunClear bm = RtlFindNextForwardRunClear bm 0"

text \<open>
  \<open>RtlFindLastBackwardRunClear\<close> walks downwards; its pointer runs below the array, so the
  index is an integer. The two loops read the word at the index while the value is 0.
\<close>

function skip_back ::
  "(ULONG \<Rightarrow> ULONG) \<Rightarrow> ULONG list \<Rightarrow> ULONG \<Rightarrow> int \<Rightarrow> (ULONG \<times> int) option" where
  "skip_back f buf Value p =
     (if Value = 0 \<and> 0 \<le> p
      then (case array_get buf (nat p) of
              None \<Rightarrow> None
            | Some v \<Rightarrow> skip_back f buf (f v) (p - 1))
      else Some (Value, p))"
  by pat_completeness auto
termination
  by (relation "measure (\<lambda>(f, buf, v, p). nat (p + 1))") auto

declare skip_back.simps [simp del]

definition RtlFindLastBackwardRunClear ::
  "RTL_BITMAP \<Rightarrow> ULONG \<Rightarrow> ULONG \<Rightarrow> (ULONG \<times> ULONG) option" where
  "RtlFindLastBackwardRunClear bm From StartingRunIndex =
     (let FromIndex = min From (SizeOfBitMap bm - 1);
          p = unat (FromIndex div 32);
          BitPos = 31 - unat (FromIndex AND 31)
      in do {
        v \<leftarrow> array_get (Buffer bm) p;
        (InvValue, q) \<leftarrow> skip_back (\<lambda>w. NOT w) (Buffer bm)
                           (drop_bit BitPos (push_bit BitPos (NOT v))) (int p - 1);
        if InvValue = 0 then Some (0, StartingRunIndex)
        else do {
          pos \<leftarrow> BitScanReverse InvValue;
          let FromIndex = of_int ((q + 1) * 32 + int pos);
              Value0 = drop_bit (31 - pos) (push_bit (31 - pos) (NOT InvValue))
          in do {
            (Value, r) \<leftarrow> skip_back (\<lambda>w. w) (Buffer bm) Value0 q;
            if Value \<noteq> 0
            then do {
              pos \<leftarrow> BitScanReverse Value;
              let Start = of_int ((r + 1) * 32 + int pos + 1)
              in Some (FromIndex - Start, Start)
            }
            else Some (FromIndex - 0, 0)
          }
        }
      })"

text \<open>
  \<open>RtlFindClearRuns\<close>: the first loop fills the array and keeps the index of its shortest
  run. It returns \<open>(Run, RunArray, FromIndex, SmallestRun)\<close>.
\<close>

function find_clear_runs_fill ::
  "RTL_BITMAP \<Rightarrow> nat \<Rightarrow> nat \<Rightarrow> RTL_BITMAP_RUN list \<Rightarrow> ULONG \<Rightarrow> nat \<Rightarrow>
   (nat \<times> RTL_BITMAP_RUN list \<times> ULONG \<times> nat) option" where
  "find_clear_runs_fill bm SizeOfRunArray Run RunArray FromIndex SmallestRun =
     (if Run < SizeOfRunArray
      then do {
        (n, start) \<leftarrow> RtlFindNextForwardRunClear bm FromIndex;
        if n = 0 then Some (Run, RunArray, FromIndex, SmallestRun)
        else do {
          RunArray \<leftarrow> array_set RunArray Run \<lparr>StartingIndex = start, NumberOfBits = n\<rparr>;
          smallest \<leftarrow> array_get RunArray SmallestRun;
          find_clear_runs_fill bm SizeOfRunArray (Suc Run) RunArray (start + n)
            (if n < NumberOfBits smallest then Run else SmallestRun)
        }
      }
      else Some (Run, RunArray, FromIndex, SmallestRun))"
  by pat_completeness auto
termination
  by (relation "measure (\<lambda>(bm, sz, run, a, f, s). sz - run)") auto

declare find_clear_runs_fill.simps [simp del]

text \<open>The inner loop over the runs, which compares with \<^verbatim>\<open>RunArray[SmallestRun]\<close>.\<close>

fun update_smallest_run ::
  "ULONG \<Rightarrow> RTL_BITMAP_RUN list \<Rightarrow> nat \<Rightarrow> nat \<Rightarrow> nat \<Rightarrow> nat option" where
  "update_smallest_run n RunArray Run 0 SmallestRun = Some SmallestRun"
| "update_smallest_run n RunArray Run (Suc k) SmallestRun =
     do {
       smallest \<leftarrow> array_get RunArray SmallestRun;
       update_smallest_run n RunArray (Suc Run) k
         (if n < NumberOfBits smallest then Run else SmallestRun)
     }"

partial_function (option) find_clear_runs_longest ::
  "RTL_BITMAP \<Rightarrow> nat \<Rightarrow> RTL_BITMAP_RUN list \<Rightarrow> ULONG \<Rightarrow> nat \<Rightarrow> RTL_BITMAP_RUN list option" where
  [code]: "find_clear_runs_longest bm SizeOfRunArray RunArray FromIndex SmallestRun =
     do {
       (n, start) \<leftarrow> RtlFindNextForwardRunClear bm FromIndex;
       if n = 0 then Some RunArray
       else do {
         smallest \<leftarrow> array_get RunArray SmallestRun;
         if n > NumberOfBits smallest
         then do {
           RunArray \<leftarrow> array_set RunArray SmallestRun
                         \<lparr>StartingIndex = start, NumberOfBits = n\<rparr>;
           SmallestRun \<leftarrow> update_smallest_run n RunArray 0 SizeOfRunArray SmallestRun;
           find_clear_runs_longest bm SizeOfRunArray RunArray (FromIndex + n) SmallestRun
         }
         else find_clear_runs_longest bm SizeOfRunArray RunArray (FromIndex + n) SmallestRun
       }
     }"

definition RtlFindClearRuns ::
  "RTL_BITMAP \<Rightarrow> RTL_BITMAP_RUN list \<Rightarrow> ULONG \<Rightarrow> bool \<Rightarrow> (ULONG \<times> RTL_BITMAP_RUN list) option" where
  "RtlFindClearRuns bm RunArray SizeOfRunArray LocateLongestRuns =
     do {
       (Run, RunArray, FromIndex, SmallestRun) \<leftarrow>
          find_clear_runs_fill bm (unat SizeOfRunArray) 0 RunArray 0 0;
       if Run < unat SizeOfRunArray \<or> \<not> LocateLongestRuns
       then Some (of_nat Run, RunArray)
       else do {
         RunArray \<leftarrow> find_clear_runs_longest bm (unat SizeOfRunArray) RunArray
                       FromIndex SmallestRun;
         Some (of_nat Run, RunArray)
       }
     }"

text \<open>The loop of \<open>RtlFindLongestRunClear\<close> and \<open>RtlFindLongestRunSet\<close>.\<close>

partial_function (option) longest_run_loop ::
  "(RTL_BITMAP \<Rightarrow> ULONG \<Rightarrow> (ULONG \<times> ULONG) option) \<Rightarrow>
   RTL_BITMAP \<Rightarrow> ULONG \<Rightarrow> ULONG \<Rightarrow> ULONG \<Rightarrow> (ULONG \<times> ULONG) option" where
  [code]: "longest_run_loop next_run bm MaxNumberOfBits Starting FromIndex =
     do {
       (n, Index) \<leftarrow> next_run bm FromIndex;
       if n = 0 then Some (MaxNumberOfBits, Starting)
       else if n > MaxNumberOfBits
            then longest_run_loop next_run bm n Index (FromIndex + n)
            else longest_run_loop next_run bm MaxNumberOfBits Starting (FromIndex + n)
     }"

definition RtlFindLongestRunClear :: "RTL_BITMAP \<Rightarrow> ULONG \<Rightarrow> (ULONG \<times> ULONG) option" where
  "RtlFindLongestRunClear bm Starting =
     longest_run_loop RtlFindNextForwardRunClear bm 0 Starting 0"

definition RtlFindLongestRunSet :: "RTL_BITMAP \<Rightarrow> ULONG \<Rightarrow> (ULONG \<times> ULONG) option" where
  "RtlFindLongestRunSet bm Starting =
     longest_run_loop RtlFindNextForwardRunSet bm 0 Starting 0"

end
