(* ===== verification/RtlBitmapRuns.thy ===== *)
theory RtlBitmapRuns
  imports RtlBitmap
begin

text \<open>
  Correctness of the scanning half of \<^verbatim>\<open>sdk/lib/rtl/bitmap.c\<close>: the run-length functions and
  everything built on them. \<open>bit_at\<close> is the abstract view of a bitmap as a predicate on bit
  numbers. The locale \<open>run_scan\<close> is the contract of a run-length function for a predicate on
  bits, and \<open>run_search\<close> that of a client that alternates two of them; the searches of the
  package are proved once in it and obtained for clear and for set bits by interpretation.
\<close>

section \<open>The abstract view\<close>

definition bit_at :: "RTL_BITMAP \<Rightarrow> nat \<Rightarrow> bool" where
  "bit_at bm i \<longleftrightarrow> bit (Buffer bm ! (i div 32)) (i mod 32)"

definition wf_bitmap :: "RTL_BITMAP \<Rightarrow> bool" where
  "wf_bitmap bm \<longleftrightarrow>
     unat (SizeOfBitMap bm) \<le> 32 * length (Buffer bm) \<and> unat (SizeOfBitMap bm) + 31 < 2 ^ 32"

definition word_bit :: "(ULONG \<Rightarrow> ULONG) \<Rightarrow> ULONG list \<Rightarrow> nat \<Rightarrow> bool" where
  "word_bit f buf i \<longleftrightarrow> bit (f (buf ! (i div 32))) (i mod 32)"

definition run_length :: "(ULONG \<Rightarrow> ULONG) \<Rightarrow> RTL_BITMAP \<Rightarrow> ULONG \<Rightarrow> ULONG \<Rightarrow> ULONG option" where
  "run_length f bm Start MaxLen =
     (if Start \<ge> SizeOfBitMap bm then Some 0
      else
        let p = unat (Start div 32);
            BitPos = Start AND 31;
            MaxLength = min MaxLen (SizeOfBitMap bm - Start);
            MaxBuffer = p + unat ((BitPos + MaxLength + 32 - 1) div 32)
        in do {
          v \<leftarrow> array_get (Buffer bm) p;
          (Value, q) \<leftarrow> skip_ulongs f (Buffer bm) MaxBuffer
                        (push_bit (unat BitPos) (drop_bit (unat BitPos) (f v))) (Suc p);
          if Value = 0 then Some MaxLength
          else do {
            pos \<leftarrow> BitScanForward Value;
            let Length = of_nat q * 32 - Start;
                Length = Length + (of_nat pos - 32)
            in Some (if Length > SizeOfBitMap bm - Start then SizeOfBitMap bm - Start
                     else Length)
          }
        })"

definition run_ok :: "(nat \<Rightarrow> bool) \<Rightarrow> nat \<Rightarrow> nat \<Rightarrow> nat \<Rightarrow> nat \<Rightarrow> bool" where
  "run_ok P sz s m n \<longleftrightarrow>
     n \<le> sz - s \<and> (\<forall>i. s \<le> i \<and> i < s + n \<longrightarrow> P i) \<and> (n < min m (sz - s) \<longrightarrow> \<not> P (s + n))"

definition next_run_ok :: "(nat \<Rightarrow> bool) \<Rightarrow> nat \<Rightarrow> nat \<Rightarrow> nat \<Rightarrow> nat \<Rightarrow> bool" where
  "next_run_ok P sz from n start \<longleftrightarrow>
     (if sz \<le> from then n = 0 \<and> start = from
      else from \<le> start \<and> start + n \<le> sz \<and> (\<forall>i. from \<le> i \<and> i < start \<longrightarrow> \<not> P i) \<and>
        (\<forall>i. start \<le> i \<and> i < start + n \<longrightarrow> P i) \<and> (start + n < sz \<longrightarrow> \<not> P (start + n)) \<and>
        (start < sz \<longrightarrow> 0 < n))"

definition all_in :: "(nat \<Rightarrow> bool) \<Rightarrow> nat \<Rightarrow> nat \<Rightarrow> bool" where
  "all_in P p l \<longleftrightarrow> (\<forall>i. p \<le> i \<and> i < p + l \<longrightarrow> P i)"

definition last_bit :: "(nat \<Rightarrow> bool) \<Rightarrow> nat \<Rightarrow> nat \<Rightarrow> bool" where
  "last_bit P s t \<longleftrightarrow> t \<le> s \<and> P t \<and> (\<forall>i. t < i \<and> i \<le> s \<longrightarrow> \<not> P i)"

definition last_clear_run :: "RTL_BITMAP \<Rightarrow> nat \<Rightarrow> nat \<Rightarrow> nat \<Rightarrow> bool" where
  "last_clear_run bm from b e \<longleftrightarrow>
     b \<le> e \<and> e \<le> from \<and> (\<forall>i. b \<le> i \<and> i \<le> e \<longrightarrow> \<not> bit_at bm i) \<and>
     (\<forall>i. e < i \<and> i \<le> from \<longrightarrow> bit_at bm i) \<and> (0 < b \<longrightarrow> bit_at bm (b - 1))"

definition back_run :: "RTL_BITMAP \<Rightarrow> ULONG \<Rightarrow> int \<Rightarrow> (ULONG \<times> ULONG) option" where
  "back_run bm InvValue q = do {
     pos \<leftarrow> BitScanReverse InvValue;
     (Value, r) \<leftarrow> skip_back (\<lambda>w. w) (Buffer bm)
        (drop_bit (31 - pos) (push_bit (31 - pos) (NOT InvValue))) q;
     if Value \<noteq> 0
     then do {
       pos' \<leftarrow> BitScanReverse Value;
       Some (of_int ((q + 1) * 32 + int pos) - of_int ((r + 1) * 32 + int pos' + 1),
             of_int ((r + 1) * 32 + int pos' + 1))
     }
     else Some (of_int ((q + 1) * 32 + int pos) - 0, 0)
   }"

fun runs_from :: "(nat \<Rightarrow> bool) \<Rightarrow> nat \<Rightarrow> nat \<Rightarrow> RTL_BITMAP_RUN list \<Rightarrow> bool" where
  "runs_from P sz from [] \<longleftrightarrow> True"
| "runs_from P sz from (r # rs) \<longleftrightarrow>
     NumberOfBits r \<noteq> 0 \<and> next_run_ok P sz from (unat (NumberOfBits r)) (unat (StartingIndex r)) \<and>
     runs_from P sz (unat (StartingIndex r) + unat (NumberOfBits r)) rs"

fun runs_end :: "nat \<Rightarrow> RTL_BITMAP_RUN list \<Rightarrow> nat" where
  "runs_end from [] = from"
| "runs_end from (r # rs) = runs_end (unat (StartingIndex r) + unat (NumberOfBits r)) rs"

section \<open>The word scan\<close>

lemma skip_ulongs_ok:
  assumes "m \<le> length buf"
  shows "\<exists>V q. skip_ulongs f buf m Value p = Some (V, q) \<and> p \<le> q \<and> q \<le> max p m \<and>
    (V = 0 \<longrightarrow> m \<le> q) \<and>
    (q = p \<and> V = Value \<or>
     p < q \<and> Value = 0 \<and> V = f (buf ! (q - 1)) \<and> (\<forall>j. p \<le> j \<and> j < q - 1 \<longrightarrow> f (buf ! j) = 0))"
  using assms
proof (induction f buf m Value p rule: skip_ulongs.induct)
  case (1 f buf m Value p)
  show ?case
  proof (cases "Value = 0 \<and> p < m")
    case False
    then show ?thesis by (subst skip_ulongs.simps) auto
  next
    case True
    then have get: "array_get buf p = Some (buf ! p)" using "1.prems" by simp
    from "1.IH" [OF True get "1.prems"] obtain V q where
      IH: "skip_ulongs f buf m (f (buf ! p)) (Suc p) = Some (V, q)" "Suc p \<le> q" "q \<le> max (Suc p) m"
        "V = 0 \<longrightarrow> m \<le> q"
        "q = Suc p \<and> V = f (buf ! p) \<or>
         Suc p < q \<and> f (buf ! p) = 0 \<and> V = f (buf ! (q - 1)) \<and>
           (\<forall>j. Suc p \<le> j \<and> j < q - 1 \<longrightarrow> f (buf ! j) = 0)"
      by blast
    have "skip_ulongs f buf m Value p = Some (V, q)"
      using True get IH(1) by (subst skip_ulongs.simps) simp
    moreover have "V = f (buf ! (q - 1)) \<and> (\<forall>j. p \<le> j \<and> j < q - 1 \<longrightarrow> f (buf ! j) = 0)"
      using IH(5) by (metis Suc_leI diff_Suc_1 le_neq_implies_less less_irrefl linorder_not_less)
    ultimately show ?thesis using True IH(2-4) by auto
  qed
qed

lemma BitScanForward_Some:
  "BitScanForward (v :: 'a::len word) = Some i \<longleftrightarrow> bit v i \<and> (\<forall>j<i. \<not> bit v j)"
  by (auto simp: BitScanForward_def find_upt_Some dest: bit_imp_le_length)

lemma BitScanForward_nonzero:
  assumes "(v :: 'a::len word) \<noteq> 0"
  obtains i where "BitScanForward v = Some i" "i < LENGTH('a)" "bit v i" "\<forall>j<i. \<not> bit v j"
proof (cases "BitScanForward v")
  case None
  then have "v = 0" by (simp add: BitScanForward_def find_upt_None word_eq_0_bits)
  with assms show ?thesis by simp
next
  case (Some i)
  then show ?thesis using that by (auto simp: BitScanForward_Some dest: bit_imp_le_length)
qed

lemma bit_push_drop: "bit (push_bit n (drop_bit n (w :: 'a::len word))) i \<longleftrightarrow> n \<le> i \<and> bit w i"
  by (auto simp: bit_simps dest: bit_imp_le_length)

lemma word_bit_zero: "f (buf ! (i div 32)) = 0 \<Longrightarrow> \<not> word_bit f buf i"
  by (simp add: word_bit_def)

lemma scan_word:
  fixes f :: "ULONG \<Rightarrow> ULONG" and buf :: "ULONG list"
  assumes m: "m \<le> length buf" and p: "p = s div 32"
  defines "V0 \<equiv> push_bit (s mod 32) (drop_bit (s mod 32) (f (buf ! p)))"
  obtains V q where "skip_ulongs f buf m V0 (Suc p) = Some (V, q)"
    "V = 0 \<longrightarrow> (\<forall>i. s \<le> i \<and> i < 32 * m \<longrightarrow> \<not> word_bit f buf i)"
    "V \<noteq> 0 \<longrightarrow> (\<exists>b t. BitScanForward V = Some b \<and> t + 32 = 32 * q + b \<and> s \<le> t \<and>
       t < 32 * max (Suc p) m \<and> word_bit f buf t \<and> (\<forall>i. s \<le> i \<and> i < t \<longrightarrow> \<not> word_bit f buf i))"
proof -
  obtain V q where r: "skip_ulongs f buf m V0 (Suc p) = Some (V, q)" "Suc p \<le> q" "q \<le> max (Suc p) m"
      "V = 0 \<longrightarrow> m \<le> q"
      "q = Suc p \<and> V = V0 \<or>
       Suc p < q \<and> V0 = 0 \<and> V = f (buf ! (q - 1)) \<and>
         (\<forall>j. Suc p \<le> j \<and> j < q - 1 \<longrightarrow> f (buf ! j) = 0)"
    using skip_ulongs_ok [OF m] by blast
  have V0: "bit V0 (i mod 32) \<longleftrightarrow> word_bit f buf i" if "s \<le> i" "i div 32 = p" for i
  proof -
    have "s mod 32 \<le> i mod 32" using that p by (metis div_mult_mod_eq nat_add_left_cancel_le)
    then show ?thesis by (simp add: V0_def bit_push_drop word_bit_def that(2))
  qed
  have Vb: "bit V (i mod 32) \<longleftrightarrow> word_bit f buf i" if "s \<le> i" "i div 32 = q - 1" for i
    using r(5) V0 [OF that(1)] that by (auto simp: word_bit_def)
  have low: "\<not> word_bit f buf i" if "s \<le> i" "i div 32 < q - 1" for i
  proof -
    have "p \<le> i div 32" using that p by (simp add: div_le_mono)
    then show ?thesis using r(5) V0 [OF that(1)] that(2) by (cases "i div 32 = p") (auto simp: word_bit_zero)
  qed
  show thesis
  proof (rule that [OF r(1)]; intro impI)
    assume "V = 0"
    show "\<forall>i. s \<le> i \<and> i < 32 * m \<longrightarrow> \<not> word_bit f buf i"
    proof (intro allI impI)
      fix i assume i: "s \<le> i \<and> i < 32 * m"
      then have "i div 32 \<le> q - 1" using r(4) \<open>V = 0\<close> by auto
      then show "\<not> word_bit f buf i"
        using i low [of i] Vb [of i] \<open>V = 0\<close> by (cases "i div 32 = q - 1") auto
    qed
  next
    assume "V \<noteq> 0"
    then obtain b where b: "BitScanForward V = Some b" "b < 32" "bit V b" "\<forall>j<b. \<not> bit V j"
      by (rule BitScanForward_nonzero) auto
    define t where "t = 32 * (q - 1) + b"
    have td: "t div 32 = q - 1" "t mod 32 = b" using b(2) by (simp_all add: t_def)
    have "s \<le> t"
    proof (cases "q = Suc p")
      case True
      then have "V = V0" using r(5) by auto
      then have "s mod 32 \<le> b" using b(3) by (simp add: V0_def bit_push_drop)
      then show ?thesis using True p unfolding t_def by (metis add_le_cancel_left diff_Suc_1 mult_div_mod_eq)
    next
      case False
      then have "Suc p \<le> q - 1" using r(2) by auto
      then show ?thesis using p unfolding t_def by linarith
    qed
    moreover have "word_bit f buf t" using Vb [OF \<open>s \<le> t\<close>] td b(3) by simp
    moreover have "\<not> word_bit f buf i" if "s \<le> i" "i < t" for i
    proof (cases "i div 32 = q - 1")
      case True
      then have "i mod 32 < b" using that(2) td by (metis div_mult_mod_eq nat_add_left_cancel_less)
      then show ?thesis using Vb [OF that(1) True] b(4) by simp
    next
      case False
      moreover have "i div 32 \<le> q - 1" using that(2) td(1) by (metis div_le_mono less_imp_le)
      ultimately show ?thesis using low that(1) by simp
    qed
    moreover have "t + 32 = 32 * q + b" using r(2) by (simp add: t_def)
    moreover have "t < 32 * q" using r(2) b(2) by (simp add: t_def)
    then have "t < 32 * max (Suc p) m" using r(3) by (meson less_le_trans mult_le_mono2)
    ultimately show "\<exists>b t. BitScanForward V = Some b \<and> t + 32 = 32 * q + b \<and> s \<le> t \<and>
       t < 32 * max (Suc p) m \<and> word_bit f buf t \<and> (\<forall>i. s \<le> i \<and> i < t \<longrightarrow> \<not> word_bit f buf i)"
      using b(1) by blast
  qed
qed

lemma RtlpGetLengthOfRunClear_alt: "RtlpGetLengthOfRunClear = run_length (\<lambda>w. w)"
  by (simp add: fun_eq_iff RtlpGetLengthOfRunClear_def run_length_def)

lemma RtlpGetLengthOfRunSet_alt: "RtlpGetLengthOfRunSet = run_length (\<lambda>w. NOT w)"
  by (simp add: fun_eq_iff RtlpGetLengthOfRunSet_def run_length_def)

lemma run_length_ok:
  assumes wf: "wf_bitmap bm"
  shows "\<exists>n. run_length f bm Start MaxLen = Some n \<and>
    run_ok (\<lambda>i. \<not> word_bit f (Buffer bm) i) (unat (SizeOfBitMap bm)) (unat Start) (unat MaxLen) (unat n)"
proof (cases "Start \<ge> SizeOfBitMap bm")
  case True
  then show ?thesis by (auto simp: run_length_def run_ok_def word_le_nat_alt)
next
  case False
  let ?S = "unat Start" and ?Z = "unat (SizeOfBitMap bm)" and ?buf = "Buffer bm"
  define M where "M = min MaxLen (SizeOfBitMap bm - Start)"
  define p where "p = ?S div 32"
  define m where "m = p + unat (((Start AND 31) + M + 32 - 1) div 32)"
  have lt: "?S < ?Z" using False by (simp add: word_le_nat_alt)
  have size: "?Z \<le> 32 * length ?buf" "?Z + 31 < 2 ^ 32" using wf by (auto simp: wf_bitmap_def)
  have sub: "unat (SizeOfBitMap bm - Start) = ?Z - ?S" using lt by (simp add: unat_sub word_le_nat_alt)
  have M: "unat M = min (unat MaxLen) (?Z - ?S)" by (simp add: M_def unat_min sub)
  have "unat ((Start AND 31) + M + 32 - 1) = ?S mod 32 + unat M + 31"
  proof -
    have "(Start AND 31) + M + 32 - 1 = of_nat (?S mod 32 + unat M + 31)"
      by (simp flip: unat_and_31)
    moreover have "?S mod 32 + unat M + 31 < 2 ^ LENGTH(32)"
      using M size(2) lt mod_less_eq_dividend [of ?S 32] by simp
    ultimately show ?thesis by (simp only: unat_of_nat_small)
  qed
  then have m_eq: "m = p + (?S mod 32 + unat M + 31) div 32" by (simp add: m_def unat_div)
  have pm: "32 * p + ?S mod 32 = ?S" by (simp add: p_def)
  have m32: "m = (?S + unat M + 31) div 32"
    using pm unfolding m_eq by (metis add.assoc div_mult_self4 zero_neq_numeral)
  have m_le: "m \<le> length ?buf" using size(1) M lt unfolding m32 by linarith
  have m_ge: "?S + unat M \<le> 32 * m" unfolding m32 by linarith
  have m_up: "32 * max (Suc p) m \<le> ?Z + 31"
    using M lt unfolding m32 p_def by (auto simp: max_def)
  have p_lt: "p < length ?buf" using lt size(1) unfolding p_def by linarith
  obtain V q where scan: "skip_ulongs f ?buf m (push_bit (?S mod 32) (drop_bit (?S mod 32) (f (?buf ! p)))) (Suc p) = Some (V, q)"
    "V = 0 \<longrightarrow> (\<forall>i. ?S \<le> i \<and> i < 32 * m \<longrightarrow> \<not> word_bit f ?buf i)"
    "V \<noteq> 0 \<longrightarrow> (\<exists>b t. BitScanForward V = Some b \<and> t + 32 = 32 * q + b \<and> ?S \<le> t \<and>
       t < 32 * max (Suc p) m \<and> word_bit f ?buf t \<and> (\<forall>i. ?S \<le> i \<and> i < t \<longrightarrow> \<not> word_bit f ?buf i))"
    by (rule scan_word [OF m_le p_def, of f])
  have unfold: "run_length f bm Start MaxLen =
      (if V = 0 then Some M
       else do { pos \<leftarrow> BitScanForward V;
                 Some (min ((of_nat q * 32 - Start) + (of_nat pos - 32)) (SizeOfBitMap bm - Start)) })"
    using False scan(1) p_lt
    unfolding run_length_def Let_def m_def M_def p_def
    by (simp only: unat_and_31 unat_div_32 if_False array_get_Some bind.bind_lunit prod.case if_less_min)
  show ?thesis
  proof (cases "V = 0")
    case True
    have "run_length f bm Start MaxLen = Some M" by (simp add: unfold True)
    moreover have "run_ok (\<lambda>i. \<not> word_bit f ?buf i) ?Z ?S (unat MaxLen) (unat M)"
      using scan(2) True m_ge M by (auto simp: run_ok_def)
    ultimately show ?thesis by blast
  next
    case nz: False
    then obtain b t where t: "BitScanForward V = Some b" "t + 32 = 32 * q + b" "?S \<le> t"
      "t < 32 * max (Suc p) m" "word_bit f ?buf t" "\<forall>i. ?S \<le> i \<and> i < t \<longrightarrow> \<not> word_bit f ?buf i"
      using scan(3) by blast
    define n where "n = min (of_nat (t - ?S)) (SizeOfBitMap bm - Start)"
    have "(of_nat q * 32 - Start) + (of_nat b - 32 :: ULONG) = of_nat (32 * q + b) - of_nat (?S + 32)"
      by simp
    also have "\<dots> = of_nat (t - ?S)" using t(2,3) by (metis add_diff_cancel_right of_nat_diff of_nat_add)
    finally have len: "(of_nat q * 32 - Start) + (of_nat b - 32 :: ULONG) = of_nat (t - ?S)" .
    have "run_length f bm Start MaxLen = Some n" by (simp add: unfold nz t(1) len n_def)
    moreover have "t - ?S < 2 ^ 32" using t(4) m_up size(2) by linarith
    then have "unat n = min (t - ?S) (?Z - ?S)"
      by (simp add: n_def unat_min sub unat_of_nat_small)
    then have "run_ok (\<lambda>i. \<not> word_bit f ?buf i) ?Z ?S (unat MaxLen) (unat n)"
      using t(3,5,6) lt by (auto simp: run_ok_def)
    ultimately show ?thesis by blast
  qed
qed

lemma run_clear_ok:
  assumes "wf_bitmap bm"
  shows "\<exists>n. RtlpGetLengthOfRunClear bm Start MaxLen = Some n \<and>
    run_ok (\<lambda>i. \<not> bit_at bm i) (unat (SizeOfBitMap bm)) (unat Start) (unat MaxLen) (unat n)"
proof -
  have "word_bit (\<lambda>w. w) (Buffer bm) = bit_at bm"
    by (simp add: fun_eq_iff word_bit_def bit_at_def)
  then show ?thesis
    using run_length_ok [OF assms, of "\<lambda>w. w"] by (simp add: RtlpGetLengthOfRunClear_alt)
qed

lemma run_set_ok:
  assumes "wf_bitmap bm"
  shows "\<exists>n. RtlpGetLengthOfRunSet bm Start MaxLen = Some n \<and>
    run_ok (bit_at bm) (unat (SizeOfBitMap bm)) (unat Start) (unat MaxLen) (unat n)"
proof -
  have "(\<lambda>i. \<not> word_bit (\<lambda>w. NOT w) (Buffer bm) i) = bit_at bm"
    by (simp add: fun_eq_iff word_bit_def bit_at_def bit_not_iff)
  then show ?thesis
    using run_length_ok [OF assms, of "\<lambda>w. NOT w"] by (simp add: RtlpGetLengthOfRunSet_alt)
qed

lemma run_ok_le: "run_ok P sz s m n \<Longrightarrow> s \<le> sz \<Longrightarrow> s + n \<le> sz"
  by (auto simp: run_ok_def)

lemma run_ok_stop: "run_ok P sz s m n \<Longrightarrow> n < m \<Longrightarrow> s + n < sz \<Longrightarrow> \<not> P (s + n)"
  by (simp add: run_ok_def)

lemma run_ok_in: "run_ok P sz s m n \<Longrightarrow> s \<le> i \<Longrightarrow> i < s + n \<Longrightarrow> P i"
  by (simp add: run_ok_def)

lemma next_run_okD:
  assumes "next_run_ok P sz f n start" and "0 < n"
  shows "f < sz" "f \<le> start" "start + n \<le> sz" "\<And>i. f \<le> i \<Longrightarrow> i < start \<Longrightarrow> \<not> P i"
    "all_in P start n" "start + n < sz \<Longrightarrow> \<not> P (start + n)"
  using assms by (auto simp: next_run_ok_def all_in_def split: if_splits)

lemma next_run_ok_none:
  assumes "next_run_ok P sz f 0 start" and "f \<le> i" and "i < sz"
  shows "\<not> P i"
proof -
  have "i < start" using assms by (auto simp: next_run_ok_def split: if_splits)
  then show ?thesis using assms by (auto simp: next_run_ok_def split: if_splits)
qed

locale run_scan =
  fixes P :: "RTL_BITMAP \<Rightarrow> nat \<Rightarrow> bool"
    and len :: "RTL_BITMAP \<Rightarrow> ULONG \<Rightarrow> ULONG \<Rightarrow> ULONG option"
  assumes len_ok: "wf_bitmap bm \<Longrightarrow> \<exists>n. len bm s m = Some n \<and>
    run_ok (P bm) (unat (SizeOfBitMap bm)) (unat s) (unat m) (unat n)"

locale run_search = run_scan P len + skip: run_scan "\<lambda>bm i. \<not> P bm i" skip
  for P len skip
begin

lemma next_run:
  assumes wf: "wf_bitmap bm"
  obtains n start where "next_forward_run skip len bm from = Some (n, start)"
    "next_run_ok (P bm) (unat (SizeOfBitMap bm)) (unat from) (unat n) (unat start)"
proof (cases "from \<ge> SizeOfBitMap bm")
  case True
  then show ?thesis
    by (intro that [of 0 "from"]) (auto simp: next_forward_run_def next_run_ok_def word_le_nat_alt)
next
  case False
  let ?Z = "unat (SizeOfBitMap bm)"
  have lt: "unat from < ?Z" using False by (simp add: word_le_nat_alt)
  obtain s where s: "skip bm from MAXINDEX = Some s"
      "run_ok (\<lambda>i. \<not> P bm i) ?Z (unat from) (unat MAXINDEX) (unat s)"
    using skip.len_ok [OF wf] by blast
  obtain n where n: "len bm (from + s) MAXINDEX = Some n"
      "run_ok (P bm) ?Z (unat (from + s)) (unat MAXINDEX) (unat n)"
    using len_ok [OF wf] by blast
  have Zlt: "?Z < unat MAXINDEX" using wf by (simp add: wf_bitmap_def)
  have from_s: "unat (from + s) = unat from + unat s"
    using unat_add_le [OF run_ok_le [OF s(2)]] lt by simp
  have "next_forward_run skip len bm from = Some (n, from + s)"
    using False s(1) n(1) by (simp add: next_forward_run_def)
  moreover have "next_run_ok (P bm) ?Z (unat from) (unat n) (unat (from + s))"
    using s(2) n(2) lt Zlt unfolding next_run_ok_def run_ok_def from_s by (auto simp: min_def split: if_splits)
  ultimately show ?thesis by (rule that)
qed

lemma longest_run:
  assumes wf: "wf_bitmap bm"
    and "unat from \<le> unat (SizeOfBitMap bm)"
    and "\<forall>p l. p < unat from \<and> p + l \<le> unat (SizeOfBitMap bm) \<and> all_in (P bm) p l \<longrightarrow> l \<le> unat mx"
    and "mx \<noteq> 0 \<longrightarrow> unat st + unat mx \<le> unat (SizeOfBitMap bm) \<and> all_in (P bm) (unat st) (unat mx)"
  shows "\<exists>M S. longest_run_loop (next_forward_run skip len) bm mx st from = Some (M, S) \<and>
    (\<forall>p l. p + l \<le> unat (SizeOfBitMap bm) \<and> all_in (P bm) p l \<longrightarrow> l \<le> unat M) \<and>
    (M \<noteq> 0 \<longrightarrow> unat S + unat M \<le> unat (SizeOfBitMap bm) \<and> all_in (P bm) (unat S) (unat M))"
  using assms(2-4)
proof (induction "unat (SizeOfBitMap bm) - unat from" arbitrary: "from" mx st rule: less_induct)
  case less
  let ?Z = "unat (SizeOfBitMap bm)"
  obtain n start where nr: "next_forward_run skip len bm from = Some (n, start)"
    and ok: "next_run_ok (P bm) ?Z (unat from) (unat n) (unat start)"
    by (rule next_run [OF wf])
  show ?case
  proof (cases "n = 0")
    case True
    have none: "\<not> P bm i" if "unat from \<le> i" "i < ?Z" for i
      using next_run_ok_none [OF _ that] ok True by simp
    have "l \<le> unat mx" if "p + l \<le> ?Z" "all_in (P bm) p l" for p l
    proof (cases "p < unat from \<or> l = 0")
      case True
      then show ?thesis using less.prems(2) that by auto
    next
      case False
      then show ?thesis using none [of p] that unfolding all_in_def by (cases l) simp_all
    qed
    moreover have "longest_run_loop (next_forward_run skip len) bm mx st from = Some (mx, st)"
      by (subst longest_run_loop.simps) (simp add: nr True)
    ultimately show ?thesis using less.prems(3) by blast
  next
    case False
    then have n: "0 < unat n" by (simp add: unat_gt_0)
    note r = next_run_okD [OF ok this]
    have fn: "unat (from + n) = unat from + unat n" using r(2,3) by (intro unat_add_le [of _ _ "SizeOfBitMap bm"]) simp
    let ?mx = "if n > mx then n else mx" and ?st = "if n > mx then start else st"
    have mx: "unat mx \<le> unat ?mx" "unat n \<le> unat ?mx" by (auto simp: word_less_nat_alt)
    have new: "l \<le> unat ?mx" if "p < unat (from + n)" "p + l \<le> ?Z" "all_in (P bm) p l" for p l
    proof (cases "p < unat from \<or> l = 0")
      case True
      then show ?thesis using less.prems(2) that mx(1) by (meson le_trans le0)
    next
      case False
      then have "P bm p" using that(3) unfolding all_in_def by simp
      then have "unat start \<le> p" using False r(4) not_less by blast
      moreover have "p + l \<le> unat start + unat n"
      proof (rule ccontr)
        assume out: "\<not> p + l \<le> unat start + unat n"
        moreover have "p < unat start + unat n" using that(1) fn r(2) by simp
        ultimately have "P bm (unat start + unat n)" using that(3) unfolding all_in_def by simp
        then show False using r(6) out that(2) by simp
      qed
      ultimately show ?thesis using mx(2) by linarith
    qed
    have step: "longest_run_loop (next_forward_run skip len) bm mx st from =
        longest_run_loop (next_forward_run skip len) bm ?mx ?st (from + n)"
      by (subst longest_run_loop.simps) (simp add: nr False)
    have dec: "?Z - unat (from + n) < ?Z - unat from" using fn n r(1) by linarith
    have le: "unat (from + n) \<le> ?Z" using fn r(2,3) by linarith
    have st: "?mx \<noteq> 0 \<longrightarrow> unat ?st + unat ?mx \<le> ?Z \<and> all_in (P bm) (unat ?st) (unat ?mx)"
      using less.prems(3) r(3,5) by (cases "n > mx") simp_all
    have "\<forall>p l. p < unat (from + n) \<and> p + l \<le> ?Z \<and> all_in (P bm) p l \<longrightarrow> l \<le> unat ?mx"
      using new by blast
    then show ?thesis unfolding step by (rule less.hyps [OF dec le _ st])
  qed
qed

lemma find_loop:
  assumes wf: "wf_bitmap bm" and small: "unat (SizeOfBitMap bm) < 2 ^ 31"
    and within: "\<And>x y. within x y \<longleftrightarrow> unat x + d \<le> unat y"
    and N: "0 < unat N" "unat N \<le> unat (SizeOfBitMap bm)"
    and Margin: "unat Margin \<le> unat (SizeOfBitMap bm)"
    and C: "unat C \<le> unat (SizeOfBitMap bm)"
  shows "\<exists>r. find_bits_loop within skip len bm N Margin C = Some r \<and>
    (\<forall>pos. r = Some pos \<longrightarrow> unat C \<le> unat pos \<and> unat pos + unat N \<le> unat (SizeOfBitMap bm) \<and>
       all_in (P bm) (unat pos) (unat N) \<and>
       (\<forall>p. unat C \<le> p \<and> p < unat pos \<longrightarrow> \<not> all_in (P bm) p (unat N))) \<and>
    (r = None \<longrightarrow> (\<forall>p. unat C \<le> p \<and> p + unat N + d \<le> unat Margin \<longrightarrow> \<not> all_in (P bm) p (unat N)))"
  using C
proof (induction "unat (SizeOfBitMap bm) - unat C" arbitrary: C rule: less_induct)
  case less
  let ?Z = "unat (SizeOfBitMap bm)" and ?N = "unat N"
  have CN: "unat (C + N) = unat C + ?N" using less.prems N small by (intro unat_add_small) simp
  show ?case
  proof (cases "within (C + N) Margin")
    case False
    then show ?thesis using CN by (subst find_bits_loop.simps) (auto simp: within)
  next
    case True
    then have lt: "unat C < ?Z" using CN N Margin by (simp add: within)
    obtain s where s: "skip bm C MAXINDEX = Some s"
        "run_ok (\<lambda>i. \<not> P bm i) ?Z (unat C) (unat MAXINDEX) (unat s)"
      using skip.len_ok [OF wf] by blast
    obtain n where n: "len bm (C + s) N = Some n" "run_ok (P bm) ?Z (unat (C + s)) ?N (unat n)"
      using len_ok [OF wf] by blast
    have Cs: "unat (C + s) = unat C + unat s"
      using unat_add_le [OF run_ok_le [OF s(2)]] lt by simp
    have le: "unat C + unat s \<le> ?Z" using run_ok_le [OF s(2)] lt by simp
    have le2: "unat C + unat s + unat n \<le> ?Z" using run_ok_le [OF n(2)] le Cs by simp
    have skipped: "\<not> all_in (P bm) p ?N" if "unat C \<le> p" "p < unat C + unat s" for p
      using run_ok_in [OF s(2) that] N(1) unfolding all_in_def by (metis le_refl less_add_same_cancel1)
    show ?thesis
    proof (cases "n \<ge> N")
      case True
      then have "all_in (P bm) (unat C + unat s) ?N"
        using run_ok_in [OF n(2)] Cs unfolding all_in_def word_le_nat_alt by simp
      moreover have "unat C + unat s + ?N \<le> ?Z" using le2 True by (simp add: word_le_nat_alt)
      moreover have "find_bits_loop within skip len bm N Margin C = Some (Some (C + s))"
        using \<open>within (C + N) Margin\<close> True s(1) n(1) by (subst find_bits_loop.simps) simp
      ultimately show ?thesis using skipped Cs by auto
    next
      case False
      then have nN: "unat n < ?N" by (simp add: word_le_nat_alt)
      have Csn: "unat (C + s + n) = unat C + unat s + unat n"
        using unat_add_le [of "C + s" n "SizeOfBitMap bm"] le2 Cs by simp
      have progress: "0 < unat s + unat n"
      proof (rule ccontr)
        assume "\<not> 0 < unat s + unat n"
        then have z: "unat s = 0" "unat n = 0" by simp_all
        have "\<not> \<not> P bm (unat C)" using run_ok_stop [OF s(2)] z lt by simp
        moreover have "\<not> P bm (unat C)" using run_ok_stop [OF n(2)] z lt N(1) Cs by simp
        ultimately show False by blast
      qed
      have stop: "\<not> all_in (P bm) p ?N" if "unat C \<le> p" "p < unat C + unat s + unat n" "p + ?N \<le> ?Z" for p
      proof (cases "p < unat C + unat s")
        case True
        then show ?thesis using skipped that(1) by blast
      next
        case False
        have "\<not> P bm (unat C + unat s + unat n)"
          using run_ok_stop [OF n(2)] Cs nN that False by simp
        moreover have "p \<le> unat C + unat s + unat n" "unat C + unat s + unat n < p + ?N"
          using that(2) nN False by linarith+
        ultimately show ?thesis unfolding all_in_def by blast
      qed
      have dec: "?Z - unat (C + s + n) < ?Z - unat C" using Csn progress lt by linarith
      have leC: "unat (C + s + n) \<le> ?Z" using Csn le2 by simp
      have eq: "find_bits_loop within skip len bm N Margin C = find_bits_loop within skip len bm N Margin (C + s + n)"
        using \<open>within (C + N) Margin\<close> False s(1) n(1) by (subst find_bits_loop.simps) simp
      obtain r where r: "find_bits_loop within skip len bm N Margin (C + s + n) = Some r"
        "\<forall>pos. r = Some pos \<longrightarrow> unat (C + s + n) \<le> unat pos \<and> unat pos + ?N \<le> ?Z \<and>
           all_in (P bm) (unat pos) ?N \<and>
           (\<forall>p. unat (C + s + n) \<le> p \<and> p < unat pos \<longrightarrow> \<not> all_in (P bm) p ?N)"
        "r = None \<longrightarrow> (\<forall>p. unat (C + s + n) \<le> p \<and> p + ?N + d \<le> unat Margin \<longrightarrow> \<not> all_in (P bm) p ?N)"
        using less.hyps [OF dec leC] by blast
      show ?thesis
      proof (cases r)
        case None
        have "\<not> all_in (P bm) p ?N" if "unat C \<le> p" "p + ?N + d \<le> unat Margin" for p
          using r(3) None that stop [of p] Margin unfolding Csn
          by (cases "p < unat C + unat s + unat n") simp_all
        then show ?thesis unfolding eq r(1) None by simp
      next
        case (Some pos)
        have pos: "unat (C + s + n) \<le> unat pos" "unat pos + ?N \<le> ?Z" "all_in (P bm) (unat pos) ?N"
          using r(2) Some by blast+
        have "\<not> all_in (P bm) p ?N" if "unat C \<le> p" "p < unat pos" for p
          using r(2) Some that stop [of p] pos(2) unfolding Csn
          by (cases "p < unat C + unat s + unat n") simp_all
        then show ?thesis unfolding eq r(1) Some using pos Csn by simp
      qed
    qed
  qed
qed
end

context run_search
begin

lemma find_bits_ok:
  assumes wf: "wf_bitmap bm" and small: "unat (SizeOfBitMap bm) < 2 ^ 31"
    and within: "\<And>x y. within x y \<longleftrightarrow> unat x + d \<le> unat y" and d: "d \<le> 1"
    and N: "0 < unat N"
  shows "\<exists>pos. find_bits within skip len bm N Hint = Some pos \<and>
    (pos \<noteq> MAXINDEX \<longrightarrow>
       unat pos + unat N \<le> unat (SizeOfBitMap bm) \<and> all_in (P bm) (unat pos) (unat N)) \<and>
    (pos = MAXINDEX \<longrightarrow>
       (\<forall>p. p + unat N \<le> unat (SizeOfBitMap bm) \<and> all_in (P bm) p (unat N) \<longrightarrow>
            unat (SizeOfBitMap bm) < p + unat N + d))"
proof (cases "N > SizeOfBitMap bm")
  case True
  then show ?thesis by (auto simp: find_bits_def word_less_nat_alt)
next
  case False
  let ?Z = "unat (SizeOfBitMap bm)" and ?N = "unat N"
  define H where "H = (if Hint \<ge> SizeOfBitMap bm then 0 else Hint)"
  have NZ: "?N \<le> ?Z" and N0: "N \<noteq> 0" using False N by (auto simp: word_less_nat_alt)
  have HZ: "unat H \<le> ?Z" by (auto simp: H_def word_le_nat_alt)
  have pos_ok: "pos \<noteq> MAXINDEX" if "unat pos + ?N \<le> ?Z" for pos :: ULONG
    using that small by auto
  note loop = find_loop [OF wf small within N NZ]
  obtain r where r: "find_bits_loop within skip len bm N (SizeOfBitMap bm) H = Some r"
    "\<And>pos. r = Some pos \<Longrightarrow> unat pos + ?N \<le> ?Z \<and> all_in (P bm) (unat pos) ?N"
    "r = None \<Longrightarrow> \<forall>p. unat H \<le> p \<and> p + ?N + d \<le> ?Z \<longrightarrow> \<not> all_in (P bm) p ?N"
    using loop [OF order.refl HZ] by blast
  define M where "M = min (H + N) (SizeOfBitMap bm)"
  have M: "unat M = min (unat H + ?N) ?Z"
    using HZ NZ small by (simp add: M_def unat_min unat_add_small)
  have MZ: "unat M \<le> ?Z" by (simp add: M)
  obtain r' where r': "find_bits_loop within skip len bm N M 0 = Some r'"
    "\<And>pos. r' = Some pos \<Longrightarrow> unat pos + ?N \<le> ?Z \<and> all_in (P bm) (unat pos) ?N"
    "r' = None \<Longrightarrow> \<forall>p. p + ?N + d \<le> unat M \<longrightarrow> \<not> all_in (P bm) p ?N"
    using loop [OF MZ, of 0] by auto
  have eq: "find_bits within skip len bm N Hint =
      (case r of Some Position \<Rightarrow> Some Position
       | None \<Rightarrow> if H \<noteq> 0 then Some (case r' of Some Position \<Rightarrow> Position | None \<Rightarrow> MAXINDEX)
                 else Some MAXINDEX)"
    using False N0 r(1) r'(1) unfolding find_bits_def Let_def H_def [symmetric] M_def [symmetric]
    by (simp split: option.split)
  show ?thesis
  proof (cases r)
    case (Some pos)
    then show ?thesis using r(2) [OF Some] pos_ok [of pos] unfolding eq by simp
  next
    case None
    note first = r(3) [OF None]
    show ?thesis
    proof (cases "H = 0")
      case True
      then have "?Z < p + ?N + d" if "p + ?N \<le> ?Z" "all_in (P bm) p ?N" for p
        using first [rule_format, of p] that by (cases "?Z < p + ?N + d") simp_all
      then show ?thesis unfolding eq by (auto simp: None True)
    next
      case H0: False
      show ?thesis
      proof (cases r')
        case (Some pos)
        then show ?thesis using r'(2) [OF Some] pos_ok [of pos] None H0 unfolding eq by simp
      next
        case none': None
        have "?Z < p + ?N + d" if "p + ?N \<le> ?Z" "all_in (P bm) p ?N" for p
        proof (rule ccontr)
          assume c: "\<not> ?Z < p + ?N + d"
          then have "\<not> unat H \<le> p" using first that(2) by auto
          then have "p + ?N + d \<le> unat M" using c d M by simp
          then show False using r'(3) [OF none'] that(2) by blast
        qed
        then show ?thesis unfolding eq by (simp add: None none' H0)
      qed
    qed
  qed
qed

end

interpretation clear_runs: run_search "\<lambda>bm i. \<not> bit_at bm i" RtlpGetLengthOfRunClear RtlpGetLengthOfRunSet
  by unfold_locales (use run_clear_ok run_set_ok in simp_all)

interpretation set_runs: run_search bit_at RtlpGetLengthOfRunSet RtlpGetLengthOfRunClear
  by unfold_locales (use run_clear_ok run_set_ok in simp_all)

section \<open>The downward word scan\<close>

lemma BitScanReverse_nonzero:
  assumes "(v :: 'a::len word) \<noteq> 0"
  obtains i where "BitScanReverse v = Some i" "i < LENGTH('a)" "bit v i" "\<forall>j. i < j \<longrightarrow> \<not> bit v j"
proof -
  let ?n = "LENGTH('a)"
  have "\<exists>x\<in>set (rev [0..<?n]). bit v x" using assms by (auto simp: word_eq_0_bits)
  then obtain i where i: "BitScanReverse v = Some i"
    by (metis BitScanReverse_def find_None_iff not_None_eq)
  then obtain k where k: "k < ?n" "bit v (rev [0..<?n] ! k)" "i = rev [0..<?n] ! k"
      "\<forall>j<k. \<not> bit v (rev [0..<?n] ! j)"
    by (auto simp: BitScanReverse_def find_Some_iff)
  have nth: "rev [0..<?n] ! j = ?n - Suc j" if "j < ?n" for j using that by (simp add: rev_nth)
  have ik: "i = ?n - Suc k" using k(1,3) nth by simp
  have "\<not> bit v j" if "i < j" for j
  proof
    assume "bit v j"
    then have "j < ?n" by (rule bit_imp_le_length)
    then have "?n - Suc j < k" "?n - Suc (?n - Suc j) = j" using that ik k(1) by auto
    then show False using k(4) nth [of "?n - Suc j"] \<open>bit v j\<close> \<open>j < ?n\<close> by auto
  qed
  with i k(1,2) ik nth show ?thesis by (intro that [of i]) auto
qed

lemma skip_back_ok:
  assumes "p \<le> length buf"
  shows "\<exists>V q. skip_back f buf Value (int p - 1) = Some (V, int q - 1) \<and> q \<le> p \<and> (V = 0 \<longrightarrow> q = 0) \<and>
    (q = p \<and> V = Value \<or>
     q < p \<and> Value = 0 \<and> V = f (buf ! q) \<and> (\<forall>j. q < j \<and> j < p \<longrightarrow> f (buf ! j) = 0))"
  using assms
proof (induction p arbitrary: Value)
  case 0
  then show ?case by (subst skip_back.simps) simp
next
  case (Suc p)
  show ?case
  proof (cases "Value = 0")
    case False
    then have "skip_back f buf Value (int (Suc p) - 1) = Some (Value, int (Suc p) - 1)"
      by (subst skip_back.simps) simp
    then show ?thesis using False by (intro exI [of _ Value] exI [of _ "Suc p"]) simp
  next
    case True
    have "p \<le> length buf" using Suc.prems by simp
    from Suc.IH [OF this, of "f (buf ! p)"]
    obtain V q where IH: "skip_back f buf (f (buf ! p)) (int p - 1) = Some (V, int q - 1)" "q \<le> p"
      "V = 0 \<longrightarrow> q = 0"
      "q = p \<and> V = f (buf ! p) \<or>
       q < p \<and> f (buf ! p) = 0 \<and> V = f (buf ! q) \<and> (\<forall>j. q < j \<and> j < p \<longrightarrow> f (buf ! j) = 0)"
      by blast
    have "skip_back f buf Value (int (Suc p) - 1) = Some (V, int q - 1)"
      using True Suc.prems IH(1) by (subst skip_back.simps) simp
    moreover have "V = f (buf ! q) \<and> (\<forall>j. q < j \<and> j < Suc p \<longrightarrow> f (buf ! j) = 0)"
      using IH(4) by (auto simp: less_Suc_eq)
    moreover have "q \<le> Suc p" "q < Suc p" using IH(2) by simp_all
    ultimately show ?thesis using True IH(3) by blast
  qed
qed

lemma bit_drop_push: "bit (drop_bit c (push_bit c (w :: ULONG))) j \<longleftrightarrow> c + j < 32 \<and> bit w j"
  by (simp only: bit_drop_bit_eq o_def bit_push_bit_iff) simp

lemma scan_word_back:
  fixes f :: "ULONG \<Rightarrow> ULONG" and buf :: "ULONG list"
  assumes s: "s < 32 * length buf" and p: "p = s div 32"
  defines "V0 \<equiv> drop_bit (31 - s mod 32) (push_bit (31 - s mod 32) (f (buf ! p)))"
  obtains (none) q where "skip_back f buf V0 (int p - 1) = Some (0, int q - 1)"
    "\<forall>i \<le> s. \<not> word_bit f buf i"
  | (found) V q b where "skip_back f buf V0 (int p - 1) = Some (V, int q - 1)" "V \<noteq> 0"
    "BitScanReverse V = Some b" "b < 32" "last_bit (word_bit f buf) s (32 * q + b)"
    "\<forall>j. 32 * q + j \<le> s \<longrightarrow> bit V j = bit (f (buf ! q)) j"
proof -
  have "p \<le> length buf" using s p by auto
  then obtain V q where r: "skip_back f buf V0 (int p - 1) = Some (V, int q - 1)" "q \<le> p" "V = 0 \<longrightarrow> q = 0"
      "q = p \<and> V = V0 \<or>
       q < p \<and> V0 = 0 \<and> V = f (buf ! q) \<and> (\<forall>j. q < j \<and> j < p \<longrightarrow> f (buf ! j) = 0)"
    using skip_back_ok by blast
  obtain c where sp: "s = 32 * p + c" "c < 32" and sc: "s mod 32 = c"
    using p by (metis mult_div_mod_eq mod_less_divisor zero_less_numeral)
  have V0: "bit V0 j \<longleftrightarrow> j \<le> c \<and> bit (f (buf ! p)) j" for j
    using sp(2) by (auto simp: V0_def sc bit_drop_push)
  have Vb: "bit V j \<longleftrightarrow> 32 * q + j \<le> s \<and> bit (f (buf ! q)) j" if "j < 32" for j
    using r(4)
  proof
    assume "q = p \<and> V = V0"
    moreover have "32 * p + j \<le> s \<longleftrightarrow> j \<le> c" using sp(1) by linarith
    ultimately show ?thesis using V0 by simp
  next
    assume a: "q < p \<and> V0 = 0 \<and> V = f (buf ! q) \<and> (\<forall>j. q < j \<and> j < p \<longrightarrow> f (buf ! j) = 0)"
    then have "32 * q + j \<le> s" using that sp(1) by linarith
    then show ?thesis using a by simp
  qed
  have high: "\<not> word_bit f buf i" if "32 * Suc q \<le> i" "i \<le> s" for i
  proof -
    obtain d m where i: "i = 32 * d + m" "m < 32" "i div 32 = d" "i mod 32 = m" by (rule div_mod_32_cases)
    have "32 * q + 32 \<le> 32 * d + m" "32 * d + m \<le> 32 * p + c" using that i(1) sp(1) by simp_all
    then have d: "q < d" "d \<le> p" using i(2) sp(2) by simp_all
    have "V0 = 0" and zero: "\<forall>j. q < j \<and> j < p \<longrightarrow> f (buf ! j) = 0" using r(4) d by auto
    show ?thesis
    proof (cases "d = p")
      case True
      then have "m \<le> c" using that(2) i(1) sp(1) by simp
      then show ?thesis using V0 [of m] \<open>V0 = 0\<close> True i by (simp add: word_bit_def)
    next
      case False
      then show ?thesis using d zero i by (simp add: word_bit_def)
    qed
  qed
  have word: "word_bit f buf (32 * q + j) \<longleftrightarrow> bit V j" if "j < 32" "32 * q + j \<le> s" for j
    using that Vb [OF that(1)] by (simp add: word_bit_def)
  show thesis
  proof (cases "V = 0")
    case True
    then have "q = 0" using r(3) by blast
    have "\<forall>i \<le> s. \<not> word_bit f buf i"
    proof (intro allI impI)
      fix i assume "i \<le> s"
      then show "\<not> word_bit f buf i"
        using high [of i] word [of i] \<open>V = 0\<close> \<open>q = 0\<close> by (cases "i < 32") auto
    qed
    then show thesis using none r(1) \<open>V = 0\<close> by blast
  next
    case False
    then obtain b where b: "BitScanReverse V = Some b" "b < 32" "bit V b" "\<forall>j. b < j \<longrightarrow> \<not> bit V j"
      by (rule BitScanReverse_nonzero) auto
    have le: "32 * q + b \<le> s" using Vb [OF b(2)] b(3) by blast
    have "\<not> word_bit f buf i" if "32 * q + b < i" "i \<le> s" for i
    proof (cases "i < 32 * Suc q")
      case True
      then have "word_bit f buf (32 * q + (i - 32 * q)) \<longleftrightarrow> bit V (i - 32 * q)"
        using that by (intro word) auto
      moreover have "32 * q + (i - 32 * q) = i" "b < i - 32 * q" using that by auto
      ultimately show ?thesis using b(4) by simp
    next
      case False
      then show ?thesis using high that by simp
    qed
    moreover have "bit V j = bit (f (buf ! q)) j" if "32 * q + j \<le> s" for j
      using Vb [of j] that bit_imp_le_length [of V j] bit_imp_le_length [of "f (buf ! q)" j]
      by (cases "j < 32") auto
    ultimately show thesis
      using found [OF r(1) False b(1,2)] le word [OF b(2) le] b(3) unfolding last_bit_def by blast
  qed
qed

lemma word_bit_id: "word_bit (\<lambda>w. w) (Buffer bm) i = bit_at bm i"
  and word_bit_not: "word_bit (\<lambda>w. NOT w) (Buffer bm) i \<longleftrightarrow> \<not> bit_at bm i"
  by (simp_all add: word_bit_def bit_at_def bit_not_iff)

lemma run_start_ok:
  fixes buf :: "ULONG list"
  assumes t: "t = 32 * q + b" "b < 32" "t < 32 * length buf"
    and nbit: "\<not> word_bit (\<lambda>w. w) buf t"
    and V: "\<forall>j \<le> b. bit (Inv :: ULONG) j = bit (NOT (buf ! q)) j"
  obtains (none) r where
    "skip_back (\<lambda>w. w) buf (drop_bit (31 - b) (push_bit (31 - b) (NOT Inv))) (int q - 1) = Some (0, int r - 1)"
    "\<forall>i \<le> t. \<not> word_bit (\<lambda>w. w) buf i"
  | (found) V r c where
    "skip_back (\<lambda>w. w) buf (drop_bit (31 - b) (push_bit (31 - b) (NOT Inv))) (int q - 1) = Some (V, int r - 1)"
    "V \<noteq> 0" "BitScanReverse V = Some c" "32 * r + c < t" "last_bit (word_bit (\<lambda>w. w) buf) t (32 * r + c)"
proof -
  have q: "q = t div 32" "t mod 32 = b" using t(1,2) by simp_all
  have eq: "drop_bit (31 - b) (push_bit (31 - b) (NOT Inv)) = drop_bit (31 - b) (push_bit (31 - b) (buf ! q))"
    using V t(2) by (intro bit_eqI) (auto simp: bit_drop_push bit_not_iff)
  show thesis
  proof (cases rule: scan_word_back [OF t(3) q(1), of "\<lambda>w. w", unfolded q(2), case_names none found])
    case (none r)
    then show thesis using that(1) unfolding eq by blast
  next
    case (found V r c)
    then have "32 * r + c < t" using nbit le_neq_implies_less unfolding last_bit_def by metis
    then show thesis using that(2) found unfolding eq by blast
  qed
qed

lemma last_clear_runI:
  assumes "e \<le> from" "\<not> bit_at bm e" "\<forall>i. e < i \<and> i \<le> from \<longrightarrow> bit_at bm i"
    and "b \<le> e" "\<forall>i. b \<le> i \<and> i \<le> e \<longrightarrow> \<not> bit_at bm i" "0 < b \<longrightarrow> bit_at bm (b - 1)"
  shows "last_clear_run bm from b e"
  using assms by (simp add: last_clear_run_def)

lemma back_run_ok:
  assumes lt: "32 * q + b < 32 * length (Buffer bm)" and b: "b < 32" "BitScanReverse I = Some b"
    and last: "last_bit (\<lambda>i. \<not> bit_at bm i) from (32 * q + b)"
    and inv: "\<forall>j. 32 * q + j \<le> from \<longrightarrow> bit I j = bit (NOT (Buffer bm ! q)) j"
  shows "\<exists>s e. last_clear_run bm from s e \<and> back_run bm I (int q - 1) = Some (of_nat (e - s), of_nat s)"
proof -
  let ?t = "32 * q + b"
  have t: "?t \<le> from" "\<not> bit_at bm ?t" "\<forall>i. ?t < i \<and> i \<le> from \<longrightarrow> bit_at bm i"
    using last by (auto simp: last_bit_def)
  have inv': "\<forall>j \<le> b. bit I j = bit (NOT (Buffer bm ! q)) j" using t(1) inv by simp
  have nb: "\<not> word_bit (\<lambda>w. w) (Buffer bm) ?t" using t(2) by (simp add: word_bit_id)
  show ?thesis
  proof (cases rule: run_start_ok [OF refl b(1) lt nb inv', case_names none found])
    case (none r)
    then have "last_clear_run bm from 0 ?t" using t by (intro last_clear_runI) (simp_all add: word_bit_id)
    moreover have "back_run bm I (int q - 1) = Some (of_nat (?t - 0), of_nat 0)"
      using b(2) none(1) by (simp add: back_run_def mult.commute)
    ultimately show ?thesis by blast
  next
    case (found V r c)
    let ?s = "32 * r + c + 1"
    have "last_clear_run bm from ?s ?t"
      using found(4,5) t by (intro last_clear_runI) (auto simp: last_bit_def word_bit_id)
    moreover have "back_run bm I (int q - 1) = Some (of_nat ?t - of_nat ?s, of_nat ?s)"
      using b(2) found by (simp add: back_run_def algebra_simps)
    moreover have "of_nat ?t - of_nat ?s = (of_nat (?t - ?s) :: ULONG)"
      using found(4) by (simp add: of_nat_diff)
    ultimately show ?thesis by metis
  qed
qed

lemma back_ok:
  assumes wf: "wf_bitmap bm" and lt: "From < SizeOfBitMap bm"
  shows "(\<forall>i \<le> unat From. bit_at bm i) \<and> RtlFindLastBackwardRunClear bm From S = Some (0, S) \<or>
    (\<exists>b e. last_clear_run bm (unat From) b e \<and>
       RtlFindLastBackwardRunClear bm From S = Some (of_nat (e - b), of_nat b))"
proof -
  let ?F = "unat From" and ?buf = "Buffer bm"
  have F: "?F < 32 * length ?buf" "?F < 2 ^ 32"
    using wf lt by (auto simp: wf_bitmap_def word_less_nat_alt)
  have min: "min From (SizeOfBitMap bm - 1) = From"
  proof -
    have "unat (SizeOfBitMap bm - 1) = unat (SizeOfBitMap bm) - 1"
      using lt by (subst unat_sub) (auto simp: word_less_nat_alt word_le_nat_alt)
    then show ?thesis using lt by (auto simp: min_def word_le_nat_alt word_less_nat_alt)
  qed
  have p: "?F div 32 < length ?buf" using F(1) by auto
  let ?b = "31 - ?F mod 32"
  define V0 where "V0 = drop_bit ?b (push_bit ?b (NOT (?buf ! (?F div 32))))"
  have eq: "RtlFindLastBackwardRunClear bm From S = do {
      (InvValue, q) \<leftarrow> skip_back (\<lambda>w. NOT w) ?buf V0 (int (?F div 32) - 1);
      if InvValue = 0 then Some (0, S) else back_run bm InvValue q }"
    using p unfolding RtlFindLastBackwardRunClear_def back_run_def Let_def min unat_div_32 unat_and_31 V0_def by simp
  show ?thesis
  proof (cases rule: scan_word_back [OF F(1) refl, of "\<lambda>w. NOT w", folded V0_def, unfolded word_bit_not, case_names none found])
    case (none q)
    then show ?thesis using eq by simp
  next
    case (found I q b)
    have last: "last_bit (\<lambda>i. \<not> bit_at bm i) ?F (32 * q + b)"
      using found(5) by (simp add: last_bit_def word_bit_not)
    then have "32 * q + b < 32 * length ?buf" using F(1) by (simp add: last_bit_def)
    from back_run_ok [OF this found(4,3) last found(6)] show ?thesis using eq found(1,2) by simp
  qed
qed

section \<open>Run lists, range tests and single values\<close>

lemma next_forward_run_clear:
  assumes "wf_bitmap bm"
  obtains n start where "RtlFindNextForwardRunClear bm from = Some (n, start)"
    "next_run_ok (\<lambda>i. \<not> bit_at bm i) (unat (SizeOfBitMap bm)) (unat from) (unat n) (unat start)"
  using clear_runs.next_run [OF assms] unfolding RtlFindNextForwardRunClear_def by blast

lemma take_drop_update:
  "Run < length xs \<Longrightarrow> take (Suc Run) (xs[Run := r]) = take Run xs @ [r]"
  by (simp add: take_Suc_conv_app_nth)

lemma find_clear_runs_fill_ok:
  assumes wf: "wf_bitmap bm" and len: "k \<le> length arr" and "sm \<le> Run" "Run \<le> k"
  shows "\<exists>rs from' sm'. find_clear_runs_fill bm k Run arr from sm =
      Some (Run + length rs, take Run arr @ rs @ drop (Run + length rs) arr, from', sm') \<and>
    Run + length rs \<le> k \<and>
    runs_from (\<lambda>i. \<not> bit_at bm i) (unat (SizeOfBitMap bm)) (unat from) rs \<and>
    (Run + length rs < k \<longrightarrow>
       (\<forall>i. runs_end (unat from) rs \<le> i \<and> i < unat (SizeOfBitMap bm) \<longrightarrow> bit_at bm i))"
  using assms(2-4)
proof (induction "k - Run" arbitrary: Run arr "from" sm)
  case 0
  then show ?case by (subst find_clear_runs_fill.simps) simp
next
  case (Suc d)
  let ?P = "\<lambda>i. \<not> bit_at bm i" and ?Z = "unat (SizeOfBitMap bm)"
  obtain n start where nr: "RtlFindNextForwardRunClear bm from = Some (n, start)"
    "next_run_ok ?P ?Z (unat from) (unat n) (unat start)" by (rule next_forward_run_clear [OF wf])
  have Run: "Run < k" using Suc.hyps(2) by simp
  show ?case
  proof (cases "n = 0")
    case True
    then have "find_clear_runs_fill bm k Run arr from sm = Some (Run, arr, from, sm)"
      using Run nr(1) by (subst find_clear_runs_fill.simps) simp
    moreover have "\<forall>i. unat from \<le> i \<and> i < ?Z \<longrightarrow> bit_at bm i"
      using next_run_ok_none [of ?P ?Z "unat from" "unat start"] nr(2) True by auto
    ultimately show ?thesis using Run by (intro exI [of _ "[]"]) simp
  next
    case False
    let ?r = "\<lparr>StartingIndex = start, NumberOfBits = n\<rparr>"
    let ?arr = "arr[Run := ?r]"
    have "0 < unat n" using False by (simp add: unat_gt_0)
    from next_run_okD(3) [OF nr(2) this] have end_eq: "unat (start + n) = unat start + unat n"
      by (rule unat_add_le)
    define sm' where "sm' = (if n < NumberOfBits (?arr ! sm) then Run else sm)"
    have step: "find_clear_runs_fill bm k Run arr from sm =
        find_clear_runs_fill bm k (Suc Run) ?arr (start + n) sm'"
      using Run Suc.prems nr(1) False by (subst find_clear_runs_fill.simps) (simp add: sm'_def)
    have pre: "d = k - Suc Run" "k \<le> length ?arr" "sm' \<le> Suc Run" "Suc Run \<le> k"
      using Suc.hyps(2) Suc.prems Run by (auto simp: sm'_def)
    obtain rs from' sm'' where IH: "find_clear_runs_fill bm k (Suc Run) ?arr (start + n) sm' =
        Some (Suc Run + length rs, take (Suc Run) ?arr @ rs @ drop (Suc Run + length rs) ?arr, from', sm'')"
      "Suc Run + length rs \<le> k" "runs_from ?P ?Z (unat (start + n)) rs"
      "Suc Run + length rs < k \<longrightarrow>
       (\<forall>i. runs_end (unat (start + n)) rs \<le> i \<and> i < ?Z \<longrightarrow> bit_at bm i)"
      using Suc.hyps(1) [OF pre, of "start + n"] by blast
    have "take (Suc Run) ?arr = take Run arr @ [?r]"
      using Run Suc.prems by (intro take_drop_update) simp
    then have "find_clear_runs_fill bm k Run arr from sm =
        Some (Run + length (?r # rs), take Run arr @ (?r # rs) @ drop (Run + length (?r # rs)) arr, from', sm'')"
      using step IH(1) by simp
    then show ?thesis
      using IH(2-4) nr(2) False end_eq
      by (intro exI [of _ "?r # rs"] exI [of _ from'] exI [of _ sm'']) simp
  qed
qed

context run_scan
begin

lemma are_bits:
  assumes wf: "wf_bitmap bm" and le: "Start + n \<le> SizeOfBitMap bm" and lt: "Start < Start + n"
  shows "\<exists>l. len bm Start n = Some l \<and> (n \<le> l \<longleftrightarrow> all_in (P bm) (unat Start) (unat n))"
proof -
  let ?Z = "unat (SizeOfBitMap bm)"
  have sum: "unat Start + unat n \<le> ?Z" using le unat_add_no_wrap [OF lt] by (simp add: word_le_nat_alt)
  obtain l where l: "len bm Start n = Some l" "run_ok (P bm) ?Z (unat Start) (unat n) (unat l)"
    using len_ok [OF wf] by blast
  have "all_in (P bm) (unat Start) (unat n)" if "n \<le> l"
    using run_ok_in [OF l(2)] that by (auto simp: all_in_def word_le_nat_alt)
  moreover have "n \<le> l" if "all_in (P bm) (unat Start) (unat n)"
  proof (rule ccontr)
    assume "\<not> n \<le> l"
    then have ln: "unat l < unat n" by (simp add: word_le_nat_alt)
    then have "\<not> P bm (unat Start + unat l)" using run_ok_stop [OF l(2)] sum by simp
    then show False using that ln by (simp add: all_in_def)
  qed
  ultimately show ?thesis using l(1) by blast
qed

end

lemma RtlAreBitsClear_ok:
  assumes "wf_bitmap bm"
  shows "RtlAreBitsClear bm Start n = Some (Start + n \<le> SizeOfBitMap bm \<and> Start < Start + n \<and>
    all_in (\<lambda>i. \<not> bit_at bm i) (unat Start) (unat n))"
  using clear_runs.are_bits [OF assms, of Start n]
  by (cases "Start + n \<le> SizeOfBitMap bm") (auto simp: RtlAreBitsClear_def not_le not_less)

lemma RtlAreBitsSet_ok:
  assumes "wf_bitmap bm"
  shows "RtlAreBitsSet bm Start n = Some (Start + n \<le> SizeOfBitMap bm \<and> Start < Start + n \<and>
    all_in (bit_at bm) (unat Start) (unat n))"
  using set_runs.are_bits [OF assms, of Start n]
  by (cases "Start + n \<le> SizeOfBitMap bm") (auto simp: RtlAreBitsSet_def not_le not_less)

lemma BitScanForward_zero: "BitScanForward 0 = None" and BitScanReverse_zero: "BitScanReverse 0 = None"
  by (simp_all add: BitScanForward_def BitScanReverse_def find_None_iff)

lemma bit_low_half: "bit (ucast (v :: ULONGLONG) :: ULONG) i \<longleftrightarrow> i < 32 \<and> bit v i"
  and bit_high_half: "bit (ucast (drop_bit 32 (v :: ULONGLONG)) :: ULONG) i \<longleftrightarrow> i < 32 \<and> bit v (32 + i)"
  by (auto simp: bit_simps)

lemma ulonglong_bit_cases:
  assumes "bit (v :: ULONGLONG) j"
  obtains "j < 32" "bit (ucast v :: ULONG) j"
  | k where "j = 32 + k" "bit (ucast (drop_bit 32 v) :: ULONG) k"
proof (cases "j < 32")
  case True
  then show ?thesis using that(1) assms by (simp add: bit_low_half)
next
  case False
  moreover have "j < 64" using bit_imp_le_length [OF assms] by simp
  ultimately show ?thesis using that(2) [of "j - 32"] assms by (simp add: bit_high_half)
qed

lemma ulonglong_zero:
  assumes "ucast (v :: ULONGLONG) = (0 :: ULONG)" "ucast (drop_bit 32 v) = (0 :: ULONG)"
  shows "v = 0"
proof (rule ccontr)
  assume "v \<noteq> 0"
  then obtain j where "bit v j" by (auto simp: word_eq_0_bits)
  then show False by (rule ulonglong_bit_cases) (simp_all add: assms)
qed

lemma RtlFindMostSignificantBit_ok:
  assumes "v \<noteq> 0"
  shows "\<exists>i. RtlFindMostSignificantBit v = int i \<and> bit v i \<and> (\<forall>j. i < j \<longrightarrow> \<not> bit v j)"
proof (cases "ucast (drop_bit 32 v) = (0 :: ULONG)")
  case False
  then obtain i where i: "BitScanReverse (ucast (drop_bit 32 v) :: ULONG) = Some i"
    "bit (ucast (drop_bit 32 v) :: ULONG) i" "\<forall>j. i < j \<longrightarrow> \<not> bit (ucast (drop_bit 32 v) :: ULONG) j"
    by (rule BitScanReverse_nonzero) blast
  have "\<not> bit v j" if "i + 32 < j" for j
  proof
    assume "bit v j"
    then show False by (rule ulonglong_bit_cases) (use i(3) that in simp_all)
  qed
  moreover have "bit v (i + 32)" using i(2) by (simp add: bit_high_half add.commute)
  ultimately show ?thesis using i(1) by (intro exI [of _ "i + 32"]) (simp add: RtlFindMostSignificantBit_def)
next
  case True
  then have "ucast v \<noteq> (0 :: ULONG)" using assms ulonglong_zero by blast
  then obtain i where i: "BitScanReverse (ucast v :: ULONG) = Some i"
    "bit (ucast v :: ULONG) i" "\<forall>j. i < j \<longrightarrow> \<not> bit (ucast v :: ULONG) j"
    by (rule BitScanReverse_nonzero) blast
  have "\<not> bit v j" if "i < j" for j
  proof
    assume "bit v j"
    then show False by (rule ulonglong_bit_cases) (use i(3) that True in simp_all)
  qed
  moreover have "bit v i" using i(2) by (simp add: bit_low_half)
  ultimately show ?thesis using i(1) True
    by (intro exI [of _ i]) (simp add: RtlFindMostSignificantBit_def BitScanReverse_zero)
qed

lemma RtlFindLeastSignificantBit_ok:
  assumes "v \<noteq> 0"
  shows "\<exists>i. RtlFindLeastSignificantBit v = int i \<and> bit v i \<and> (\<forall>j. j < i \<longrightarrow> \<not> bit v j)"
proof (cases "ucast v = (0 :: ULONG)")
  case False
  then obtain i where i: "BitScanForward (ucast v :: ULONG) = Some i" "i < 32"
    "bit (ucast v :: ULONG) i" "\<forall>j. j < i \<longrightarrow> \<not> bit (ucast v :: ULONG) j"
    by (rule BitScanForward_nonzero) simp
  then show ?thesis by (intro exI [of _ i]) (auto simp: RtlFindLeastSignificantBit_def bit_low_half)
next
  case True
  then have "ucast (drop_bit 32 v) \<noteq> (0 :: ULONG)" using assms ulonglong_zero by blast
  then obtain i where i: "BitScanForward (ucast (drop_bit 32 v) :: ULONG) = Some i"
    "bit (ucast (drop_bit 32 v) :: ULONG) i" "\<forall>j. j < i \<longrightarrow> \<not> bit (ucast (drop_bit 32 v) :: ULONG) j"
    by (rule BitScanForward_nonzero) simp
  have "\<not> bit v j" if "j < i + 32" for j
  proof
    assume "bit v j"
    then show False by (rule ulonglong_bit_cases) (use i(3) that True in simp_all)
  qed
  moreover have "bit v (i + 32)" using i(2) by (simp add: bit_high_half add.commute)
  ultimately show ?thesis using i(1) True
    by (intro exI [of _ "i + 32"]) (simp add: RtlFindLeastSignificantBit_def BitScanForward_zero)
qed

section \<open>Properties\<close>

text \<open>
  C6. For a well-formed bitmap of fewer than 2^31 bits and a positive count,
  RtlFindClearBits returns without touching memory outside the word array, for every hint. A
  position it returns starts that many clear bits inside the bitmap. When it returns
  MAXINDEX there is no such run of clear bits anywhere, except possibly one that ends
  exactly at the end of the bitmap, which the strict comparison of the loop guard leaves
  out.
\<close>

theorem RtlFindClearBits_correct:
  assumes "wf_bitmap bm" and "unat (SizeOfBitMap bm) < 2 ^ 31" and "0 < NumberToFind"
  shows "\<exists>pos. RtlFindClearBits (Some bm) NumberToFind Hint = Some pos \<and>
    (if pos = MAXINDEX
     then \<forall>p. p + unat NumberToFind < unat (SizeOfBitMap bm) \<longrightarrow>
                \<not> all_in (\<lambda>i. \<not> bit_at bm i) p (unat NumberToFind)
     else unat pos + unat NumberToFind \<le> unat (SizeOfBitMap bm) \<and>
          all_in (\<lambda>i. \<not> bit_at bm i) (unat pos) (unat NumberToFind))"
proof -
  have within: "x < y \<longleftrightarrow> unat x + 1 \<le> unat y" for x y :: ULONG
    by (simp add: word_less_nat_alt Suc_le_eq)
  have "0 < unat NumberToFind" using assms(3) by (simp add: word_less_nat_alt)
  from clear_runs.find_bits_ok [OF assms(1,2) within order.refl this, of Hint]
  obtain pos where pos: "RtlFindClearBits (Some bm) NumberToFind Hint = Some pos"
      "pos \<noteq> MAXINDEX \<longrightarrow> unat pos + unat NumberToFind \<le> unat (SizeOfBitMap bm) \<and>
         all_in (\<lambda>i. \<not> bit_at bm i) (unat pos) (unat NumberToFind)"
      "pos = MAXINDEX \<longrightarrow> (\<forall>p. p + unat NumberToFind \<le> unat (SizeOfBitMap bm) \<and>
         all_in (\<lambda>i. \<not> bit_at bm i) p (unat NumberToFind) \<longrightarrow>
         unat (SizeOfBitMap bm) < p + unat NumberToFind + 1)"
    unfolding RtlFindClearBits_def option.case by blast
  have "\<not> all_in (\<lambda>i. \<not> bit_at bm i) p (unat NumberToFind)"
    if "pos = MAXINDEX" "p + unat NumberToFind < unat (SizeOfBitMap bm)" for p
  proof
    assume "all_in (\<lambda>i. \<not> bit_at bm i) p (unat NumberToFind)"
    with pos(3) [rule_format, OF that(1), of p] that(2) show False by simp
  qed
  then show ?thesis using pos(1,2) by simp
qed

theorem RtlFindClearBits_correct_witness:
  "RtlFindClearBits (Some \<lparr>SizeOfBitMap = 32, Buffer = [0x00FF00FF]\<rparr>) 8 0 = Some 8 \<and>
   all_in (\<lambda>i. \<not> bit_at \<lparr>SizeOfBitMap = 32, Buffer = [0x00FF00FF]\<rparr> i) 8 8"
proof -
  have r: "RtlFindClearBits (Some \<lparr>SizeOfBitMap = 32, Buffer = [0x00FF00FF]\<rparr>) 8 0 = Some 8"
    by code_simp
  then show ?thesis
    using RtlFindClearBits_correct [of "\<lparr>SizeOfBitMap = 32, Buffer = [0x00FF00FF]\<rparr>" 8 0]
    by (simp add: wf_bitmap_def)
qed

text \<open>
  For a well-formed bitmap of fewer than 2^31 bits and a positive count, RtlFindSetBits
  returns; a position it returns starts that many set bits inside the bitmap, and MAXINDEX
  is returned only when the bitmap has no such run.
\<close>

theorem RtlFindSetBits_correct:
  assumes "wf_bitmap bm" and "unat (SizeOfBitMap bm) < 2 ^ 31" and "0 < NumberToFind"
  shows "\<exists>pos. RtlFindSetBits (Some bm) NumberToFind Hint = Some pos \<and>
    (if pos = MAXINDEX
     then \<forall>p. p + unat NumberToFind \<le> unat (SizeOfBitMap bm) \<longrightarrow>
                \<not> all_in (bit_at bm) p (unat NumberToFind)
     else unat pos + unat NumberToFind \<le> unat (SizeOfBitMap bm) \<and>
          all_in (bit_at bm) (unat pos) (unat NumberToFind))"
  using set_runs.find_bits_ok [OF assms(1,2), of "(\<le>)" 0 NumberToFind Hint] assms(3)
  by (fastforce simp: RtlFindSetBits_def word_less_nat_alt word_le_nat_alt)

theorem RtlFindSetBits_correct_witness:
  "RtlFindSetBits (Some \<lparr>SizeOfBitMap = 32, Buffer = [0x00FF00F0]\<rparr>) 8 0 = Some 16 \<and>
   all_in (bit_at \<lparr>SizeOfBitMap = 32, Buffer = [0x00FF00F0]\<rparr>) 16 8"
proof -
  have r: "RtlFindSetBits (Some \<lparr>SizeOfBitMap = 32, Buffer = [0x00FF00F0]\<rparr>) 8 0 = Some 16"
    by code_simp
  then show ?thesis
    using RtlFindSetBits_correct [of "\<lparr>SizeOfBitMap = 32, Buffer = [0x00FF00F0]\<rparr>" 8 0]
    by (simp add: wf_bitmap_def)
qed

text \<open>
  On 32 clear bits a request for 32 clear bits fails with MAXINDEX, while the same request
  for set bits on 32 set bits succeeds at 0: the two searches disagree on a run that ends at
  the end of the bitmap.
\<close>

theorem RtlFindClearBits_misses_last_run:
  "RtlFindClearBits (Some \<lparr>SizeOfBitMap = 32, Buffer = [0]\<rparr>) 32 0 = Some MAXINDEX \<and>
   RtlFindSetBits (Some \<lparr>SizeOfBitMap = 32, Buffer = [MAXINDEX]\<rparr>) 32 0 = Some 0"
  by code_simp

text \<open>
  RtlFindNextForwardRunClear and RtlFindNextForwardRunSet return, from any index of a well-
  formed bitmap, the first maximal run of clear (set) bits at or after the index: no such
  bit lies before its start, all its bits are clear (set), it ends at the end of the bitmap
  or before a bit of the other kind, and its length is 0 only when there is none.
\<close>

theorem RtlFindNextForwardRun_correct:
  assumes "wf_bitmap bm"
  shows "\<exists>n start n' start'. RtlFindNextForwardRunClear bm From = Some (n, start) \<and>
    next_run_ok (\<lambda>i. \<not> bit_at bm i) (unat (SizeOfBitMap bm)) (unat From) (unat n) (unat start) \<and>
    RtlFindNextForwardRunSet bm From = Some (n', start') \<and>
    next_run_ok (bit_at bm) (unat (SizeOfBitMap bm)) (unat From) (unat n') (unat start')"
proof -
  obtain n start where "RtlFindNextForwardRunClear bm From = Some (n, start)"
    "next_run_ok (\<lambda>i. \<not> bit_at bm i) (unat (SizeOfBitMap bm)) (unat From) (unat n) (unat start)"
    by (rule next_forward_run_clear [OF assms])
  moreover obtain n' start' where "RtlFindNextForwardRunSet bm From = Some (n', start')"
    "next_run_ok (bit_at bm) (unat (SizeOfBitMap bm)) (unat From) (unat n') (unat start')"
    using set_runs.next_run [OF assms, of From] unfolding RtlFindNextForwardRunSet_def by blast
  ultimately show ?thesis by blast
qed

theorem RtlFindNextForwardRun_correct_witness:
  "RtlFindNextForwardRunClear \<lparr>SizeOfBitMap = 32, Buffer = [0x00FF00FF]\<rparr> 3 = Some (8, 8) \<and>
   next_run_ok (\<lambda>i. \<not> bit_at \<lparr>SizeOfBitMap = 32, Buffer = [0x00FF00FF]\<rparr> i) 32 3 8 8"
proof -
  have "RtlFindNextForwardRunClear \<lparr>SizeOfBitMap = 32, Buffer = [0x00FF00FF]\<rparr> 3 = Some (8, 8)"
    by code_simp
  then show ?thesis
    using RtlFindNextForwardRun_correct [of "\<lparr>SizeOfBitMap = 32, Buffer = [0x00FF00FF]\<rparr>" 3]
    by (auto simp: wf_bitmap_def)
qed

text \<open>
  RtlFindLongestRunClear terminates on every well-formed bitmap and returns the length and
  start of a run of clear bits such that no run of clear bits of the bitmap is longer.
\<close>

theorem RtlFindLongestRunClear_correct:
  assumes "wf_bitmap bm"
  shows "\<exists>n start. RtlFindLongestRunClear bm S = Some (n, start) \<and>
    (\<forall>p l. p + l \<le> unat (SizeOfBitMap bm) \<and> all_in (\<lambda>i. \<not> bit_at bm i) p l \<longrightarrow> l \<le> unat n) \<and>
    (n \<noteq> 0 \<longrightarrow> unat start + unat n \<le> unat (SizeOfBitMap bm) \<and>
       all_in (\<lambda>i. \<not> bit_at bm i) (unat start) (unat n))"
  using clear_runs.longest_run [OF assms, of 0 0 S]
  by (simp add: RtlFindLongestRunClear_def RtlFindNextForwardRunClear_def)

theorem RtlFindLongestRunClear_correct_witness:
  "RtlFindLongestRunClear \<lparr>SizeOfBitMap = 32, Buffer = [0x0FFF00FE]\<rparr> 0 = Some (8, 8) \<and>
   \<not> all_in (\<lambda>i. \<not> bit_at \<lparr>SizeOfBitMap = 32, Buffer = [0x0FFF00FE]\<rparr> i) 7 9"
proof -
  have "RtlFindLongestRunClear \<lparr>SizeOfBitMap = 32, Buffer = [0x0FFF00FE]\<rparr> 0 = Some (8, 8)"
    by code_simp
  then show ?thesis
    using RtlFindLongestRunClear_correct [of "\<lparr>SizeOfBitMap = 32, Buffer = [0x0FFF00FE]\<rparr>" 0]
    by (force simp: wf_bitmap_def)
qed

text \<open>
  RtlFindClearRuns without LocateLongestRuns fills the array with the maximal clear runs of
  the bitmap in ascending order, starting with the first; it writes nothing past the runs it
  reports, and reports fewer than asked for only when no clear bit is left.
\<close>

theorem RtlFindClearRuns_correct:
  assumes "wf_bitmap bm" and "unat SizeOfRunArray \<le> length RunArray"
  shows "\<exists>rs. RtlFindClearRuns bm RunArray SizeOfRunArray False =
      Some (of_nat (length rs), rs @ drop (length rs) RunArray) \<and>
    length rs \<le> unat SizeOfRunArray \<and>
    runs_from (\<lambda>i. \<not> bit_at bm i) (unat (SizeOfBitMap bm)) 0 rs \<and>
    (length rs < unat SizeOfRunArray \<longrightarrow>
       (\<forall>i. runs_end 0 rs \<le> i \<and> i < unat (SizeOfBitMap bm) \<longrightarrow> bit_at bm i))"
proof -
  obtain rs from' sm' where
    "find_clear_runs_fill bm (unat SizeOfRunArray) 0 RunArray 0 0 =
       Some (length rs, rs @ drop (length rs) RunArray, from', sm')"
    "length rs \<le> unat SizeOfRunArray"
    "runs_from (\<lambda>i. \<not> bit_at bm i) (unat (SizeOfBitMap bm)) 0 rs"
    "length rs < unat SizeOfRunArray \<longrightarrow>
       (\<forall>i. runs_end 0 rs \<le> i \<and> i < unat (SizeOfBitMap bm) \<longrightarrow> bit_at bm i)"
    using find_clear_runs_fill_ok [OF assms, of 0 0 0] by auto
  then show ?thesis by (intro exI [of _ rs]) (simp add: RtlFindClearRuns_def)
qed

theorem RtlFindClearRuns_correct_witness:
  "\<exists>rs. RtlFindClearRuns \<lparr>SizeOfBitMap = 32, Buffer = [0x00FF00FF]\<rparr>
       (replicate 3 \<lparr>StartingIndex = 0, NumberOfBits = 0\<rparr>) 3 False =
     Some (of_nat (length rs), rs @ drop (length rs) (replicate 3 \<lparr>StartingIndex = 0, NumberOfBits = 0\<rparr>)) \<and>
     runs_from (\<lambda>i. \<not> bit_at \<lparr>SizeOfBitMap = 32, Buffer = [0x00FF00FF]\<rparr> i) 32 0 rs"
  using RtlFindClearRuns_correct [of "\<lparr>SizeOfBitMap = 32, Buffer = [0x00FF00FF]\<rparr>" 3
      "replicate 3 \<lparr>StartingIndex = 0, NumberOfBits = 0\<rparr>"]
  by (auto simp: wf_bitmap_def)

text \<open>
  With LocateLongestRuns set, RtlFindClearRuns can report a run of one bit although the
  bitmap has a second run of eight clear bits.
\<close>

theorem RtlFindClearRuns_longest_wrong:
  "RtlFindClearRuns \<lparr>SizeOfBitMap = 32, Buffer = [0x00FF00F6]\<rparr>
       (replicate 2 \<lparr>StartingIndex = 0, NumberOfBits = 0\<rparr>) 2 True =
     Some (2, [\<lparr>StartingIndex = 8, NumberOfBits = 8\<rparr>, \<lparr>StartingIndex = 3, NumberOfBits = 1\<rparr>]) \<and>
   RtlAreBitsClear \<lparr>SizeOfBitMap = 32, Buffer = [0x00FF00F6]\<rparr> 24 8 = Some True"
  by code_simp

text \<open>
  RtlFindLastBackwardRunClear, from an index inside a well-formed bitmap, leaves the start
  untouched and returns 0 when all bits up to the index are set; otherwise it writes the
  start of the last clear run at or before the index and returns the distance of the run's
  last bit (not past the index) from its start, which is one less than the number of its
  bits.
\<close>

theorem RtlFindLastBackwardRunClear_correct:
  assumes "wf_bitmap bm" and "From < SizeOfBitMap bm"
  shows "(\<forall>i \<le> unat From. bit_at bm i) \<and> RtlFindLastBackwardRunClear bm From S = Some (0, S) \<or>
    (\<exists>b e. last_clear_run bm (unat From) b e \<and>
       RtlFindLastBackwardRunClear bm From S = Some (of_nat (e - b), of_nat b))"
  by (rule back_ok [OF assms])

theorem RtlFindLastBackwardRunClear_correct_witness:
  "\<exists>b e. last_clear_run \<lparr>SizeOfBitMap = 64, Buffer = [0x060F874D, 0x3F303F30]\<rparr> 60 b e \<and>
     (1, 54) = (of_nat (e - b) :: ULONG, of_nat b :: ULONG)"
proof -
  have "RtlFindLastBackwardRunClear \<lparr>SizeOfBitMap = 64, Buffer = [0x060F874D, 0x3F303F30]\<rparr> 60 7 = Some (1, 54)"
    by code_simp
  then show ?thesis
    using RtlFindLastBackwardRunClear_correct
      [of "\<lparr>SizeOfBitMap = 64, Buffer = [0x060F874D, 0x3F303F30]\<rparr>" 60 7]
    by (simp add: wf_bitmap_def)
qed

text \<open>
  RtlAreBitsClear (RtlAreBitsSet) answers true exactly when the range is not empty, does not
  wrap around, lies inside the bitmap and all its bits are clear (set).
\<close>

theorem RtlAreBits_correct:
  assumes "wf_bitmap bm"
  shows "RtlAreBitsClear bm Start n = Some (Start + n \<le> SizeOfBitMap bm \<and> Start < Start + n \<and>
      all_in (\<lambda>i. \<not> bit_at bm i) (unat Start) (unat n)) \<and>
    RtlAreBitsSet bm Start n = Some (Start + n \<le> SizeOfBitMap bm \<and> Start < Start + n \<and>
      all_in (bit_at bm) (unat Start) (unat n))"
  using RtlAreBitsClear_ok [OF assms] RtlAreBitsSet_ok [OF assms] by blast

theorem RtlAreBits_correct_witness:
  "RtlAreBitsClear \<lparr>SizeOfBitMap = 32, Buffer = [0x00FF00FF]\<rparr> 8 8 =
     Some (all_in (\<lambda>i. \<not> bit_at \<lparr>SizeOfBitMap = 32, Buffer = [0x00FF00FF]\<rparr> i) 8 8)"
  using RtlAreBits_correct [of "\<lparr>SizeOfBitMap = 32, Buffer = [0x00FF00FF]\<rparr>" 8 8]
  by (simp add: wf_bitmap_def)

text \<open>
  RtlFindMostSignificantBit and RtlFindLeastSignificantBit return -1 for 0 and otherwise the
  number of the highest and of the lowest set bit of the 64-bit value.
\<close>

theorem RtlFindSignificantBit_correct:
  "RtlFindMostSignificantBit 0 = - 1 \<and> RtlFindLeastSignificantBit 0 = - 1 \<and>
   (v \<noteq> 0 \<longrightarrow>
     (\<exists>i. RtlFindMostSignificantBit v = int i \<and> bit v i \<and> (\<forall>j. i < j \<longrightarrow> \<not> bit v j)) \<and>
     (\<exists>i. RtlFindLeastSignificantBit v = int i \<and> bit v i \<and> (\<forall>j. j < i \<longrightarrow> \<not> bit v j)))"
  using RtlFindMostSignificantBit_ok RtlFindLeastSignificantBit_ok
  by (simp add: RtlFindMostSignificantBit_def RtlFindLeastSignificantBit_def
      BitScanReverse_zero BitScanForward_zero)

theorem RtlFindSignificantBit_correct_witness:
  "\<exists>i. RtlFindMostSignificantBit 0xF00000000 = int i \<and> bit (0xF00000000 :: ULONGLONG) i"
  using RtlFindSignificantBit_correct [of "0xF00000000"] by auto

end
