(* ===== verification/RtlBitmapSets.thy ===== *)
theory RtlBitmapSets
  imports RtlBitmapRuns
begin

text \<open>
  Correctness of the updating half of \<^verbatim>\<open>sdk/lib/rtl/bitmap.c\<close>: the bit and range updates and
  the population count, as operations on the set of bits of the map.
\<close>

section \<open>The set of a bitmap and the definitions of the proofs\<close>

definition bm_set :: "RTL_BITMAP \<Rightarrow> nat set" where
  "bm_set bm = {i. i < unat (SizeOfBitMap bm) \<and> bit_at bm i}"

definition bits :: "ULONG list \<Rightarrow> nat \<Rightarrow> bool" where
  "bits buf i \<longleftrightarrow> bit (buf ! (i div 32)) (i mod 32)"

definition put_mask :: "bool \<Rightarrow> ULONG \<Rightarrow> ULONG \<Rightarrow> ULONG" where
  "put_mask b Mask v = (if b then v OR Mask else v AND NOT Mask)"

definition put_tail :: "bool \<Rightarrow> ULONG list \<Rightarrow> nat \<Rightarrow> ULONG \<Rightarrow> ULONG list option" where
  "put_tail b buf p n =
     do {
       buf \<leftarrow> RtlFillMemoryUlong buf p (unat (drop_bit 3 n)) (if b then MAXINDEX else 0);
       if n AND 31 \<noteq> 0
       then array_modify buf (p + unat (n div 32))
              (put_mask b (NOT (push_bit (unat (n AND 31)) MAXINDEX)))
       else Some buf
     }"

definition put_bits :: "bool \<Rightarrow> RTL_BITMAP \<Rightarrow> ULONG \<Rightarrow> ULONG \<Rightarrow> RTL_BITMAP option" where
  "put_bits b bm Start n =
     (let p = unat (Start div 32);
          Bits = Start AND 31
      in if Bits \<noteq> 0
         then
           let Mask = push_bit (unat Bits) MAXINDEX;
               Bits = 32 - Bits
           in if n < Bits
              then
                let Bits = Bits - n;
                    Mask = drop_bit (unat Bits) (push_bit (unat Bits) Mask)
                in do {
                  buf \<leftarrow> array_modify (Buffer bm) p (put_mask b Mask);
                  Some (bm\<lparr>Buffer := buf\<rparr>)
                }
              else do {
                buf \<leftarrow> array_modify (Buffer bm) p (put_mask b Mask);
                buf \<leftarrow> put_tail b buf (Suc p) (n - Bits);
                Some (bm\<lparr>Buffer := buf\<rparr>)
              }
         else do {
           buf \<leftarrow> put_tail b (Buffer bm) p n;
           Some (bm\<lparr>Buffer := buf\<rparr>)
         })"

definition popcount :: "'a::len word \<Rightarrow> nat" where
  "popcount w = length (filter (bit w) [0..<LENGTH('a)])"

section \<open>Range updates\<close>

lemma put_mask_True: "put_mask True Mask = (\<lambda>v. v OR Mask)"
  and put_mask_False: "put_mask False Mask = (\<lambda>v. v AND NOT Mask)"
  and put_mask_False_not: "put_mask False (NOT Mask) = (\<lambda>v. v AND Mask)"
  by (simp_all add: put_mask_def fun_eq_iff)

lemma RtlSetBits_tail_alt: "RtlSetBits_tail = put_tail True"
  by (intro ext, unfold RtlSetBits_tail_def put_tail_def Let_def put_mask_True) (rule arg_cong2, simp_all)

lemma RtlClearBits_tail_alt: "RtlClearBits_tail = put_tail False"
  by (intro ext, unfold RtlClearBits_tail_def put_tail_def Let_def put_mask_False_not) simp

lemma RtlSetBits_alt: "RtlSetBits = put_bits True"
  by (intro ext, unfold RtlSetBits_def put_bits_def Let_def put_mask_True RtlSetBits_tail_alt) simp

lemma RtlClearBits_alt: "RtlClearBits = put_bits False"
  by (intro ext, unfold RtlClearBits_def put_bits_def Let_def put_mask_False RtlClearBits_tail_alt) simp

lemma bit_MAXINDEX: "bit MAXINDEX j \<longleftrightarrow> j < 32"
proof -
  have "MAXINDEX = - 1" by simp
  then show ?thesis by (simp only: bit_minus_1_iff) simp
qed

lemma bit_high_mask: "bit (push_bit k MAXINDEX) j \<longleftrightarrow> k \<le> j \<and> j < 32"
  by (simp only: bit_push_bit_iff bit_MAXINDEX) auto

lemma bit_mid_mask:
  assumes "k + n + c = 32"
  shows "bit (drop_bit c (push_bit c (push_bit k MAXINDEX))) j \<longleftrightarrow> k \<le> j \<and> j < k + n"
proof -
  have "bit (drop_bit c (push_bit c (push_bit k MAXINDEX))) j \<longleftrightarrow> c + j < 32 \<and> bit (push_bit k MAXINDEX) j"
    by (simp only: bit_drop_bit_eq o_def bit_push_bit_iff) simp
  then show ?thesis using assms by (auto simp only: bit_high_mask)
qed

lemma bits_modify:
  assumes "p < length buf"
  obtains buf' where "array_modify buf p (put_mask b Mask) = Some buf'" "length buf' = length buf"
    "\<And>i. bits buf' i \<longleftrightarrow> (if i div 32 = p \<and> bit Mask (i mod 32) then b else bits buf i)"
proof
  show "array_modify buf p (put_mask b Mask) = Some (buf[p := put_mask b Mask (buf ! p)])"
    using assms by (simp add: array_modify_def)
  show "bits (buf[p := put_mask b Mask (buf ! p)]) i \<longleftrightarrow>
      (if i div 32 = p \<and> bit Mask (i mod 32) then b else bits buf i)" for i
    using assms by (cases "i div 32 = p") (auto simp: bits_def put_mask_def bit_simps)
qed simp

lemma bits_fill:
  assumes "p + k \<le> length buf"
  obtains buf' where "array_blit buf p (replicate k (if b then MAXINDEX else 0)) = Some buf'"
    "length buf' = length buf"
    "\<And>i. i < 32 * length buf \<Longrightarrow>
       bits buf' i \<longleftrightarrow> (if 32 * p \<le> i \<and> i < 32 * (p + k) then b else bits buf i)"
proof -
  obtain buf' where blit: "array_blit buf p (replicate k (if b then MAXINDEX else 0)) = Some buf'"
    using assms by (simp add: array_blit_Some)
  have "bits buf' i \<longleftrightarrow> (if 32 * p \<le> i \<and> i < 32 * (p + k) then b else bits buf i)"
    if "i < 32 * length buf" for i
  proof -
    have "i div 32 < length buf" using that by auto
    note nth = array_blit_nth [OF blit this]
    have "p \<le> i div 32 \<and> i div 32 < p + k \<longleftrightarrow> 32 * p \<le> i \<and> i < 32 * (p + k)" by auto
    then show ?thesis using nth by (auto simp: bits_def bit_MAXINDEX simp del: bit_numeral_word_iff)
  qed
  with blit array_blit_length [OF blit] show ?thesis by (rule that)
qed

lemma put_tail_ok:
  assumes "32 * p + unat n \<le> 32 * length buf"
  obtains buf' where "put_tail b buf p n = Some buf'" "length buf' = length buf"
    "\<And>i. i < 32 * length buf \<Longrightarrow>
       bits buf' i \<longleftrightarrow> (if 32 * p \<le> i \<and> i < 32 * p + unat n then b else bits buf i)"
proof -
  define k where "k = unat n div 32"
  have k: "unat (drop_bit 3 n) div 4 = k"
    by (simp add: k_def drop_bit_eq_div unat_div div_mult2_eq [symmetric])
  have "p + k \<le> length buf" using assms unfolding k_def by linarith
  then obtain buf1 where b1: "array_blit buf p (replicate k (if b then MAXINDEX else 0)) = Some buf1"
    "length buf1 = length buf"
    "\<And>i. i < 32 * length buf \<Longrightarrow>
       bits buf1 i \<longleftrightarrow> (if 32 * p \<le> i \<and> i < 32 * (p + k) then b else bits buf i)"
    by (rule bits_fill) blast
  show ?thesis
  proof (cases "unat n mod 32 = 0")
    case True
    then have "n AND 31 = 0" by (simp add: and_31_eq_0_iff)
    then have "put_tail b buf p n = Some buf1" using b1(1) by (simp add: put_tail_def RtlFillMemoryUlong_def k)
    moreover have "unat n = 32 * k" using True unfolding k_def by auto
    ultimately show ?thesis using b1(2,3) by (intro that [of buf1]) (simp_all add: algebra_simps)
  next
    case False
    then have nz: "n AND 31 \<noteq> 0" by (simp add: and_31_eq_0_iff)
    have "unat n = 32 * k + unat n mod 32" by (simp add: k_def)
    then have pk: "p + k < length buf1" using assms False b1(2) by linarith
    obtain buf2 where b2: "array_modify buf1 (p + k) (put_mask b (NOT (push_bit (unat n mod 32) MAXINDEX))) = Some buf2"
      "length buf2 = length buf1"
      "\<And>i. bits buf2 i \<longleftrightarrow> (if i div 32 = p + k \<and> bit (NOT (push_bit (unat n mod 32) MAXINDEX)) (i mod 32) then b else bits buf1 i)"
      by (rule bits_modify [OF pk]) blast
    have "put_tail b buf p n = Some buf2"
      using b1(1) b2(1) nz by (simp add: put_tail_def RtlFillMemoryUlong_def k k_def)
    moreover have "bits buf2 i \<longleftrightarrow> (if 32 * p \<le> i \<and> i < 32 * p + unat n then b else bits buf i)"
      if "i < 32 * length buf" for i
    proof -
      have low: "bit (NOT (push_bit (unat n mod 32) MAXINDEX)) (i mod 32) \<longleftrightarrow> i mod 32 < unat n mod 32"
        by (simp add: bit_not_iff bit_high_mask not_le)
      have nk: "unat n = 32 * k + unat n mod 32" by (simp add: k_def)
      have "32 * p \<le> i \<and> i < 32 * p + unat n \<longleftrightarrow>
          (32 * p \<le> i \<and> i < 32 * (p + k)) \<or> (i div 32 = p + k \<and> i mod 32 < unat n mod 32)"
        by (subst nk, rule div_32_tail) simp
      then show ?thesis unfolding b2(3) low using b1(3) [OF that] by auto
    qed
    ultimately show ?thesis using b1(2) b2(2) by (intro that [of buf2]) simp_all
  qed
qed

lemma put_bits_ok:
  assumes range: "unat Start + unat n \<le> 32 * length (Buffer bm)"
  obtains bm' where "put_bits b bm Start n = Some bm'" "SizeOfBitMap bm' = SizeOfBitMap bm"
    "length (Buffer bm') = length (Buffer bm)"
    "\<And>i. i < 32 * length (Buffer bm) \<Longrightarrow>
       bits (Buffer bm') i \<longleftrightarrow>
         (if unat Start \<le> i \<and> i < unat Start + unat n then b else bits (Buffer bm) i)"
proof -
  let ?S = "unat Start" and ?buf = "Buffer bm"
  define p where "p = ?S div 32"
  define k where "k = ?S mod 32"
  have S: "?S = 32 * p + k" and k32: "k < 32" by (simp_all add: p_def k_def)
  have k: "unat (Start AND 31) = k" by (simp add: k_def)
  have sub: "unat (32 - (Start AND 31)) = 32 - k" using k k32 by (subst unat_sub) (auto simp: word_le_nat_alt)
  show ?thesis
  proof (cases "k = 0")
    case True
    then have z: "Start AND 31 = 0" by (simp add: and_31_eq_0_iff k_def)
    have "32 * p + unat n \<le> 32 * length ?buf" using range S True by simp
    then obtain buf' where t: "put_tail b ?buf p n = Some buf'" "length buf' = length ?buf"
      "\<And>i. i < 32 * length ?buf \<Longrightarrow>
         bits buf' i \<longleftrightarrow> (if 32 * p \<le> i \<and> i < 32 * p + unat n then b else bits ?buf i)"
      by (rule put_tail_ok) blast
    have "put_bits b bm Start n = Some (bm\<lparr>Buffer := buf'\<rparr>)"
      using z t(1) by (simp add: put_bits_def p_def)
    then show ?thesis using t(2,3) S True by (intro that [of "bm\<lparr>Buffer := buf'\<rparr>"]) simp_all
  next
    case False
    then have nz: "Start AND 31 \<noteq> 0" by (simp add: and_31_eq_0_iff k_def)
    have p: "p < length ?buf" using range False unfolding S by linarith
    show ?thesis
    proof (cases "n < 32 - (Start AND 31)")
      case True
      then have nk: "unat n < 32 - k" using sub by (simp add: word_less_nat_alt)
      have c: "unat (32 - (Start AND 31) - n) = 32 - k - unat n"
        using True sub by (subst unat_sub) auto
      have mask: "bit (drop_bit (32 - k - unat n) (push_bit (32 - k - unat n) (push_bit k MAXINDEX))) j
          \<longleftrightarrow> k \<le> j \<and> j < k + unat n" for j
        using nk by (intro bit_mid_mask) simp
      obtain buf' where t: "array_modify ?buf p (put_mask b
          (drop_bit (32 - k - unat n) (push_bit (32 - k - unat n) (push_bit k MAXINDEX)))) = Some buf'"
        "length buf' = length ?buf"
        "\<And>i. bits buf' i \<longleftrightarrow> (if i div 32 = p \<and> bit (drop_bit (32 - k - unat n)
            (push_bit (32 - k - unat n) (push_bit k MAXINDEX))) (i mod 32) then b else bits ?buf i)"
        by (rule bits_modify [OF p]) blast
      have "put_bits b bm Start n = Some (bm\<lparr>Buffer := buf'\<rparr>)"
        using nz True t(1) unfolding put_bits_def Let_def c k unat_div_32 p_def [symmetric] by simp
      moreover have "(i div 32 = p \<and> k \<le> i mod 32 \<and> i mod 32 < k + unat n) \<longleftrightarrow> ?S \<le> i \<and> i < ?S + unat n" for i
        using nk unfolding S by (simp add: div_32_range add.assoc)
      ultimately show ?thesis
        using t(2,3) unfolding mask by (intro that [of "bm\<lparr>Buffer := buf'\<rparr>"]) simp_all
    next
      case ge: False
      then have nk: "32 - k \<le> unat n" using sub by (simp add: word_less_nat_alt)
      have c: "unat (n - (32 - (Start AND 31))) = unat n - (32 - k)"
        using ge sub by (subst unat_sub) auto
      obtain buf1 where b1: "array_modify ?buf p (put_mask b (push_bit k MAXINDEX)) = Some buf1"
        "length buf1 = length ?buf"
        "\<And>i. bits buf1 i \<longleftrightarrow> (if i div 32 = p \<and> bit (push_bit k MAXINDEX) (i mod 32) then b else bits ?buf i)"
        by (rule bits_modify [OF p]) blast
      have "32 * Suc p + unat (n - (32 - (Start AND 31))) \<le> 32 * length buf1"
        using range nk k32 b1(2) S c by simp
      then obtain buf2 where b2: "put_tail b buf1 (Suc p) (n - (32 - (Start AND 31))) = Some buf2"
        "length buf2 = length buf1"
        "\<And>i. i < 32 * length buf1 \<Longrightarrow> bits buf2 i \<longleftrightarrow>
           (if 32 * Suc p \<le> i \<and> i < 32 * Suc p + unat (n - (32 - (Start AND 31))) then b else bits buf1 i)"
        by (rule put_tail_ok) blast
      have "put_bits b bm Start n = Some (bm\<lparr>Buffer := buf2\<rparr>)"
        using nz ge b1(1) b2(1) unfolding put_bits_def Let_def k unat_div_32 p_def [symmetric] by simp
      moreover have "bits buf2 i \<longleftrightarrow> (if ?S \<le> i \<and> i < ?S + unat n then b else bits ?buf i)"
        if "i < 32 * length ?buf" for i
      proof -
        have "?S \<le> i \<and> i < ?S + unat n \<longleftrightarrow>
          (i div 32 = p \<and> k \<le> i mod 32) \<or> (32 * Suc p \<le> i \<and> i < 32 * Suc p + (unat n - (32 - k)))"
          unfolding S by (rule div_32_head [OF k32 nk])
        moreover have "i mod 32 < 32" by simp
        ultimately show ?thesis
          using b2(3) [of i] that b1(2) unfolding b1(3) bit_high_mask c by simp
      qed
      ultimately show ?thesis
        using b1(2) b2(2) by (intro that [of "bm\<lparr>Buffer := buf2\<rparr>"]) simp_all
    qed
  qed
qed

lemma popcount_UCHAR: "popcount (b :: UCHAR) = length (filter (bit b) [0..<8])"
  by (simp add: popcount_def)

lemma BitCountTable_popcount: "BitCountTable ! unat (b :: UCHAR) = popcount b"
proof -
  have "list_all (\<lambda>v. BitCountTable ! v = popcount (of_nat v :: UCHAR)) [0..<256]"
    by code_simp
  then have "\<forall>v<256. BitCountTable ! v = popcount (of_nat v :: UCHAR)"
    by (simp add: list_all_iff)
  moreover have "unat b < 256" using unsigned_less [of b] by simp
  ultimately have "BitCountTable ! unat b = popcount (of_nat (unat b) :: UCHAR)" by blast
  then show ?thesis by simp
qed

lemma length_filter_shift:
  "length (filter P [a..<a + n]) = length (filter (\<lambda>j. P (a + j)) [0..<n])"
  by (induction n) simp_all

lemma buffer_byte_Some:
  assumes "k < 4 * length buf"
  obtains b where "buffer_byte buf k = Some b" "\<And>j. j < 8 \<Longrightarrow> bit b j \<longleftrightarrow> bits buf (8 * k + j)"
proof
  have lt: "k div 4 < length buf" using assms by auto
  show "buffer_byte buf k = Some (ucast (drop_bit (8 * (k mod 4)) (buf ! (k div 4))))"
    using lt by (simp add: buffer_byte_def)
  fix j :: nat assume j: "j < 8"
  have "(8 * k + j) div 32 = k div 4" "(8 * k + j) mod 32 = 8 * (k mod 4) + j"
  proof -
    have k: "k = 4 * (k div 4) + k mod 4" "k mod 4 < 4" by simp_all
    define d m where "d = k div 4" and "m = k mod 4"
    have "8 * k + j = 32 * d + (8 * m + j)" using k unfolding d_def m_def by linarith
    moreover have "8 * m + j < 32" using k(2) j unfolding m_def by linarith
    ultimately show "(8 * k + j) div 32 = k div 4" "(8 * k + j) mod 32 = 8 * (k mod 4) + j"
      unfolding d_def [symmetric] m_def [symmetric]
      by (simp_all only: div_mult_self4 mod_mult_self4 mod_less div_less)
  qed
  then show "bit (ucast (drop_bit (8 * (k mod 4)) (buf ! (k div 4))) :: UCHAR) j \<longleftrightarrow> bits buf (8 * k + j)"
    using j by (simp add: bits_def bit_simps)
qed

lemma popcount_byte:
  assumes "\<And>j. j < 8 \<Longrightarrow> bit (b :: UCHAR) j \<longleftrightarrow> bits buf (8 * k + j)"
  shows "popcount b = length (filter (bits buf) [8 * k..<8 * k + 8])"
proof -
  have "filter (bit b) [0..<8] = filter (\<lambda>j. bits buf (8 * k + j)) [0..<8]"
    using assms by (intro filter_cong) auto
  then show ?thesis by (simp only: popcount_UCHAR length_filter_shift)
qed

lemma count_bytes_ok:
  assumes "k + n \<le> 4 * length buf"
  shows "count_bytes buf k n c = Some (c + of_nat (length (filter (bits buf) [8 * k..<8 * (k + n)])))"
  using assms
proof (induction n arbitrary: k c)
  case 0
  then show ?case by simp
next
  case (Suc n)
  then obtain b where b: "buffer_byte buf k = Some b" "\<And>j. j < 8 \<Longrightarrow> bit b j \<longleftrightarrow> bits buf (8 * k + j)"
    by (metis add_lessD1 add_Suc_right buffer_byte_Some less_eq_Suc_le)
  have split: "[8 * k..<8 * (k + Suc n)] = [8 * k..<8 * k + 8] @ [8 * Suc k..<8 * (Suc k + n)]"
    using upt_add_eq_append [of "8 * k" "8 * k + 8" "8 * n"] by (simp add: algebra_simps)
  show ?case
    using Suc.prems b(1) Suc.IH [of "Suc k"] unfolding split
    by (simp add: BitCountTable_popcount popcount_byte [OF b(2)] algebra_simps)
qed

lemma popcount_push:
  assumes "r \<le> 8"
  shows "popcount (push_bit (8 - r) (b :: UCHAR)) = length (filter (bit b) [0..<r])"
proof -
  have "[0..<8] = [0..<8 - r] @ [8 - r..<8 - r + r]"
    using assms by (metis le_add_diff_inverse2 upt_add_eq_append zero_le)
  moreover have "filter (bit (push_bit (8 - r) b)) [0..<8 - r] = []"
    by (auto simp: filter_empty_conv bit_push_bit_iff)
  moreover have "filter (\<lambda>j. bit (push_bit (8 - r) b) (8 - r + j)) [0..<r] = filter (bit b) [0..<r]"
    using assms by (intro filter_cong) (auto simp: bit_push_bit_iff)
  ultimately show ?thesis
    by (simp only: popcount_UCHAR filter_append length_append length_filter_shift) simp
qed

lemma RtlNumberOfSetBits_ok:
  assumes wf: "wf_bitmap bm"
  shows "RtlNumberOfSetBits bm = Some (of_nat (length (filter (bits (Buffer bm)) [0..<unat (SizeOfBitMap bm)])))"
proof -
  let ?Z = "unat (SizeOfBitMap bm)" and ?buf = "Buffer bm"
  define k where "k = ?Z div 8"
  define r where "r = ?Z mod 8"
  have Z: "?Z = 8 * k + r" "r < 8" by (simp_all add: k_def r_def)
  have size: "?Z \<le> 32 * length ?buf" using wf by (simp add: wf_bitmap_def)
  have k4: "0 + k \<le> 4 * length ?buf" using size Z by linarith
  have kd: "unat (SizeOfBitMap bm div 8) = k" by (simp add: k_def unat_div)
  note bytes = count_bytes_ok [OF k4, of 0, simplified]
  show ?thesis
  proof (cases "r = 0")
    case True
    then have "SizeOfBitMap bm AND 7 = 0" by (simp add: and_7_eq_0_iff r_def)
    then show ?thesis using bytes Z True by (simp add: RtlNumberOfSetBits_def kd)
  next
    case False
    then have nz: "SizeOfBitMap bm AND 7 \<noteq> 0" by (simp add: and_7_eq_0_iff r_def)
    have "k < 4 * length ?buf" using size Z False by linarith
    then obtain b where b: "buffer_byte ?buf k = Some b" "\<And>j. j < 8 \<Longrightarrow> bit b j \<longleftrightarrow> bits ?buf (8 * k + j)"
      by (rule buffer_byte_Some) blast
    have "unat (8 - (SizeOfBitMap bm AND 7)) = 8 - r"
      using Z(2) by (subst unat_sub) (auto simp: word_le_nat_alt r_def)
    moreover have "popcount (push_bit (8 - r) b) = length (filter (bits ?buf) [8 * k..<8 * k + r])"
    proof -
      have "filter (bit b) [0..<r] = filter (\<lambda>j. bits ?buf (8 * k + j)) [0..<r]"
        using b(2) Z(2) by (intro filter_cong) auto
      then show ?thesis using Z(2) by (simp add: popcount_push length_filter_shift)
    qed
    moreover have "[0..<?Z] = [0..<8 * k] @ [8 * k..<8 * k + r]"
      unfolding Z(1) by (rule upt_add_eq_append) simp
    ultimately show ?thesis
      using bytes b(1) nz by (simp add: RtlNumberOfSetBits_def kd BitCountTable_popcount)
  qed
qed

section \<open>The bitmap as a set\<close>

lemma bit_at_bits: "bit_at bm = bits (Buffer bm)"
  by (simp add: fun_eq_iff bit_at_def bits_def)

lemma put_bits_range:
  assumes wf: "wf_bitmap bm" and range: "unat s + unat n \<le> unat (SizeOfBitMap bm)"
  shows "\<exists>bm'. put_bits b bm s n = Some bm' \<and> wf_bitmap bm' \<and> SizeOfBitMap bm' = SizeOfBitMap bm \<and>
    (\<forall>i < 32 * length (Buffer bm). bit_at bm' i \<longleftrightarrow>
       (if unat s \<le> i \<and> i < unat s + unat n then b else bit_at bm i))"
proof -
  have "unat s + unat n \<le> 32 * length (Buffer bm)" using wf range by (simp add: wf_bitmap_def)
  then obtain bm' where "put_bits b bm s n = Some bm'" "SizeOfBitMap bm' = SizeOfBitMap bm"
    "length (Buffer bm') = length (Buffer bm)"
    "\<And>i. i < 32 * length (Buffer bm) \<Longrightarrow> bits (Buffer bm') i \<longleftrightarrow>
         (if unat s \<le> i \<and> i < unat s + unat n then b else bits (Buffer bm) i)"
    by (rule put_bits_ok) blast
  then show ?thesis using wf by (auto simp: wf_bitmap_def bit_at_bits)
qed

lemma wf_size: "wf_bitmap bm \<Longrightarrow> i < unat (SizeOfBitMap bm) \<Longrightarrow> i < 32 * length (Buffer bm)"
  by (simp add: wf_bitmap_def)

lemma RtlSetBits_set:
  assumes wf: "wf_bitmap bm" and range: "unat s + unat n \<le> unat (SizeOfBitMap bm)"
  shows "\<exists>bm'. RtlSetBits bm s n = Some bm' \<and> wf_bitmap bm' \<and> SizeOfBitMap bm' = SizeOfBitMap bm \<and>
    bm_set bm' = bm_set bm \<union> {unat s..<unat s + unat n}"
proof -
  obtain bm' where bm': "put_bits True bm s n = Some bm'" "wf_bitmap bm'" "SizeOfBitMap bm' = SizeOfBitMap bm"
    "\<forall>i < 32 * length (Buffer bm). bit_at bm' i \<longleftrightarrow>
       (if unat s \<le> i \<and> i < unat s + unat n then True else bit_at bm i)"
    using put_bits_range [OF assms] by blast
  have "bit_at bm' i \<longleftrightarrow> unat s \<le> i \<and> i < unat s + unat n \<or> bit_at bm i"
    if "i < unat (SizeOfBitMap bm)" for i using bm'(4) wf_size [OF wf that] by auto
  then have "bm_set bm' = bm_set bm \<union> {unat s..<unat s + unat n}"
    using bm'(3) range by (auto simp: bm_set_def)
  then show ?thesis using bm' by (simp add: RtlSetBits_alt)
qed

lemma RtlClearBits_set:
  assumes wf: "wf_bitmap bm" and range: "unat s + unat n \<le> unat (SizeOfBitMap bm)"
  shows "\<exists>bm'. RtlClearBits bm s n = Some bm' \<and> wf_bitmap bm' \<and> SizeOfBitMap bm' = SizeOfBitMap bm \<and>
    bm_set bm' = bm_set bm - {unat s..<unat s + unat n}"
proof -
  obtain bm' where bm': "put_bits False bm s n = Some bm'" "wf_bitmap bm'" "SizeOfBitMap bm' = SizeOfBitMap bm"
    "\<forall>i < 32 * length (Buffer bm). bit_at bm' i \<longleftrightarrow>
       (if unat s \<le> i \<and> i < unat s + unat n then False else bit_at bm i)"
    using put_bits_range [OF assms] by blast
  have "bit_at bm' i \<longleftrightarrow> \<not> (unat s \<le> i \<and> i < unat s + unat n) \<and> bit_at bm i"
    if "i < unat (SizeOfBitMap bm)" for i using bm'(4) wf_size [OF wf that] by auto
  then have "bm_set bm' = bm_set bm - {unat s..<unat s + unat n}"
    using bm'(3) by (auto simp: bm_set_def)
  then show ?thesis using bm' by (simp add: RtlClearBits_alt)
qed

lemma bit_single: "bit (push_bit k (1 :: ULONG)) j \<longleftrightarrow> j = k \<and> k < 32"
  by (auto simp: bit_exp_iff)

lemma put_bit_ok:
  fixes i :: ULONG
  assumes "unat i < 32 * length (Buffer bm)"
  obtains bm' where "do { buf \<leftarrow> array_modify (Buffer bm) (unat (i div 32)) (put_mask b (push_bit (unat (i AND 31)) 1));
      Some (bm\<lparr>Buffer := buf\<rparr>) } = Some bm'" "SizeOfBitMap bm' = SizeOfBitMap bm"
    "length (Buffer bm') = length (Buffer bm)" "\<And>j. bit_at bm' j \<longleftrightarrow> (if j = unat i then b else bit_at bm j)"
proof -
  have "unat i div 32 < length (Buffer bm)" using assms by auto
  then obtain buf' where buf': "array_modify (Buffer bm) (unat i div 32) (put_mask b (push_bit (unat i mod 32) 1)) = Some buf'"
    "length buf' = length (Buffer bm)"
    "\<And>j. bits buf' j \<longleftrightarrow> (if j div 32 = unat i div 32 \<and> bit (push_bit (unat i mod 32) (1 :: ULONG)) (j mod 32) then b else bits (Buffer bm) j)"
    by (rule bits_modify) blast
  have "j div 32 = unat i div 32 \<and> j mod 32 = unat i mod 32 \<longleftrightarrow> j = unat i" for j
    by (metis mult_div_mod_eq)
  then show ?thesis
    using buf' by (intro that [of "bm\<lparr>Buffer := buf'\<rparr>"]) (simp_all add: bit_at_bits bit_single del: push_bit_of_1)
qed

lemma RtlSetBit_alt: "RtlSetBit bm i =
    do { buf \<leftarrow> array_modify (Buffer bm) (unat (i div 32)) (put_mask True (push_bit (unat (i AND 31)) 1));
      Some (bm\<lparr>Buffer := buf\<rparr>) }"
  and RtlClearBit_alt: "RtlClearBit bm i =
    do { buf \<leftarrow> array_modify (Buffer bm) (unat (i div 32)) (put_mask False (push_bit (unat (i AND 31)) 1));
      Some (bm\<lparr>Buffer := buf\<rparr>) }"
  by (simp_all add: RtlSetBit_def RtlClearBit_def array_modify_def put_mask_def del: push_bit_of_1)

lemma RtlSetBit_set:
  assumes wf: "wf_bitmap bm" and i: "i < SizeOfBitMap bm"
  shows "\<exists>bm'. RtlSetBit bm i = Some bm' \<and> wf_bitmap bm' \<and> SizeOfBitMap bm' = SizeOfBitMap bm \<and>
    bm_set bm' = insert (unat i) (bm_set bm)"
proof -
  have lt: "unat i < unat (SizeOfBitMap bm)" using i by (simp add: word_less_nat_alt)
  obtain bm' where bm': "RtlSetBit bm i = Some bm'" "SizeOfBitMap bm' = SizeOfBitMap bm"
    "length (Buffer bm') = length (Buffer bm)" "\<And>j. bit_at bm' j \<longleftrightarrow> (if j = unat i then True else bit_at bm j)"
    unfolding RtlSetBit_alt using put_bit_ok [OF wf_size [OF wf lt], of True] by blast
  have "bm_set bm' = insert (unat i) (bm_set bm)"
    using bm'(2,4) lt by (auto simp: bm_set_def)
  then show ?thesis using bm' wf by (simp add: wf_bitmap_def)
qed

lemma RtlClearBit_set:
  assumes wf: "wf_bitmap bm" and i: "i < SizeOfBitMap bm"
  shows "\<exists>bm'. RtlClearBit bm i = Some bm' \<and> wf_bitmap bm' \<and> SizeOfBitMap bm' = SizeOfBitMap bm \<and>
    bm_set bm' = bm_set bm - {unat i}"
proof -
  have lt: "unat i < unat (SizeOfBitMap bm)" using i by (simp add: word_less_nat_alt)
  obtain bm' where bm': "RtlClearBit bm i = Some bm'" "SizeOfBitMap bm' = SizeOfBitMap bm"
    "length (Buffer bm') = length (Buffer bm)" "\<And>j. bit_at bm' j \<longleftrightarrow> (if j = unat i then False else bit_at bm j)"
    unfolding RtlClearBit_alt using put_bit_ok [OF wf_size [OF wf lt], of False] by blast
  have "bm_set bm' = bm_set bm - {unat i}"
    using bm'(2,4) lt by (auto simp: bm_set_def)
  then show ?thesis using bm' wf by (simp add: wf_bitmap_def)
qed

lemma RtlTestBit_set:
  assumes wf: "wf_bitmap bm" and i: "i < SizeOfBitMap bm"
  shows "RtlTestBit bm i = Some (unat i \<in> bm_set bm)"
proof -
  have lt: "unat i < unat (SizeOfBitMap bm)" using i by (simp add: word_less_nat_alt)
  then have "unat i div 32 < length (Buffer bm)" using wf_size [OF wf] by (metis div_less_iff_less_mult mult.commute zero_less_numeral)
  moreover have "drop_bit k w AND 1 \<noteq> 0 \<longleftrightarrow> bit w k" for k and w :: ULONG
    by (simp add: and_one_eq bit_iff_odd_drop_bit odd_iff_mod_2_eq_one)
  ultimately show ?thesis
    using lt by (simp add: RtlTestBit_def bm_set_def bit_at_def)
qed

lemma fill_all_ok:
  assumes wf: "wf_bitmap bm"
  obtains buf' where "RtlFillMemoryUlong (Buffer bm) 0 (unat ((SizeOfBitMap bm + 32 - 1) div 32 * 4)) (if b then MAXINDEX else 0) = Some buf'"
    "length buf' = length (Buffer bm)" "\<And>i. i < unat (SizeOfBitMap bm) \<Longrightarrow> bits buf' i = b"
proof -
  let ?Z = "unat (SizeOfBitMap bm)"
  define k where "k = (?Z + 31) div 32"
  have Z: "?Z + 31 < 2 ^ 32" "?Z \<le> 32 * length (Buffer bm)" using wf by (simp_all add: wf_bitmap_def)
  have "unat (SizeOfBitMap bm + 31) = ?Z + 31" using Z(1) by (subst unat_add_small) simp_all
  moreover have "SizeOfBitMap bm + 32 - 1 = SizeOfBitMap bm + 31" by simp
  ultimately have "unat ((SizeOfBitMap bm + 32 - 1) div 32) = k" by (simp only: unat_div_32 k_def)
  moreover have "k * 4 < 2 ^ 32" using Z(1) unfolding k_def by simp
  ultimately have bytes: "unat ((SizeOfBitMap bm + 32 - 1) div 32 * 4) = k * 4"
    by (subst unat_mult_lem [THEN iffD1]) simp_all
  have "0 + k \<le> length (Buffer bm)" using Z(2) unfolding k_def by simp
  then obtain buf' where buf': "array_blit (Buffer bm) 0 (replicate k (if b then MAXINDEX else 0)) = Some buf'"
    "length buf' = length (Buffer bm)" "\<And>i. i < 32 * length (Buffer bm) \<Longrightarrow>
       bits buf' i \<longleftrightarrow> (if 32 * 0 \<le> i \<and> i < 32 * (0 + k) then b else bits (Buffer bm) i)"
    by (rule bits_fill) blast
  have "i < 32 * k" if "i < ?Z" for i using that unfolding k_def by linarith
  then have "bits buf' i = b" if "i < ?Z" for i using buf'(3) [of i] Z(2) that by simp
  moreover have "RtlFillMemoryUlong (Buffer bm) 0 (unat ((SizeOfBitMap bm + 32 - 1) div 32 * 4))
      (if b then MAXINDEX else 0) = Some buf'"
    unfolding RtlFillMemoryUlong_def bytes using buf'(1) by simp
  ultimately show ?thesis using buf'(2) that by blast
qed

lemma RtlSetAllBits_set:
  assumes wf: "wf_bitmap bm"
  shows "\<exists>bm'. RtlSetAllBits bm = Some bm' \<and> wf_bitmap bm' \<and> SizeOfBitMap bm' = SizeOfBitMap bm \<and>
    bm_set bm' = {..<unat (SizeOfBitMap bm)}"
proof -
  have not0: "NOT 0 = (if True then MAXINDEX else 0)" by simp
  obtain buf' where "RtlFillMemoryUlong (Buffer bm) 0 (unat ((SizeOfBitMap bm + 32 - 1) div 32 * 4)) (NOT 0) = Some buf'"
    "length buf' = length (Buffer bm)" "\<And>i. i < unat (SizeOfBitMap bm) \<Longrightarrow> bits buf' i = True"
    unfolding not0 by (rule fill_all_ok [OF wf]) blast
  then show ?thesis using wf
    by (intro exI [of _ "bm\<lparr>Buffer := buf'\<rparr>"]) (auto simp: RtlSetAllBits_def wf_bitmap_def bm_set_def bit_at_bits)
qed

lemma RtlClearAllBits_set:
  assumes wf: "wf_bitmap bm"
  shows "\<exists>bm'. RtlClearAllBits bm = Some bm' \<and> wf_bitmap bm' \<and> SizeOfBitMap bm' = SizeOfBitMap bm \<and>
    bm_set bm' = {}"
proof -
  have z: "0 = (if False then MAXINDEX else 0)" by simp
  obtain buf' where "RtlFillMemoryUlong (Buffer bm) 0 (unat ((SizeOfBitMap bm + 32 - 1) div 32 * 4)) 0 = Some buf'"
    "length buf' = length (Buffer bm)" "\<And>i. i < unat (SizeOfBitMap bm) \<Longrightarrow> bits buf' i = False"
    using fill_all_ok [OF wf, of False] by auto
  then show ?thesis using wf
    by (intro exI [of _ "bm\<lparr>Buffer := buf'\<rparr>"]) (auto simp: RtlClearAllBits_def wf_bitmap_def bm_set_def bit_at_bits)
qed

lemma card_bm_set: "length (filter (bits (Buffer bm)) [0..<unat (SizeOfBitMap bm)]) = card (bm_set bm)"
  by (simp add: length_filter_conv_card bm_set_def bit_at_bits cong: conj_cong)

locale range_set =
  fixes inv :: "'b \<Rightarrow> bool" and elems :: "'b \<Rightarrow> nat set" and cap :: "'b \<Rightarrow> nat"
    and add del :: "'b \<Rightarrow> ULONG \<Rightarrow> ULONG \<Rightarrow> 'b option"
  assumes add_ok: "inv b \<Longrightarrow> unat s + unat n \<le> cap b \<Longrightarrow>
      \<exists>b'. add b s n = Some b' \<and> inv b' \<and> cap b' = cap b \<and> elems b' = elems b \<union> {unat s..<unat s + unat n}"
    and del_ok: "inv b \<Longrightarrow> unat s + unat n \<le> cap b \<Longrightarrow>
      \<exists>b'. del b s n = Some b' \<and> inv b' \<and> cap b' = cap b \<and> elems b' = elems b - {unat s..<unat s + unat n}"
begin

lemma add_del:
  assumes "inv b" "unat s + unat n \<le> cap b" "elems b \<inter> {unat s..<unat s + unat n} = {}"
  shows "\<exists>b' b''. add b s n = Some b' \<and> del b' s n = Some b'' \<and> inv b'' \<and> elems b'' = elems b"
proof -
  obtain b' where b': "add b s n = Some b'" "inv b'" "cap b' = cap b" "elems b' = elems b \<union> {unat s..<unat s + unat n}"
    using add_ok [OF assms(1,2)] by blast
  moreover obtain b'' where "del b' s n = Some b''" "inv b''" "elems b'' = elems b' - {unat s..<unat s + unat n}"
    using del_ok [OF b'(2), of s n] assms(2) b'(3) by auto
  ultimately show ?thesis using assms(3) by blast
qed

lemma del_commute:
  assumes "inv b" "unat s + unat n \<le> cap b" "unat s' + unat n' \<le> cap b"
  shows "\<exists>b1 b2 c1 c2. del b s n = Some b1 \<and> del b1 s' n' = Some b2 \<and>
    del b s' n' = Some c1 \<and> del c1 s n = Some c2 \<and> elems b2 = elems c2"
proof -
  obtain b1 where b1: "del b s n = Some b1" "inv b1" "cap b1 = cap b" "elems b1 = elems b - {unat s..<unat s + unat n}"
    using del_ok [OF assms(1,2)] by blast
  obtain c1 where c1: "del b s' n' = Some c1" "inv c1" "cap c1 = cap b" "elems c1 = elems b - {unat s'..<unat s' + unat n'}"
    using del_ok [OF assms(1,3)] by blast
  obtain b2 where "del b1 s' n' = Some b2" "elems b2 = elems b1 - {unat s'..<unat s' + unat n'}"
    using del_ok [OF b1(2), of s' n'] assms(3) b1(3) by auto
  moreover obtain c2 where "del c1 s n = Some c2" "elems c2 = elems c1 - {unat s..<unat s + unat n}"
    using del_ok [OF c1(2), of s n] assms(2) c1(3) by auto
  ultimately show ?thesis using b1 c1 by blast
qed

end

interpretation bitmap_set: range_set wf_bitmap bm_set "\<lambda>bm. unat (SizeOfBitMap bm)" RtlSetBits RtlClearBits
  by unfold_locales (use RtlSetBits_set RtlClearBits_set in fastforce)+

lemma all_clear_disjoint:
  assumes "unat pos + n \<le> unat (SizeOfBitMap bm)"
  shows "all_in (\<lambda>i. \<not> bit_at bm i) (unat pos) n \<longleftrightarrow> bm_set bm \<inter> {unat pos..<unat pos + n} = {}"
  using less_le_trans [OF _ assms] by (fastforce simp: all_in_def bm_set_def disjoint_iff)

lemma find_clear_bits_disjoint:
  assumes "wf_bitmap bm" and "unat (SizeOfBitMap bm) < 2 ^ 31" and "0 < N"
  obtains "RtlFindClearBits (Some bm) N Hint = Some MAXINDEX"
  | pos where "RtlFindClearBits (Some bm) N Hint = Some pos" "pos \<noteq> MAXINDEX"
    "unat pos + unat N \<le> unat (SizeOfBitMap bm)" "bm_set bm \<inter> {unat pos..<unat pos + unat N} = {}"
proof -
  have within: "x < y \<longleftrightarrow> unat x + 1 \<le> unat y" for x y :: ULONG
    by (simp add: word_less_nat_alt Suc_le_eq)
  have "0 < unat N" using assms(3) by (simp add: word_less_nat_alt)
  from clear_runs.find_bits_ok [OF assms(1,2) within order.refl this, of Hint]
  obtain pos where "RtlFindClearBits (Some bm) N Hint = Some pos"
    "pos \<noteq> MAXINDEX \<longrightarrow> unat pos + unat N \<le> unat (SizeOfBitMap bm) \<and>
       all_in (\<lambda>i. \<not> bit_at bm i) (unat pos) (unat N)"
    unfolding RtlFindClearBits_def option.case by blast
  then show ?thesis using that all_clear_disjoint by (cases "pos = MAXINDEX") blast+
qed

section \<open>Properties\<close>

text \<open>
  C10. RtlSetBits on a range inside a well-formed bitmap succeeds, keeps the bitmap well-
  formed and its size, adds exactly the range to the set of its bits, and leaves the bits of
  the last word past the end of the bitmap unchanged.
\<close>

theorem RtlSetBits_union:
  assumes "wf_bitmap bm" and "unat Start + unat n \<le> unat (SizeOfBitMap bm)"
  shows "\<exists>bm'. RtlSetBits bm Start n = Some bm' \<and> wf_bitmap bm' \<and>
    SizeOfBitMap bm' = SizeOfBitMap bm \<and>
    bm_set bm' = bm_set bm \<union> {unat Start..<unat Start + unat n} \<and>
    (\<forall>i. unat (SizeOfBitMap bm) \<le> i \<and> i < 32 * length (Buffer bm) \<longrightarrow> bit_at bm' i = bit_at bm i)"
proof -
  obtain bm' where bm': "RtlSetBits bm Start n = Some bm'" "\<forall>i < 32 * length (Buffer bm). bit_at bm' i \<longleftrightarrow>
       (if unat Start \<le> i \<and> i < unat Start + unat n then True else bit_at bm i)"
    using put_bits_range [OF assms, of True] unfolding RtlSetBits_alt by blast
  then show ?thesis using RtlSetBits_set [OF assms] assms(2) by auto
qed

theorem RtlSetBits_union_witness:
  "\<exists>bm'. RtlSetBits \<lparr>SizeOfBitMap = 40, Buffer = [1, 0xF00]\<rparr> 30 8 = Some bm' \<and>
     bm_set bm' = bm_set \<lparr>SizeOfBitMap = 40, Buffer = [1, 0xF00]\<rparr> \<union> {30..<38}"
  using RtlSetBits_union [of "\<lparr>SizeOfBitMap = 40, Buffer = [1, 0xF00]\<rparr>" 30 8]
  by (auto simp: wf_bitmap_def)

text \<open>
  RtlClearBits on a range inside a well-formed bitmap succeeds, keeps the bitmap well-formed
  and its size, removes exactly the range from the set of its bits, and leaves the bits past
  the end of the bitmap unchanged.
\<close>

theorem RtlClearBits_difference:
  assumes "wf_bitmap bm" and "unat Start + unat n \<le> unat (SizeOfBitMap bm)"
  shows "\<exists>bm'. RtlClearBits bm Start n = Some bm' \<and> wf_bitmap bm' \<and>
    SizeOfBitMap bm' = SizeOfBitMap bm \<and>
    bm_set bm' = bm_set bm - {unat Start..<unat Start + unat n} \<and>
    (\<forall>i. unat (SizeOfBitMap bm) \<le> i \<and> i < 32 * length (Buffer bm) \<longrightarrow> bit_at bm' i = bit_at bm i)"
proof -
  obtain bm' where bm': "RtlClearBits bm Start n = Some bm'" "\<forall>i < 32 * length (Buffer bm). bit_at bm' i \<longleftrightarrow>
       (if unat Start \<le> i \<and> i < unat Start + unat n then False else bit_at bm i)"
    using put_bits_range [OF assms, of False] unfolding RtlClearBits_alt by blast
  then show ?thesis using RtlClearBits_set [OF assms] assms(2) by auto
qed

theorem RtlClearBits_difference_witness:
  "\<exists>bm'. RtlClearBits \<lparr>SizeOfBitMap = 40, Buffer = [MAXINDEX, 0xFFF]\<rparr> 30 8 = Some bm' \<and>
     bm_set bm' = bm_set \<lparr>SizeOfBitMap = 40, Buffer = [MAXINDEX, 0xFFF]\<rparr> - {30..<38}"
  using RtlClearBits_difference [of "\<lparr>SizeOfBitMap = 40, Buffer = [MAXINDEX, 0xFFF]\<rparr>" 30 8]
  by (auto simp: wf_bitmap_def)

text \<open>
  C13. RtlFindClearBitsAndSet either fails with MAXINDEX and leaves the bitmap as it was, or
  returns a position whose bits were all clear and adds exactly them to the set;
  RtlClearBits on what was returned then restores the set of the bitmap before the call.
\<close>

theorem RtlFindClearBitsAndSet_allocates:
  assumes "wf_bitmap bm" and "unat (SizeOfBitMap bm) < 2 ^ 31" and "0 < N"
  shows "\<exists>pos bm'. RtlFindClearBitsAndSet bm N Hint = Some (pos, bm') \<and>
    (pos = MAXINDEX \<and> bm' = bm \<or>
     unat pos + unat N \<le> unat (SizeOfBitMap bm) \<and>
     bm_set bm \<inter> {unat pos..<unat pos + unat N} = {} \<and>
     bm_set bm' = bm_set bm \<union> {unat pos..<unat pos + unat N} \<and>
     (\<exists>bm''. RtlClearBits bm' pos N = Some bm'' \<and> wf_bitmap bm'' \<and> bm_set bm'' = bm_set bm))"
proof (cases rule: find_clear_bits_disjoint [OF assms, of Hint])
  case 1
  then show ?thesis by (simp add: RtlFindClearBitsAndSet_def)
next
  case (2 pos)
  obtain bm' where bm': "RtlSetBits bm pos N = Some bm'" "bm_set bm' = bm_set bm \<union> {unat pos..<unat pos + unat N}"
    using RtlSetBits_set [OF assms(1) 2(3)] by blast
  moreover obtain bm'' where "RtlClearBits bm' pos N = Some bm''" "wf_bitmap bm''" "bm_set bm'' = bm_set bm"
    using bitmap_set.add_del [OF assms(1) 2(3,4)] bm'(1) by auto
  moreover have "RtlFindClearBitsAndSet bm N Hint = Some (pos, bm')"
    using 2(1,2) bm'(1) by (simp add: RtlFindClearBitsAndSet_def)
  ultimately show ?thesis using 2(3,4) by blast
qed

theorem RtlFindClearBitsAndSet_allocates_witness:
  "RtlFindClearBitsAndSet \<lparr>SizeOfBitMap = 32, Buffer = [0x0000FF0F]\<rparr> 4 0 =
     Some (4, \<lparr>SizeOfBitMap = 32, Buffer = [0x0000FFFF]\<rparr>) \<and>
   bm_set \<lparr>SizeOfBitMap = 32, Buffer = [0x0000FFFF]\<rparr> =
     bm_set \<lparr>SizeOfBitMap = 32, Buffer = [0x0000FF0F]\<rparr> \<union> {4..<8}"
proof -
  have "RtlFindClearBitsAndSet \<lparr>SizeOfBitMap = 32, Buffer = [0x0000FF0F]\<rparr> 4 0 =
     Some (4, \<lparr>SizeOfBitMap = 32, Buffer = [0x0000FFFF]\<rparr>)" by code_simp
  then show ?thesis
    using RtlFindClearBitsAndSet_allocates [of "\<lparr>SizeOfBitMap = 32, Buffer = [0x0000FF0F]\<rparr>" 4 0]
    by (simp add: wf_bitmap_def)
qed

text \<open>
  The table-driven byte count of RtlNumberOfSetBits is the cardinality of the set of the
  bitmap, partial last byte included, and RtlNumberOfClearBits is the cardinality of its
  complement below the size.
\<close>

theorem RtlNumberOfSetBits_card:
  assumes "wf_bitmap bm"
  shows "RtlNumberOfSetBits bm = Some (of_nat (card (bm_set bm))) \<and>
    RtlNumberOfClearBits bm = Some (of_nat (card ({..<unat (SizeOfBitMap bm)} - bm_set bm)))"
proof -
  have fin: "finite (bm_set bm)" and sub: "bm_set bm \<subseteq> {..<unat (SizeOfBitMap bm)}"
    by (auto simp: bm_set_def)
  then have "card ({..<unat (SizeOfBitMap bm)} - bm_set bm) = unat (SizeOfBitMap bm) - card (bm_set bm)"
    by (simp add: card_Diff_subset)
  moreover have "card (bm_set bm) \<le> unat (SizeOfBitMap bm)"
    using card_mono [OF _ sub] by simp
  ultimately show ?thesis using RtlNumberOfSetBits_ok [OF assms]
    by (simp add: RtlNumberOfClearBits_def card_bm_set of_nat_diff)
qed

theorem RtlNumberOfSetBits_card_witness:
  "RtlNumberOfSetBits \<lparr>SizeOfBitMap = 35, Buffer = [0xFF, 0xFF]\<rparr> = Some 11 \<and>
   card (bm_set \<lparr>SizeOfBitMap = 35, Buffer = [0xFF, 0xFF]\<rparr>) mod 2 ^ 32 = 11"
proof -
  let ?bm = "\<lparr>SizeOfBitMap = 35, Buffer = [0xFF, 0xFF]\<rparr>"
  have r: "RtlNumberOfSetBits ?bm = Some 11" by code_simp
  moreover have "RtlNumberOfSetBits ?bm = Some (of_nat (card (bm_set ?bm)))"
    using RtlNumberOfSetBits_card [of ?bm] by (simp add: wf_bitmap_def)
  ultimately have "(of_nat (card (bm_set ?bm)) :: ULONG) = 11" by simp
  then have "unat (of_nat (card (bm_set ?bm)) :: ULONG) = 11" by simp
  then show ?thesis using r by (simp add: unat_of_nat)
qed

text \<open>
  For an index inside a well-formed bitmap RtlTestBit is membership, RtlSetBit insertion and
  RtlClearBit removal of one element, and RtlSetAllBits and RtlClearAllBits give the full
  and the empty set.
\<close>

theorem RtlBit_operations_set:
  assumes "wf_bitmap bm" and "i < SizeOfBitMap bm"
  shows "RtlTestBit bm i = Some (unat i \<in> bm_set bm) \<and>
    (\<exists>bm'. RtlSetBit bm i = Some bm' \<and> wf_bitmap bm' \<and> bm_set bm' = insert (unat i) (bm_set bm)) \<and>
    (\<exists>bm'. RtlClearBit bm i = Some bm' \<and> wf_bitmap bm' \<and> bm_set bm' = bm_set bm - {unat i}) \<and>
    (\<exists>bm'. RtlSetAllBits bm = Some bm' \<and> wf_bitmap bm' \<and> bm_set bm' = {..<unat (SizeOfBitMap bm)}) \<and>
    (\<exists>bm'. RtlClearAllBits bm = Some bm' \<and> wf_bitmap bm' \<and> bm_set bm' = {})"
  using RtlTestBit_set [OF assms] RtlSetBit_set [OF assms] RtlClearBit_set [OF assms]
    RtlSetAllBits_set [OF assms(1)] RtlClearAllBits_set [OF assms(1)] by blast

theorem RtlBit_operations_set_witness:
  "RtlTestBit \<lparr>SizeOfBitMap = 40, Buffer = [1, 0xF0]\<rparr> 36 =
     Some (36 \<in> bm_set \<lparr>SizeOfBitMap = 40, Buffer = [1, 0xF0]\<rparr>)"
  using RtlBit_operations_set [of "\<lparr>SizeOfBitMap = 40, Buffer = [1, 0xF0]\<rparr>" 36]
  by (simp add: wf_bitmap_def)

end
