(* ===== verification/RtlTime.thy ===== *)
theory RtlTime
  imports RtlPrelude "HOL-Library.Signed_Division"
begin

text \<open>
  Conversion between system time and calendar fields, \<^verbatim>\<open>sdk/lib/rtl/time.c\<close>. A system time
  is the number of 100 ns ticks since 1 January 1601, a signed 64-bit integer. Times and
  fields are \<open>int\<close>; each assignment is followed by the conversion to the type of its left-hand
  side. The intermediate \<open>int\<close> expressions of \<open>DaysSinceEpoch\<close> stay below \<open>2 ^ 31\<close> for the
  years its callers pass.
\<close>

section \<open>Data\<close>

record TIME_FIELDS =
  Year :: int
  Month :: int
  Day :: int
  Hour :: int
  Minute :: int
  Second :: int
  Milliseconds :: int
  Weekday :: int

abbreviation (input) TICKSPERSEC :: int where "TICKSPERSEC \<equiv> 10000000"
abbreviation (input) TICKSPERMSEC :: int where "TICKSPERMSEC \<equiv> 10000"
abbreviation (input) SECSPERDAY :: int where "SECSPERDAY \<equiv> 86400"
abbreviation (input) SECSPERHOUR :: int where "SECSPERHOUR \<equiv> 3600"
abbreviation (input) SECSPERMIN :: int where "SECSPERMIN \<equiv> 60"
abbreviation (input) EPOCHWEEKDAY :: int where "EPOCHWEEKDAY \<equiv> 1"
abbreviation (input) DAYSPERWEEK :: int where "DAYSPERWEEK \<equiv> 7"
abbreviation (input) EPOCHYEAR :: int where "EPOCHYEAR \<equiv> 1601"
abbreviation (input) TICKSTO1970 :: int where "TICKSTO1970 \<equiv> 0x019db1ded53e8000"
abbreviation (input) TICKSTO1980 :: int where "TICKSTO1980 \<equiv> 0x01a8e79fe1d58000"

definition YearLengths :: "bool \<Rightarrow> int" where
  "YearLengths leap = (if leap then 366 else 365)"

definition MonthLengths :: "bool \<Rightarrow> int list" where
  "MonthLengths leap =
     (if leap then [31, 29, 31, 30, 31, 30, 31, 31, 30, 31, 30, 31]
      else [31, 28, 31, 30, 31, 30, 31, 31, 30, 31, 30, 31])"

section \<open>The calendar\<close>

definition IsLeapYear :: "int \<Rightarrow> bool" where
  "IsLeapYear y \<longleftrightarrow> y smod 4 = 0 \<and> (y smod 100 \<noteq> 0 \<or> y smod 400 = 0)"

definition DaysSinceEpoch :: "int \<Rightarrow> int" where
  "DaysSinceEpoch y =
     (let y = y - 1;
          Days = y * 365 + y sdiv 4 - y sdiv 100 + y sdiv 400
      in Days - ((EPOCHYEAR - 1) * 365 + (EPOCHYEAR - 1) sdiv 4
                 - (EPOCHYEAR - 1) sdiv 100 + (EPOCHYEAR - 1) sdiv 400))"

section \<open>Fields to time\<close>

text \<open>
  The loop over the months before \<open>Month\<close>: \<open>Time->QuadPart\<close> is the accumulator. The loop
  variable is the number of the month, from 1.
\<close>

function add_months :: "int list \<Rightarrow> nat \<Rightarrow> nat \<Rightarrow> int \<Rightarrow> int option" where
  "add_months Months CurMonth IntMonth t =
     (if CurMonth < IntMonth
      then do {
        l \<leftarrow> array_get Months (CurMonth - 1);
        add_months Months (Suc CurMonth) IntMonth (to_LONGLONG (t + l))
      }
      else Some t)"
  by pat_completeness auto
termination
  by (relation "measure (\<lambda>(ms, c, m, t). m - c)") auto

declare add_months.simps [simp del]

text \<open>
  The fields are rejected as soon as one test of the \<^verbatim>\<open>||\<close> chain holds, so the month table is
  read only for a month in range. \<open>None\<close> is an access outside the table, \<open>Some None\<close> is
  \<^verbatim>\<open>FALSE\<close> and \<open>Some (Some t)\<close> is \<^verbatim>\<open>TRUE\<close> with the time stored.
\<close>

definition RtlTimeFieldsToTime :: "TIME_FIELDS \<Rightarrow> int option option" where
  "RtlTimeFieldsToTime tf =
     (if Milliseconds tf < 0 \<or> Milliseconds tf > 999 \<or>
         Second tf < 0 \<or> Second tf > 59 \<or>
         Minute tf < 0 \<or> Minute tf > 59 \<or>
         Hour tf < 0 \<or> Hour tf > 23 \<or>
         Month tf < 1 \<or> Month tf > 12 \<or>
         Day tf < 1
      then Some None
      else do {
        l \<leftarrow> array_get (MonthLengths (IsLeapYear (Year tf))) (nat (Month tf - 1));
        if Day tf > l \<or> Year tf < 1601 then Some None
        else do {
          t \<leftarrow> add_months (MonthLengths (IsLeapYear (Year tf))) 1 (nat (Month tf))
                 (DaysSinceEpoch (Year tf));
          let t = to_LONGLONG (t + (Day tf - 1));
              t = to_LONGLONG (t * SECSPERDAY);
              t = to_LONGLONG (t + (Hour tf * SECSPERHOUR + Minute tf * SECSPERMIN + Second tf));
              t = to_LONGLONG (t * TICKSPERSEC);
              t = to_LONGLONG (t + Milliseconds tf * TICKSPERMSEC)
          in Some (Some t)
        }
      })"

section \<open>Time to fields\<close>

definition RtlTimeToElapsedTimeFields :: "int \<Rightarrow> TIME_FIELDS \<Rightarrow> TIME_FIELDS" where
  "RtlTimeToElapsedTimeFields Time tf =
     (let ms = to_CSHORT ((Time smod TICKSPERSEC) sdiv TICKSPERMSEC);
          ElapsedSeconds = to_ULONGLONG Time div TICKSPERSEC;
          SecondsInDay = to_ULONG (ElapsedSeconds mod SECSPERDAY);
          SecondsInMinute = SecondsInDay mod SECSPERHOUR
      in tf\<lparr>Milliseconds := ms,
            Hour := to_CSHORT (SecondsInDay div SECSPERHOUR),
            Minute := to_CSHORT (SecondsInMinute div SECSPERMIN),
            Second := to_CSHORT (SecondsInMinute mod SECSPERMIN),
            Day := to_CSHORT (ElapsedSeconds div SECSPERDAY),
            Month := 0,
            Year := 0\<rparr>)"

text \<open>The loop that finds the year, and the loop that finds the month (from 0).\<close>

function year_loop :: "int \<Rightarrow> int \<Rightarrow> int \<times> int" where
  "year_loop CurYear Days =
     (if Days < YearLengths (IsLeapYear CurYear) then (CurYear, Days)
      else year_loop (to_ULONG (CurYear + 1)) (Days - YearLengths (IsLeapYear CurYear)))"
  by pat_completeness auto
termination
  by (relation "measure (\<lambda>(y, d). nat d)") (auto simp: YearLengths_def split: if_splits)

declare year_loop.simps [simp del]

function month_loop :: "int list \<Rightarrow> nat \<Rightarrow> int \<Rightarrow> (nat \<times> int) option" where
  "month_loop Months CurMonth Days =
     (case array_get Months CurMonth of
        None \<Rightarrow> None
      | Some l \<Rightarrow> if Days \<ge> l then month_loop Months (Suc CurMonth) (Days - l)
                  else Some (CurMonth, Days))"
  by pat_completeness auto
termination
  by (relation "measure (\<lambda>(ms, c, d). length ms - c)") (auto simp: array_get_def split: if_splits)

declare month_loop.simps [simp del]

definition RtlTimeToTimeFields :: "int \<Rightarrow> TIME_FIELDS option" where
  "RtlTimeToTimeFields Time =
     (let IntTime = to_ULONGLONG Time;
          ms = to_CSHORT ((IntTime mod TICKSPERSEC) div TICKSPERMSEC);
          IntTime = IntTime div TICKSPERSEC;
          Days = to_ULONG (IntTime div SECSPERDAY);
          SecondsInDay = to_ULONG (IntTime mod SECSPERDAY);
          h = to_CSHORT (SecondsInDay div SECSPERHOUR);
          SecondsInDay = SecondsInDay mod SECSPERHOUR;
          m = to_CSHORT (SecondsInDay div SECSPERMIN);
          s = to_CSHORT (SecondsInDay mod SECSPERMIN);
          wd = to_CSHORT (to_ULONG (EPOCHWEEKDAY + Days) mod DAYSPERWEEK);
          CurYear = to_ULONG (EPOCHYEAR + Days div 366);
          Days = to_ULONG (Days - DaysSinceEpoch CurYear);
          (CurYear, Days) = year_loop CurYear Days
      in do {
        (CurMonth, Days) \<leftarrow> month_loop (MonthLengths (IsLeapYear CurYear)) 0 Days;
        Some \<lparr>Year = to_CSHORT CurYear, Month = to_CSHORT (int CurMonth + 1),
              Day = to_CSHORT (Days + 1), Hour = h, Minute = m, Second = s,
              Milliseconds = ms, Weekday = wd\<rparr>
      })"

section \<open>Seconds since 1970 and 1980\<close>

text \<open>\<open>HighPart\<close> is the upper, \<open>LowPart\<close> the lower half of the 64-bit value.\<close>

definition RtlTimeToSecondsSince1970 :: "int \<Rightarrow> int option" where
  "RtlTimeToSecondsSince1970 Time =
     (let IntTime = to_LONGLONG (Time - TICKSTO1970);
          IntTime = IntTime sdiv TICKSPERSEC
      in if to_ULONGLONG IntTime div 2 ^ 32 \<noteq> 0 then None else Some (to_ULONG IntTime))"

definition RtlTimeToSecondsSince1980 :: "int \<Rightarrow> int option" where
  "RtlTimeToSecondsSince1980 Time =
     (let IntTime = to_LONGLONG (Time - TICKSTO1980);
          IntTime = IntTime sdiv TICKSPERSEC
      in if to_ULONGLONG IntTime div 2 ^ 32 \<noteq> 0 then None else Some (to_ULONG IntTime))"

definition RtlSecondsSince1970ToTime :: "int \<Rightarrow> int" where
  "RtlSecondsSince1970ToTime SecondsSince1970 =
     to_LONGLONG (SecondsSince1970 * TICKSPERSEC + TICKSTO1970)"

definition RtlSecondsSince1980ToTime :: "int \<Rightarrow> int" where
  "RtlSecondsSince1980ToTime SecondsSince1980 =
     to_LONGLONG (SecondsSince1980 * TICKSPERSEC + TICKSTO1980)"

section \<open>Local time\<close>

text \<open>
  \<open>ZwQuerySystemInformation\<close> is a system call: its status and the time zone bias it stores
  are an argument.
\<close>

definition RtlLocalTimeToSystemTime :: "NTSTATUS \<times> int \<Rightarrow> int \<Rightarrow> NTSTATUS \<times> int option" where
  "RtlLocalTimeToSystemTime query LocalTime =
     (let (Status, TimeZoneBias) = query
      in if \<not> NT_SUCCESS Status then (Status, None)
         else (STATUS_SUCCESS, Some (to_LONGLONG (LocalTime + TimeZoneBias))))"

definition RtlSystemTimeToLocalTime :: "NTSTATUS \<times> int \<Rightarrow> int \<Rightarrow> NTSTATUS \<times> int option" where
  "RtlSystemTimeToLocalTime query SystemTime =
     (let (Status, TimeZoneBias) = query
      in if \<not> NT_SUCCESS Status then (Status, None)
         else (STATUS_SUCCESS, Some (to_LONGLONG (SystemTime - TimeZoneBias))))"

section \<open>Cutover times\<close>

text \<open>
  One pass of the loop of \<open>RtlCutoverTimeToSystemTime\<close>: the cutover time in the given year.
  \<open>MonthLength\<close> is read only after the first conversion has accepted the month.
\<close>

definition cutover_day :: "TIME_FIELDS \<Rightarrow> int \<Rightarrow> int \<Rightarrow> int \<Rightarrow> int" where
  "cutover_day Cutover FirstWeekday MonthLength AdjustedDay =
     (let AdjustedDay =
            (if FirstWeekday \<noteq> Weekday Cutover
             then
               let Days = (if FirstWeekday < Weekday Cutover
                           then to_CSHORT (Weekday Cutover - FirstWeekday)
                           else to_CSHORT (DAYSPERWEEK - (FirstWeekday - Weekday Cutover)))
               in to_CSHORT (AdjustedDay + Days)
             else AdjustedDay)
      in if Day Cutover > 1
         then
           let Days = to_CSHORT (DAYSPERWEEK * (Day Cutover - 1));
               Days = (if AdjustedDay + Days > MonthLength then to_CSHORT (Days - DAYSPERWEEK)
                       else Days)
           in to_CSHORT (AdjustedDay + Days)
         else AdjustedDay)"

definition cutover_in_year :: "TIME_FIELDS \<Rightarrow> int \<Rightarrow> int option option" where
  "cutover_in_year Cutover AdjustedYear =
     (let Adjusted = \<lparr>Year = AdjustedYear, Month = Month Cutover, Day = 1, Hour = Hour Cutover,
                      Minute = Minute Cutover, Second = Second Cutover,
                      Milliseconds = Milliseconds Cutover, Weekday = 0\<rparr>
      in do {
        r \<leftarrow> RtlTimeFieldsToTime Adjusted;
        case r of
          None \<Rightarrow> Some None
        | Some first \<Rightarrow> do {
            CutoverSystemTimeFields \<leftarrow> RtlTimeToTimeFields first;
            MonthLength \<leftarrow> array_get (MonthLengths (IsLeapYear AdjustedYear))
                             (nat (Month Adjusted - 1));
            RtlTimeFieldsToTime
              (Adjusted\<lparr>Day := cutover_day Cutover (Weekday CutoverSystemTimeFields)
                                MonthLength 1\<rparr>)
          }
      })"

function cutover_loop :: "TIME_FIELDS \<Rightarrow> int \<Rightarrow> bool \<Rightarrow> int \<Rightarrow> bool \<Rightarrow> int option option" where
  "cutover_loop Cutover CurrentTime ThisYearsCutoverOnly CurrentYear NextYearsCutover =
     do {
       r \<leftarrow> cutover_in_year Cutover
              (if NextYearsCutover then to_CSHORT (CurrentYear + 1) else CurrentYear);
       case r of
         None \<Rightarrow> Some None
       | Some CutoverSystemTime \<Rightarrow>
           if ThisYearsCutoverOnly \<or> NextYearsCutover \<or> CutoverSystemTime \<ge> CurrentTime
           then Some (Some CutoverSystemTime)
           else cutover_loop Cutover CurrentTime ThisYearsCutoverOnly CurrentYear True
     }"
  by pat_completeness auto
termination
  by (relation "measure (\<lambda>(c, t, o', y, next). if next then 0 else 1)") auto

declare cutover_loop.simps [simp del]

text \<open>The result is the returned value and, if one was written, the time stored.\<close>

definition RtlCutoverTimeToSystemTime ::
  "TIME_FIELDS \<Rightarrow> int \<Rightarrow> bool \<Rightarrow> (bool \<times> int option) option" where
  "RtlCutoverTimeToSystemTime Cutover CurrentTime ThisYearsCutoverOnly =
     (if Year Cutover \<noteq> 0
      then do {
        r \<leftarrow> RtlTimeFieldsToTime Cutover;
        Some (case r of
                None \<Rightarrow> (False, None)
              | Some SystemTime \<Rightarrow> (\<not> SystemTime < CurrentTime, Some SystemTime))
      }
      else if Day Cutover = 0 \<or> Day Cutover > 5 then Some (False, None)
      else do {
        CurrentTimeFields \<leftarrow> RtlTimeToTimeFields CurrentTime;
        r \<leftarrow> cutover_loop Cutover CurrentTime ThisYearsCutoverOnly (Year CurrentTimeFields) False;
        Some (case r of
                None \<Rightarrow> (False, None)
              | Some CutoverSystemTime \<Rightarrow> (True, Some CutoverSystemTime))
      })"

section \<open>Valid fields, their day and their tick\<close>

definition valid_fields :: "TIME_FIELDS \<Rightarrow> bool" where
  "valid_fields tf \<longleftrightarrow>
     1601 \<le> Year tf \<and> 1 \<le> Month tf \<and> Month tf \<le> 12 \<and>
     1 \<le> Day tf \<and> Day tf \<le> MonthLengths (IsLeapYear (Year tf)) ! nat (Month tf - 1) \<and>
     0 \<le> Hour tf \<and> Hour tf \<le> 23 \<and> 0 \<le> Minute tf \<and> Minute tf \<le> 59 \<and>
     0 \<le> Second tf \<and> Second tf \<le> 59 \<and> 0 \<le> Milliseconds tf \<and> Milliseconds tf \<le> 999"

definition days_of :: "TIME_FIELDS \<Rightarrow> int" where
  "days_of tf = DaysSinceEpoch (Year tf) +
     sum_list (take (nat (Month tf - 1)) (MonthLengths (IsLeapYear (Year tf)))) + (Day tf - 1)"

definition ticks_of :: "TIME_FIELDS \<Rightarrow> int" where
  "ticks_of tf = ((days_of tf * SECSPERDAY + Hour tf * SECSPERHOUR + Minute tf * SECSPERMIN + Second tf)
     * TICKSPERSEC) + Milliseconds tf * TICKSPERMSEC"

definition nth_weekday :: "int \<Rightarrow> int \<Rightarrow> int \<Rightarrow> bool" where
  "nth_weekday n d MonthLength \<longleftrightarrow>
     1 \<le> d \<and> d \<le> MonthLength \<and>
     (7 * (n - 1) < d \<and> d \<le> 7 * n \<or> n = 5 \<and> d \<le> 28 \<and> MonthLength < d + 7)"

definition valid_cutover :: "TIME_FIELDS \<Rightarrow> bool" where
  "valid_cutover c \<longleftrightarrow>
     Year c = 0 \<and> 1 \<le> Month c \<and> Month c \<le> 12 \<and> 1 \<le> Day c \<and> Day c \<le> 5 \<and>
     0 \<le> Hour c \<and> Hour c \<le> 23 \<and> 0 \<le> Minute c \<and> Minute c \<le> 59 \<and> 0 \<le> Second c \<and> Second c \<le> 59 \<and>
     0 \<le> Milliseconds c \<and> Milliseconds c \<le> 999 \<and> 0 \<le> Weekday c \<and> Weekday c \<le> 6"

definition cutover_fields :: "TIME_FIELDS \<Rightarrow> int \<Rightarrow> int \<Rightarrow> TIME_FIELDS" where
  "cutover_fields c y d = \<lparr>Year = y, Month = Month c, Day = d, Hour = Hour c, Minute = Minute c,
     Second = Second c, Milliseconds = Milliseconds c, Weekday = 0\<rparr>"

text \<open>The times of a recurring cutover: the weekday of the month that is meant, at the time of day.\<close>

definition is_cutover :: "TIME_FIELDS \<Rightarrow> int \<Rightarrow> bool" where
  "is_cutover c t \<longleftrightarrow> t mod 10000 = 0 \<and>
     (case RtlTimeToTimeFields t of
        None \<Rightarrow> False
      | Some tf \<Rightarrow>
          Month tf = Month c \<and> Weekday tf = Weekday c \<and> Hour tf = Hour c \<and> Minute tf = Minute c \<and>
          Second tf = Second c \<and> Milliseconds tf = Milliseconds c \<and>
          nth_weekday (Day c) (Day tf) (MonthLengths (IsLeapYear (Year tf)) ! nat (Month tf - 1)))"

definition cutover_at :: "TIME_FIELDS \<Rightarrow> int \<Rightarrow> int \<Rightarrow> bool" where
  "cutover_at c y d \<longleftrightarrow> valid_fields (cutover_fields c y d) \<and> ticks_of (cutover_fields c y d) < 2 ^ 63 \<and>
     nth_weekday (Day c) d (MonthLengths (IsLeapYear y) ! nat (Month c - 1)) \<and>
     (1 + days_of (cutover_fields c y d)) mod 7 = Weekday c"

section \<open>Calendar arithmetic\<close>

lemma sdiv_nonneg: "0 \<le> a \<Longrightarrow> 0 < b \<Longrightarrow> a sdiv b = a div (b :: int)"
  by (simp add: signed_divide_int_def sgn_if)

lemma smod_nonneg: "0 \<le> a \<Longrightarrow> 0 < b \<Longrightarrow> a smod b = a mod (b :: int)"
  by (simp add: signed_modulo_int_def sgn_if)

lemma IsLeapYear_mod: "0 \<le> y \<Longrightarrow> IsLeapYear y \<longleftrightarrow> y mod 4 = 0 \<and> (y mod 100 \<noteq> 0 \<or> y mod 400 = 0)"
  by (simp add: IsLeapYear_def smod_nonneg)

lemma DaysSinceEpoch_div:
  "1 \<le> y \<Longrightarrow> DaysSinceEpoch y = (y - 1) * 365 + (y - 1) div 4 - (y - 1) div 100 + (y - 1) div 400 - 584388"
  by (simp add: DaysSinceEpoch_def Let_def sdiv_nonneg)

lemma div_step:
  assumes "0 < n"
  shows "(y :: int) div n = (y - 1) div n + (if y mod n = 0 then 1 else 0)"
proof -
  have y: "y = n * (y div n) + y mod n" "0 \<le> y mod n" "y mod n < n" using assms by simp_all
  show ?thesis
  proof (cases "y mod n = 0")
    case True
    have "y - 1 = n * (y div n - 1) + (n - 1)" using y(1) True by (simp add: algebra_simps)
    then have "(y - 1) div n = y div n - 1" using assms by (intro int_div_pos_eq [of _ _ _ "n - 1"]) simp_all
    then show ?thesis using True by simp
  next
    case False
    have "y - 1 = n * (y div n) + (y mod n - 1)" using y(1) by simp
    then have "(y - 1) div n = y div n" using False y by (intro int_div_pos_eq [of _ _ _ "y mod n - 1"]) simp_all
    then show ?thesis using False by simp
  qed
qed

lemma mod_400: "(y :: int) mod 400 = 0 \<Longrightarrow> y mod 100 = 0"
  and mod_100: "y mod 100 = 0 \<Longrightarrow> y mod 4 = 0" for y :: int
  using mod_mod_cancel [of 100 400 y] mod_mod_cancel [of 4 100 y] by simp_all

lemma DaysSinceEpoch_Suc:
  assumes "1 \<le> y"
  shows "DaysSinceEpoch (y + 1) = DaysSinceEpoch y + YearLengths (IsLeapYear y)"
proof -
  define a b c where "a = (y - 1) div 4" and "b = (y - 1) div 100" and "c = (y - 1) div 400"
  note abc = a_def [symmetric] b_def [symmetric] c_def [symmetric]
  have "DaysSinceEpoch y = (y - 1) * 365 + a - b + c - 584388"
    using DaysSinceEpoch_div [OF assms] unfolding abc .
  moreover have "DaysSinceEpoch (y + 1) = y * 365 + (a + (if y mod 4 = 0 then 1 else 0))
      - (b + (if y mod 100 = 0 then 1 else 0)) + (c + (if y mod 400 = 0 then 1 else 0)) - 584388"
  proof -
    have d: "y div 4 = a + (if y mod 4 = 0 then 1 else 0)" "y div 100 = b + (if y mod 100 = 0 then 1 else 0)"
      "y div 400 = c + (if y mod 400 = 0 then 1 else 0)"
      unfolding a_def b_def c_def by (rule div_step, simp)+
    have "1 \<le> y + 1" using assms by simp
    from DaysSinceEpoch_div [OF this] show ?thesis unfolding add_diff_cancel_right' d .
  qed
  moreover have "YearLengths (IsLeapYear y) = 365 + (if y mod 4 = 0 then 1 else 0)
      - (if y mod 100 = 0 then 1 else 0) + (if y mod 400 = 0 then 1 else 0)"
  proof -
    define A B C where "A \<longleftrightarrow> y mod 4 = 0" and "B \<longleftrightarrow> y mod 100 = 0" and "C \<longleftrightarrow> y mod 400 = 0"
    have "IsLeapYear y \<longleftrightarrow> A \<and> (\<not> B \<or> C)" unfolding A_def B_def C_def by (rule IsLeapYear_mod) (use assms in simp)
    moreover have "C \<Longrightarrow> B" "B \<Longrightarrow> A" unfolding A_def B_def C_def by (rule mod_400, assumption) (rule mod_100)
    ultimately show ?thesis unfolding A_def [symmetric] B_def [symmetric] C_def [symmetric] YearLengths_def
      by (cases A; cases B; cases C) simp_all
  qed
  ultimately show ?thesis by simp
qed

lemma DaysSinceEpoch_1601 [simp]: "DaysSinceEpoch 1601 = 0"
  by (simp add: DaysSinceEpoch_div)

lemma YearLengths_bounds: "365 \<le> YearLengths l" "YearLengths l \<le> 366"
  by (simp_all add: YearLengths_def)

lemma DaysSinceEpoch_bounds:
  "365 * int k \<le> DaysSinceEpoch (1601 + int k) \<and> DaysSinceEpoch (1601 + int k) \<le> 366 * int k"
proof (induction k)
  case 0
  then show ?case by simp
next
  case (Suc k)
  have "DaysSinceEpoch (1601 + int (Suc k)) =
      DaysSinceEpoch (1601 + int k) + YearLengths (IsLeapYear (1601 + int k))"
    using DaysSinceEpoch_Suc [of "1601 + int k"] by (simp add: algebra_simps)
  then show ?case using Suc YearLengths_bounds [of "IsLeapYear (1601 + int k)"] by simp
qed

lemma DaysSinceEpoch_mono:
  assumes "1601 \<le> y" "y < y'"
  shows "DaysSinceEpoch y + YearLengths (IsLeapYear y) \<le> DaysSinceEpoch y'"
proof -
  have "DaysSinceEpoch y + YearLengths (IsLeapYear y) \<le> DaysSinceEpoch (y + 1 + int k)" for k
  proof (induction k)
    case 0
    then show ?case using assms by (simp add: DaysSinceEpoch_Suc)
  next
    case (Suc k)
    have "DaysSinceEpoch (y + 1 + int (Suc k)) = DaysSinceEpoch (y + 1 + int k) +
        YearLengths (IsLeapYear (y + 1 + int k))"
      using DaysSinceEpoch_Suc [of "y + 1 + int k"] assms by (simp add: algebra_simps)
    then show ?case using Suc YearLengths_bounds [of "IsLeapYear (y + 1 + int k)"] by simp
  qed
  from this [of "nat (y' - y - 1)"] show ?thesis using assms by simp
qed

lemma year_unique:
  assumes "1601 \<le> y" "1601 \<le> y'" "0 \<le> d" "d < YearLengths (IsLeapYear y)"
    "0 \<le> d'" "d' < YearLengths (IsLeapYear y')"
    "DaysSinceEpoch y + d = DaysSinceEpoch y' + d'"
  shows "y = y' \<and> d = d'"
proof (cases y y' rule: linorder_cases)
  case less
  then show ?thesis using DaysSinceEpoch_mono [OF assms(1) less] assms by linarith
next
  case greater
  then show ?thesis using DaysSinceEpoch_mono [OF assms(2) greater] assms by linarith
qed (use assms in simp)

lemma year_loop_ok:
  assumes "1601 \<le> y" "0 \<le> d" "y + d < 2 ^ 32"
  shows "\<exists>y' d'. year_loop y d = (y', d') \<and> y \<le> y' \<and> 0 \<le> d' \<and> d' < YearLengths (IsLeapYear y') \<and>
    DaysSinceEpoch y' + d' = DaysSinceEpoch y + d"
  using assms
proof (induction y d rule: year_loop.induct)
  case (1 y d)
  let ?L = "YearLengths (IsLeapYear y)"
  show ?case
  proof (cases "d < ?L")
    case True
    then show ?thesis using "1.prems" by (subst year_loop.simps) auto
  next
    case False
    have L: "365 \<le> ?L" by (rule YearLengths_bounds)
    have u: "to_ULONG (y + 1) = y + 1" using "1.prems" False L by (intro to_ULONG_id) auto
    from "1.IH" [OF False, unfolded u] "1.prems" False L
    obtain y' d' where "year_loop (y + 1) (d - ?L) = (y', d')" "y + 1 \<le> y'" "0 \<le> d'"
      "d' < YearLengths (IsLeapYear y')" "DaysSinceEpoch y' + d' = DaysSinceEpoch (y + 1) + (d - ?L)"
      by auto
    moreover have "year_loop y d = year_loop (y + 1) (d - ?L)"
      using False by (subst year_loop.simps) (simp add: u)
    ultimately show ?thesis using DaysSinceEpoch_Suc [of y] "1.prems" by auto
  qed
qed

lemma month_loop_ok:
  assumes "0 \<le> d" "d < sum_list (drop k ms)"
  shows "\<exists>m d'. month_loop ms k d = Some (m, d') \<and> k \<le> m \<and> m < length ms \<and> 0 \<le> d' \<and> d' < ms ! m \<and>
    d = sum_list (take (m - k) (drop k ms)) + d'"
  using assms
proof (induction ms k d rule: month_loop.induct)
  case (1 ms k d)
  have k: "k < length ms" using "1.prems" by (cases "k < length ms") auto
  then have dr: "drop k ms = ms ! k # drop (Suc k) ms" by (rule Cons_nth_drop_Suc [symmetric])
  show ?case
  proof (cases "ms ! k \<le> d")
    case False
    then show ?thesis using k "1.prems" by (subst month_loop.simps) auto
  next
    case True
    have "\<exists>m d'. month_loop ms (Suc k) (d - ms ! k) = Some (m, d') \<and> Suc k \<le> m \<and> m < length ms \<and>
        0 \<le> d' \<and> d' < ms ! m \<and> d - ms ! k = sum_list (take (m - Suc k) (drop (Suc k) ms)) + d'"
      using True "1.prems" k dr by (intro "1.IH" [of "ms ! k"]) simp_all
    then obtain m d' where IH: "month_loop ms (Suc k) (d - ms ! k) = Some (m, d')" "Suc k \<le> m" "m < length ms"
        "0 \<le> d'" "d' < ms ! m" "d - ms ! k = sum_list (take (m - Suc k) (drop (Suc k) ms)) + d'"
      by blast
    have "m - k = Suc (m - Suc k)" using IH(2) by simp
    then have "d = sum_list (take (m - k) (drop k ms)) + d'" using IH(6) dr by simp
    moreover have "month_loop ms k d = Some (m, d')"
      using True k IH(1) by (subst month_loop.simps) simp
    ultimately show ?thesis using IH(2-5) by (intro exI [of _ m] exI [of _ d']) simp
  qed
qed

lemma add_months_ok:
  assumes "0 \<le> t" "t + 31 * int (M - c) < 2 ^ 63" "M \<le> Suc (length ms)" "1 \<le> c" "c \<le> M"
    and "\<forall>l \<in> set ms. 0 \<le> l \<and> l \<le> 31"
  shows "add_months ms c M t = Some (t + sum_list (take (M - c) (drop (c - 1) ms)))"
  using assms
proof (induction "M - c" arbitrary: c t)
  case 0
  then show ?case by (subst add_months.simps) simp
next
  case (Suc n)
  have lt: "c < M" "c - 1 < length ms" using Suc.hyps(2) Suc.prems by auto
  let ?l = "ms ! (c - 1)"
  have l: "0 \<le> ?l" "?l \<le> 31" using Suc.prems(6) lt(2) by simp_all
  have n: "M - Suc c = n" "M - c = Suc n" using Suc.hyps(2) by simp_all
  have bound: "t + ?l + 31 * int n < 2 ^ 63" using Suc.prems(2) l(2) unfolding n by simp
  then have ll: "to_LONGLONG (t + ?l) = t + ?l" using Suc.prems(1) l by (intro to_LONGLONG_id) auto
  have "add_months ms c M t = add_months ms (Suc c) M (t + ?l)"
    using lt ll by (subst add_months.simps) simp
  also have "\<dots> = Some (t + ?l + sum_list (take n (drop c ms)))"
    using Suc.hyps(1) [of "Suc c" "t + ?l"] Suc.prems l lt bound n by simp
  finally have "add_months ms c M t = Some (t + ?l + sum_list (take n (drop c ms)))" .
  moreover have "drop (c - 1) ms = ?l # drop c ms" using Cons_nth_drop_Suc [OF lt(2)] Suc.prems(4) by simp
  then have "take (Suc n) (drop (c - 1) ms) = ?l # take n (drop c ms)" by simp
  ultimately show ?case unfolding n by (simp only: sum_list.Cons add.assoc)
qed

lemma MonthLengths_length [simp]: "length (MonthLengths l) = 12"
  and MonthLengths_sum: "sum_list (MonthLengths l) = YearLengths l"
  by (simp_all add: MonthLengths_def YearLengths_def)

lemma MonthLengths_bounds: "\<forall>l \<in> set (MonthLengths b). 0 \<le> l \<and> l \<le> 31"
  and MonthLengths_ge: "\<forall>l \<in> set (MonthLengths b). 28 \<le> l"
  by (simp_all add: MonthLengths_def)

lemma month_prefix_less:
  assumes "m < 12" "0 \<le> d" "d < MonthLengths l ! m"
  shows "0 \<le> sum_list (take m (MonthLengths l)) + d \<and> sum_list (take m (MonthLengths l)) + d < YearLengths l"
proof -
  have split: "MonthLengths l = take m (MonthLengths l) @ MonthLengths l ! m # drop (Suc m) (MonthLengths l)"
    using assms(1) by (simp add: id_take_nth_drop)
  have nn: "0 \<le> sum_list (take k (MonthLengths l))" "0 \<le> sum_list (drop k (MonthLengths l))" for k
    using MonthLengths_bounds by (auto intro!: sum_list_nonneg dest: in_set_takeD in_set_dropD)
  have "YearLengths l = sum_list (take m (MonthLengths l)) + (MonthLengths l ! m + sum_list (drop (Suc m) (MonthLengths l)))"
    unfolding MonthLengths_sum [symmetric] by (subst split) simp
  then show ?thesis using assms nn [of m] nn [of "Suc m"] by simp
qed

text \<open>Month and day are determined by the day of the year.\<close>

lemma month_unique:
  assumes "m < 12" "0 \<le> d" "d < MonthLengths l ! m" "m' < 12" "0 \<le> d'" "d' < MonthLengths l ! m'"
    and "sum_list (take m (MonthLengths l)) + d = sum_list (take m' (MonthLengths l)) + d'"
  shows "m = m' \<and> d = d'"
proof -
  have step: "sum_list (take a (MonthLengths l)) + MonthLengths l ! a \<le> sum_list (take b (MonthLengths l))"
    if "a < b" "b < 12" for a b
  proof -
    have "take b (MonthLengths l) = take (Suc a) (MonthLengths l) @ take (b - Suc a) (drop (Suc a) (MonthLengths l))"
      using that by (metis Suc_leI le_add_diff_inverse take_add)
    moreover have "take (Suc a) (MonthLengths l) = take a (MonthLengths l) @ [MonthLengths l ! a]"
      using that by (simp add: take_Suc_conv_app_nth)
    moreover have "0 \<le> sum_list (take (b - Suc a) (drop (Suc a) (MonthLengths l)))"
      using MonthLengths_bounds by (intro sum_list_nonneg) (auto dest!: in_set_takeD in_set_dropD)
    ultimately show ?thesis by simp
  qed
  show ?thesis
  proof (cases m m' rule: linorder_cases)
    case less
    then show ?thesis using step [OF less assms(4)] assms by linarith
  next
    case greater
    then show ?thesis using step [OF greater assms(1)] assms by linarith
  qed (use assms in simp)
qed

lemma div_mod_obtain:
  assumes "0 < (n :: int)"
  obtains q r where "a div n = q" "a mod n = r" "a = n * q + r" "0 \<le> r" "r < n"
  using assms by (intro that [OF refl refl]) simp_all

lemma MonthLengths_nth:
  assumes "m < 12"
  shows "28 \<le> MonthLengths l ! m" "MonthLengths l ! m \<le> 31"
  using assms MonthLengths_bounds [of l] MonthLengths_ge [of l] nth_mem [of m "MonthLengths l"] by simp_all

lemma valid_month:
  assumes "valid_fields tf"
  shows "nat (Month tf - 1) < 12" "nat (Month tf) = Suc (nat (Month tf - 1))"
    "0 \<le> Day tf - 1" "Day tf - 1 < MonthLengths (IsLeapYear (Year tf)) ! nat (Month tf - 1)"
  using assms by (auto simp: valid_fields_def)

lemma days_of_bounds:
  assumes "valid_fields tf"
  shows "DaysSinceEpoch (Year tf) \<le> days_of tf" "days_of tf < DaysSinceEpoch (Year tf) + YearLengths (IsLeapYear (Year tf))"
    "0 \<le> DaysSinceEpoch (Year tf)"
proof -
  note m = month_prefix_less [OF valid_month(1,3,4) [OF assms]]
  show "DaysSinceEpoch (Year tf) \<le> days_of tf" "days_of tf < DaysSinceEpoch (Year tf) + YearLengths (IsLeapYear (Year tf))"
    using m by (simp_all add: days_of_def)
  have "1601 \<le> Year tf" using assms by (simp add: valid_fields_def)
  then show "0 \<le> DaysSinceEpoch (Year tf)"
    using DaysSinceEpoch_bounds [of "nat (Year tf - 1601)"] by simp
qed

lemma ticks_of_days:
  assumes "valid_fields tf"
  shows "days_of tf * 864000000000 \<le> ticks_of tf" "ticks_of tf < (days_of tf + 1) * 864000000000"
  using assms by (auto simp: valid_fields_def ticks_of_def)

lemma RtlTimeFieldsToTime_ok:
  assumes valid: "valid_fields tf" and small: "ticks_of tf < 2 ^ 63"
  shows "RtlTimeFieldsToTime tf = Some (Some (ticks_of tf))"
proof -
  let ?ml = "MonthLengths (IsLeapYear (Year tf))" and ?m = "nat (Month tf - 1)"
  note v = valid [unfolded valid_fields_def] and m = valid_month [OF valid] and d = days_of_bounds [OF valid]
  define P where "P = sum_list (take ?m ?ml)"
  have days: "days_of tf = DaysSinceEpoch (Year tf) + P + (Day tf - 1)" by (simp add: days_of_def P_def)
  have lim: "days_of tf * 864000000000 < 2 ^ 63" using ticks_of_days(1) [OF valid] small by linarith
  have P: "0 \<le> P" unfolding P_def using MonthLengths_bounds by (auto intro!: sum_list_nonneg dest: in_set_takeD)
  have "int ?m < 12" using m(1) by linarith
  moreover have "days_of tf < 10675200" using lim by simp
  ultimately have "DaysSinceEpoch (Year tf) + 31 * int (Suc ?m - 1) < 10676000" using d unfolding diff_Suc_1 by linarith
  then have "DaysSinceEpoch (Year tf) + 31 * int (Suc ?m - 1) < 2 ^ 63" by (rule less_trans) simp
  from add_months_ok [OF d(3) this _ _ _ MonthLengths_bounds]
  have "add_months ?ml 1 (nat (Month tf)) (DaysSinceEpoch (Year tf)) = Some (DaysSinceEpoch (Year tf) + P)"
    using m(1) unfolding m(2) P_def by simp
  moreover define n where "n = days_of tf * 86400 + Hour tf * 3600 + Minute tf * 60 + Second tf"
  have n: "0 \<le> n" "n * 10000000 \<le> ticks_of tf" "ticks_of tf = n * 10000000 + Milliseconds tf * 10000"
    using v d by (simp_all add: n_def ticks_of_def)
  have days0: "0 \<le> days_of tf" "days_of tf < 2 ^ 63" using d lim by simp_all
  have "to_LONGLONG (DaysSinceEpoch (Year tf) + P + (Day tf - 1)) = days_of tf"
    unfolding days [symmetric] using days0 by (intro to_LONGLONG_id) simp_all
  moreover have "to_LONGLONG (days_of tf * 86400) = days_of tf * 86400"
    using days0 lim by (intro to_LONGLONG_id) simp_all
  moreover have "to_LONGLONG (days_of tf * 86400 + (Hour tf * 3600 + Minute tf * 60 + Second tf)) = n"
    using n small by (simp add: n_def to_LONGLONG_id)
  moreover have "to_LONGLONG (n * 10000000) = n * 10000000" using n small by (intro to_LONGLONG_id) simp_all
  moreover have "to_LONGLONG (n * 10000000 + Milliseconds tf * 10000) = ticks_of tf"
    unfolding n(3) [symmetric] using n small by (intro to_LONGLONG_id) simp_all
  ultimately show ?thesis
    using v m(1) unfolding RtlTimeFieldsToTime_def Let_def by simp
qed

lemma day_number_ok:
  assumes D: "0 \<le> D" "D < 10675200"
  defines "y0 \<equiv> to_ULONG (1601 + D div 366)"
  obtains y d m d' where "year_loop y0 (to_ULONG (D - DaysSinceEpoch y0)) = (y, d)"
    "month_loop (MonthLengths (IsLeapYear y)) 0 d = Some (m, d')"
    "1601 \<le> y" "y < 32768" "m < 12" "0 \<le> d'" "d' < MonthLengths (IsLeapYear y) ! m"
    "D = DaysSinceEpoch y + sum_list (take m (MonthLengths (IsLeapYear y))) + d'"
proof -
  obtain q r where qr: "D div 366 = q" "D = 366 * q + r" "0 \<le> r" "r < 366"
    by (rule div_mod_obtain [of 366 D]) auto
  have q: "0 \<le> q" "q \<le> D" using qr D by simp_all
  have y0: "y0 = 1601 + q" unfolding y0_def qr(1) using q D by (intro to_ULONG_id) simp_all
  have "DaysSinceEpoch y0 \<le> 366 * q" "0 \<le> DaysSinceEpoch y0"
    using DaysSinceEpoch_bounds [of "nat q"] q unfolding y0 by simp_all
  then have diff: "0 \<le> D - DaysSinceEpoch y0" "D - DaysSinceEpoch y0 \<le> D" using qr by simp_all
  then have u: "to_ULONG (D - DaysSinceEpoch y0) = D - DaysSinceEpoch y0" using D by (intro to_ULONG_id) simp_all
  obtain y d where y: "year_loop y0 (D - DaysSinceEpoch y0) = (y, d)" "y0 \<le> y" "0 \<le> d"
    "d < YearLengths (IsLeapYear y)" "DaysSinceEpoch y + d = D"
    using year_loop_ok [of y0 "D - DaysSinceEpoch y0"] y0 q D diff by auto
  have "365 * (y - 1601) \<le> DaysSinceEpoch y" using DaysSinceEpoch_bounds [of "nat (y - 1601)"] y(2) y0 q by simp
  then have "y < 32768" using y(3,5) D by simp
  moreover obtain m d' where "month_loop (MonthLengths (IsLeapYear y)) 0 d = Some (m, d')" "m < 12" "0 \<le> d'"
    "d' < MonthLengths (IsLeapYear y) ! m" "d = sum_list (take m (MonthLengths (IsLeapYear y))) + d'"
    using month_loop_ok [of d 0 "MonthLengths (IsLeapYear y)"] y(3,4) by (auto simp: MonthLengths_sum)
  moreover have "year_loop y0 (to_ULONG (D - DaysSinceEpoch y0)) = (y, d)" unfolding u by (rule y(1))
  moreover have "1601 \<le> y" using y(2) y0 q by simp
  moreover from calculation have "D = DaysSinceEpoch y + sum_list (take m (MonthLengths (IsLeapYear y))) + d'"
    using y(5) by simp
  ultimately show ?thesis by (intro that)
qed

lemma time_split:
  assumes "0 \<le> (T :: int)"
  obtains n r D s h s1 m s2 ms where
    "T mod 10000000 = r" "T div 10000000 = n" "r div 10000 = ms" "n div 86400 = D" "n mod 86400 = s"
    "s div 3600 = h" "s mod 3600 = s1" "s1 div 60 = m" "s1 mod 60 = s2"
    "T - T mod 10000 = (D * 86400 + h * 3600 + m * 60 + s2) * 10000000 + ms * 10000"
    "0 \<le> D" "0 \<le> h" "h \<le> 23" "0 \<le> m" "m \<le> 59" "0 \<le> s2" "s2 \<le> 59" "0 \<le> ms" "ms \<le> 999"
    "0 \<le> s" "s < 86400" "D * 864000000000 \<le> T"
proof -
  obtain n r where n: "T div 10000000 = n" "T mod 10000000 = r" "T = 10000000 * n + r" "0 \<le> r" "r < 10000000"
    by (rule div_mod_obtain [of 10000000 T]) auto
  obtain ms x where ms: "r div 10000 = ms" "r mod 10000 = x" "r = 10000 * ms + x" "0 \<le> x" "x < 10000"
    by (rule div_mod_obtain [of 10000 r]) auto
  obtain D s where D: "n div 86400 = D" "n mod 86400 = s" "n = 86400 * D + s" "0 \<le> s" "s < 86400"
    by (rule div_mod_obtain [of 86400 n]) auto
  obtain h s1 where h: "s div 3600 = h" "s mod 3600 = s1" "s = 3600 * h + s1" "0 \<le> s1" "s1 < 3600"
    by (rule div_mod_obtain [of 3600 s]) auto
  obtain m s2 where m: "s1 div 60 = m" "s1 mod 60 = s2" "s1 = 60 * m + s2" "0 \<le> s2" "s2 < 60"
    by (rule div_mod_obtain [of 60 s1]) auto
  have "T mod 10000 = x" using n(2) ms(2) mod_mod_cancel [of 10000 10000000 T] by simp
  then have "T - T mod 10000 = (D * 86400 + h * 3600 + m * 60 + s2) * 10000000 + ms * 10000"
    using n(3) ms(3) D(3) h(3) m(3) by simp
  moreover have "0 \<le> D" using n D assms by linarith
  moreover have "0 \<le> h" "h \<le> 23" "0 \<le> m" "m \<le> 59" "0 \<le> ms" "ms \<le> 999" using D h m n ms by linarith+
  moreover have "D * 864000000000 \<le> T" using n(3,4) D(3,4) by linarith
  moreover have "s2 \<le> 59" using m(5) by simp
  ultimately show ?thesis using D(4,5) m(4) by (intro that [OF n(2,1) ms(1) D(1,2) h(1,2) m(1,2)])
qed

lemma RtlTimeToTimeFields_ok:
  assumes "0 \<le> T" "T < 2 ^ 63"
  shows "\<exists>tf. RtlTimeToTimeFields T = Some tf \<and> valid_fields tf \<and> Year tf < 32768 \<and>
    ticks_of tf = T - T mod 10000 \<and> days_of tf = T div 10000000 div 86400 \<and>
    Weekday tf = (1 + days_of tf) mod 7"
proof -
  obtain n r D s h s1 mi s2 ms where t:
    "T mod 10000000 = r" "T div 10000000 = n" "r div 10000 = ms" "n div 86400 = D" "n mod 86400 = s"
    "s div 3600 = h" "s mod 3600 = s1" "s1 div 60 = mi" "s1 mod 60 = s2"
    and T: "T - T mod 10000 = (D * 86400 + h * 3600 + mi * 60 + s2) * 10000000 + ms * 10000"
    and b: "0 \<le> D" "0 \<le> h" "h \<le> 23" "0 \<le> mi" "mi \<le> 59" "0 \<le> s2" "s2 \<le> 59" "0 \<le> ms" "ms \<le> 999"
    "0 \<le> s" "s < 86400" "D * 864000000000 \<le> T"
    by (rule time_split [OF assms(1)]) blast
  have D: "D < 10675200" using b(12) assms(2) by simp
  obtain y d m d' where y: "year_loop (to_ULONG (1601 + D div 366))
      (to_ULONG (D - DaysSinceEpoch (to_ULONG (1601 + D div 366)))) = (y, d)"
    "month_loop (MonthLengths (IsLeapYear y)) 0 d = Some (m, d')"
    "1601 \<le> y" "y < 32768" "m < 12" "0 \<le> d'" "d' < MonthLengths (IsLeapYear y) ! m"
    "D = DaysSinceEpoch y + sum_list (take m (MonthLengths (IsLeapYear y))) + d'"
    by (rule day_number_ok [OF b(1) D]) blast
  have "MonthLengths (IsLeapYear y) ! m \<le> 31" using MonthLengths_nth y(5) by simp
  then have d': "d' < 31" using y(7) by linarith
  have U: "to_ULONGLONG T = T" "to_ULONG D = D" "to_ULONG s = s" "to_ULONG (1 + D) = 1 + D"
    using assms b D by (simp_all add: to_ULONG_id to_ULONGLONG_id)
  have w: "0 \<le> (1 + D) mod 7" "(1 + D) mod 7 < 7" by simp_all
  let ?tf = "\<lparr>Year = y, Month = int m + 1, Day = d' + 1, Hour = h, Minute = mi, Second = s2,
              Milliseconds = ms, Weekday = (1 + D) mod 7\<rparr>"
  have "RtlTimeToTimeFields T = Some ?tf"
    unfolding RtlTimeToTimeFields_def Let_def U t y(1) using y(2-6) d' b w
    by (simp add: to_CSHORT_id)
  moreover have "valid_fields ?tf" using y(3,5-7) b by (simp add: valid_fields_def)
  moreover have days: "days_of ?tf = D" using y(8) by (simp add: days_of_def)
  moreover have "ticks_of ?tf = T - T mod 10000" unfolding T using days by (simp add: ticks_of_def)
  moreover have "D = T div 10000000 div 86400" unfolding t by (rule refl)
  moreover have "Year ?tf < 32768" "Weekday ?tf = (1 + D) mod 7" using y(4) by simp_all
  ultimately show ?thesis by metis
qed

lemma quotient_unique:
  assumes "(a :: int) * k \<le> t" "t < (a + 1) * k" "b * k \<le> t" "t < (b + 1) * k" "0 < k"
  shows "a = b"
proof (cases a b rule: linorder_cases)
  case less
  then have "(a + 1) * k \<le> b * k" using assms(5) by (intro mult_right_mono) simp_all
  then show ?thesis using assms by linarith
next
  case greater
  then have "(b + 1) * k \<le> a * k" using assms(5) by (intro mult_right_mono) simp_all
  then show ?thesis using assms by linarith
qed

lemma fields_unique:
  assumes v: "valid_fields tf" "valid_fields tf'" and eq: "ticks_of tf = ticks_of tf'"
  shows "tf' = tf\<lparr>Weekday := Weekday tf'\<rparr>"
proof -
  note b = v [unfolded valid_fields_def]
  have days: "days_of tf = days_of tf'"
    using ticks_of_days [OF v(1)] ticks_of_days [OF v(2)] unfolding eq by (rule quotient_unique) simp
  then have rest: "Hour tf * 3600 * 10000000 + Minute tf * 60 * 10000000 + Second tf * 10000000 + Milliseconds tf * 10000 =
      Hour tf' * 3600 * 10000000 + Minute tf' * 60 * 10000000 + Second tf' * 10000000 + Milliseconds tf' * 10000"
    using eq by (simp add: ticks_of_def)
  have h: "Hour tf = Hour tf'" using rest b by linarith
  have m: "Minute tf = Minute tf'" using rest h b by linarith
  have s: "Second tf = Second tf'" using rest h m b by linarith
  have ms: "Milliseconds tf = Milliseconds tf'" using rest h m s by linarith
  define p where "p tf = sum_list (take (nat (Month tf - 1)) (MonthLengths (IsLeapYear (Year tf)))) + (Day tf - 1)" for tf :: TIME_FIELDS
  note pl = month_prefix_less [OF valid_month(1,3,4) [OF v(1)]] month_prefix_less [OF valid_month(1,3,4) [OF v(2)]]
  have "Year tf = Year tf' \<and> p tf = p tf'"
    using b days pl by (intro year_unique) (simp_all add: p_def days_of_def)
  then have y: "Year tf = Year tf'" and p: "p tf = p tf'" by simp_all
  have "nat (Month tf - 1) = nat (Month tf' - 1) \<and> Day tf - 1 = Day tf' - 1"
    using valid_month [OF v(1)] valid_month [OF v(2)] p y by (intro month_unique [of _ _ "IsLeapYear (Year tf)"]) (simp_all add: p_def)
  then have "Month tf = Month tf'" "Day tf = Day tf'" using b by auto
  then show ?thesis using y h m s ms by (cases tf; cases tf') simp
qed

lemma ticks_of_mod: "ticks_of tf mod 10000 = 0"
proof -
  have "ticks_of tf = 10000 * ((days_of tf * 86400 + Hour tf * 3600 + Minute tf * 60 + Second tf) * 1000 + Milliseconds tf)"
    by (simp add: ticks_of_def)
  then show ?thesis by (simp only: mod_mult_self1_is_0)
qed

lemma ticks_of_nonneg: "valid_fields tf \<Longrightarrow> 0 \<le> ticks_of tf"
  using days_of_bounds [of tf] ticks_of_days [of tf] by linarith

lemma fields_time_fields:
  assumes v: "valid_fields tf" and small: "ticks_of tf < 2 ^ 63"
  shows "RtlTimeToTimeFields (ticks_of tf) = Some (tf\<lparr>Weekday := (1 + days_of tf) mod 7\<rparr>)"
proof -
  obtain tf' where tf': "RtlTimeToTimeFields (ticks_of tf) = Some tf'" "valid_fields tf'"
    "ticks_of tf' = ticks_of tf - ticks_of tf mod 10000" "Weekday tf' = (1 + days_of tf') mod 7"
    using RtlTimeToTimeFields_ok [OF ticks_of_nonneg [OF v] small] by blast
  have "tf' = tf\<lparr>Weekday := Weekday tf'\<rparr>"
    using fields_unique [OF v tf'(2)] tf'(3) ticks_of_mod by simp
  moreover from this have "days_of tf' = days_of (tf\<lparr>Weekday := Weekday tf'\<rparr>)" by (rule arg_cong)
  then have "Weekday tf' = (1 + days_of tf) mod 7" using tf'(4) by (simp add: days_of_def)
  ultimately show ?thesis using tf'(1) by simp
qed

lemma RtlTimeFieldsToTime_reject:
  assumes "\<not> valid_fields tf"
  shows "RtlTimeFieldsToTime tf = Some None"
proof (cases "1 \<le> Month tf \<and> Month tf \<le> 12")
  case True
  then have "nat (Month tf - 1) < 12" by auto
  then show ?thesis using assms True by (auto simp: RtlTimeFieldsToTime_def valid_fields_def not_le)
next
  case False
  then show ?thesis by (auto simp: RtlTimeFieldsToTime_def)
qed

lemma elapsed_ok:
  assumes "0 \<le> T" "T < 32768 * 864000000000"
  shows "let tf' = RtlTimeToElapsedTimeFields T tf in
    0 \<le> Hour tf' \<and> Hour tf' \<le> 23 \<and> 0 \<le> Minute tf' \<and> Minute tf' \<le> 59 \<and>
    0 \<le> Second tf' \<and> Second tf' \<le> 59 \<and> 0 \<le> Milliseconds tf' \<and> Milliseconds tf' \<le> 999 \<and>
    Month tf' = 0 \<and> Year tf' = 0 \<and> Weekday tf' = Weekday tf \<and>
    T - T mod 10000 = (Day tf' * 86400 + Hour tf' * 3600 + Minute tf' * 60 + Second tf') * 10000000 + Milliseconds tf' * 10000"
proof -
  obtain n r D s h s1 mi s2 ms where t:
    "T mod 10000000 = r" "T div 10000000 = n" "r div 10000 = ms" "n div 86400 = D" "n mod 86400 = s"
    "s div 3600 = h" "s mod 3600 = s1" "s1 div 60 = mi" "s1 mod 60 = s2"
    and T: "T - T mod 10000 = (D * 86400 + h * 3600 + mi * 60 + s2) * 10000000 + ms * 10000"
    and b: "0 \<le> D" "0 \<le> h" "h \<le> 23" "0 \<le> mi" "mi \<le> 59" "0 \<le> s2" "s2 \<le> 59" "0 \<le> ms" "ms \<le> 999"
    "0 \<le> s" "s < 86400" "D * 864000000000 \<le> T"
    by (rule time_split [OF assms(1)]) blast
  have D: "D < 32768" using b(12) assms(2) by linarith
  have U: "to_ULONGLONG T = T" "to_ULONG s = s" using assms b by (simp_all add: to_ULONG_id to_ULONGLONG_id)
  have r: "0 \<le> r" using t(1) by (metis pos_mod_sign zero_less_numeral)
  have sm: "T smod 10000000 sdiv 10000 = ms"
    using assms(1) r by (simp add: smod_nonneg sdiv_nonneg t)
  have "RtlTimeToElapsedTimeFields T tf = tf\<lparr>Milliseconds := ms, Hour := h, Minute := mi, Second := s2, Day := D, Month := 0, Year := 0\<rparr>"
    unfolding RtlTimeToElapsedTimeFields_def Let_def U sm t using b D by simp
  then show ?thesis using b T by simp
qed

lemma to_LONGLONG_add: "to_LONGLONG (to_LONGLONG x + y) = to_LONGLONG (x + y)"
  unfolding to_LONGLONG_def by (metis signed_take_bit_add signed_take_bit_signed_take_bit min.idem)

lemma seconds_ok:
  assumes E: "0 \<le> E" "E < 2 ^ 62" and T: "0 \<le> T" "T < 2 ^ 63"
  shows "(let IntTime = to_LONGLONG (T - E) sdiv 10000000
      in if to_ULONGLONG IntTime div 2 ^ 32 \<noteq> 0 then None else Some (to_ULONG IntTime)) =
    (if T \<le> E - 10000000 \<or> E + 2 ^ 32 * 10000000 \<le> T then None
     else if T < E then Some 0 else Some ((T - E) div 10000000))"
proof -
  have L: "to_LONGLONG (T - E) = T - E" using assms by (intro to_LONGLONG_id) simp_all
  show ?thesis
  proof (cases "E \<le> T")
    case True
    define q where "q = (T - E) div 10000000"
    have s: "(T - E) sdiv 10000000 = q" using True by (simp add: sdiv_nonneg q_def)
    have q: "0 \<le> q" "q < 2 ^ 63" "q < 2 ^ 32 \<longleftrightarrow> T < E + 2 ^ 32 * 10000000"
      using True T E by (auto simp: q_def div_less_iff_less_mult)
    have "to_ULONGLONG q = q" using q by (intro to_ULONGLONG_id) simp_all
    moreover have "q div 2 ^ 32 = 0 \<longleftrightarrow> q < 2 ^ 32" using q(1) by (auto simp: zdiv_eq_0_iff)
    ultimately show ?thesis using True q by (simp add: L s Let_def q_def [symmetric] to_ULONG_id not_le)
  next
    case False
    define q where "q = (E - T) div 10000000"
    have s: "(T - E) sdiv 10000000 = - q"
      using False by (simp add: signed_divide_int_def sgn_if q_def)
    have q: "0 \<le> q" "q < 2 ^ 63" "q = 0 \<longleftrightarrow> E - 10000000 < T"
      using False T E by (auto simp: q_def zdiv_eq_0_iff)
    show ?thesis
    proof (cases "q = 0")
      case True
      then show ?thesis using False q(3) by (simp add: L s to_ULONG_def to_ULONGLONG_def)
    next
      case q0: False
      have "to_ULONGLONG (- q) = 2 ^ 64 - q"
        unfolding to_ULONGLONG_def using q q0 by (simp add: zmod_zminus1_eq_if)
      moreover have "(2 ^ 64 - q) div 2 ^ 32 \<noteq> 0" using q by (simp add: zdiv_eq_0_iff)
      ultimately show ?thesis using False q0 q(3) by (simp add: L s)
    qed
  qed
qed

lemma cutover_day_ok:
  assumes W: "0 \<le> Weekday c" "Weekday c \<le> 6" and w: "0 \<le> w" "w \<le> 6"
    and n: "1 \<le> Day c" "Day c \<le> 5" and M: "28 \<le> M" "M \<le> 31"
  shows "nth_weekday (Day c) (cutover_day c w M 1) M \<and> (w + (cutover_day c w M 1 - 1)) mod 7 = Weekday c"
proof -
  define f where "f = (if w < Weekday c then 1 + (Weekday c - w) else if w = Weekday c then 1 else 1 + (7 - (w - Weekday c)))"
  have f: "1 \<le> f" "f \<le> 7" using W w by (auto simp: f_def)
  have fm: "(w + (f + 7 * k - 1)) mod 7 = Weekday c" for k
  proof -
    have "w + (f + 7 * k - 1) = Weekday c + 7 * (if w \<le> Weekday c then k else k + 1)"
      using W w by (auto simp: f_def)
    then show ?thesis using W by (simp only: mod_mult_self2) simp
  qed
  define n where "n = Day c"
  define d where "d = (if f + 7 * (n - 1) > M then f + 7 * (n - 2) else f + 7 * (n - 1))"
  have eq: "cutover_day c w M 1 = d"
    using W w n f M by (auto simp: cutover_day_def Let_def f_def d_def n_def)
  have "nth_weekday n d M"
  proof (cases "f + 7 * (n - 1) > M")
    case True
    then have "n = 5" using f M n unfolding n_def [symmetric] by presburger
    then show ?thesis using True f M by (simp add: nth_weekday_def d_def)
  next
    case False
    then show ?thesis using f n unfolding n_def [symmetric] by (simp add: nth_weekday_def d_def)
  qed
  moreover have "(w + (d - 1)) mod 7 = Weekday c" using fm [of "n - 1"] fm [of "n - 2"] by (simp add: d_def)
  ultimately show ?thesis by (simp add: eq n_def)
qed

lemma cutover_fields_valid:
  assumes "valid_cutover c" "1601 \<le> y" "1 \<le> d" "d \<le> MonthLengths (IsLeapYear y) ! nat (Month c - 1)"
  shows "valid_fields (cutover_fields c y d)"
  using assms by (simp add: valid_cutover_def valid_fields_def cutover_fields_def)

lemma cutover_in_year_ok:
  assumes c: "valid_cutover c" and y: "1601 \<le> y" and lim: "(DaysSinceEpoch y + 366) * 864000000000 < 2 ^ 63"
  shows "\<exists>d. cutover_in_year c y = Some (Some (ticks_of (cutover_fields c y d))) \<and>
    valid_fields (cutover_fields c y d) \<and> ticks_of (cutover_fields c y d) < 2 ^ 63 \<and>
    nth_weekday (Day c) d (MonthLengths (IsLeapYear y) ! nat (Month c - 1)) \<and>
    (1 + days_of (cutover_fields c y d)) mod 7 = Weekday c"
proof -
  let ?len = "MonthLengths (IsLeapYear y) ! nat (Month c - 1)"
  have m12: "nat (Month c - 1) < 12" using c by (auto simp: valid_cutover_def)
  note len = MonthLengths_nth [OF m12, of "IsLeapYear y"]
  have small: "ticks_of (cutover_fields c y d) < 2 ^ 63" if "1 \<le> d" "d \<le> ?len" for d
  proof -
    note v = cutover_fields_valid [OF c y that]
    have "Year (cutover_fields c y d) = y" by (simp add: cutover_fields_def)
    then have "days_of (cutover_fields c y d) + 1 \<le> DaysSinceEpoch y + 366"
      using days_of_bounds(2) [OF v] YearLengths_bounds [of "IsLeapYear y"] by simp
    then have "(days_of (cutover_fields c y d) + 1) * 864000000000 \<le> (DaysSinceEpoch y + 366) * 864000000000"
      by (rule mult_right_mono) simp
    then show ?thesis using ticks_of_days(2) [OF v] lim by linarith
  qed
  have one: "1 \<le> (1 :: int)" "1 \<le> ?len" using len by simp_all
  note v1 = cutover_fields_valid [OF c y one] and s1 = small [OF one]
  define w where "w = (1 + days_of (cutover_fields c y 1)) mod 7"
  have w: "0 \<le> w" "w \<le> 6" by (simp_all add: w_def pos_mod_bound [of 7, simplified])
  define d where "d = cutover_day c w ?len 1"
  have d: "nth_weekday (Day c) d ?len" "(w + (d - 1)) mod 7 = Weekday c"
    using cutover_day_ok [OF _ _ w _ _ len, of c] c by (simp_all add: d_def valid_cutover_def)
  then have dr: "1 \<le> d" "d \<le> ?len" by (simp_all add: nth_weekday_def)
  have "cutover_in_year c y = RtlTimeFieldsToTime (cutover_fields c y d)"
    unfolding cutover_in_year_def Let_def
    using RtlTimeFieldsToTime_ok [OF v1 s1] fields_time_fields [OF v1 s1] m12
    by (simp add: cutover_fields_def d_def w_def)
  then have "cutover_in_year c y = Some (Some (ticks_of (cutover_fields c y d)))"
    using RtlTimeFieldsToTime_ok [OF cutover_fields_valid [OF c y dr] small [OF dr]] by simp
  moreover have "1 + days_of (cutover_fields c y d) = 1 + days_of (cutover_fields c y 1) + (d - 1)"
    by (simp add: days_of_def cutover_fields_def)
  then have "(1 + days_of (cutover_fields c y d)) mod 7 = Weekday c"
    using d(2) by (simp only: w_def mod_add_left_eq)
  ultimately show ?thesis using cutover_fields_valid [OF c y dr] small [OF dr] d(1) by blast
qed

lemma current_year_bounds:
  assumes v: "valid_fields tf" and lim: "ticks_of tf < 9000000000000000000"
  shows "(DaysSinceEpoch (Year tf) + 1000) * 864000000000 < 2 ^ 63" "Year tf < 32000"
proof -
  have D: "DaysSinceEpoch (Year tf) * 864000000000 < 9000000000000000000"
    using days_of_bounds(1) [OF v] ticks_of_days(1) [OF v] lim by linarith
  then show "(DaysSinceEpoch (Year tf) + 1000) * 864000000000 < 2 ^ 63" by simp
  have "1601 \<le> Year tf" using v by (simp add: valid_fields_def)
  then have "365 * (Year tf - 1601) \<le> DaysSinceEpoch (Year tf)"
    using DaysSinceEpoch_bounds [of "nat (Year tf - 1601)"] by simp
  then show "Year tf < 32000" using D by simp
qed

lemma ticks_of_year_less:
  assumes "valid_fields tf" "valid_fields tf'" "Year tf < Year tf'"
  shows "ticks_of tf + 10000 \<le> ticks_of tf'"
proof -
  have "1601 \<le> Year tf" using assms(1) by (simp add: valid_fields_def)
  then have "days_of tf + 1 \<le> days_of tf'"
    using DaysSinceEpoch_mono [OF _ assms(3)] days_of_bounds [OF assms(1)] days_of_bounds [OF assms(2)] by linarith
  then have "(days_of tf + 1) * 864000000000 \<le> days_of tf' * 864000000000" by (rule mult_right_mono) simp
  moreover have "ticks_of tf + 10000 \<le> (days_of tf + 1) * 864000000000"
    using assms(1) by (simp add: valid_fields_def ticks_of_def)
  ultimately show ?thesis using ticks_of_days(1) [OF assms(2)] by linarith
qed

text \<open>A month has one such day.\<close>

lemma nth_weekday_unique:
  assumes "nth_weekday n d M" "nth_weekday n d' M" "M \<le> 31" "(k + d) mod 7 = (k + d') mod 7"
  shows "d = d'"
proof -
  have "\<bar>d - d'\<bar> < 7" using assms(1-3) by (auto simp: nth_weekday_def)
  moreover have "7 dvd (k + d) - (k + d')" using assms(4) by (simp only: mod_eq_dvd_iff)
  then have "7 dvd d - d'" by simp
  then have "d - d' = 0 \<or> \<bar>7\<bar> \<le> \<bar>d - d'\<bar>" using dvd_imp_le_int [of "d - d'" 7] by auto
  ultimately show ?thesis by auto
qed

lemma is_cutover_iff:
  assumes "0 \<le> t" "t < 2 ^ 63" "valid_cutover c"
  shows "is_cutover c t \<longleftrightarrow> (\<exists>y d. t = ticks_of (cutover_fields c y d) \<and> cutover_at c y d)"
proof
  assume cut: "is_cutover c t"
  obtain tf where tf: "RtlTimeToTimeFields t = Some tf" "valid_fields tf" "ticks_of tf = t - t mod 10000"
    "Weekday tf = (1 + days_of tf) mod 7" using RtlTimeToTimeFields_ok [OF assms(1,2)] by blast
  let ?f = "cutover_fields c (Year tf) (Day tf)"
  have eq: "tf\<lparr>Weekday := 0\<rparr> = ?f" using cut tf(1) by (cases tf) (simp add: is_cutover_def cutover_fields_def)
  have "days_of tf = days_of ?f" "ticks_of tf = ticks_of ?f" "valid_fields ?f"
    using tf(2) unfolding eq [symmetric] by (simp_all add: days_of_def ticks_of_def valid_fields_def)
  then show "\<exists>y d. t = ticks_of (cutover_fields c y d) \<and> cutover_at c y d"
    using cut tf assms(2) by (intro exI [of _ "Year tf"] exI [of _ "Day tf"]) (auto simp: is_cutover_def cutover_at_def)
next
  assume "\<exists>y d. t = ticks_of (cutover_fields c y d) \<and> cutover_at c y d"
  then obtain y d where t: "t = ticks_of (cutover_fields c y d)" and c: "cutover_at c y d" by blast
  then have "RtlTimeToTimeFields t = Some ((cutover_fields c y d)\<lparr>Weekday := Weekday c\<rparr>)"
    using fields_time_fields [of "cutover_fields c y d"] by (simp add: cutover_at_def)
  then show "is_cutover c t" using c ticks_of_mod [of "cutover_fields c y d"]
    by (simp add: is_cutover_def t cutover_at_def) (simp add: cutover_fields_def)
qed

lemma cutover_at_unique:
  assumes "cutover_at c y d" "cutover_at c y d'"
  shows "d = d'"
proof -
  have "valid_fields (cutover_fields c y d)" using assms(1) by (simp add: cutover_at_def)
  then have "nat (Month c - 1) < 12" using valid_month(1) [of "cutover_fields c y d"] by (simp add: cutover_fields_def)
  note M = MonthLengths_nth(2) [OF this, of "IsLeapYear y"]
  have days: "1 + days_of (cutover_fields c y e) = days_of (cutover_fields c y 1) + e" for e
    by (simp add: days_of_def cutover_fields_def)
  show ?thesis
    using assms nth_weekday_unique [OF _ _ M, of "Day c" d d' "days_of (cutover_fields c y 1)"]
    by (simp add: cutover_at_def days)
qed

text \<open>Cutovers of different years are ordered like the years.\<close>

lemma cutover_at_mono:
  assumes "cutover_at c y d" "cutover_at c y' d'" "y \<le> y'"
  shows "ticks_of (cutover_fields c y d) \<le> ticks_of (cutover_fields c y' d')"
proof (cases "y = y'")
  case True
  then show ?thesis using cutover_at_unique [of c y d d'] assms by simp
next
  case False
  then show ?thesis
    using assms ticks_of_year_less [of "cutover_fields c y d" "cutover_fields c y' d'"]
    by (simp add: cutover_at_def) (simp add: cutover_fields_def)
qed

lemma cutover_loop_first:
  assumes c: "valid_cutover c" and v: "valid_fields tf" and lim: "ticks_of tf < 9000000000000000000"
  obtains y d where "cutover_loop c Cur only (Year tf) False = Some (Some (ticks_of (cutover_fields c y d)))" "cutover_at c y d"
    "only \<Longrightarrow> y = Year tf" "\<not> only \<Longrightarrow> Cur \<le> ticks_of (cutover_fields c y d) \<and> y = Year tf \<or> y = Year tf + 1 \<and>
       (\<forall>d. cutover_at c (Year tf) d \<longrightarrow> ticks_of (cutover_fields c (Year tf) d) < Cur)"
proof -
  let ?y = "Year tf"
  note b = current_year_bounds [OF v lim]
  have y: "1601 \<le> ?y" using v by (simp add: valid_fields_def)
  have "(DaysSinceEpoch ?y + 366) * 864000000000 < 2 ^ 63" using b(1) by simp
  from cutover_in_year_ok [OF c y this] obtain d where
    d: "cutover_in_year c ?y = Some (Some (ticks_of (cutover_fields c ?y d)))" "cutover_at c ?y d"
    unfolding cutover_at_def by blast
  have y1: "1601 \<le> ?y + 1" "to_CSHORT (?y + 1) = ?y + 1" using y b(2) by simp_all
  have "(DaysSinceEpoch (?y + 1) + 366) * 864000000000 < 2 ^ 63"
    using b(1) DaysSinceEpoch_Suc [of ?y] YearLengths_bounds [of "IsLeapYear ?y"] y by simp
  from cutover_in_year_ok [OF c y1(1) this] obtain d' where
    d': "cutover_in_year c (?y + 1) = Some (Some (ticks_of (cutover_fields c (?y + 1) d')))" "cutover_at c (?y + 1) d'"
    unfolding cutover_at_def by blast
  show ?thesis
  proof (cases "only \<or> Cur \<le> ticks_of (cutover_fields c ?y d)")
    case True
    then have "cutover_loop c Cur only ?y False = Some (Some (ticks_of (cutover_fields c ?y d)))"
      using d(1) by (subst cutover_loop.simps) simp
    then show ?thesis using d(2) True by (intro that [of ?y d]) auto
  next
    case False
    have "cutover_loop c Cur only ?y True = Some (Some (ticks_of (cutover_fields c (?y + 1) d')))"
      using d'(1) y1(2) by (subst cutover_loop.simps) simp
    then have "cutover_loop c Cur only ?y False = Some (Some (ticks_of (cutover_fields c (?y + 1) d')))"
      using d(1) False by (subst cutover_loop.simps) simp
    moreover have "\<forall>e. cutover_at c ?y e \<longrightarrow> ticks_of (cutover_fields c ?y e) < Cur"
      using cutover_at_unique [OF d(2)] False by auto
    ultimately show ?thesis using d'(2) False by (intro that [of "?y + 1" d']) auto
  qed
qed

section \<open>Properties\<close>

text \<open>
  C1. RtlTimeToTimeFields is total on the non-negative system times: its year and month
  loops end inside their tables, the fields it stores are a valid calendar date with the
  right weekday, and RtlTimeFieldsToTime maps them back to the time rounded down to a
  millisecond.
\<close>

theorem RtlTime_fields_round_trip:
  assumes "0 \<le> T" and "T < 2 ^ 63"
  shows "\<exists>tf. RtlTimeToTimeFields T = Some tf \<and> valid_fields tf \<and>
    Weekday tf = (1 + T div 864000000000) mod 7 \<and>
    RtlTimeFieldsToTime tf = Some (Some (T - T mod 10000))"
proof -
  obtain tf where tf: "RtlTimeToTimeFields T = Some tf" "valid_fields tf" "ticks_of tf = T - T mod 10000"
    "days_of tf = T div 10000000 div 86400" "Weekday tf = (1 + days_of tf) mod 7"
    using RtlTimeToTimeFields_ok [OF assms] by blast
  have "T div 10000000 div 86400 = T div 864000000000" by (simp add: zdiv_zmult2_eq [symmetric])
  moreover have "0 \<le> T mod 10000" by simp
  then have "ticks_of tf < 2 ^ 63" using tf(3) assms(2) by linarith
  ultimately show ?thesis using tf RtlTimeFieldsToTime_ok [OF tf(2)] by auto
qed

theorem RtlTime_fields_round_trip_witness:
  "\<exists>tf. RtlTimeToTimeFields 132223104001234567 = Some tf \<and> valid_fields tf \<and>
    RtlTimeFieldsToTime tf = Some (Some 132223104001230000)"
  using RtlTime_fields_round_trip [of 132223104001234567] by auto

text \<open>
  C20. For valid fields whose tick count fits 63 bits, RtlTimeFieldsToTime succeeds with
  exactly that tick count and RtlTimeToTimeFields gives the same fields back, with the
  weekday filled in.
\<close>

theorem RtlTimeFields_round_trip:
  assumes "valid_fields tf" and "ticks_of tf < 2 ^ 63"
  shows "\<exists>t. RtlTimeFieldsToTime tf = Some (Some t) \<and> 0 \<le> t \<and> t = ticks_of tf \<and>
    RtlTimeToTimeFields t = Some (tf\<lparr>Weekday := (1 + days_of tf) mod 7\<rparr>)"
  using RtlTimeFieldsToTime_ok [OF assms] fields_time_fields [OF assms] ticks_of_nonneg [OF assms(1)]
  by blast

theorem RtlTimeFields_round_trip_witness:
  "\<exists>t. RtlTimeFieldsToTime \<lparr>Year = 2000, Month = 2, Day = 29, Hour = 23, Minute = 59, Second = 58,
      Milliseconds = 7, Weekday = 0\<rparr> = Some (Some t) \<and>
    RtlTimeToTimeFields t = Some \<lparr>Year = 2000, Month = 2, Day = 29, Hour = 23, Minute = 59,
      Second = 58, Milliseconds = 7, Weekday = 2\<rparr>"
proof -
  let ?tf = "\<lparr>Year = 2000, Month = 2, Day = 29, Hour = 23, Minute = 59, Second = 58,
      Milliseconds = 7, Weekday = 0\<rparr>"
  have v: "valid_fields ?tf" by code_simp
  have t: "ticks_of ?tf < 2 ^ 63" by code_simp
  have d: "(1 + days_of ?tf) mod 7 = 2" by code_simp
  show ?thesis using RtlTimeFields_round_trip [OF v t] unfolding d by auto
qed

text \<open>
  RtlTimeFieldsToTime returns FALSE, without reading outside the month table, for every
  field combination that is not a calendar date of 1601 or later.
\<close>

theorem RtlTimeFieldsToTime_rejects:
  assumes "\<not> valid_fields tf"
  shows "RtlTimeFieldsToTime tf = Some None"
  by (rule RtlTimeFieldsToTime_reject [OF assms])

theorem RtlTimeFieldsToTime_rejects_witness:
  "RtlTimeFieldsToTime \<lparr>Year = 1900, Month = 2, Day = 29, Hour = 0, Minute = 0, Second = 0,
      Milliseconds = 0, Weekday = 0\<rparr> = Some None"
proof -
  have "\<not> valid_fields \<lparr>Year = 1900, Month = 2, Day = 29, Hour = 0, Minute = 0, Second = 0,
      Milliseconds = 0, Weekday = 0\<rparr>" by code_simp
  then show ?thesis by (rule RtlTimeFieldsToTime_rejects)
qed

text \<open>
  RtlTimeFieldsToTime accepts the year 30829, although its ticks do not fit 63 bits: the
  stored time is negative.
\<close>

theorem RtlTimeFieldsToTime_overflows:
  "RtlTimeFieldsToTime \<lparr>Year = 30829, Month = 1, Day = 1, Hour = 0, Minute = 0, Second = 0,
      Milliseconds = 0, Weekday = 0\<rparr> = Some (Some (- 9223277961709551616))"
  by code_simp

text \<open>
  For an elapsed time of fewer than 32768 days RtlTimeToElapsedTimeFields splits the time
  into days, hours, minutes, seconds and milliseconds in their ranges that add up to the
  time rounded down to a millisecond, sets month and year to 0 and leaves the weekday alone.
\<close>

theorem RtlTimeToElapsedTimeFields_correct:
  assumes "0 \<le> T" and "T < 32768 * 864000000000"
  shows "let tf' = RtlTimeToElapsedTimeFields T tf in
    0 \<le> Hour tf' \<and> Hour tf' \<le> 23 \<and> 0 \<le> Minute tf' \<and> Minute tf' \<le> 59 \<and>
    0 \<le> Second tf' \<and> Second tf' \<le> 59 \<and> 0 \<le> Milliseconds tf' \<and> Milliseconds tf' \<le> 999 \<and>
    Month tf' = 0 \<and> Year tf' = 0 \<and> Weekday tf' = Weekday tf \<and>
    T - T mod 10000 =
      (Day tf' * 86400 + Hour tf' * 3600 + Minute tf' * 60 + Second tf') * 10000000 +
      Milliseconds tf' * 10000"
  by (rule elapsed_ok [OF assms])

theorem RtlTimeToElapsedTimeFields_correct_witness:
  "Day (RtlTimeToElapsedTimeFields 864036000001
     \<lparr>Year = 1, Month = 1, Day = 1, Hour = 1, Minute = 1, Second = 1, Milliseconds = 1, Weekday = 1\<rparr>) * 86400 +
   Hour (RtlTimeToElapsedTimeFields 864036000001
     \<lparr>Year = 1, Month = 1, Day = 1, Hour = 1, Minute = 1, Second = 1, Milliseconds = 1, Weekday = 1\<rparr>) * 3600 \<le> 86403"
  using RtlTimeToElapsedTimeFields_correct [of 864036000001
     "\<lparr>Year = 1, Month = 1, Day = 1, Hour = 1, Minute = 1, Second = 1, Milliseconds = 1, Weekday = 1\<rparr>"]
  by (simp add: Let_def)

text \<open>
  RtlTimeToSecondsSince1970 succeeds exactly for the times from less than one second before
  1970 to 2^32 seconds after it, with the whole seconds since 1970 (0 for the second
  before), and RtlSecondsSince1970ToTime maps the result back to the time rounded down to a
  second.
\<close>

theorem RtlTimeToSecondsSince1970_correct:
  assumes "0 \<le> T" and "T < 2 ^ 63"
  shows "RtlTimeToSecondsSince1970 T =
    (if T \<le> TICKSTO1970 - 10000000 \<or> TICKSTO1970 + 2 ^ 32 * 10000000 \<le> T then None
     else if T < TICKSTO1970 then Some 0 else Some ((T - TICKSTO1970) div 10000000)) \<and>
    (\<forall>s. RtlTimeToSecondsSince1970 T = Some s \<and> TICKSTO1970 \<le> T \<longrightarrow>
       RtlSecondsSince1970ToTime s = T - (T - TICKSTO1970) mod 10000000)"
proof -
  have E: "(0::int) \<le> TICKSTO1970" "TICKSTO1970 < 2 ^ 62" by simp_all
  note c = seconds_ok [OF E assms, folded RtlTimeToSecondsSince1970_def]
  show ?thesis
  proof (intro conjI allI impI)
    show eq: "RtlTimeToSecondsSince1970 T =
      (if T \<le> TICKSTO1970 - 10000000 \<or> TICKSTO1970 + 2 ^ 32 * 10000000 \<le> T then None
       else if T < TICKSTO1970 then Some 0 else Some ((T - TICKSTO1970) div 10000000))"
      using seconds_ok [OF E assms] by (simp only: RtlTimeToSecondsSince1970_def Let_def)
    fix s assume s: "RtlTimeToSecondsSince1970 T = Some s \<and> TICKSTO1970 \<le> T"
    obtain q r where qr: "(T - TICKSTO1970) div 10000000 = q" "(T - TICKSTO1970) mod 10000000 = r"
      "T - TICKSTO1970 = 10000000 * q + r" "0 \<le> r" "r < 10000000"
      by (rule div_mod_obtain [of 10000000 "T - TICKSTO1970"]) auto
    have "s = q" using s eq by (simp add: qr split: if_splits)
    moreover have "to_LONGLONG (q * 10000000 + TICKSTO1970) = q * 10000000 + TICKSTO1970"
      using qr s assms by (intro to_LONGLONG_id) simp_all
    ultimately show "RtlSecondsSince1970ToTime s = T - (T - TICKSTO1970) mod 10000000"
      using qr by (simp add: RtlSecondsSince1970ToTime_def)
  qed
qed

theorem RtlTimeToSecondsSince1970_correct_witness:
  "RtlTimeToSecondsSince1970 (TICKSTO1970 + 12345678901) = Some 1234 \<and>
   RtlSecondsSince1970ToTime 1234 = TICKSTO1970 + 12340000000"
  using RtlTimeToSecondsSince1970_correct [of "TICKSTO1970 + 12345678901"] by simp

text \<open>
  With the same time zone bias, RtlLocalTimeToSystemTime undoes RtlSystemTimeToLocalTime for
  every 64-bit time, also where the subtraction wraps around.
\<close>

theorem RtlLocalTime_round_trip:
  assumes "- (2 ^ 63) \<le> T" and "T < 2 ^ 63" and "NT_SUCCESS Status"
  shows "\<exists>l. RtlSystemTimeToLocalTime (Status, Bias) T = (STATUS_SUCCESS, Some l) \<and>
    RtlLocalTimeToSystemTime (Status, Bias) l = (STATUS_SUCCESS, Some T)"
  using assms by (auto simp: RtlSystemTimeToLocalTime_def RtlLocalTimeToSystemTime_def to_LONGLONG_add to_LONGLONG_id)

theorem RtlLocalTime_round_trip_witness:
  "\<exists>l. RtlSystemTimeToLocalTime (STATUS_SUCCESS, 36000000000) 132223104000000000 = (STATUS_SUCCESS, Some l) \<and>
    RtlLocalTimeToSystemTime (STATUS_SUCCESS, 36000000000) l = (STATUS_SUCCESS, Some 132223104000000000)"
  using RtlLocalTime_round_trip [of 132223104000000000 STATUS_SUCCESS 36000000000] by simp

text \<open>
  C22. For a recurring cutover (month, weekday, time of day and a week number 1 to 5) and a
  current time below 9 * 10^18 RtlCutoverTimeToSystemTime succeeds. The time it stores is a
  cutover: it has the given month, weekday and time of day and is the given occurrence of
  the weekday in that month (for 5 the last one). When only this year is asked for it is the
  cutover of the year of the current time; otherwise it is not before the current time and
  no cutover before it is (the next cutover).
\<close>

theorem RtlCutoverTimeToSystemTime_correct:
  assumes c: "valid_cutover c" and Cur: "0 \<le> Cur" "Cur < 9000000000000000000"
  shows "\<exists>t. RtlCutoverTimeToSystemTime c Cur only = Some (True, Some t) \<and> 0 \<le> t \<and> t < 2 ^ 63 \<and> is_cutover c t \<and>
    (if only then map_option Year (RtlTimeToTimeFields t) = map_option Year (RtlTimeToTimeFields Cur)
     else Cur \<le> t \<and> (\<forall>u. Cur \<le> u \<and> u < 2 ^ 63 \<and> is_cutover c u \<longrightarrow> t \<le> u))"
proof -
  obtain now where now: "RtlTimeToTimeFields Cur = Some now" "valid_fields now" "ticks_of now = Cur - Cur mod 10000"
    using RtlTimeToTimeFields_ok [of Cur] Cur by auto
  have r: "0 \<le> Cur mod 10000" "Cur mod 10000 < 10000" by simp_all
  then have lim: "ticks_of now < 9000000000000000000" using now(3) Cur(2) by linarith
  obtain y d where yd: "cutover_loop c Cur only (Year now) False = Some (Some (ticks_of (cutover_fields c y d)))"
    "cutover_at c y d" "only \<Longrightarrow> y = Year now"
    "\<not> only \<Longrightarrow> Cur \<le> ticks_of (cutover_fields c y d) \<and> y = Year now \<or> y = Year now + 1 \<and>
       (\<forall>d. cutover_at c (Year now) d \<longrightarrow> ticks_of (cutover_fields c (Year now) d) < Cur)"
    using cutover_loop_first [OF c now(2) lim] by metis
  let ?f = "cutover_fields c y d" let ?t = "ticks_of ?f"
  have v: "valid_fields ?f" "?t < 2 ^ 63" "0 \<le> ?t" using yd(2) ticks_of_nonneg [of ?f] by (simp_all add: cutover_at_def)
  have year: "map_option Year (RtlTimeToTimeFields ?t) = Some y"
    using fields_time_fields [OF v(1,2)] by (simp add: cutover_fields_def)
  have "is_cutover c ?t" using is_cutover_iff [OF v(3,2) c] yd(2) by blast
  moreover have "RtlCutoverTimeToSystemTime c Cur only = Some (True, Some ?t)"
    using c now(1) yd(1) by (simp add: RtlCutoverTimeToSystemTime_def valid_cutover_def)
  moreover have "Cur \<le> ?t" if "\<not> only"
  proof (cases "y = Year now + 1")
    case True
    then have "ticks_of now + 10000 \<le> ?t" by (intro ticks_of_year_less [OF now(2) v(1)]) (simp add: cutover_fields_def)
    then show ?thesis using now(3) r by linarith
  qed (use yd(4) that in auto)
  moreover have "?t \<le> u" if only: "\<not> only" and u: "Cur \<le> u" "u < 2 ^ 63" "is_cutover c u" for u
  proof -
    obtain y' d' where u': "u = ticks_of (cutover_fields c y' d')" "cutover_at c y' d'"
      using is_cutover_iff [of u c] u Cur(1) c by auto
    have "Year now \<le> y'"
    proof (rule ccontr)
      assume "\<not> Year now \<le> y'"
      then have "u + 10000 \<le> ticks_of now"
        unfolding u'(1) using u'(2) by (intro ticks_of_year_less [OF _ now(2)]) (simp_all add: cutover_at_def, simp add: cutover_fields_def)
      then show False using now(3) r u(1) by linarith
    qed
    moreover have "y' \<noteq> Year now" if "y = Year now + 1" using that yd(4) [OF only] u(1) u' by auto
    ultimately have "y \<le> y'" using yd(4) [OF only] by (cases "y' = Year now") auto
    then show ?thesis unfolding u'(1) by (rule cutover_at_mono [OF yd(2) u'(2)])
  qed
  ultimately show ?thesis using v year yd(3) now(1) by auto
qed

theorem RtlCutoverTimeToSystemTime_correct_witness:
  "\<exists>t. RtlCutoverTimeToSystemTime \<lparr>Year = 0, Month = 10, Day = 5, Hour = 2, Minute = 0, Second = 0,
      Milliseconds = 0, Weekday = 0\<rparr> 132223104000000000 False = Some (True, Some t) \<and> 132223104000000000 \<le> t \<and>
    is_cutover \<lparr>Year = 0, Month = 10, Day = 5, Hour = 2, Minute = 0, Second = 0, Milliseconds = 0, Weekday = 0\<rparr> t"
proof -
  have v: "valid_cutover \<lparr>Year = 0, Month = 10, Day = 5, Hour = 2, Minute = 0, Second = 0,
      Milliseconds = 0, Weekday = 0\<rparr>" by code_simp
  show ?thesis using RtlCutoverTimeToSystemTime_correct [OF v, of 132223104000000000 False] by auto
qed

end
