(* ===== verification/RtlRangeList.thy ===== *)
theory RtlRangeList
  imports RtlPrelude
begin

text \<open>
  Range lists, \<^verbatim>\<open>sdk/lib/rtl/rangelist.c\<close>. The circular doubly linked list of entries behind
  \<open>ListHead\<close> is the list of its ranges, from \<open>Flink\<close> of the head to \<open>Blink\<close>; an entry is named by
  its position. Pointers that are only stored (\<open>UserData\<close>, \<open>Owner\<close>) are numbers, \<open>NULL\<close> is 0.
  \<open>RtlpAllocateMemory\<close> is supplied by the environment of the library: whether an allocation
  succeeds is an argument, a function of the number of allocations made before where there can
  be several.
\<close>

section \<open>Data\<close>

record RTL_RANGE =
  Start :: ULONGLONG
  End :: ULONGLONG
  UserData :: nat
  Owner :: nat
  Attributes :: UCHAR
  RangeFlags :: UCHAR

record RTL_RANGE_LIST =
  Entries :: "RTL_RANGE list"
  Flags :: ULONG
  Count :: ULONG
  Stamp :: ULONG

text \<open>\<open>Current\<close> is the position of the current entry, or the null pointer.\<close>

record RTL_RANGE_LIST_ITERATOR =
  Current :: "nat option"
  IterStamp :: ULONG

abbreviation (input) RTL_RANGE_LIST_ADD_SHARED :: ULONG where "RTL_RANGE_LIST_ADD_SHARED \<equiv> 2"
abbreviation (input) RTL_RANGE_SHARED :: UCHAR where "RTL_RANGE_SHARED \<equiv> 1"

text \<open>
  \<^verbatim>\<open>ROUND_DOWN\<close>: the mask \<^verbatim>\<open>~((align) - 1l)\<close> is computed in 32 bits and zero-extended, and on
  32-bit targets the operand is converted to 32 bits as well, so the upper half of the result is 0.
\<close>

definition ROUND_DOWN :: "ULONGLONG \<Rightarrow> ULONG \<Rightarrow> ULONGLONG" where
  "ROUND_DOWN n align = n AND ucast (NOT (align - 1))"

section \<open>Initialisation, insertion and copy\<close>

definition RtlInitializeRangeList :: RTL_RANGE_LIST where
  "RtlInitializeRangeList = \<lparr>Entries = [], Flags = 0, Count = 0, Stamp = 0\<rparr>"

text \<open>The walk that inserts before the first entry that starts after the end of the new one.\<close>

fun insert_range :: "RTL_RANGE \<Rightarrow> RTL_RANGE list \<Rightarrow> RTL_RANGE list" where
  "insert_range r [] = [r]"
| "insert_range r (c # cs) = (if Start c > End r then r # c # cs else c # insert_range r cs)"

definition RtlAddRange ::
  "bool \<Rightarrow> RTL_RANGE_LIST \<Rightarrow> ULONGLONG \<Rightarrow> ULONGLONG \<Rightarrow> UCHAR \<Rightarrow> ULONG \<Rightarrow> nat \<Rightarrow> nat \<Rightarrow>
   NTSTATUS \<times> RTL_RANGE_LIST" where
  "RtlAddRange alloc rl s e attributes flags userdata owner =
     (if s > e then (STATUS_INVALID_PARAMETER, rl)
      else if \<not> alloc then (STATUS_INSUFFICIENT_RESOURCES, rl)
      else
        let r = \<lparr>Start = s, End = e, UserData = userdata, Owner = owner, Attributes = attributes,
                 RangeFlags = (if flags AND RTL_RANGE_LIST_ADD_SHARED \<noteq> 0
                               then 0 OR RTL_RANGE_SHARED else 0)\<rparr>
        in (STATUS_SUCCESS,
            if Count rl = 0
            then rl\<lparr>Entries := Entries rl @ [r], Count := Count rl + 1, Stamp := Stamp rl + 1\<rparr>
            else rl\<lparr>Entries := insert_range r (Entries rl), Count := Count rl + 1,
                    Stamp := Stamp rl + 1\<rparr>))"

fun copy_entries ::
  "(nat \<Rightarrow> bool) \<Rightarrow> nat \<Rightarrow> RTL_RANGE list \<Rightarrow> RTL_RANGE_LIST \<Rightarrow> NTSTATUS \<times> RTL_RANGE_LIST" where
  "copy_entries alloc k [] copy = (STATUS_SUCCESS, copy\<lparr>Stamp := Stamp copy + 1\<rparr>)"
| "copy_entries alloc k (c # cs) copy =
     (if \<not> alloc k then (STATUS_INSUFFICIENT_RESOURCES, copy)
      else copy_entries alloc (Suc k) cs
             (copy\<lparr>Entries := Entries copy @ [c], Count := Count copy + 1\<rparr>))"

definition RtlCopyRangeList ::
  "(nat \<Rightarrow> bool) \<Rightarrow> RTL_RANGE_LIST \<Rightarrow> RTL_RANGE_LIST \<Rightarrow> NTSTATUS \<times> RTL_RANGE_LIST" where
  "RtlCopyRangeList alloc copy rl = copy_entries alloc 0 (Entries rl) (copy\<lparr>Flags := Flags rl\<rparr>)"

section \<open>Deletion\<close>

text \<open>
  The loop of \<open>RtlDeleteOwnersRanges\<close> reads \<^verbatim>\<open>Entry->Flink\<close> after the entry has been freed.
  \<open>kept\<close> says whether the freed block still holds the link then; if not, the walk leaves the
  list and the model is \<open>None\<close>.
\<close>

fun delete_owner ::
  "bool \<Rightarrow> nat \<Rightarrow> RTL_RANGE list \<Rightarrow> RTL_RANGE list \<Rightarrow> RTL_RANGE_LIST \<Rightarrow> RTL_RANGE_LIST option" where
  "delete_owner kept owner before [] rl = Some (rl\<lparr>Entries := before\<rparr>)"
| "delete_owner kept owner before (c # cs) rl =
     (if Owner c = owner
      then if kept
           then delete_owner kept owner before cs
                  (rl\<lparr>Count := Count rl - 1, Stamp := Stamp rl + 1\<rparr>)
           else None
      else delete_owner kept owner (before @ [c]) cs rl)"

definition RtlDeleteOwnersRanges ::
  "bool \<Rightarrow> RTL_RANGE_LIST \<Rightarrow> nat \<Rightarrow> (NTSTATUS \<times> RTL_RANGE_LIST) option" where
  "RtlDeleteOwnersRanges kept rl owner =
     map_option (\<lambda>rl'. (STATUS_SUCCESS, rl')) (delete_owner kept owner [] (Entries rl) rl)"

fun delete_first :: "('a \<Rightarrow> bool) \<Rightarrow> 'a list \<Rightarrow> 'a list option" where
  "delete_first P [] = None"
| "delete_first P (c # cs) = (if P c then Some cs else map_option ((#) c) (delete_first P cs))"

definition RtlDeleteRange ::
  "RTL_RANGE_LIST \<Rightarrow> ULONGLONG \<Rightarrow> ULONGLONG \<Rightarrow> nat \<Rightarrow> NTSTATUS \<times> RTL_RANGE_LIST" where
  "RtlDeleteRange rl s e owner =
     (case delete_first (\<lambda>c. Start c = s \<and> End c = e \<and> Owner c = owner) (Entries rl) of
        Some entries \<Rightarrow>
          (STATUS_SUCCESS, rl\<lparr>Entries := entries, Count := Count rl - 1, Stamp := Stamp rl + 1\<rparr>)
      | None \<Rightarrow> (STATUS_RANGE_NOT_FOUND, rl))"

definition RtlFreeRangeList :: "RTL_RANGE_LIST \<Rightarrow> RTL_RANGE_LIST" where
  "RtlFreeRangeList rl = rl\<lparr>Entries := [], Flags := 0, Count := 0\<rparr>"

section \<open>Search for an unused range\<close>

text \<open>
  One look at the gap below \<open>RangeMax\<close>: not found, or the highest aligned start. The text of the
  test is the same inside the loop and after it.
\<close>

definition gap_start :: "ULONGLONG \<Rightarrow> ULONG \<Rightarrow> ULONG \<Rightarrow> ULONGLONG \<Rightarrow> ULONGLONG option" where
  "gap_start Minimum len align RangeMax =
     (if RangeMax + ucast (len - 1) < Minimum then None
      else
        let RangeMin = ROUND_DOWN (RangeMax - ucast (len - 1)) align
        in if RangeMin < Minimum \<or> RangeMax - RangeMin < ucast (len - 1) then None
           else Some RangeMin)"

text \<open>
  The walk from the last entry to the first. \<open>RangeMax\<close> is \<open>Maximum\<close> before the last entry and
  \<^verbatim>\<open>NextEntry->Range.Start - 1\<close> afterwards.
\<close>

fun find_range ::
  "ULONGLONG \<Rightarrow> ULONG \<Rightarrow> ULONG \<Rightarrow> RTL_RANGE list \<Rightarrow> ULONGLONG \<Rightarrow> ULONGLONG option" where
  "find_range Minimum len align [] RangeMax = gap_start Minimum len align RangeMax"
| "find_range Minimum len align (c # cs) RangeMax =
     (case gap_start Minimum len align RangeMax of
        None \<Rightarrow> None
      | Some RangeMin \<Rightarrow>
          if RangeMin > End c then Some RangeMin
          else find_range Minimum len align cs (Start c - 1))"

definition RtlFindRange ::
  "RTL_RANGE_LIST \<Rightarrow> ULONGLONG \<Rightarrow> ULONGLONG \<Rightarrow> ULONG \<Rightarrow> ULONG \<Rightarrow> NTSTATUS \<times> ULONGLONG option" where
  "RtlFindRange rl Minimum Maximum len align =
     (if align = 0 \<or> len = 0 then (STATUS_INVALID_PARAMETER, None)
      else if Entries rl = []
      then (STATUS_SUCCESS, Some (ROUND_DOWN (Maximum - ucast (len - 1)) align))
      else case find_range Minimum len align (rev (Entries rl)) Maximum of
             None \<Rightarrow> (STATUS_RANGE_NOT_FOUND, None)
           | Some s \<Rightarrow> (STATUS_SUCCESS, Some s))"

section \<open>Iteration\<close>

text \<open>The range returned by reference is its position in the list.\<close>

definition RtlGetFirstRange ::
  "RTL_RANGE_LIST \<Rightarrow> NTSTATUS \<times> RTL_RANGE_LIST_ITERATOR \<times> nat option" where
  "RtlGetFirstRange rl =
     (if Entries rl = []
      then (STATUS_NO_MORE_ENTRIES, \<lparr>Current = None, IterStamp = Stamp rl\<rparr>, None)
      else (STATUS_SUCCESS, \<lparr>Current = Some 0, IterStamp = Stamp rl\<rparr>, Some 0))"

text \<open>
  \<open>None\<close> of the outer option is an iterator whose entry is no longer in the list. The last
  component is \<open>None\<close> where \<^verbatim>\<open>*Range\<close> is left as it was.
\<close>

definition RtlGetNextRange ::
  "RTL_RANGE_LIST \<Rightarrow> RTL_RANGE_LIST_ITERATOR \<Rightarrow> bool \<Rightarrow>
   (NTSTATUS \<times> RTL_RANGE_LIST_ITERATOR \<times> nat option option) option" where
  "RtlGetNextRange rl it MoveForwards =
     (if IterStamp it \<noteq> Stamp rl then Some (STATUS_INVALID_PARAMETER, it, None)
      else
        case Current it of
          None \<Rightarrow> Some (STATUS_NO_MORE_ENTRIES, it, Some None)
        | Some i \<Rightarrow>
            if i \<ge> length (Entries rl) then None
            else
              let Next = (if MoveForwards then if Suc i < length (Entries rl) then Some (Suc i) else None
                          else if i = 0 then None else Some (i - 1))
              in (case Next of
                    None \<Rightarrow> Some (STATUS_NO_MORE_ENTRIES, it\<lparr>Current := None\<rparr>, Some None)
                  | Some j \<Rightarrow> Some (STATUS_SUCCESS, it\<lparr>Current := Some j\<rparr>, Some (Some j))))"

section \<open>Inversion\<close>

text \<open>
  The additions made by \<open>RtlInvertRangeList\<close>; \<open>k\<close> counts the allocations. A range with
  \<open>Start > End\<close> is refused by \<open>RtlAddRange\<close> before it allocates.
\<close>

definition invert_add ::
  "(nat \<Rightarrow> bool) \<Rightarrow> nat \<Rightarrow> RTL_RANGE_LIST \<Rightarrow> ULONGLONG \<Rightarrow> ULONGLONG \<Rightarrow>
   NTSTATUS \<times> nat \<times> RTL_RANGE_LIST" where
  "invert_add alloc k ivl s e =
     (let (Status, ivl_new) = RtlAddRange (alloc k) ivl s e 0 0 0 0
      in (Status, Suc k, ivl_new))"

fun invert_loop ::
  "(nat \<Rightarrow> bool) \<Rightarrow> nat \<Rightarrow> RTL_RANGE option \<Rightarrow> RTL_RANGE list \<Rightarrow> RTL_RANGE_LIST \<Rightarrow>
   NTSTATUS \<times> RTL_RANGE_LIST" where
  "invert_loop alloc k None [] ivl = (STATUS_SUCCESS, ivl)"
| "invert_loop alloc k (Some p) [] ivl =
     (if End p + 1 \<noteq> - 1
      then let (Status, k, ivl) = invert_add alloc k ivl (End p + 1) (- 1)
           in if \<not> NT_SUCCESS Status then (Status, ivl) else (STATUS_SUCCESS, ivl)
      else (STATUS_SUCCESS, ivl))"
| "invert_loop alloc k None (c # cs) ivl =
     (if Start c \<noteq> 0
      then let (Status, k, ivl) = invert_add alloc k ivl 0 (Start c - 1)
           in if \<not> NT_SUCCESS Status then (Status, ivl)
              else invert_loop alloc k (Some c) cs ivl
      else invert_loop alloc k (Some c) cs ivl)"
| "invert_loop alloc k (Some p) (c # cs) ivl =
     (if End p + 1 \<noteq> Start c
      then let (Status, k, ivl) = invert_add alloc k ivl (End p + 1) (Start c - 1)
           in if \<not> NT_SUCCESS Status then (Status, ivl)
              else invert_loop alloc k (Some c) cs ivl
      else invert_loop alloc k (Some c) cs ivl)"

definition RtlInvertRangeList ::
  "(nat \<Rightarrow> bool) \<Rightarrow> RTL_RANGE_LIST \<Rightarrow> RTL_RANGE_LIST \<Rightarrow> NTSTATUS \<times> RTL_RANGE_LIST" where
  "RtlInvertRangeList alloc ivl rl = invert_loop alloc 0 None (Entries rl) ivl"

section \<open>Availability\<close>

text \<open>The callback, when there is one, maps a range to the new value of \<^verbatim>\<open>*Available\<close>.\<close>

definition RtlIsRangeAvailable ::
  "RTL_RANGE_LIST \<Rightarrow> ULONGLONG \<Rightarrow> ULONGLONG \<Rightarrow> ULONG \<Rightarrow> (RTL_RANGE \<Rightarrow> bool) option \<Rightarrow>
   NTSTATUS \<times> bool" where
  "RtlIsRangeAvailable rl s e flags callback =
     (STATUS_SUCCESS,
      fold (\<lambda>c Available.
              if \<not> (Start c \<ge> e \<and> End c > e \<or>
                    Start c \<le> s \<and> End c < s \<and>
                    (flags AND 1 = 0 \<or> RangeFlags c AND RTL_RANGE_SHARED = 0))
              then (case callback of Some f \<Rightarrow> f c | None \<Rightarrow> False)
              else Available)
        (Entries rl) True)"

section \<open>Merge\<close>

text \<open>
  The second loop of \<open>RtlMergeRangeLists\<close>; the range to add is the one the iterator stands on, and
  \<open>k\<close> counts the allocations.
\<close>

function merge_loop ::
  "(nat \<Rightarrow> bool) \<Rightarrow> nat \<Rightarrow> RTL_RANGE_LIST \<Rightarrow> RTL_RANGE_LIST_ITERATOR \<Rightarrow> ULONG \<Rightarrow>
   RTL_RANGE_LIST \<Rightarrow> (NTSTATUS \<times> RTL_RANGE_LIST) option" where
  "merge_loop alloc k rl2 it flags merged =
     (case Option.bind (Current it) (array_get (Entries rl2)) of
        None \<Rightarrow> None
      | Some r \<Rightarrow>
          let (Status, merged) = RtlAddRange (alloc k) merged (Start r) (End r) (Attributes r)
                                   (ucast (RangeFlags r) OR flags) (UserData r) (Owner r)
          in if \<not> NT_SUCCESS Status then Some (Status, merged)
             else
               (case RtlGetNextRange rl2 it True of
                  None \<Rightarrow> None
                | Some (Status, it', _) \<Rightarrow>
                    if \<not> NT_SUCCESS Status
                    then Some (if Status = STATUS_NO_MORE_ENTRIES then STATUS_SUCCESS else Status,
                               merged)
                    else merge_loop alloc (Suc k) rl2 it' flags merged))"
  by pat_completeness auto
termination
  by (relation "measure (\<lambda>(a, k, rl2, it, f, m). case Current it of None \<Rightarrow> 0
        | Some i \<Rightarrow> length (Entries rl2) - i)")
     (auto simp: RtlGetNextRange_def Let_def array_get_def split: if_splits option.splits)

declare merge_loop.simps [simp del]

definition RtlMergeRangeLists ::
  "(nat \<Rightarrow> bool) \<Rightarrow> RTL_RANGE_LIST \<Rightarrow> RTL_RANGE_LIST \<Rightarrow> RTL_RANGE_LIST \<Rightarrow> ULONG \<Rightarrow>
   (NTSTATUS \<times> RTL_RANGE_LIST) option" where
  "RtlMergeRangeLists alloc merged rl1 rl2 flags =
     (let (Status, merged) = RtlCopyRangeList alloc merged rl1
      in if \<not> NT_SUCCESS Status then Some (Status, merged)
         else
           let (Status, it, _) = RtlGetFirstRange rl2
           in if \<not> NT_SUCCESS Status
              then Some (if Status = STATUS_NO_MORE_ENTRIES then STATUS_SUCCESS else Status, merged)
              else merge_loop alloc (length (Entries rl1)) rl2 it flags merged)"

section \<open>The invariant and the set a list covers\<close>

definition wf_range :: "RTL_RANGE \<Rightarrow> bool" where
  "wf_range r \<longleftrightarrow> Start r \<le> End r"

definition cover :: "RTL_RANGE list \<Rightarrow> ULONGLONG set" where
  "cover rs = (\<Union>r\<in>set rs. {Start r..End r})"

definition sorted_disjoint :: "RTL_RANGE list \<Rightarrow> bool" where
  "sorted_disjoint rs \<longleftrightarrow> list_all wf_range rs \<and> sorted_wrt (\<lambda>a b. End a < Start b) rs"

definition wf_list :: "RTL_RANGE_LIST \<Rightarrow> bool" where
  "wf_list rl \<longleftrightarrow> Count rl = of_nat (length (Entries rl)) \<and> length (Entries rl) < 2 ^ 32 \<and>
     sorted_disjoint (Entries rl)"

definition new_range :: "ULONGLONG \<Rightarrow> ULONGLONG \<Rightarrow> UCHAR \<Rightarrow> ULONG \<Rightarrow> nat \<Rightarrow> nat \<Rightarrow> RTL_RANGE" where
  "new_range s e attributes flags userdata owner =
     \<lparr>Start = s, End = e, UserData = userdata, Owner = owner, Attributes = attributes,
      RangeFlags = (if flags AND 2 \<noteq> 0 then 1 else 0)\<rparr>"

definition rounded :: "nat \<Rightarrow> nat \<Rightarrow> nat \<Rightarrow> nat" where
  "rounded k L M = (M - (L - 1)) div 2 ^ k * 2 ^ k"

definition fits_below :: "nat \<Rightarrow> nat \<Rightarrow> nat \<Rightarrow> nat \<Rightarrow> RTL_RANGE list \<Rightarrow> nat \<Rightarrow> bool" where
  "fits_below Minimum L k M cs s \<longleftrightarrow>
     Minimum \<le> s \<and> 2 ^ k dvd s \<and> s + (L - 1) \<le> M \<and>
     (\<forall>c\<in>set cs. unat (End c) < s \<or> s + (L - 1) < unat (Start c))"

definition below_cover :: "RTL_RANGE list \<Rightarrow> RTL_RANGE \<Rightarrow> RTL_RANGE_LIST \<Rightarrow> bool" where
  "below_cover ps p ivl \<longleftrightarrow> wf_list ivl \<and> cover (Entries ivl) = {..End p} - cover (ps @ [p])"

definition add_range :: "UCHAR \<Rightarrow> ULONG \<Rightarrow> nat \<Rightarrow> nat \<Rightarrow> RTL_RANGE_LIST \<Rightarrow> ULONGLONG \<Rightarrow> ULONGLONG \<Rightarrow> RTL_RANGE_LIST option" where
  "add_range at fl ud ow rl s e =
     (case RtlAddRange True rl s e at fl ud ow of (st, rl') \<Rightarrow> if NT_SUCCESS st then Some rl' else None)"

definition delete_range :: "nat \<Rightarrow> RTL_RANGE_LIST \<Rightarrow> ULONGLONG \<Rightarrow> ULONGLONG \<Rightarrow> RTL_RANGE_LIST option" where
  "delete_range ow rl s e = (case RtlDeleteRange rl s e ow of (st, rl') \<Rightarrow> if NT_SUCCESS st then Some rl' else None)"

definition ranges_disjoint :: "ULONGLONG set \<Rightarrow> (ULONGLONG \<times> ULONGLONG) list \<Rightarrow> bool" where
  "ranges_disjoint C rs \<longleftrightarrow> (\<forall>r\<in>set rs. fst r \<le> snd r \<and> {fst r..snd r} \<inter> C = {}) \<and>
     sorted_wrt (\<lambda>a b. {fst a..snd a} \<inter> {fst b..snd b} = {}) rs"

definition merged_entry :: "ULONG \<Rightarrow> RTL_RANGE \<Rightarrow> RTL_RANGE" where
  "merged_entry flags r = r\<lparr>RangeFlags := (if (ucast (RangeFlags r) OR flags) AND 2 \<noteq> 0 then 1 else 0)\<rparr>"

section \<open>Insertion and deletion\<close>

lemma cover_simps [simp]: "cover [] = {}" "cover (r # rs) = {Start r..End r} \<union> cover rs"
  "cover (xs @ ys) = cover xs \<union> cover ys"
  by (auto simp: cover_def)

lemma sorted_disjoint_Nil [simp]: "sorted_disjoint []"
  by (simp add: sorted_disjoint_def)

lemma sorted_disjoint_Cons: "sorted_disjoint (r # rs) \<longleftrightarrow>
    wf_range r \<and> (\<forall>x\<in>set rs. End r < Start x) \<and> sorted_disjoint rs"
  by (auto simp: sorted_disjoint_def)

lemma sorted_disjoint_append: "sorted_disjoint (xs @ ys) \<longleftrightarrow>
    sorted_disjoint xs \<and> sorted_disjoint ys \<and> (\<forall>x\<in>set xs. \<forall>y\<in>set ys. End x < Start y)"
  by (auto simp: sorted_disjoint_def sorted_wrt_append)

lemma set_insert_range [simp]: "set (insert_range r rs) = insert r (set rs)"
  by (induction rs) auto

lemma length_insert_range [simp]: "length (insert_range r rs) = Suc (length rs)"
  by (induction rs) auto

lemma cover_insert_range [simp]: "cover (insert_range r rs) = {Start r..End r} \<union> cover rs"
  by (auto simp: cover_def)

lemma disjoint_below:
  fixes c r :: RTL_RANGE
  assumes "wf_range c" "wf_range r" "{Start r..End r} \<inter> {Start c..End c} = {}" "\<not> Start c > End r"
  shows "End c < Start r"
proof (rule ccontr)
  assume "\<not> End c < Start r"
  then have "max (Start c) (Start r) \<in> {Start r..End r} \<inter> {Start c..End c}"
    using assms by (auto simp: wf_range_def not_less le_max_iff_disj)
  then show False using assms(3) by blast
qed

lemma insert_range_sorted:
  assumes "sorted_disjoint rs" "wf_range r" "{Start r..End r} \<inter> cover rs = {}"
  shows "sorted_disjoint (insert_range r rs)"
  using assms
proof (induction rs)
  case Nil
  then show ?case by (simp add: sorted_disjoint_Cons)
next
  case (Cons c cs)
  have c: "wf_range c" "\<forall>x\<in>set cs. End c < Start x" "sorted_disjoint cs"
    using Cons.prems(1) by (simp_all add: sorted_disjoint_Cons)
  show ?case
  proof (cases "Start c > End r")
    case True
    have "End r < Start x" if "x \<in> set cs" for x
    proof -
      have "End r < Start c" "Start c \<le> End c" "End c < Start x" using True c that by (auto simp: wf_range_def)
      then show ?thesis by order
    qed
    then show ?thesis using True Cons.prems by (simp add: sorted_disjoint_Cons)
  next
    case False
    have disj: "{Start r..End r} \<inter> {Start c..End c} = {}" "{Start r..End r} \<inter> cover cs = {}"
      using Cons.prems(3) unfolding cover_simps by blast+
    have "End c < Start r" by (rule disjoint_below [OF c(1) Cons.prems(2) disj(1) False])
    then show ?thesis using False Cons.IH [OF c(3) Cons.prems(2) disj(2)] c by (auto simp: sorted_disjoint_Cons)
  qed
qed

lemma of_nat_ulong_eq_0: "n < 2 ^ 32 \<Longrightarrow> (of_nat n :: ULONG) = 0 \<longleftrightarrow> n = 0"
  using unat_of_nat_small [where 'a = 32, of n] by (auto simp flip: unat_eq_zero)

lemma RtlAddRange_entries:
  assumes "s \<le> e" "alloc" "Count rl = of_nat (length (Entries rl))" "length (Entries rl) < 2 ^ 32"
  shows "RtlAddRange alloc rl s e at fl ud ow = (STATUS_SUCCESS,
    rl\<lparr>Entries := insert_range (new_range s e at fl ud ow) (Entries rl), Count := Count rl + 1, Stamp := Stamp rl + 1\<rparr>)"
proof -
  have "Count rl = 0 \<longleftrightarrow> Entries rl = []"
    using of_nat_ulong_eq_0 [OF assms(4)] assms(3) by simp
  then show ?thesis
    using assms(1,2) by (cases "Entries rl = []") (simp_all add: RtlAddRange_def new_range_def Let_def not_le [symmetric])
qed

lemma RtlAddRange_ok:
  assumes wf: "wf_list rl" and len: "Suc (length (Entries rl)) < 2 ^ 32"
    and se: "s \<le> e" and free: "{s..e} \<inter> cover (Entries rl) = {}" and alloc
  shows "\<exists>rl'. RtlAddRange alloc rl s e at fl ud ow = (STATUS_SUCCESS, rl') \<and> wf_list rl' \<and>
    cover (Entries rl') = cover (Entries rl) \<union> {s..e} \<and>
    set (Entries rl') = insert (new_range s e at fl ud ow) (set (Entries rl)) \<and>
    length (Entries rl') = Suc (length (Entries rl)) \<and> Stamp rl' = Stamp rl + 1"
proof -
  have r: "wf_range (new_range s e at fl ud ow)" "Start (new_range s e at fl ud ow) = s" "End (new_range s e at fl ud ow) = e"
    using se by (simp_all add: new_range_def wf_range_def)
  have "sorted_disjoint (insert_range (new_range s e at fl ud ow) (Entries rl))"
    using wf free by (intro insert_range_sorted r(1)) (simp_all add: wf_list_def r)
  moreover have "RtlAddRange alloc rl s e at fl ud ow = (STATUS_SUCCESS,
    rl\<lparr>Entries := insert_range (new_range s e at fl ud ow) (Entries rl), Count := Count rl + 1, Stamp := Stamp rl + 1\<rparr>)"
    using wf se \<open>alloc\<close> by (intro RtlAddRange_entries) (simp_all add: wf_list_def)
  ultimately show ?thesis using wf len by (auto simp: wf_list_def r)
qed

lemma delete_first_SomeD:
  "delete_first P xs = Some ys \<Longrightarrow> \<exists>as x bs. xs = as @ x # bs \<and> ys = as @ bs \<and> P x \<and> (\<forall>a\<in>set as. \<not> P a)"
proof (induction xs arbitrary: ys)
  case Nil
  then show ?case by simp
next
  case (Cons c cs)
  show ?case
  proof (cases "P c")
    case True
    then have "c # cs = [] @ c # cs" "ys = [] @ cs" using Cons.prems by simp_all
    then show ?thesis using True by fastforce
  next
    case False
    then obtain zs where zs: "delete_first P cs = Some zs" "ys = c # zs" using Cons.prems by auto
    then obtain as x bs where "cs = as @ x # bs" "zs = as @ bs" "P x" "\<forall>a\<in>set as. \<not> P a"
      using Cons.IH by blast
    then have "c # cs = (c # as) @ x # bs \<and> ys = (c # as) @ bs \<and> P x \<and> (\<forall>a\<in>set (c # as). \<not> P a)"
      using zs False by simp
    then show ?thesis by blast
  qed
qed

lemma delete_first_None: "delete_first P xs = None \<longleftrightarrow> (\<forall>x\<in>set xs. \<not> P x)"
  by (induction xs) auto

lemma wf_list_remove:
  assumes "wf_list rl" "Entries rl = as @ x # bs"
  shows "wf_list (rl\<lparr>Entries := as @ bs, Count := Count rl - 1, Stamp := st\<rparr>)"
  using assms by (auto simp: wf_list_def sorted_disjoint_append sorted_disjoint_Cons)

lemma cover_remove:
  assumes "sorted_disjoint (as @ x # bs)"
  shows "cover (as @ bs) = cover (as @ x # bs) - {Start x..End x}"
proof -
  have "{Start a..End a} \<inter> {Start x..End x} = {}" if "a \<in> set as \<or> a \<in> set bs" for a
  proof -
    have "End a < Start x \<or> End x < Start a" using assms that by (auto simp: sorted_disjoint_append sorted_disjoint_Cons)
    then show ?thesis by auto
  qed
  then have "cover (as @ bs) \<inter> {Start x..End x} = {}" unfolding cover_def set_append by blast
  then show ?thesis unfolding cover_simps by blast
qed

lemma RtlDeleteRange_ok:
  assumes wf: "wf_list rl" and r: "r \<in> set (Entries rl)" "Start r = s" "End r = e" "Owner r = ow"
  shows "\<exists>rl'. RtlDeleteRange rl s e ow = (STATUS_SUCCESS, rl') \<and> wf_list rl' \<and>
    cover (Entries rl') = cover (Entries rl) - {s..e} \<and> Stamp rl' = Stamp rl + 1 \<and>
    Suc (length (Entries rl')) = length (Entries rl)"
proof -
  let ?P = "\<lambda>c. Start c = s \<and> End c = e \<and> Owner c = ow"
  obtain ys where ys: "delete_first ?P (Entries rl) = Some ys"
    using delete_first_None [of ?P "Entries rl"] r by auto
  then obtain as x bs where x: "Entries rl = as @ x # bs" "ys = as @ bs" "?P x"
    by (auto dest: delete_first_SomeD)
  have "cover ys = cover (Entries rl) - {s..e}"
    using cover_remove [of as x bs] wf x by (simp add: wf_list_def)
  then show ?thesis using ys x wf_list_remove [OF wf x(1)] by (auto simp: RtlDeleteRange_def)
qed

lemma delete_owner_ok:
  "kept \<or> (\<forall>c\<in>set cs. Owner c \<noteq> ow) \<Longrightarrow>
   delete_owner kept ow before cs rl = Some (rl\<lparr>Entries := before @ filter (\<lambda>c. Owner c \<noteq> ow) cs,
     Count := Count rl - of_nat (length (filter (\<lambda>c. Owner c = ow) cs)),
     Stamp := Stamp rl + of_nat (length (filter (\<lambda>c. Owner c = ow) cs))\<rparr>)"
  by (induction kept ow before cs rl rule: delete_owner.induct) (auto simp: algebra_simps)

lemma sorted_disjoint_filter: "sorted_disjoint rs \<Longrightarrow> sorted_disjoint (filter P rs)"
  by (auto simp: sorted_disjoint_def list_all_iff sorted_wrt_filter)

lemma RtlDeleteOwnersRanges_ok:
  assumes wf: "wf_list rl" and kept
  shows "\<exists>rl'. RtlDeleteOwnersRanges kept rl ow = Some (STATUS_SUCCESS, rl') \<and> wf_list rl' \<and>
    Entries rl' = filter (\<lambda>c. Owner c \<noteq> ow) (Entries rl)"
proof -
  let ?n = "length (filter (\<lambda>c. Owner c = ow) (Entries rl))"
  have sum: "?n + length (filter (\<lambda>c. Owner c \<noteq> ow) (Entries rl)) = length (Entries rl)"
    by (rule sum_length_filter_compl)
  then have "(of_nat (length (Entries rl)) :: ULONG) = of_nat ?n + of_nat (length (filter (\<lambda>c. Owner c \<noteq> ow) (Entries rl)))"
    by (metis of_nat_add)
  then show ?thesis
    using wf sum sorted_disjoint_filter [of "Entries rl"] delete_owner_ok [of kept "Entries rl" ow "[]" rl] \<open>kept\<close>
    by (auto simp: RtlDeleteOwnersRanges_def wf_list_def)
qed

lemma ROUND_DOWN_unat:
  assumes "unat n < 2 ^ 32"
  shows "unat (ROUND_DOWN n (push_bit k 1)) = unat n div 2 ^ k * 2 ^ k"
proof -
  have "push_bit k 1 - 1 = (mask k :: ULONG)" by (simp add: mask_eq_decr_exp)
  then have r: "ROUND_DOWN n (push_bit k 1) = n AND ucast (NOT (mask k :: ULONG))" by (simp add: ROUND_DOWN_def)
  have "take_bit 32 (unat n) = unat n" using assms by (simp add: take_bit_nat_eq_self)
  then have hi: "bit n j \<Longrightarrow> j < 32" for j by (metis bit_unat bit_take_bit_iff)
  have "n AND ucast (NOT (mask k :: ULONG)) = n AND NOT (mask k)"
    by (rule bit_eqI) (use hi in \<open>auto simp: bit_simps\<close>)
  then show ?thesis by (simp only: r unat_and_not_mask)
qed

lemma rounded_props:
  assumes "L - 1 \<le> M"
  shows "2 ^ k dvd rounded k L M" "rounded k L M + (L - 1) \<le> M"
    "2 ^ k dvd s \<Longrightarrow> s + (L - 1) \<le> M \<Longrightarrow> s \<le> rounded k L M"
proof -
  show "2 ^ k dvd rounded k L M" by (simp add: rounded_def)
  have "rounded k L M \<le> M - (L - 1)" unfolding rounded_def by (rule div_times_less_eq_dividend)
  then show "rounded k L M + (L - 1) \<le> M" using assms by linarith
  assume "2 ^ k dvd s" "s + (L - 1) \<le> M"
  then have "s div 2 ^ k \<le> (M - (L - 1)) div 2 ^ k" by (intro div_le_mono) linarith
  then show "s \<le> rounded k L M" using \<open>2 ^ k dvd s\<close> unfolding rounded_def
    by (metis dvd_div_mult_self mult_le_mono1)
qed

lemma rounded_unat:
  assumes "L - 1 \<le> unat (M :: ULONGLONG)"
  shows "unat (of_nat (rounded k L (unat M)) :: ULONGLONG) = rounded k L (unat M)"
proof -
  have "rounded k L (unat M) \<le> unat M" using rounded_props(2) [OF assms, of k] by linarith
  then have "rounded k L (unat M) < 2 ^ LENGTH(64)" by (rule le_less_trans) (rule unsigned_less)
  then show ?thesis by (rule unat_of_nat_small)
qed

lemma unat_pred: "0 < (len :: ULONG) \<Longrightarrow> unat (len - 1) = unat len - 1"
  by (subst unat_sub) (auto simp: word_le_nat_alt word_less_nat_alt)

lemma unat_ucast_ulong: "unat (ucast (x :: ULONG) :: ULONGLONG) = unat x"
proof -
  have "unat x < 2 ^ 64" by (rule less_trans [OF unat_ulong_less]) simp
  then show ?thesis by (simp add: unsigned_ucast_eq take_bit_nat_eq_self)
qed

lemma gap_start_ok:
  assumes len: "0 < len" "unat len - 1 \<le> unat M" and M: "unat M < 2 ^ 32"
  shows "gap_start Minimum len (push_bit k 1) M =
    (if rounded k (unat len) (unat M) < unat Minimum then None
     else Some (of_nat (rounded k (unat len) (unat M))))"
proof -
  let ?L = "unat len" and ?l = "ucast (len - 1) :: ULONGLONG" and ?r = "rounded k (unat len) (unat M)"
  have l: "unat ?l = ?L - 1" using len by (simp add: unat_ucast_ulong unat_pred)
  have "?L - 1 < 2 ^ 32" by (rule le_less_trans [OF diff_le_self]) simp
  then have sum: "unat (M + ?l) = unat M + (?L - 1)" using M by (subst unat_add_small) (simp_all add: l)
  have diff: "unat (M - ?l) = unat M - (?L - 1)" using len by (subst unat_sub) (simp_all add: l word_le_nat_alt)
  define R where "R = ROUND_DOWN (M - ?l) (push_bit k 1)"
  have R: "unat R = ?r" unfolding R_def using M by (subst ROUND_DOWN_unat) (simp_all add: diff rounded_def)
  note p = rounded_props [OF len(2), of k]
  have MR: "unat (M - R) = unat M - ?r" using p(2) by (subst unat_sub) (simp_all add: R word_le_nat_alt)
  have "\<not> M - R < ?l" using p(2) by (simp add: word_less_nat_alt MR l)
  moreover have "R < Minimum \<longleftrightarrow> ?r < unat Minimum" by (simp add: word_less_nat_alt R)
  moreover have "M + ?l < Minimum \<Longrightarrow> ?r < unat Minimum" using p(2) by (simp add: word_less_nat_alt sum)
  moreover have "R = of_nat ?r" by (simp flip: R)
  ultimately show ?thesis unfolding gap_start_def Let_def R_def [symmetric] by auto
qed

lemma find_range_ok:
  assumes "0 < len" "unat len - 1 \<le> unat M" "unat M < 2 ^ 32"
    and "list_all wf_range cs" "sorted_wrt (\<lambda>a b. End b < Start a) cs"
    and "\<forall>c\<in>set cs. unat len \<le> unat (Start c) \<and> unat (Start c) \<le> unat M + 1"
  shows "case find_range Minimum len (push_bit k 1) cs M of
      Some s \<Rightarrow> fits_below (unat Minimum) (unat len) k (unat M) cs (unat s)
    | None \<Rightarrow> \<forall>s. \<not> fits_below (unat Minimum) (unat len) k (unat M) cs s"
  using assms(2-6)
proof (induction cs arbitrary: M)
  case Nil
  note g = gap_start_ok [OF assms(1) Nil.prems(1,2), of Minimum k] and p = rounded_props [OF Nil.prems(1), of k]
  let ?r = "rounded k (unat len) (unat M)"
  show ?case
  proof (cases "?r < unat Minimum")
    case True
    have "\<not> fits_below (unat Minimum) (unat len) k (unat M) [] s" for s
      using p(3) [of s] True by (simp add: fits_below_def) linarith
    then show ?thesis using True unfolding find_range.simps g by simp
  next
    case False
    then have "fits_below (unat Minimum) (unat len) k (unat M) [] ?r" using p(1,2) by (simp add: fits_below_def)
    then show ?thesis using False unfolding find_range.simps g by (simp add: rounded_unat [OF Nil.prems(1)])
  qed
next
  case (Cons c cs)
  let ?r = "rounded k (unat len) (unat M)" and ?fit = "fits_below (unat Minimum) (unat len) k"
  note g = gap_start_ok [OF assms(1) Cons.prems(1,2), of Minimum k] and p = rounded_props [OF Cons.prems(1), of k]
  note r = rounded_unat [OF Cons.prems(1), of k]
  have c: "unat (Start c) \<le> unat (End c)" "unat len \<le> unat (Start c)" "unat (Start c) \<le> unat M + 1"
    "\<forall>d\<in>set cs. unat (End d) < unat (Start c)"
    using Cons.prems by (auto simp: wf_range_def word_le_nat_alt word_less_nat_alt)
  have len: "0 < unat len" using assms(1) by (simp add: word_less_nat_alt)
  have pred: "unat (Start c - 1) = unat (Start c) - 1"
    using c(2) len by (subst unat_sub) (auto simp: word_le_nat_alt)
  show ?case
  proof (cases "?r < unat Minimum")
    case True
    then have "\<not> ?fit (unat M) (c # cs) s" for s
      using p(3) [of s] by (simp add: fits_below_def) linarith
    then show ?thesis using True unfolding find_range.simps g by simp
  next
    case False
    show ?thesis
    proof (cases "unat (End c) < ?r")
      case True
      have "unat (End d) < ?r" if "d \<in> set cs" for d using c(1,4) True that by force
      then have "?fit (unat M) (c # cs) ?r" using False True p by (auto simp: fits_below_def)
      moreover have "find_range Minimum len (push_bit k 1) (c # cs) M = Some (of_nat ?r)"
        using False True unfolding find_range.simps g by (simp add: word_less_nat_alt r)
      ultimately show ?thesis by (simp add: r)
    next
      case below: False
      have fit: "?fit (unat M) (c # cs) s \<longleftrightarrow> ?fit (unat (Start c - 1)) cs s" for s
      proof
        assume s: "?fit (unat M) (c # cs) s"
        then have "s \<le> ?r" using p(3) by (simp add: fits_below_def)
        then show "?fit (unat (Start c - 1)) cs s" using s below by (auto simp: fits_below_def pred)
      next
        assume s: "?fit (unat (Start c - 1)) cs s"
        then have "s + (unat len - 1) \<le> unat (Start c) - 1" by (simp add: fits_below_def pred)
        then have "s + (unat len - 1) < unat (Start c)" "s + (unat len - 1) \<le> unat M" using c(2,3) len by linarith+
        then show "?fit (unat M) (c # cs) s" using s by (auto simp: fits_below_def)
      qed
      have eq: "find_range Minimum len (push_bit k 1) (c # cs) M = find_range Minimum len (push_bit k 1) cs (Start c - 1)"
        using False below unfolding find_range.simps g by (simp add: word_less_nat_alt r)
      have "unat len \<le> unat (Start d) \<and> unat (Start d) \<le> unat (Start c - 1) + 1" if "d \<in> set cs" for d
      proof -
        have "unat (Start d) \<le> unat (End d)" using Cons.prems(3) that by (auto simp: list_all_iff wf_range_def word_le_nat_alt)
        then show ?thesis using c(4) that Cons.prems(5) by (force simp: pred)
      qed
      then show ?thesis unfolding eq fit
        using Cons.prems c pred by (intro Cons.IH) auto
    qed
  qed
qed

lemma unat_Suc_less: "(a :: 'a::len word) < b \<Longrightarrow> unat (a + 1) = unat a + 1"
  using unat_add_le [of a 1 b] by (simp add: word_less_nat_alt)

lemma unat_pred_less: "(a :: 'a::len word) < b \<Longrightarrow> unat (b - 1) = unat b - 1"
  by (subst unat_sub) (auto simp: word_less_nat_alt word_le_nat_alt)

lemma word_gap_set:
  assumes "(a :: 'a::len word) < b"
  shows "{..a} \<union> {a + 1..b - 1} = {..<b}" "{..a} \<inter> {a + 1..b - 1} = {}" "a + 1 \<noteq> b \<Longrightarrow> a + 1 \<le> b - 1"
    "a + 1 = b \<Longrightarrow> {..a} = {..<b}"
proof -
  note u = unat_Suc_less [OF assms] unat_pred_less [OF assms]
  have lt: "unat a < unat b" using assms by (simp add: word_less_nat_alt)
  have "x \<le> a \<or> a + 1 \<le> x \<and> x \<le> b - 1 \<longleftrightarrow> x < b" for x
    unfolding word_le_nat_alt word_less_nat_alt u using lt by auto
  then show "{..a} \<union> {a + 1..b - 1} = {..<b}"
    by (simp only: set_eq_iff Un_iff atMost_iff atLeastAtMost_iff lessThan_iff) simp
  have "\<not> (x \<le> a \<and> a + 1 \<le> x)" for x unfolding word_le_nat_alt u by auto
  then show "{..a} \<inter> {a + 1..b - 1} = {}"
    unfolding disjoint_iff atMost_iff atLeastAtMost_iff by blast
  show "a + 1 \<le> b - 1" if "a + 1 \<noteq> b"
  proof -
    have "unat (a + 1) \<noteq> unat b" using that by (simp only: word_unat_eq_iff simp_thms)
    then show ?thesis unfolding word_le_nat_alt u using lt by simp
  qed
  have "x \<le> a \<longleftrightarrow> x < b" if "a + 1 = b" for x unfolding word_le_nat_alt word_less_nat_alt that [symmetric] u by auto
  then show "{..a} = {..<b}" if "a + 1 = b" using that unfolding set_eq_iff atMost_iff lessThan_iff by blast
qed

lemma invert_add_ok:
  assumes "wf_list ivl" "Suc (length (Entries ivl)) < 2 ^ 32" "s \<le> e" "{s..e} \<inter> cover (Entries ivl) = {}" "alloc k"
  shows "\<exists>ivl'. invert_add alloc k ivl s e = (STATUS_SUCCESS, Suc k, ivl') \<and> wf_list ivl' \<and>
    cover (Entries ivl') = cover (Entries ivl) \<union> {s..e} \<and> length (Entries ivl') = Suc (length (Entries ivl))"
  using RtlAddRange_ok [OF assms, of 0 0 0 0] by (auto simp: invert_add_def Let_def)

lemma cover_le_last:
  assumes "sorted_disjoint (ps @ [p])"
  shows "cover (ps @ [p]) \<subseteq> {..End p}"
proof -
  have "End q \<le> End p" if "q \<in> set ps" for q
  proof -
    have "End q < Start p" "Start p \<le> End p"
      using assms that by (auto simp: sorted_disjoint_append sorted_disjoint_Cons wf_range_def)
    then show ?thesis by order
  qed
  then show ?thesis by (fastforce simp: cover_def)
qed

lemma invert_loop_ok:
  assumes "sorted_disjoint (ps @ p # cs)" "below_cover ps p ivl" "length (Entries ivl) + length cs + 1 < 2 ^ 32"
    "End (last (p # cs)) < - 2" "\<forall>j. alloc j"
  shows "\<exists>ivl'. invert_loop alloc k (Some p) cs ivl = (STATUS_SUCCESS, ivl') \<and> wf_list ivl' \<and>
    cover (Entries ivl') = - cover (ps @ p # cs)"
  using assms(1-4)
proof (induction cs arbitrary: ps p ivl k)
  case Nil
  have sub: "cover (ps @ [p]) \<subseteq> {..End p}" using Nil.prems(1) by (rule cover_le_last)
  have lt: "End p < - 2" using Nil.prems(4) by simp
  then have ltm: "End p < - 1" by (rule less_trans) simp
  have ne: "End p + 1 \<noteq> - 1"
  proof
    assume "End p + 1 = - 1"
    then have "End p = - 1 - 1" by (metis add_diff_cancel_right')
    then show False using lt by simp
  qed
  have cov: "cover (Entries ivl) = {..End p} - cover (ps @ [p])" using Nil.prems(2) by (simp add: below_cover_def)
  have full: "{..End p} \<union> {End p + 1..- 1} = UNIV" "{..End p} \<inter> {End p + 1..- 1} = {}" "End p + 1 \<le> - 1"
  proof -
    have "x \<le> End p \<longleftrightarrow> \<not> End p + 1 \<le> x" for x
      unfolding word_le_nat_alt unat_Suc_less [OF ltm] by auto
    moreover have "x \<le> - 1" for x :: ULONGLONG by simp
    ultimately show "{..End p} \<union> {End p + 1..- 1} = UNIV" "{..End p} \<inter> {End p + 1..- 1} = {}" "End p + 1 \<le> - 1"
      unfolding set_eq_iff Un_iff Int_iff atMost_iff atLeastAtMost_iff by blast+
  qed
  obtain ivl' where i: "invert_add alloc k ivl (End p + 1) (- 1) = (STATUS_SUCCESS, Suc k, ivl')" "wf_list ivl'"
    "cover (Entries ivl') = cover (Entries ivl) \<union> {End p + 1..- 1}"
  proof -
    have "wf_list ivl" using Nil.prems(2) by (simp add: below_cover_def)
    moreover have "Suc (length (Entries ivl)) < 2 ^ 32" using Nil.prems(3) by simp
    moreover have "{End p + 1..- 1} \<inter> cover (Entries ivl) = {}" unfolding cov using full(2) by blast
    ultimately show thesis using invert_add_ok [OF _ _ full(3)] assms(5) that by blast
  qed
  have "cover (Entries ivl') = - cover (ps @ [p])" unfolding i(3) cov using full(1,2) sub by blast
  then show ?case using i(1,2) ne by simp
next
  case (Cons c cs)
  have sub: "cover (ps @ [p]) \<subseteq> {..End p}"
    using Cons.prems(1) by (intro cover_le_last) (auto simp: sorted_disjoint_append sorted_disjoint_Cons)
  have pc: "End p < Start c" "wf_range c" using Cons.prems(1) by (auto simp: sorted_disjoint_append sorted_disjoint_Cons)
  note w = word_gap_set [OF pc(1)]
  have cov: "cover (Entries ivl) = {..End p} - cover (ps @ [p])" "wf_list ivl" using Cons.prems(2) by (simp_all add: below_cover_def)
  have split: "{..End c} - {Start c..End c} = {..<Start c}" using pc(2) by (auto simp: wf_range_def not_le)
  have sorted: "sorted_disjoint ((ps @ [p]) @ c # cs)" using Cons.prems(1) by simp
  have last: "End (last (c # cs)) < - 2" using Cons.prems(4) by simp
  have step: "\<exists>ivl''. invert_loop alloc k' (Some c) cs ivl' = (STATUS_SUCCESS, ivl'') \<and> wf_list ivl'' \<and>
      cover (Entries ivl'') = - cover (ps @ p # c # cs)"
    if "wf_list ivl'" "cover (Entries ivl') = {..<Start c} - cover (ps @ [p])" "length (Entries ivl') \<le> Suc (length (Entries ivl))" for ivl' k'
  proof -
    have "{..<Start c} - cover (ps @ [p]) = {..End c} - cover ((ps @ [p]) @ [c])" using split by (simp only: cover_simps) blast
    then have "below_cover (ps @ [p]) c ivl'" using that by (simp only: below_cover_def)
    then show ?thesis using Cons.IH [OF sorted _ _ last] that(3) Cons.prems(3) by simp
  qed
  show ?case
  proof (cases "End p + 1 = Start c")
    case True
    then show ?thesis using step [OF cov(2), of k] cov(1) w(4) by simp
  next
    case False
    have "{End p + 1..Start c - 1} \<inter> cover (Entries ivl) = {}" unfolding cov(1) using w(2) by blast
    moreover have "Suc (length (Entries ivl)) < 2 ^ 32" using Cons.prems(3) by simp
    ultimately obtain ivl' where i: "invert_add alloc k ivl (End p + 1) (Start c - 1) = (STATUS_SUCCESS, Suc k, ivl')" "wf_list ivl'"
      "cover (Entries ivl') = cover (Entries ivl) \<union> {End p + 1..Start c - 1}" "length (Entries ivl') = Suc (length (Entries ivl))"
      using invert_add_ok [OF cov(2) _ w(3) [OF False]] assms(5) by blast
    have "cover (Entries ivl') = {..<Start c} - cover (ps @ [p])" unfolding i(3) cov(1) using w(1,2) sub by blast
    then show ?thesis using step [OF i(2)] i(1,4) False by simp
  qed
qed

lemma RtlInvertRangeList_ok:
  assumes wf: "wf_list rl" and ne: "Entries rl \<noteq> []" and last: "End (last (Entries rl)) < - 2"
    and len: "Suc (length (Entries rl)) < 2 ^ 32" and alloc: "\<forall>j. alloc j"
  shows "\<exists>ivl'. RtlInvertRangeList alloc RtlInitializeRangeList rl = (STATUS_SUCCESS, ivl') \<and> wf_list ivl' \<and>
    cover (Entries ivl') = - cover (Entries rl)"
proof -
  obtain c cs where e: "Entries rl = c # cs" using ne by (cases "Entries rl") auto
  have sd: "sorted_disjoint ([] @ c # cs)" using wf e by (simp add: wf_list_def)
  then have c: "wf_range c" by (simp add: sorted_disjoint_Cons)
  have init: "wf_list RtlInitializeRangeList" "Entries RtlInitializeRangeList = []"
    by (simp_all add: RtlInitializeRangeList_def wf_list_def)
  have step: "\<exists>ivl''. invert_loop alloc k (Some c) cs ivl' = (STATUS_SUCCESS, ivl'') \<and> wf_list ivl'' \<and>
      cover (Entries ivl'') = - cover (Entries rl)"
    if "wf_list ivl'" "cover (Entries ivl') = {..<Start c}" "length (Entries ivl') \<le> 1" for ivl' k
  proof -
    have "{..<Start c} = {..End c} - cover ([] @ [c])" using c by (auto simp: wf_range_def not_le)
    then have "below_cover [] c ivl'" using that by (simp only: below_cover_def)
    then show ?thesis using invert_loop_ok [OF sd _ _ _ alloc] that(3) len last e by simp
  qed
  show ?thesis
  proof (cases "Start c = 0")
    case True
    then have "{..<Start c} = {}" by auto
    then show ?thesis using step [OF init(1), of 0] init(2) True e by (simp add: RtlInvertRangeList_def)
  next
    case False
    then have "0 < Start c" by (simp add: word_gt_0)
    then have eq: "{0..Start c - 1} = {..<Start c}"
      using unat_pred_less [of 0 "Start c"] by (auto simp: word_le_nat_alt word_less_nat_alt)
    obtain ivl' where "invert_add alloc 0 RtlInitializeRangeList 0 (Start c - 1) = (STATUS_SUCCESS, Suc 0, ivl')" "wf_list ivl'"
      "cover (Entries ivl') = {..<Start c}" "length (Entries ivl') = 1"
      using invert_add_ok [OF init(1), of 0 "Start c - 1" alloc 0] alloc init(2) unfolding eq by auto
    then show ?thesis using step False e by (simp add: RtlInvertRangeList_def)
  qed
qed

text \<open>
  The contract of a container of disjoint ranges: adding a free range covers it and uses one
  unit of room; removing a range that was just added uncovers it.
\<close>

locale range_container =
  fixes invar :: "'l \<Rightarrow> bool" and covered :: "'l \<Rightarrow> ULONGLONG set" and room :: "'l \<Rightarrow> nat"
    and add remove :: "'l \<Rightarrow> ULONGLONG \<Rightarrow> ULONGLONG \<Rightarrow> 'l option"
  assumes add_ok: "\<lbrakk>invar l; 0 < room l; s \<le> e; {s..e} \<inter> covered l = {}\<rbrakk> \<Longrightarrow>
      \<exists>l'. add l s e = Some l' \<and> invar l' \<and> covered l' = covered l \<union> {s..e} \<and> room l' = room l - 1"
    and remove_ok: "\<lbrakk>invar l; 0 < room l; s \<le> e; {s..e} \<inter> covered l = {}; add l s e = Some l'\<rbrakk> \<Longrightarrow>
      \<exists>l''. remove l' s e = Some l'' \<and> invar l'' \<and> covered l'' = covered l' - {s..e}"

primrec add_all :: "('l \<Rightarrow> ULONGLONG \<Rightarrow> ULONGLONG \<Rightarrow> 'l option) \<Rightarrow> 'l \<Rightarrow> (ULONGLONG \<times> ULONGLONG) list \<Rightarrow> 'l option" where
  "add_all add l [] = Some l"
| "add_all add l (r # rs) = do { l' \<leftarrow> add l (fst r) (snd r); add_all add l' rs }"

context range_container
begin

lemma add_remove:
  assumes "invar l" "0 < room l" "s \<le> e" "{s..e} \<inter> covered l = {}"
  shows "\<exists>l' l''. add l s e = Some l' \<and> remove l' s e = Some l'' \<and> invar l'' \<and> covered l'' = covered l"
proof -
  obtain l' where l': "add l s e = Some l'" "covered l' = covered l \<union> {s..e}" using add_ok [OF assms] by blast
  moreover obtain l'' where "remove l' s e = Some l''" "invar l''" "covered l'' = covered l' - {s..e}"
    using remove_ok [OF assms l'(1)] by blast
  ultimately show ?thesis using assms(4) by blast
qed

lemma add_all_ok:
  assumes "invar l" "length rs \<le> room l" "ranges_disjoint (covered l) rs"
  shows "\<exists>l'. add_all add l rs = Some l' \<and> invar l' \<and> covered l' = covered l \<union> (\<Union>r\<in>set rs. {fst r..snd r})"
  using assms
proof (induction rs arbitrary: l)
  case Nil
  then show ?case by simp
next
  case (Cons r rs)
  obtain l' where l': "add l (fst r) (snd r) = Some l'" "invar l'" "covered l' = covered l \<union> {fst r..snd r}" "room l' = room l - 1"
    using add_ok [of l "fst r" "snd r"] Cons.prems by (auto simp: ranges_disjoint_def)
  have "ranges_disjoint (covered l') rs"
    using Cons.prems(3) unfolding l'(3) ranges_disjoint_def by (simp add: Int_Un_distrib) blast
  moreover have "length rs \<le> room l'" using Cons.prems(2) l'(4) by simp
  ultimately obtain l'' where "add_all add l' rs = Some l''" "invar l''" "covered l'' = covered l' \<union> (\<Union>r\<in>set rs. {fst r..snd r})"
    using Cons.IH [OF l'(2)] by blast
  then show ?case using l' by auto
qed

end

interpretation range_list: range_container wf_list "\<lambda>rl. cover (Entries rl)"
  "\<lambda>rl. 2 ^ 32 - 1 - length (Entries rl)" "add_range at fl ud ow" "delete_range ow"
proof
  fix l s e
  assume a: "wf_list l" "0 < 2 ^ 32 - 1 - length (Entries l)" "s \<le> e" "{s..e} \<inter> cover (Entries l) = {}"
  have len: "Suc (length (Entries l)) < 2 ^ 32" using a(2) by simp
  note ok = RtlAddRange_ok [OF a(1) len a(3,4) TrueI, of at fl ud ow]
  then show "\<exists>l'. add_range at fl ud ow l s e = Some l' \<and> wf_list l' \<and>
      cover (Entries l') = cover (Entries l) \<union> {s..e} \<and>
      2 ^ 32 - 1 - length (Entries l') = 2 ^ 32 - 1 - length (Entries l) - 1"
    by (auto simp: add_range_def)
  fix l'
  assume "add_range at fl ud ow l s e = Some l'"
  then have l': "wf_list l'" "new_range s e at fl ud ow \<in> set (Entries l')" using ok by (auto simp: add_range_def)
  show "\<exists>l''. delete_range ow l' s e = Some l'' \<and> wf_list l'' \<and> cover (Entries l'') = cover (Entries l') - {s..e}"
    using RtlDeleteRange_ok [OF l', of s e ow] by (auto simp: new_range_def delete_range_def)
qed

lemma copy_entries_ok:
  assumes "\<forall>j. alloc j"
  shows "copy_entries alloc k cs rl = (STATUS_SUCCESS,
    rl\<lparr>Entries := Entries rl @ cs, Count := Count rl + of_nat (length cs), Stamp := Stamp rl + 1\<rparr>)"
  using assms by (induction alloc k cs rl rule: copy_entries.induct) (auto simp: algebra_simps)

lemma new_range_merged:
  "new_range (Start r) (End r) (Attributes r) (ucast (RangeFlags r) OR flags) (UserData r) (Owner r) = merged_entry flags r"
  by (simp add: new_range_def merged_entry_def)

lemma merge_loop_ok:
  assumes "\<forall>j. alloc j" "wf_list m" "sorted_disjoint (drop i (Entries rl2))" "i < length (Entries rl2)"
    "cover (drop i (Entries rl2)) \<inter> cover (Entries m) = {}"
    "length (Entries m) + (length (Entries rl2) - i) < 2 ^ 32"
    "Current it = Some i" "IterStamp it = Stamp rl2"
  shows "\<exists>m'. merge_loop alloc k rl2 it flags m = Some (STATUS_SUCCESS, m') \<and> wf_list m' \<and>
    set (Entries m') = set (Entries m) \<union> merged_entry flags ` set (drop i (Entries rl2)) \<and>
    cover (Entries m') = cover (Entries m) \<union> cover (drop i (Entries rl2))"
  using assms
proof (induction "length (Entries rl2) - i" arbitrary: i m it k)
  case 0
  then show ?case by simp
next
  case (Suc n)
  let ?E = "Entries rl2"
  let ?r = "?E ! i"
  have dr: "drop i ?E = ?r # drop (Suc i) ?E" using Suc.prems(4) by (rule Cons_nth_drop_Suc [symmetric])
  have r: "Start ?r \<le> End ?r" "sorted_disjoint (drop (Suc i) ?E)" "\<forall>x\<in>set (drop (Suc i) ?E). End ?r < Start x"
    using Suc.prems(3) unfolding dr by (simp_all add: sorted_disjoint_Cons wf_range_def)
  have free: "{Start ?r..End ?r} \<inter> cover (Entries m) = {}" "cover (drop (Suc i) ?E) \<inter> cover (Entries m) = {}"
    using Suc.prems(5) unfolding dr cover_simps by blast+
  have apart: "cover (drop (Suc i) ?E) \<inter> {Start ?r..End ?r} = {}"
  proof -
    have "{Start x..End x} \<inter> {Start ?r..End ?r} = {}" if "x \<in> set (drop (Suc i) ?E)" for x
      using r(3) that by auto
    then show ?thesis unfolding cover_def by blast
  qed
  have len: "Suc (length (Entries m)) < 2 ^ 32" using Suc.prems(4,6) by linarith
  obtain m' where m': "RtlAddRange (alloc k) m (Start ?r) (End ?r) (Attributes ?r) (ucast (RangeFlags ?r) OR flags) (UserData ?r) (Owner ?r)
      = (STATUS_SUCCESS, m')" "wf_list m'" "cover (Entries m') = cover (Entries m) \<union> {Start ?r..End ?r}"
      "set (Entries m') = insert (merged_entry flags ?r) (set (Entries m))" "length (Entries m') = Suc (length (Entries m))"
    using RtlAddRange_ok [OF Suc.prems(2) len r(1) free(1), of "alloc k" "Attributes ?r" "ucast (RangeFlags ?r) OR flags" "UserData ?r" "Owner ?r"]
      Suc.prems(1) unfolding new_range_merged by blast
  show ?case
  proof (cases "Suc i < length ?E")
    case True
    let ?it = "it\<lparr>Current := Some (Suc i)\<rparr>"
    have next_range: "RtlGetNextRange rl2 it True = Some (STATUS_SUCCESS, ?it, Some (Some (Suc i)))"
      using True Suc.prems(7,8) by (simp add: RtlGetNextRange_def)
    have step: "merge_loop alloc k rl2 it flags m = merge_loop alloc (Suc k) rl2 ?it flags m'"
      using Suc.prems(4,7) m'(1) next_range by (subst merge_loop.simps) simp
    have "cover (drop (Suc i) ?E) \<inter> cover (Entries m') = {}" unfolding m'(3) using free(2) apart by blast
    moreover have "length (Entries m') + (length ?E - Suc i) < 2 ^ 32" using m'(5) Suc.prems(6) True by simp
    moreover have "n = length ?E - Suc i" using Suc.hyps(2) by simp
    ultimately obtain m'' where "merge_loop alloc (Suc k) rl2 ?it flags m' = Some (STATUS_SUCCESS, m'')" "wf_list m''"
      "set (Entries m'') = set (Entries m') \<union> merged_entry flags ` set (drop (Suc i) ?E)"
      "cover (Entries m'') = cover (Entries m') \<union> cover (drop (Suc i) ?E)"
      using Suc.hyps(1) [of "Suc i" m' ?it "Suc k"] Suc.prems(1,8) m'(2) r(2) True by auto
    then show ?thesis unfolding step dr cover_simps list.set image_insert using m'(3,4) by auto
  next
    case False
    then have nil: "drop (Suc i) ?E = []" by simp
    have "RtlGetNextRange rl2 it True = Some (STATUS_NO_MORE_ENTRIES, it\<lparr>Current := None\<rparr>, Some None)"
      using False Suc.prems(4,7,8) by (simp add: RtlGetNextRange_def)
    then have "merge_loop alloc k rl2 it flags m = Some (STATUS_SUCCESS, m')"
      using Suc.prems(4,7) m'(1) by (subst merge_loop.simps) simp
    then show ?thesis unfolding dr nil using m' by auto
  qed
qed

lemma RtlMergeRangeLists_ok:
  assumes wf: "wf_list rl1" "wf_list rl2" and disj: "cover (Entries rl1) \<inter> cover (Entries rl2) = {}"
    and len: "length (Entries rl1) + length (Entries rl2) < 2 ^ 32" and alloc: "\<forall>j. alloc j"
  shows "\<exists>m. RtlMergeRangeLists alloc RtlInitializeRangeList rl1 rl2 flags = Some (STATUS_SUCCESS, m) \<and> wf_list m \<and>
    set (Entries m) = set (Entries rl1) \<union> merged_entry flags ` set (Entries rl2) \<and>
    cover (Entries m) = cover (Entries rl1) \<union> cover (Entries rl2)"
proof -
  obtain c where c: "RtlCopyRangeList alloc RtlInitializeRangeList rl1 = (STATUS_SUCCESS, c)" "Entries c = Entries rl1" "wf_list c"
    using copy_entries_ok [OF alloc] wf(1) by (simp add: RtlCopyRangeList_def RtlInitializeRangeList_def wf_list_def)
  show ?thesis
  proof (cases "Entries rl2 = []")
    case True
    then show ?thesis using c by (simp add: RtlMergeRangeLists_def RtlGetFirstRange_def)
  next
    case False
    let ?it = "\<lparr>Current = Some 0, IterStamp = Stamp rl2\<rparr>"
    have "RtlMergeRangeLists alloc RtlInitializeRangeList rl1 rl2 flags = merge_loop alloc (length (Entries rl1)) rl2 ?it flags c"
      using c(1) False by (simp add: RtlMergeRangeLists_def RtlGetFirstRange_def)
    then show ?thesis
      using merge_loop_ok [OF alloc c(3), of 0 rl2 ?it "length (Entries rl1)" flags] wf(2) False disj len c(2)
      by (auto simp: wf_list_def Int_commute)
  qed
qed

lemma sorted_disjoint_rev:
  assumes "sorted_disjoint rs"
  shows "list_all wf_range (rev rs)" "sorted_wrt (\<lambda>a b. End b < Start a) (rev rs)"
  using assms by (auto simp: sorted_disjoint_def list_all_iff sorted_wrt_rev)

lemma RtlFindRange_fits:
  assumes wf: "wf_list rl" and ne: "Entries rl \<noteq> []" and len: "0 < len" "unat len - 1 \<le> unat Maximum"
    and Max: "unat Maximum < 2 ^ 32" and k: "k < 32"
    and starts: "\<forall>c\<in>set (Entries rl). unat len \<le> unat (Start c) \<and> unat (Start c) \<le> unat Maximum + 1"
  shows "case RtlFindRange rl Minimum Maximum len (push_bit k 1) of
      (st, Some s) \<Rightarrow> st = STATUS_SUCCESS \<and> fits_below (unat Minimum) (unat len) k (unat Maximum) (Entries rl) (unat s)
    | (st, None) \<Rightarrow> st = STATUS_RANGE_NOT_FOUND \<and> (\<forall>s. \<not> fits_below (unat Minimum) (unat len) k (unat Maximum) (Entries rl) s)"
proof -
  have al: "push_bit k 1 \<noteq> (0 :: ULONG)" using k by simp
  have sd: "sorted_disjoint (Entries rl)" using wf by (simp add: wf_list_def)
  have st: "\<forall>c\<in>set (rev (Entries rl)). unat len \<le> unat (Start c) \<and> unat (Start c) \<le> unat Maximum + 1"
    using starts by simp
  have fits: "fits_below m l k M (rev cs) s = fits_below m l k M cs s" for m l M cs s by (simp add: fits_below_def)
  have eq: "RtlFindRange rl Minimum Maximum len (push_bit k 1) =
      (case find_range Minimum len (push_bit k 1) (rev (Entries rl)) Maximum of
         None \<Rightarrow> (STATUS_RANGE_NOT_FOUND, None) | Some s \<Rightarrow> (STATUS_SUCCESS, Some s))"
    unfolding RtlFindRange_def using al ne len(1) by (auto simp del: push_bit_of_1)
  show ?thesis
    using find_range_ok [OF len Max sorted_disjoint_rev [OF sd] st, of Minimum k] unfolding eq fits
    by (simp split: option.splits)
qed

lemma fits_below_free:
  assumes "fits_below m L k M cs (unat s)" "unat e = unat s + (L - 1)"
  shows "{s..e} \<inter> cover cs = {}"
proof -
  have "{s..e} \<inter> {Start c..End c} = {}" if "c \<in> set cs" for c
  proof -
    have "End c < s \<or> e < Start c" using assms that by (auto simp: fits_below_def word_less_nat_alt)
    then show ?thesis by auto
  qed
  then show ?thesis unfolding cover_def by blast
qed

section \<open>Properties\<close>

text \<open>
  C26. Adding a free range to a well-formed list (entry count right, entries non-empty
  intervals in ascending order and disjoint) succeeds, keeps the list well-formed and adds
  exactly that range to the covered set; when the allocation fails the list is unchanged and
  the status says so.
\<close>

theorem RtlAddRange_invariant:
  assumes "wf_list rl" and "Suc (length (Entries rl)) < 2 ^ 32" and "s \<le> e"
    and "{s..e} \<inter> cover (Entries rl) = {}"
  shows "\<exists>rl'. RtlAddRange True rl s e at fl ud ow = (STATUS_SUCCESS, rl') \<and> wf_list rl' \<and>
    cover (Entries rl') = cover (Entries rl) \<union> {s..e} \<and>
    set (Entries rl') = insert (new_range s e at fl ud ow) (set (Entries rl)) \<and>
    RtlAddRange False rl s e at fl ud ow = (STATUS_INSUFFICIENT_RESOURCES, rl)"
  using RtlAddRange_ok [OF assms TrueI, of at fl ud ow] assms(3)
  by (auto simp: RtlAddRange_def [of False])

theorem RtlAddRange_invariant_witness:
  "\<exists>rl'. RtlAddRange True \<lparr>Entries = [\<lparr>Start = 10, End = 19, UserData = 0, Owner = 1, Attributes = 0, RangeFlags = 0\<rparr>],
        Flags = 0, Count = 1, Stamp = 7\<rparr> 2 5 0 0 0 3 = (STATUS_SUCCESS, rl') \<and> wf_list rl' \<and>
    cover (Entries rl') = {10..19} \<union> {2..5}"
  using RtlAddRange_invariant [of "\<lparr>Entries = [\<lparr>Start = 10, End = 19, UserData = 0, Owner = 1, Attributes = 0, RangeFlags = 0\<rparr>],
        Flags = 0, Count = 1, Stamp = 7\<rparr>" 2 5 0 0 0 3]
  by (auto simp: wf_list_def sorted_disjoint_def wf_range_def)

text \<open>
  C8. On a non-empty well-formed list, with limits below 2^32, a power-of-two alignment and
  entries that start neither below the requested length nor past the upper limit,
  RtlFindRange returns an aligned start of a free block between the limits whenever there is
  one, and STATUS_RANGE_NOT_FOUND only when no aligned free block of that length exists.
\<close>

theorem RtlFindRange_correct:
  assumes "wf_list rl" and "Entries rl \<noteq> []" and "0 < len" and "unat len - 1 \<le> unat Maximum"
    and "unat Maximum < 2 ^ 32" and "k < 32"
    and "\<forall>c\<in>set (Entries rl). unat len \<le> unat (Start c) \<and> unat (Start c) \<le> unat Maximum + 1"
  shows "case RtlFindRange rl Minimum Maximum len (push_bit k 1) of
      (st, Some s) \<Rightarrow> st = STATUS_SUCCESS \<and>
        fits_below (unat Minimum) (unat len) k (unat Maximum) (Entries rl) (unat s)
    | (st, None) \<Rightarrow> st = STATUS_RANGE_NOT_FOUND \<and>
        (\<forall>s. \<not> fits_below (unat Minimum) (unat len) k (unat Maximum) (Entries rl) s)"
  by (rule RtlFindRange_fits [OF assms])

theorem RtlFindRange_correct_witness:
  "RtlFindRange \<lparr>Entries = [\<lparr>Start = 0x100, End = 0x1FF, UserData = 0, Owner = 1, Attributes = 0, RangeFlags = 0\<rparr>],
        Flags = 0, Count = 1, Stamp = 7\<rparr> 0 0x20F 0x20 16 = (STATUS_SUCCESS, Some 0xE0) \<and>
   fits_below 0 0x20 4 0x20F [\<lparr>Start = 0x100, End = 0x1FF, UserData = 0, Owner = 1, Attributes = 0, RangeFlags = 0\<rparr>] 0xE0"
proof -
  let ?rl = "\<lparr>Entries = [\<lparr>Start = 0x100, End = 0x1FF, UserData = 0, Owner = 1, Attributes = 0, RangeFlags = 0\<rparr>],
        Flags = 0, Count = 1, Stamp = 7\<rparr>"
  have r: "RtlFindRange ?rl 0 0x20F 0x20 16 = (STATUS_SUCCESS, Some 0xE0)" by code_simp
  have a: "push_bit 4 1 = (16 :: ULONG)" by simp
  show ?thesis
    using RtlFindRange_correct [of ?rl "0x20" "0x20F" 4 0] unfolding a r
    by (simp add: r wf_list_def sorted_disjoint_def wf_range_def)
qed

text \<open>
  RtlFindRange returns blocks outside the limits: above Maximum when an entry starts beyond
  it or when the first entry starts at 0, and below Minimum when the list is empty.
\<close>

theorem RtlFindRange_outside_limits:
  "RtlFindRange \<lparr>Entries = [\<lparr>Start = 100, End = 110, UserData = 0, Owner = 1, Attributes = 0, RangeFlags = 0\<rparr>],
        Flags = 0, Count = 1, Stamp = 1\<rparr> 0 50 8 1 = (STATUS_SUCCESS, Some 92) \<and>
   RtlFindRange \<lparr>Entries = [\<lparr>Start = 0, End = 10, UserData = 0, Owner = 1, Attributes = 0, RangeFlags = 0\<rparr>],
        Flags = 0, Count = 1, Stamp = 1\<rparr> 0 15 8 1 = (STATUS_SUCCESS, Some 0xFFFFFFF8) \<and>
   RtlFindRange RtlInitializeRangeList 100 50 8 1 = (STATUS_SUCCESS, Some 43)"
  by code_simp

text \<open>
  C17. A block found by RtlFindRange under those conditions can be added with RtlAddRange,
  which covers exactly the block on top of what was covered, and RtlDeleteRange of it then
  restores the covered set.
\<close>

theorem RtlFindRange_RtlAddRange:
  assumes wf: "wf_list rl" and ne: "Entries rl \<noteq> []" and len: "0 < len" "unat len - 1 \<le> unat Maximum"
    and Max: "unat Maximum < 2 ^ 32" and k: "k < 32"
    and starts: "\<forall>c\<in>set (Entries rl). unat len \<le> unat (Start c) \<and> unat (Start c) \<le> unat Maximum + 1"
    and room: "Suc (length (Entries rl)) < 2 ^ 32"
    and found: "RtlFindRange rl Minimum Maximum len (push_bit k 1) = (STATUS_SUCCESS, Some s)"
  shows "\<exists>rl' rl''. RtlAddRange True rl s (s + ucast (len - 1)) at fl ud ow = (STATUS_SUCCESS, rl') \<and>
    cover (Entries rl') = cover (Entries rl) \<union> {s..s + ucast (len - 1)} \<and>
    RtlDeleteRange rl' s (s + ucast (len - 1)) ow = (STATUS_SUCCESS, rl'') \<and>
    wf_list rl'' \<and> cover (Entries rl'') = cover (Entries rl)"
proof -
  let ?e = "s + ucast (len - 1)"
  have fit: "fits_below (unat Minimum) (unat len) k (unat Maximum) (Entries rl) (unat s)"
    using RtlFindRange_fits [OF wf ne len Max k starts, of Minimum] found by simp
  have "unat s + unat (ucast (len - 1) :: ULONGLONG) \<le> unat Maximum"
    using fit len(1) by (simp add: fits_below_def unat_ucast_ulong unat_pred)
  then have e: "unat ?e = unat s + (unat len - 1)"
    using unat_add_le [of s "ucast (len - 1)" Maximum] len(1) by (simp add: unat_ucast_ulong unat_pred)
  then have se: "s \<le> ?e" by (simp add: word_le_nat_alt)
  note free = fits_below_free [OF fit e]
  have "0 < 2 ^ 32 - 1 - length (Entries rl)" using room by simp
  from range_list.add_remove [OF wf this se free, of at fl ud ow] obtain rl' rl'' where
    "add_range at fl ud ow rl s ?e = Some rl'" "delete_range ow rl' s ?e = Some rl''" "wf_list rl''"
    "cover (Entries rl'') = cover (Entries rl)" by blast
  then show ?thesis using RtlAddRange_ok [OF wf room se free TrueI, of at fl ud ow]
    by (auto simp: add_range_def delete_range_def RtlDeleteRange_def split: if_splits option.splits)
qed

theorem RtlFindRange_RtlAddRange_witness:
  "\<exists>rl'. RtlAddRange True \<lparr>Entries = [\<lparr>Start = 0x100, End = 0x1FF, UserData = 0, Owner = 1, Attributes = 0, RangeFlags = 0\<rparr>],
        Flags = 0, Count = 1, Stamp = 7\<rparr> 0xE0 0xFF 0 0 0 2 = (STATUS_SUCCESS, rl') \<and>
     cover (Entries rl') = {0x100..0x1FF} \<union> {0xE0..0xFF}"
proof -
  let ?rl = "\<lparr>Entries = [\<lparr>Start = 0x100, End = 0x1FF, UserData = 0, Owner = 1, Attributes = 0, RangeFlags = 0\<rparr>],
        Flags = 0, Count = 1, Stamp = 7\<rparr>"
  have a: "push_bit 4 1 = (16 :: ULONG)" by simp
  have r: "RtlFindRange ?rl 0 0x20F 0x20 (push_bit 4 1) = (STATUS_SUCCESS, Some 0xE0)" unfolding a by code_simp
  show ?thesis
    using RtlFindRange_RtlAddRange [of ?rl "0x20" "0x20F" 4 0 "0xE0" 0 0 0 2, OF _ _ _ _ _ _ _ _ r]
    by (auto simp: wf_list_def sorted_disjoint_def wf_range_def)
qed

text \<open>
  C29. When all allocations succeed, inverting a non-empty well-formed list whose last entry
  ends before the last two addresses into a fresh list gives a well-formed list that covers
  exactly the complement; the number of entries is below 2^32 - 1.
\<close>

theorem RtlInvertRangeList_complement:
  assumes "wf_list rl" and "Entries rl \<noteq> []" and "End (last (Entries rl)) < - 2"
    and "Suc (length (Entries rl)) < 2 ^ 32" and "\<forall>j. alloc j"
  shows "\<exists>ivl. RtlInvertRangeList alloc RtlInitializeRangeList rl = (STATUS_SUCCESS, ivl) \<and>
    wf_list ivl \<and> cover (Entries ivl) = - cover (Entries rl)"
  by (rule RtlInvertRangeList_ok [OF assms])

theorem RtlInvertRangeList_complement_witness:
  "\<exists>ivl. RtlInvertRangeList (\<lambda>_. True) RtlInitializeRangeList
      \<lparr>Entries = [\<lparr>Start = 10, End = 19, UserData = 0, Owner = 1, Attributes = 0, RangeFlags = 0\<rparr>],
        Flags = 0, Count = 1, Stamp = 7\<rparr> = (STATUS_SUCCESS, ivl) \<and>
    wf_list ivl \<and> cover (Entries ivl) = - {10..19}"
  using RtlInvertRangeList_complement [of "\<lparr>Entries = [\<lparr>Start = 10, End = 19, UserData = 0, Owner = 1, Attributes = 0, RangeFlags = 0\<rparr>],
        Flags = 0, Count = 1, Stamp = 7\<rparr>" "\<lambda>_. True"]
  by (simp add: wf_list_def sorted_disjoint_def wf_range_def)

text \<open>
  A list that covers the whole address space is inverted into a list that also covers all of
  it, and one that leaves out only the last address is inverted into the empty list.
\<close>

theorem RtlInvertRangeList_last_units:
  "RtlInvertRangeList (\<lambda>_. True) RtlInitializeRangeList
      \<lparr>Entries = [\<lparr>Start = 0, End = - 1, UserData = 0, Owner = 0, Attributes = 0, RangeFlags = 0\<rparr>],
        Flags = 0, Count = 1, Stamp = 1\<rparr> =
     (STATUS_SUCCESS, \<lparr>Entries = [\<lparr>Start = 0, End = - 1, UserData = 0, Owner = 0, Attributes = 0, RangeFlags = 0\<rparr>],
        Flags = 0, Count = 1, Stamp = 1\<rparr>) \<and>
   RtlInvertRangeList (\<lambda>_. True) RtlInitializeRangeList
      \<lparr>Entries = [\<lparr>Start = 0, End = - 2, UserData = 0, Owner = 0, Attributes = 0, RangeFlags = 0\<rparr>],
        Flags = 0, Count = 1, Stamp = 1\<rparr> = (STATUS_SUCCESS, RtlInitializeRangeList)"
  by code_simp

text \<open>
  C37. When all allocations succeed, merging two well-formed lists with disjoint covered
  sets and together fewer than 2^32 entries into a fresh list gives a well-formed list with
  the entries of the first, the entries of the second with recomputed flags, and the union
  of the covered sets.
\<close>

theorem RtlMergeRangeLists_correct:
  assumes "wf_list rl1" and "wf_list rl2" and "cover (Entries rl1) \<inter> cover (Entries rl2) = {}"
    and "length (Entries rl1) + length (Entries rl2) < 2 ^ 32" and "\<forall>j. alloc j"
  shows "\<exists>m. RtlMergeRangeLists alloc RtlInitializeRangeList rl1 rl2 flags = Some (STATUS_SUCCESS, m) \<and>
    wf_list m \<and> set (Entries m) = set (Entries rl1) \<union> merged_entry flags ` set (Entries rl2) \<and>
    cover (Entries m) = cover (Entries rl1) \<union> cover (Entries rl2)"
  by (rule RtlMergeRangeLists_ok [OF assms])

theorem RtlMergeRangeLists_correct_witness:
  "\<exists>m. RtlMergeRangeLists (\<lambda>_. True) RtlInitializeRangeList
      \<lparr>Entries = [\<lparr>Start = 10, End = 19, UserData = 0, Owner = 1, Attributes = 0, RangeFlags = 1\<rparr>],
        Flags = 0, Count = 1, Stamp = 7\<rparr>
      \<lparr>Entries = [\<lparr>Start = 3, End = 4, UserData = 0, Owner = 1, Attributes = 0, RangeFlags = 1\<rparr>],
        Flags = 0, Count = 1, Stamp = 7\<rparr> 0 = Some (STATUS_SUCCESS, m) \<and>
    wf_list m \<and> cover (Entries m) = {10..19} \<union> {3..4}"
  using RtlMergeRangeLists_correct [of
      "\<lparr>Entries = [\<lparr>Start = 10, End = 19, UserData = 0, Owner = 1, Attributes = 0, RangeFlags = 1\<rparr>],
        Flags = 0, Count = 1, Stamp = 7\<rparr>"
      "\<lparr>Entries = [\<lparr>Start = 3, End = 4, UserData = 0, Owner = 1, Attributes = 0, RangeFlags = 1\<rparr>],
        Flags = 0, Count = 1, Stamp = 7\<rparr>" "\<lambda>_. True" 0]
  by (auto simp: wf_list_def sorted_disjoint_def wf_range_def)

text \<open>
  After a successful RtlAddRange or RtlDeleteRange on the list, an iterator obtained before
  is refused by RtlGetNextRange with STATUS_INVALID_PARAMETER and left unchanged.
\<close>

theorem RtlGetNextRange_stale:
  assumes "RtlGetFirstRange rl = (st, it, r)"
    and "RtlAddRange alloc rl s e at fl ud ow = (STATUS_SUCCESS, rl') \<or>
         RtlDeleteRange rl s e ow = (STATUS_SUCCESS, rl')"
  shows "RtlGetNextRange rl' it fwd = Some (STATUS_INVALID_PARAMETER, it, None)"
proof -
  have "Stamp rl' = Stamp rl + 1"
    using assms(2) by (auto simp: RtlAddRange_def RtlDeleteRange_def Let_def split: if_splits option.splits)
  moreover have "IterStamp it = Stamp rl" using assms(1) by (auto simp: RtlGetFirstRange_def split: if_splits)
  ultimately show ?thesis by (simp add: RtlGetNextRange_def)
qed

theorem RtlGetNextRange_stale_witness:
  "RtlGetNextRange (snd (RtlAddRange True RtlInitializeRangeList 1 2 0 0 0 0))
     \<lparr>Current = None, IterStamp = 0\<rparr> True = Some (STATUS_INVALID_PARAMETER, \<lparr>Current = None, IterStamp = 0\<rparr>, None)"
proof -
  have "RtlGetFirstRange RtlInitializeRangeList = (STATUS_NO_MORE_ENTRIES, \<lparr>Current = None, IterStamp = 0\<rparr>, None)"
    by code_simp
  moreover have "RtlAddRange True RtlInitializeRangeList 1 2 0 0 0 0 =
      (STATUS_SUCCESS, snd (RtlAddRange True RtlInitializeRangeList 1 2 0 0 0 0))" by code_simp
  ultimately show ?thesis by (rule RtlGetNextRange_stale [OF _ disjI1])
qed

lemma fold_available:
  "fold (\<lambda>c a. if \<not> P c then False else a) cs b \<longleftrightarrow> b \<and> (\<forall>c\<in>set cs. P c)"
  by (induction cs arbitrary: b) auto

text \<open>
  Without callback and shared flag RtlIsRangeAvailable answers true exactly when every entry
  of the list is disjoint from the range or starts at the last address of the range and goes
  on past it.
\<close>

theorem RtlIsRangeAvailable_correct:
  assumes "wf_list rl" and "s \<le> e" and "flags AND 1 = 0"
  shows "RtlIsRangeAvailable rl s e flags None =
    (STATUS_SUCCESS, \<forall>c\<in>set (Entries rl). {s..e} \<inter> {Start c..End c} = {} \<or> Start c = e \<and> e < End c)"
proof -
  have key: "(Start c \<ge> e \<and> End c > e \<or> Start c \<le> s \<and> End c < s) \<longleftrightarrow>
      ({s..e} \<inter> {Start c..End c} = {} \<or> Start c = e \<and> e < End c)" if "c \<in> set (Entries rl)" for c
  proof -
    have c: "Start c \<le> End c" using assms(1) that by (auto simp: wf_list_def sorted_disjoint_def list_all_iff wf_range_def)
    have "{s..e} \<inter> {Start c..End c} = {} \<longleftrightarrow> e < Start c \<or> End c < s"
    proof
      assume disj: "{s..e} \<inter> {Start c..End c} = {}"
      show "e < Start c \<or> End c < s"
      proof (rule ccontr)
        assume "\<not> (e < Start c \<or> End c < s)"
        then have "max s (Start c) \<in> {s..e} \<inter> {Start c..End c}" using c assms(2) by (auto simp: le_max_iff_disj not_less)
        then show False using disj by blast
      qed
    qed auto
    then show ?thesis using c assms(2) by auto
  qed
  have "RtlIsRangeAvailable rl s e flags None =
      (STATUS_SUCCESS, \<forall>c\<in>set (Entries rl). Start c \<ge> e \<and> End c > e \<or> Start c \<le> s \<and> End c < s)"
    unfolding RtlIsRangeAvailable_def option.case fold_available using assms(3) by simp
  then show ?thesis using key by (simp only: cong: ball_cong)
qed

theorem RtlIsRangeAvailable_correct_witness:
  "RtlIsRangeAvailable \<lparr>Entries = [\<lparr>Start = 10, End = 19, UserData = 0, Owner = 1, Attributes = 0, RangeFlags = 0\<rparr>],
        Flags = 0, Count = 1, Stamp = 7\<rparr> 4 10 0 None =
     (STATUS_SUCCESS, {4..10} \<inter> {10..(19::ULONGLONG)} = {} \<or> (10::ULONGLONG) = 10 \<and> (10::ULONGLONG) < 19)"
  using RtlIsRangeAvailable_correct [of "\<lparr>Entries = [\<lparr>Start = 10, End = 19, UserData = 0, Owner = 1, Attributes = 0, RangeFlags = 0\<rparr>],
        Flags = 0, Count = 1, Stamp = 7\<rparr>" 4 10 0]
  by (simp add: wf_list_def sorted_disjoint_def wf_range_def)

end
