(* ===== verification/CrtMem.thy ===== *)
theory CrtMem
  imports RtlPrelude "HOL-Library.Sublist"
begin

text \<open>
  The byte memory of the C run time and the routines that work on it:
  \<^verbatim>\<open>sdk/lib/crt/mem\<close> (\<open>memcpy\<close>, \<open>memmove\<close>, \<open>memset\<close>, \<open>memcmp\<close>, \<open>memchr\<close>, \<open>_memccpy\<close>,
  \<open>_memicmp\<close>) and \<^verbatim>\<open>sdk/lib/rtl/mem.c\<close>.

  A memory maps the addresses that are mapped to their byte; reading or writing an address
  that is not mapped is an access violation, the result \<open>None\<close>.  Addresses and sizes are
  natural numbers: an object does not wrap around the address space.
\<close>

unbundle bit_operations_syntax

section \<open>Memory\<close>

type_synonym mem = "nat \<rightharpoonup> UCHAR"

definition store :: "mem \<Rightarrow> nat \<Rightarrow> UCHAR \<Rightarrow> mem option" where
  "store m p v = (if m p = None then None else Some (m(p \<mapsto> v)))"

text \<open>Little-endian access to 16-bit and 32-bit objects.\<close>

definition load_USHORT :: "mem \<Rightarrow> nat \<Rightarrow> USHORT option" where
  "load_USHORT m p = do {
     a \<leftarrow> m p;
     b \<leftarrow> m (p + 1);
     Some (ucast a OR push_bit 8 (ucast b))
   }"

definition store_USHORT :: "mem \<Rightarrow> nat \<Rightarrow> USHORT \<Rightarrow> mem option" where
  "store_USHORT m p v = do {
     m \<leftarrow> store m p (ucast v);
     store m (p + 1) (ucast (drop_bit 8 v))
   }"

definition load_ULONG :: "mem \<Rightarrow> nat \<Rightarrow> ULONG option" where
  "load_ULONG m p = do {
     a \<leftarrow> m p;
     b \<leftarrow> m (p + 1);
     c \<leftarrow> m (p + 2);
     d \<leftarrow> m (p + 3);
     Some (ucast a OR push_bit 8 (ucast b) OR push_bit 16 (ucast c) OR push_bit 24 (ucast d))
   }"

definition store_ULONG :: "mem \<Rightarrow> nat \<Rightarrow> ULONG \<Rightarrow> mem option" where
  "store_ULONG m p v = do {
     m \<leftarrow> store m p (ucast v);
     m \<leftarrow> store m (p + 1) (ucast (drop_bit 8 v));
     m \<leftarrow> store m (p + 2) (ucast (drop_bit 16 v));
     store m (p + 3) (ucast (drop_bit 24 v))
   }"

section \<open>Copying and filling\<close>

text \<open>The two loops of \<^verbatim>\<open>memcpy.c\<close>: upwards, and downwards from the last byte.\<close>

fun copy_up :: "mem \<Rightarrow> nat \<Rightarrow> nat \<Rightarrow> nat \<Rightarrow> mem option" where
  "copy_up m char_dest char_src 0 = Some m"
| "copy_up m char_dest char_src (Suc count) = do {
     v \<leftarrow> m char_src;
     m \<leftarrow> store m char_dest v;
     copy_up m (char_dest + 1) (char_src + 1) count
   }"

fun copy_down :: "mem \<Rightarrow> nat \<Rightarrow> nat \<Rightarrow> nat \<Rightarrow> mem option" where
  "copy_down m dest src 0 = Some m"
| "copy_down m dest src (Suc count) = do {
     v \<leftarrow> m (src + count);
     m \<leftarrow> store m (dest + count) v;
     copy_down m dest src count
   }"

definition memcpy :: "mem \<Rightarrow> nat \<Rightarrow> nat \<Rightarrow> nat \<Rightarrow> mem option" where
  "memcpy m dest src count =
     (if dest \<le> src \<or> dest \<ge> src + count
      then copy_up m dest src count
      else copy_down m dest src count)"

definition memmove :: "mem \<Rightarrow> nat \<Rightarrow> nat \<Rightarrow> nat \<Rightarrow> mem option" where
  "memmove m dest src count =
     (if dest \<le> src \<or> dest \<ge> src + count
      then copy_up m dest src count
      else copy_down m dest src count)"

fun memset :: "mem \<Rightarrow> nat \<Rightarrow> int \<Rightarrow> nat \<Rightarrow> mem option" where
  "memset m src val 0 = Some m"
| "memset m src val (Suc count) = do {
     m \<leftarrow> store m src (word_of_int val);
     memset m (src + 1) val count
   }"

definition RtlFillMemory :: "mem \<Rightarrow> nat \<Rightarrow> nat \<Rightarrow> UCHAR \<Rightarrow> mem option" where
  "RtlFillMemory m Destination Length Fill = memset m Destination (uint Fill) Length"

definition RtlZeroMemory :: "mem \<Rightarrow> nat \<Rightarrow> nat \<Rightarrow> mem option" where
  "RtlZeroMemory m Destination Length = RtlFillMemory m Destination Length 0"

definition RtlMoveMemory :: "mem \<Rightarrow> nat \<Rightarrow> nat \<Rightarrow> nat \<Rightarrow> mem option" where
  "RtlMoveMemory m Destination Source Length = memmove m Destination Source Length"

definition RtlCopyMemory :: "mem \<Rightarrow> nat \<Rightarrow> nat \<Rightarrow> nat \<Rightarrow> mem option" where
  "RtlCopyMemory m Destination Source Length = memcpy m Destination Source Length"

fun fill_ulongs :: "mem \<Rightarrow> nat \<Rightarrow> nat \<Rightarrow> ULONG \<Rightarrow> mem option" where
  "fill_ulongs m Dest 0 Fill = Some m"
| "fill_ulongs m Dest (Suc Count) Fill = do {
     m \<leftarrow> store_ULONG m Dest Fill;
     fill_ulongs m (Dest + 4) Count Fill
   }"

definition RtlFillMemoryUlong :: "mem \<Rightarrow> nat \<Rightarrow> nat \<Rightarrow> ULONG \<Rightarrow> mem option" where
  "RtlFillMemoryUlong m Destination Length Fill = fill_ulongs m Destination (Length div 4) Fill"

section \<open>Comparing and searching\<close>

text \<open>The difference of two \<^verbatim>\<open>unsigned char\<close> is computed as \<^verbatim>\<open>int\<close>.\<close>

fun memcmp :: "mem \<Rightarrow> nat \<Rightarrow> nat \<Rightarrow> nat \<Rightarrow> int option" where
  "memcmp m p1 p2 0 = Some 0"
| "memcmp m p1 p2 (Suc n) = do {
     a \<leftarrow> m p1;
     b \<leftarrow> m p2;
     if a \<noteq> b then Some (uint a - uint b) else memcmp m (p1 + 1) (p2 + 1) n
   }"

definition RtlEqualMemory :: "mem \<Rightarrow> nat \<Rightarrow> nat \<Rightarrow> nat \<Rightarrow> bool option" where
  "RtlEqualMemory m Destination Source Length = do {
     r \<leftarrow> memcmp m Destination Source Length;
     Some (r = 0)
   }"

fun compare_from :: "mem \<Rightarrow> nat \<Rightarrow> nat \<Rightarrow> nat \<Rightarrow> nat \<Rightarrow> nat option" where
  "compare_from m Source1 Source2 0 i = Some i"
| "compare_from m Source1 Source2 (Suc left) i = do {
     a \<leftarrow> m (Source1 + i);
     b \<leftarrow> m (Source2 + i);
     if a = b then compare_from m Source1 Source2 left (i + 1) else Some i
   }"

definition RtlCompareMemory :: "mem \<Rightarrow> nat \<Rightarrow> nat \<Rightarrow> nat \<Rightarrow> nat option" where
  "RtlCompareMemory m Source1 Source2 Length = compare_from m Source1 Source2 Length 0"

fun compare_ulongs :: "mem \<Rightarrow> nat \<Rightarrow> nat \<Rightarrow> ULONG \<Rightarrow> nat option" where
  "compare_ulongs m ptr 0 Value = Some ptr"
| "compare_ulongs m ptr (Suc len) Value = do {
     v \<leftarrow> load_ULONG m ptr;
     if v \<noteq> Value then Some ptr else compare_ulongs m (ptr + 4) len Value
   }"

definition RtlCompareMemoryUlong :: "mem \<Rightarrow> nat \<Rightarrow> nat \<Rightarrow> ULONG \<Rightarrow> nat option" where
  "RtlCompareMemoryUlong m Source Length Value = do {
     ptr \<leftarrow> compare_ulongs m Source (Length div 4) Value;
     Some (ptr - Source)
   }"

text \<open>
  \<^verbatim>\<open>char\<close> is a signed type for the compilers the tree is built with, so a byte is sign-extended
  before it is compared with the \<^verbatim>\<open>int\<close> argument.  The inner option is the returned
  pointer, \<open>None\<close> for the null pointer.
\<close>

fun memchr :: "mem \<Rightarrow> nat \<Rightarrow> int \<Rightarrow> nat \<Rightarrow> nat option option" where
  "memchr m p c 0 = Some None"
| "memchr m p c (Suc n) = do {
     v \<leftarrow> m p;
     if sint v = c then Some (Some p) else memchr m (p + 1) c n
   }"

fun memccpy_from :: "mem \<Rightarrow> nat \<Rightarrow> nat \<Rightarrow> int \<Rightarrow> nat \<Rightarrow> nat \<Rightarrow> (nat option \<times> mem) option" where
  "memccpy_from m dst src c 0 i = Some (None, m)"
| "memccpy_from m dst src c (Suc left) i = do {
     t \<leftarrow> m (src + i);
     m \<leftarrow> store m (dst + i) t;
     if t = 0 then Some (None, m)
     else if sint t = c then Some (Some (dst + i + 1), m)
     else memccpy_from m dst src c left (i + 1)
   }"

definition memccpy :: "mem \<Rightarrow> nat \<Rightarrow> nat \<Rightarrow> int \<Rightarrow> nat \<Rightarrow> (nat option \<times> mem) option" where
  "memccpy m to from c count = memccpy_from m to from c count 0"

section \<open>Blocks of memory\<close>

text \<open>
  \<open>mapped m p n\<close>: the block of \<open>n\<close> bytes at \<open>p\<close> may be accessed; \<open>holds m p bs\<close>: it contains \<open>bs\<close>;
  \<open>put m p bs\<close>: the memory after \<open>bs\<close> was written there.  Every writing routine is a \<open>put\<close>.
\<close>

definition mapped :: "mem \<Rightarrow> nat \<Rightarrow> nat \<Rightarrow> bool" where
  "mapped m p n \<longleftrightarrow> (\<forall>i < n. m (p + i) \<noteq> None)"

definition holds :: "mem \<Rightarrow> nat \<Rightarrow> UCHAR list \<Rightarrow> bool" where
  "holds m p bs \<longleftrightarrow> (\<forall>i < length bs. m (p + i) = Some (bs ! i))"

definition put :: "mem \<Rightarrow> nat \<Rightarrow> UCHAR list \<Rightarrow> mem" where
  "put m p bs = (\<lambda>q. if p \<le> q \<and> q < p + length bs then Some (bs ! (q - p)) else m q)"

definition bytes_USHORT :: "USHORT \<Rightarrow> UCHAR list" where
  "bytes_USHORT v = [ucast v, ucast (drop_bit 8 v)]"

definition bytes_ULONG :: "ULONG \<Rightarrow> UCHAR list" where
  "bytes_ULONG v = [ucast v, ucast (drop_bit 8 v), ucast (drop_bit 16 v), ucast (drop_bit 24 v)]"

text \<open>The memory the witnesses use: the block \<open>bs\<close> at address \<open>p\<close>, nothing else mapped.\<close>

definition block :: "nat \<Rightarrow> UCHAR list \<Rightarrow> mem" where
  "block p bs = put Map.empty p bs"

lemma all_less_Suc_shift: "(\<forall>i < Suc n. P i) \<longleftrightarrow> P 0 \<and> (\<forall>i < n. P (Suc i))"
  by (metis less_Suc_eq_0_disj)

lemma mapped_0 [simp]: "mapped m p 0"
  by (simp add: mapped_def)

lemma mapped_Suc: "mapped m p (Suc n) \<longleftrightarrow> m p \<noteq> None \<and> mapped m (Suc p) n"
  by (simp add: mapped_def all_less_Suc_shift)

lemma mapped_mono: "mapped m p n \<Longrightarrow> p \<le> q \<Longrightarrow> q + k \<le> p + n \<Longrightarrow> mapped m q k"
  unfolding mapped_def
  by (metis add.assoc le_Suc_ex nat_add_left_cancel_less order_less_le_trans)

lemma mappedD: "mapped m p n \<Longrightarrow> p \<le> q \<Longrightarrow> q < p + n \<Longrightarrow> m q \<noteq> None"
  unfolding mapped_def by (metis le_Suc_ex nat_add_left_cancel_less)

lemma holds_Nil [simp]: "holds m p []"
  by (simp add: holds_def)

lemma holds_Cons: "holds m p (b # bs) \<longleftrightarrow> m p = Some b \<and> holds m (Suc p) bs"
  by (simp add: holds_def all_less_Suc_shift)

lemma holds_append: "holds m p (xs @ ys) \<longleftrightarrow> holds m p xs \<and> holds m (p + length xs) ys"
  by (induction xs arbitrary: p) (simp_all add: holds_Cons)

lemma holds_mapped: "holds m p bs \<Longrightarrow> mapped m p (length bs)"
  by (simp add: holds_def mapped_def)

lemma mapped_holds: "mapped m p n \<Longrightarrow> \<exists>bs. length bs = n \<and> holds m p bs"
  by (rule exI [of _ "map (\<lambda>i. the (m (p + i))) [0..<n]"]) (auto simp: holds_def mapped_def)

lemma holds_unique: "holds m p xs \<Longrightarrow> holds m p ys \<Longrightarrow> length xs = length ys \<Longrightarrow> xs = ys"
  by (auto simp: holds_def intro!: nth_equalityI)

lemma holds_cong: "(\<And>q. p \<le> q \<Longrightarrow> q < p + length bs \<Longrightarrow> m' q = m q) \<Longrightarrow> holds m' p bs = holds m p bs"
  by (simp add: holds_def)

lemma holds_sub: "holds m q a \<Longrightarrow> i + n \<le> length a \<Longrightarrow> holds m (q + i) (take n (drop i a))"
  by (simp add: holds_def add.assoc)

lemma holds_nth: "holds m q a \<Longrightarrow> i < length a \<Longrightarrow> m (q + i) = Some (a ! i)"
  by (simp add: holds_def)

lemma put_Nil [simp]: "put m p [] = m"
  by (auto simp: put_def fun_eq_iff)

lemma put_Cons: "put m p (b # bs) = put (m(p \<mapsto> b)) (Suc p) bs"
  by (auto simp: put_def fun_eq_iff nth_Cons')

lemma put_append: "put m p (xs @ ys) = put (put m p xs) (p + length xs) ys"
  by (induction xs arbitrary: m p) (simp_all add: put_Cons)

lemma put_other: "q < p \<or> p + length bs \<le> q \<Longrightarrow> put m p bs q = m q"
  by (auto simp: put_def)

lemma holds_put [simp]: "holds (put m p bs) p bs"
  by (simp add: holds_def put_def)

lemma holds_put_same: "length xs = length ys \<Longrightarrow> holds (put m p xs) p ys \<longleftrightarrow> xs = ys"
  using holds_put [of m p xs] holds_unique [of "put m p xs" p xs ys] by auto

lemma holds_put_other:
  "q + length cs \<le> p \<or> p + length bs \<le> q \<Longrightarrow> holds (put m p bs) q cs = holds m q cs"
  by (rule holds_cong) (auto simp: put_other)

lemma mapped_put [simp]: "mapped m q n \<Longrightarrow> mapped (put m p bs) q n"
  by (simp add: mapped_def put_def)

lemma put_put: "length xs \<le> length ys \<Longrightarrow> put (put m p xs) p ys = put m p ys"
  by (auto simp: put_def fun_eq_iff)

lemma put_comm:
  "p + length xs \<le> q \<or> q + length ys \<le> p \<Longrightarrow> put (put m p xs) q ys = put (put m q ys) p xs"
  by (auto simp: put_def fun_eq_iff)

lemma put_id: "holds m p bs \<Longrightarrow> put m p bs = m"
  by (auto simp: put_def fun_eq_iff holds_def) (metis add_diff_inverse_nat linorder_not_less nat_add_left_cancel_less)

lemma upd_put: "m(p \<mapsto> v) = put m p [v]"
  by (simp add: put_Cons)

section \<open>Words in memory\<close>

lemma length_bytes [simp]: "length (bytes_USHORT v) = 2" "length (bytes_ULONG w) = 4"
  by (simp_all add: bytes_USHORT_def bytes_ULONG_def)

lemma join_USHORT:
  "ucast (ucast v :: UCHAR) OR push_bit 8 (ucast (ucast (drop_bit 8 v) :: UCHAR)) = (v :: USHORT)"
  by (rule bit_word_eqI) (auto simp: bit_simps)

lemma join_ULONG:
  "ucast (ucast v :: UCHAR) OR push_bit 8 (ucast (ucast (drop_bit 8 v) :: UCHAR))
   OR push_bit 16 (ucast (ucast (drop_bit 16 v) :: UCHAR))
   OR push_bit 24 (ucast (ucast (drop_bit 24 v) :: UCHAR)) = (v :: ULONG)"
proof (rule bit_word_eqI)
  fix n assume "n < LENGTH(32)"
  then consider "n < 8" | "8 \<le> n \<and> n < 16" | "16 \<le> n \<and> n < 24" | "24 \<le> n \<and> n < 32" by fastforce
  then show "bit (ucast (ucast v :: UCHAR) OR push_bit 8 (ucast (ucast (drop_bit 8 v) :: UCHAR))
     OR push_bit 16 (ucast (ucast (drop_bit 16 v) :: UCHAR))
     OR push_bit 24 (ucast (ucast (drop_bit 24 v) :: UCHAR)) :: ULONG) n = bit v n"
    by cases (auto simp: bit_simps)
qed

lemma bit_byte_ge: "8 \<le> n \<Longrightarrow> \<not> bit (a :: UCHAR) n"
  using bit_imp_le_length [of a n] by auto

lemma split_USHORT:
  "bytes_USHORT (ucast (a :: UCHAR) OR push_bit 8 (ucast (b :: UCHAR))) = [a, b]"
  unfolding bytes_USHORT_def by (auto intro!: bit_word_eqI simp: bit_simps bit_byte_ge)

lemma split_ULONG:
  "bytes_ULONG (ucast (a :: UCHAR) OR push_bit 8 (ucast (b :: UCHAR))
     OR push_bit 16 (ucast (c :: UCHAR)) OR push_bit 24 (ucast (d :: UCHAR))) = [a, b, c, d]"
  unfolding bytes_ULONG_def by (auto intro!: bit_word_eqI simp: bit_simps bit_byte_ge)

lemma load_USHORT_holds: "load_USHORT m p = Some v \<longleftrightarrow> holds m p (bytes_USHORT v)"
proof
  assume "load_USHORT m p = Some v"
  then show "holds m p (bytes_USHORT v)"
    by (auto simp: load_USHORT_def holds_Cons split_USHORT split: bind_splits)
next
  assume "holds m p (bytes_USHORT v)"
  then show "load_USHORT m p = Some v"
    by (simp add: load_USHORT_def bytes_USHORT_def holds_Cons join_USHORT)
qed

lemma load_ULONG_holds: "load_ULONG m p = Some v \<longleftrightarrow> holds m p (bytes_ULONG v)"
proof
  assume "load_ULONG m p = Some v"
  then show "holds m p (bytes_ULONG v)"
    by (auto simp: load_ULONG_def holds_Cons split_ULONG numeral_2_eq_2 numeral_3_eq_3 split: bind_splits)
next
  assume "holds m p (bytes_ULONG v)"
  then show "load_ULONG m p = Some v"
    by (simp add: load_ULONG_def bytes_ULONG_def holds_Cons join_ULONG numeral_2_eq_2 numeral_3_eq_3)
qed

lemma store_put: "mapped m p 1 \<Longrightarrow> store m p v = Some (put m p [v])"
  by (auto simp: store_def mapped_def put_Cons)

lemma store_USHORT_put: "mapped m p 2 \<Longrightarrow> store_USHORT m p v = Some (put m p (bytes_USHORT v))"
  by (auto simp: store_USHORT_def store_def bytes_USHORT_def numeral_2_eq_2 mapped_Suc put_Cons)

lemma store_ULONG_put: "mapped m p 4 \<Longrightarrow> store_ULONG m p v = Some (put m p (bytes_ULONG v))"
  by (auto simp: store_ULONG_def store_def bytes_ULONG_def eval_nat_numeral mapped_Suc put_Cons)

section \<open>Copying and filling are block writes\<close>

lemma copy_up_ok:
  assumes "holds m s bs" "mapped m d (length bs)" "d \<le> s \<or> s + length bs \<le> d"
  shows "copy_up m d s (length bs) = Some (put m d bs)"
  using assms
proof (induction bs arbitrary: m d s)
  case (Cons b bs)
  have "holds (m(d \<mapsto> b)) (Suc s) bs"
    using Cons.prems by (subst holds_cong [of _ _ _ m]) (auto simp: holds_Cons)
  moreover have "mapped (m(d \<mapsto> b)) (Suc d) (length bs)"
    using Cons.prems(2) by (simp add: upd_put mapped_Suc)
  moreover have "Suc d \<le> Suc s \<or> Suc s + length bs \<le> Suc d" using Cons.prems(3) by auto
  ultimately have "copy_up (m(d \<mapsto> b)) (Suc d) (Suc s) (length bs) = Some (put (m(d \<mapsto> b)) (Suc d) bs)"
    by (rule Cons.IH)
  with Cons.prems(1,2) show ?case by (simp add: holds_Cons mapped_Suc store_def put_Cons)
qed simp

lemma copy_down_ok:
  assumes "holds m s bs" "mapped m d (length bs)" "s < d"
  shows "copy_down m d s (length bs) = Some (put m d bs)"
  using assms
proof (induction bs arbitrary: m rule: rev_induct)
  case (snoc b bs)
  let ?m = "put m (d + length bs) [b]"
  have "holds ?m s bs" using snoc.prems by (simp add: holds_append holds_put_other)
  moreover have "mapped ?m d (length bs)"
    using snoc.prems(2) by (intro mapped_put) (auto intro: mapped_mono)
  ultimately have "copy_down ?m d s (length bs) = Some (put ?m d bs)"
    using snoc.prems(3) by (rule snoc.IH)
  moreover have "put ?m d bs = put m d (bs @ [b])" by (simp add: put_append put_comm)
  moreover have "store m (d + length bs) b = Some ?m"
    using snoc.prems(2) by (intro store_put) (auto intro: mapped_mono)
  ultimately show ?case using snoc.prems(1) by (simp add: holds_append holds_Cons)
qed simp

lemma memcpy_ok:
  assumes "holds m s bs" "mapped m d (length bs)"
  shows "memcpy m d s (length bs) = Some (put m d bs)"
  using assms copy_up_ok [of m s bs d] copy_down_ok [of m s bs d] by (auto simp: memcpy_def)

lemma memmove_memcpy: "memmove = memcpy"
  by (simp add: fun_eq_iff memmove_def memcpy_def)

lemma mapped_upd: "m p \<noteq> None \<Longrightarrow> mapped (m(p \<mapsto> v)) q n = mapped m q n"
  by (auto simp: mapped_def)

lemma mapped_last: "mapped m p (Suc k) \<longleftrightarrow> mapped m p k \<and> m (p + k) \<noteq> None"
  by (auto simp: mapped_def less_Suc_eq)

lemma copy_up_mapped: "copy_up m d s n = Some m' \<Longrightarrow> mapped m d n \<and> mapped m s n"
proof (induction n arbitrary: m d s)
  case (Suc n)
  then obtain v where v: "m s = Some v" "m d \<noteq> None" "copy_up (m(d \<mapsto> v)) (Suc d) (Suc s) n = Some m'"
    by (auto simp: store_def split: bind_splits if_splits)
  with Suc.IH [OF v(3)] mapped_upd [of m d, OF v(2)] show ?case by (simp add: mapped_Suc del: fun_upd_apply)
qed simp

lemma copy_down_mapped: "copy_down m d s n = Some m' \<Longrightarrow> mapped m d n \<and> mapped m s n"
proof (induction n arbitrary: m)
  case (Suc n)
  then obtain v where v: "m (s + n) = Some v" "m (d + n) \<noteq> None"
      "copy_down (m(d + n \<mapsto> v)) d s n = Some m'"
    by (auto simp: store_def split: bind_splits if_splits)
  with Suc.IH [OF v(3)] mapped_upd [of m "d + n", OF v(2)] show ?case by (simp add: mapped_last del: fun_upd_apply)
qed simp

lemma memcpy_mapped: "memcpy m d s n = Some m' \<Longrightarrow> mapped m d n \<and> mapped m s n"
  using copy_up_mapped [of m d s n m'] copy_down_mapped [of m d s n m']
  by (simp add: memcpy_def split: if_splits)

lemma memset_ok:
  "mapped m p n \<Longrightarrow> memset m p v n = Some (put m p (replicate n (word_of_int v)))"
  by (induction n arbitrary: m p)
    (simp_all add: mapped_Suc store_def put_Cons mapped_upd)

lemma RtlZeroMemory_ok: "mapped m p n \<Longrightarrow> RtlZeroMemory m p n = Some (put m p (replicate n 0))"
  by (simp add: RtlZeroMemory_def RtlFillMemory_def memset_ok)

lemma fill_ulongs_ok:
  "mapped m p (4 * n) \<Longrightarrow>
   fill_ulongs m p n v = Some (put m p (concat (replicate n (bytes_ULONG v))))"
proof (induction n arbitrary: m p)
  case (Suc n)
  have "store_ULONG m p v = Some (put m p (bytes_ULONG v))"
    using Suc.prems by (intro store_ULONG_put) (auto intro: mapped_mono)
  moreover have "mapped (put m p (bytes_ULONG v)) (p + 4) (4 * n)"
    using Suc.prems by (intro mapped_put) (auto intro: mapped_mono)
  ultimately show ?case by (simp add: Suc.IH put_append)
qed simp

section \<open>Comparison of blocks\<close>

lemma memcmp_ok:
  assumes "holds m p xs" "holds m q ys" "length xs = length ys"
  shows "\<exists>r. memcmp m p q (length xs) = Some r \<and> (r = 0 \<longleftrightarrow> xs = ys) \<and>
     (r < 0 \<longleftrightarrow> (xs, ys) \<in> lexord {(a, b). a < b})"
  using assms(3,1,2)
proof (induction xs ys arbitrary: p q rule: list_induct2)
  case (Cons x xs y ys)
  then show ?case by (auto simp: holds_Cons word_less_def word_uint_eq_iff)
qed simp

lemma RtlEqualMemory_ok:
  assumes "holds m p xs" "holds m q ys" "length xs = length ys"
  shows "RtlEqualMemory m p q (length xs) = Some (xs = ys)"
  using memcmp_ok [OF assms] by (auto simp: RtlEqualMemory_def)

lemma compare_from_ok:
  assumes "length xs = length ys" "holds m (p + i) xs" "holds m (q + i) ys"
  shows "compare_from m p q (length xs) i = Some (i + length (longest_common_prefix xs ys))"
  using assms by (induction xs ys arbitrary: i rule: list_induct2) (auto simp: holds_Cons)

lemma compare_ulongs_ok:
  assumes "holds m p (concat (map bytes_ULONG vs))"
  shows "compare_ulongs m p (length vs) v = Some (p + 4 * length (takeWhile (\<lambda>w. w = v) vs))"
  using assms
proof (induction vs arbitrary: p)
  case (Cons w vs)
  then have "load_ULONG m p = Some w" by (simp add: holds_append load_ULONG_holds)
  with Cons show ?case by (simp add: holds_append)
qed simp

lemma memchr_ok:
  assumes "holds m p bs"
  shows "memchr m p c (length bs) =
     Some (map_option (\<lambda>i. p + i) (find (\<lambda>i. sint (bs ! i) = c) [0..<length bs]))"
  using assms
proof (induction bs arbitrary: p)
  case (Cons b bs)
  have "find (\<lambda>i. sint ((b # bs) ! i) = c) (map Suc xs) = map_option Suc (find (\<lambda>i. sint (bs ! i) = c) xs)" for xs
    by (induction xs) simp_all
  with Cons show ?case
    by (simp add: holds_Cons upt_conv_Cons map_Suc_upt [symmetric] option.map_comp comp_def del: upt_Suc)
qed simp

section \<open>Properties\<close>

lemma block_apply: "block p bs q = (if p \<le> q \<and> q < p + length bs then Some (bs ! (q - p)) else None)"
  by (simp add: block_def put_def)

lemma holds_block [simp]: "holds (block p bs) p bs"
  by (simp add: block_def)

text \<open>
  C3. memmove faults exactly when one of the two blocks is not mapped; otherwise the
  destination block gets the bytes the source block had before the call, also when the
  blocks overlap in either direction, and no other byte changes.
\<close>

theorem memmove_correct:
  "memmove m dest src count =
     (if mapped m dest count \<and> mapped m src count
      then Some (\<lambda>q. if dest \<le> q \<and> q < dest + count then m (src + (q - dest)) else m q)
      else None)"
proof (cases "mapped m dest count \<and> mapped m src count")
  case True
  then obtain bs where bs: "length bs = count" "holds m src bs" using mapped_holds by blast
  have "put m dest bs = (\<lambda>q. if dest \<le> q \<and> q < dest + count then m (src + (q - dest)) else m q)"
    using bs(2) unfolding put_def holds_def bs(1) [symmetric]
    by (intro ext) (simp add: less_diff_conv2 del: add_diff_assoc2 Nat.add_diff_assoc)
  with True bs memcpy_ok [of m src bs dest] show ?thesis by (simp add: memmove_memcpy)
next
  case False
  then show ?thesis using memcpy_mapped [of m dest src count]
    by (cases "memcpy m dest src count") (auto simp: memmove_memcpy)
qed

text \<open>
  On two mapped blocks of the same length memcmp returns 0 exactly when they are equal and a
  negative value exactly when the first comes first in the lexicographic order of unsigned
  bytes, and RtlCompareMemory returns the length of their longest common prefix.
\<close>

theorem memcmp_lexicographic:
  assumes "holds m p xs" "holds m q ys" "length xs = length ys"
  shows "\<exists>r. memcmp m p q (length xs) = Some r \<and> (r = 0 \<longleftrightarrow> xs = ys) \<and>
     (r < 0 \<longleftrightarrow> (xs, ys) \<in> lexord {(a, b). a < b}) \<and>
     RtlCompareMemory m p q (length xs) = Some (length (longest_common_prefix xs ys))"
  using memcmp_ok [OF assms] compare_from_ok [of xs ys m p 0 q] assms
  by (auto simp: RtlCompareMemory_def)

theorem memcmp_lexicographic_witness:
  "\<exists>r. memcmp (block 8 [1, 2, 3, 1, 2, 200]) 8 11 3 = Some r \<and> r < 0 \<and>
     RtlCompareMemory (block 8 [1, 2, 3, 1, 2, 200]) 8 11 3 = Some 2"
proof -
  have "holds (block 8 [1, 2, 3, 1, 2, 200]) 8 [1, 2, 3]"
    "holds (block 8 [1, 2, 3, 1, 2, 200]) 11 [1, 2, 200]"
    using holds_block [of 8 "[1, 2, 3] @ [1, 2, 200]"] by (simp_all only: holds_append) simp_all
  moreover have l: "length [1 :: UCHAR, 2, 3] = 3" by simp
  ultimately show ?thesis
    using memcmp_lexicographic [of "block 8 [1, 2, 3, 1, 2, 200]" 8 "[1, 2, 3]" 11 "[1, 2, 200]", unfolded l]
    by auto
qed

text \<open>
  \<^verbatim>\<open>memchr\<close> compares a signed \<^verbatim>\<open>char\<close> with the argument: a byte above 127 is never found
  when it is given as a value of \<^verbatim>\<open>unsigned char\<close>.
\<close>

lemma memchr_misses_high_bytes:
  assumes "mapped m p n" "128 \<le> c"
  shows "memchr m p c n = Some None"
proof -
  obtain bs where bs: "length bs = n" "holds m p bs" using mapped_holds [OF assms(1)] by blast
  have "sint (b :: UCHAR) \<noteq> c" for b
    using sint_lt [of b] assms(2) by simp
  then show ?thesis using memchr_ok [OF bs(2), of c] bs(1) by (simp add: find_None_iff)
qed

text \<open>\<^verbatim>\<open>_memccpy\<close> stops at a zero byte, so what follows it is not copied.\<close>

lemma memccpy_stops_at_zero:
  assumes "m p = Some 0" "m d \<noteq> None" "0 < n"
  shows "memccpy m d p c n = Some (None, m(d \<mapsto> 0))"
  using assms by (cases n) (auto simp: memccpy_def store_def)

end
