(* ===== verification/RtlSid.thy ===== *)
theory RtlSid
  imports CrtMem
begin

text \<open>
  Security identifiers, access masks and locally unique identifiers:
  \<^verbatim>\<open>sdk/lib/rtl/sid.c\<close>, \<^verbatim>\<open>sdk/lib/rtl/access.c\<close> and \<^verbatim>\<open>sdk/lib/rtl/luid.c\<close>.

  A SID is a block of bytes of the memory of \<open>CrtMem\<close>: revision, number of subauthorities, six
  bytes of identifier authority, then the subauthorities as 32-bit words.  A pointer is an
  address and the null pointer is the address 0.
\<close>

unbundle bit_operations_syntax

section \<open>Security identifiers in memory\<close>

abbreviation (input) SID_REVISION :: UCHAR where "SID_REVISION \<equiv> 1"
abbreviation (input) SID_MAX_SUB_AUTHORITIES :: UCHAR where "SID_MAX_SUB_AUTHORITIES \<equiv> 15"

text \<open>The handler of the \<^verbatim>\<open>_SEH2_TRY\<close> block turns an access violation into \<open>False\<close>.\<close>

definition RtlValidSid :: "mem \<Rightarrow> nat \<Rightarrow> bool" where
  "RtlValidSid m Sid =
     (case (if Sid \<noteq> 0
            then do {
              Revision \<leftarrow> m Sid;
              if Revision AND 0xF \<noteq> SID_REVISION then Some False
              else do {
                SubAuthorityCount \<leftarrow> m (Sid + 1);
                Some (\<not> SubAuthorityCount > SID_MAX_SUB_AUTHORITIES)
              }
            }
            else Some True) of
        None \<Rightarrow> False
      | Some b \<Rightarrow> b)"

definition RtlLengthRequiredSid :: "ULONG \<Rightarrow> ULONG" where
  "RtlLengthRequiredSid SubAuthorityCount = 8 + 4 * SubAuthorityCount"

definition RtlInitializeSid :: "mem \<Rightarrow> nat \<Rightarrow> nat \<Rightarrow> UCHAR \<Rightarrow> (NTSTATUS \<times> mem) option" where
  "RtlInitializeSid m Sid IdentifierAuthority SubAuthorityCount = do {
     m \<leftarrow> store m Sid SID_REVISION;
     m \<leftarrow> store m (Sid + 1) SubAuthorityCount;
     m \<leftarrow> memcpy m (Sid + 2) IdentifierAuthority 6;
     Some (STATUS_SUCCESS, m)
   }"

definition RtlSubAuthoritySid :: "nat \<Rightarrow> ULONG \<Rightarrow> nat" where
  "RtlSubAuthoritySid Sid SubAuthority = Sid + 8 + 4 * unat SubAuthority"

definition RtlSubAuthorityCountSid :: "nat \<Rightarrow> nat" where
  "RtlSubAuthorityCountSid Sid = Sid + 1"

definition RtlIdentifierAuthoritySid :: "nat \<Rightarrow> nat" where
  "RtlIdentifierAuthoritySid Sid = Sid + 2"

definition RtlLengthSid :: "mem \<Rightarrow> nat \<Rightarrow> ULONG option" where
  "RtlLengthSid m Sid = do {
     SubAuthorityCount \<leftarrow> m (Sid + 1);
     Some (8 + 4 * ucast SubAuthorityCount)
   }"

definition RtlEqualSid :: "mem \<Rightarrow> nat \<Rightarrow> nat \<Rightarrow> bool option" where
  "RtlEqualSid m Sid1 Sid2 = do {
     a \<leftarrow> load_USHORT m Sid1;
     b \<leftarrow> load_USHORT m Sid2;
     if a \<noteq> b then Some False
     else do {
       n \<leftarrow> RtlLengthSid m Sid1;
       RtlEqualMemory m Sid1 Sid2 (unat n)
     }
   }"

definition RtlCopySid :: "mem \<Rightarrow> ULONG \<Rightarrow> nat \<Rightarrow> nat \<Rightarrow> (NTSTATUS \<times> mem) option" where
  "RtlCopySid m BufferLength Dest Src = do {
     SidLength \<leftarrow> RtlLengthSid m Src;
     if SidLength > BufferLength then Some (STATUS_BUFFER_TOO_SMALL, m)
     else do {
       m \<leftarrow> RtlMoveMemory m Dest Src (unat SidLength);
       Some (STATUS_SUCCESS, m)
     }
   }"

text \<open>The loop of \<open>RtlEqualPrefixSid\<close> over all subauthorities but the last one.\<close>

function equal_prefix_from :: "mem \<Rightarrow> nat \<Rightarrow> nat \<Rightarrow> nat \<Rightarrow> nat \<Rightarrow> bool option" where
  "equal_prefix_from m Sid1 Sid2 Count i =
     (if i + 1 < Count
      then do {
        a \<leftarrow> load_ULONG m (Sid1 + 8 + 4 * i);
        b \<leftarrow> load_ULONG m (Sid2 + 8 + 4 * i);
        if a \<noteq> b then Some False else equal_prefix_from m Sid1 Sid2 Count (i + 1)
      }
      else Some True)"
  by pat_completeness auto
termination
  by (relation "measure (\<lambda>(_, _, _, n, i). n - i)") auto

text \<open>The six comparisons of the identifier authority, in the order of the conjunction.\<close>

fun equal_authority_from :: "mem \<Rightarrow> nat \<Rightarrow> nat \<Rightarrow> nat \<Rightarrow> bool option" where
  "equal_authority_from m p q 0 = Some True"
| "equal_authority_from m p q (Suc n) = do {
     a \<leftarrow> m p;
     b \<leftarrow> m q;
     if a = b then equal_authority_from m (p + 1) (q + 1) n else Some False
   }"

definition RtlEqualPrefixSid :: "mem \<Rightarrow> nat \<Rightarrow> nat \<Rightarrow> bool option" where
  "RtlEqualPrefixSid m Sid1 Sid2 = do {
     r1 \<leftarrow> m Sid1;
     r2 \<leftarrow> m Sid2;
     if r1 \<noteq> r2 then Some False
     else do {
       same \<leftarrow> equal_authority_from m (Sid1 + 2) (Sid2 + 2) 6;
       if same
       then do {
         n1 \<leftarrow> m (Sid1 + 1);
         n2 \<leftarrow> m (Sid2 + 1);
         if n1 = n2
         then if n1 = 0 then Some True
              else equal_prefix_from m Sid1 Sid2 (unat n1) 0
         else Some False
       }
       else Some False
     }
   }"

text \<open>An element of a \<^verbatim>\<open>SID_AND_ATTRIBUTES\<close> array; the arrays do not overlap the SID area.\<close>

record SID_AND_ATTRIBUTES =
  SidPtr :: nat
  SidAttributes :: ULONG

fun copy_sids_from ::
    "mem \<Rightarrow> SID_AND_ATTRIBUTES list \<Rightarrow> nat \<Rightarrow> nat \<Rightarrow> ULONG \<Rightarrow> SID_AND_ATTRIBUTES list \<Rightarrow> nat
     \<Rightarrow> (NTSTATUS \<times> mem \<times> SID_AND_ATTRIBUTES list \<times> nat \<times> ULONG) option" where
  "copy_sids_from m Src 0 i SidAreaSize Dest SidArea =
     Some (STATUS_SUCCESS, m, Dest, SidArea, SidAreaSize)"
| "copy_sids_from m Src (Suc left) i SidAreaSize Dest SidArea = do {
     src \<leftarrow> array_get Src i;
     SidLength \<leftarrow> RtlLengthSid m (SidPtr src);
     if SidLength > SidAreaSize
     then Some (STATUS_BUFFER_TOO_SMALL, m, Dest, SidArea, SidAreaSize)
     else do {
       Dest \<leftarrow> array_set Dest i \<lparr>SidPtr = SidArea, SidAttributes = SidAttributes src\<rparr>;
       (_, m) \<leftarrow> RtlCopySid m SidLength SidArea (SidPtr src);
       copy_sids_from m Src left (i + 1) (SidAreaSize - SidLength) Dest (SidArea + unat SidLength)
     }
   }"

text \<open>
  The remaining area and its size are the two outputs of the last statements; they are
  written only when every SID was copied.
\<close>

definition RtlCopySidAndAttributesArray ::
    "mem \<Rightarrow> ULONG \<Rightarrow> SID_AND_ATTRIBUTES list \<Rightarrow> ULONG \<Rightarrow> SID_AND_ATTRIBUTES list \<Rightarrow> nat
     \<Rightarrow> (NTSTATUS \<times> mem \<times> SID_AND_ATTRIBUTES list \<times> (nat \<times> ULONG) option) option" where
  "RtlCopySidAndAttributesArray m Count Src SidAreaSize Dest SidArea = do {
     (Status, m, Dest, SidArea, SidAreaSize) \<leftarrow> copy_sids_from m Src (unat Count) 0 SidAreaSize Dest SidArea;
     if Status = STATUS_SUCCESS then Some (Status, m, Dest, Some (SidArea, SidAreaSize))
     else Some (Status, m, Dest, None)
   }"

text \<open>
  The pool is a parameter: \<open>alloc m n\<close> returns the address of a new block of \<open>n\<close> bytes and the
  memory in which it is mapped, or \<open>None\<close> when the allocation fails; \<open>release\<close> frees a block.
  The switch falls through from the number of subauthorities down to the first one.
\<close>

fun fill_subauthorities :: "mem \<Rightarrow> nat \<Rightarrow> nat \<Rightarrow> ULONG list \<Rightarrow> mem option" where
  "fill_subauthorities m pSid 0 subs = Some m"
| "fill_subauthorities m pSid (Suc n) subs = do {
     v \<leftarrow> array_get subs n;
     m \<leftarrow> store_ULONG m (pSid + 8 + 4 * n) v;
     fill_subauthorities m pSid n subs
   }"

definition RtlAllocateAndInitializeSid ::
    "(mem \<Rightarrow> nat \<Rightarrow> (nat \<times> mem) option) \<Rightarrow> mem \<Rightarrow> nat \<Rightarrow> UCHAR
     \<Rightarrow> ULONG \<Rightarrow> ULONG \<Rightarrow> ULONG \<Rightarrow> ULONG \<Rightarrow> ULONG \<Rightarrow> ULONG \<Rightarrow> ULONG \<Rightarrow> ULONG
     \<Rightarrow> (NTSTATUS \<times> mem \<times> nat option) option" where
  "RtlAllocateAndInitializeSid alloc m IdentifierAuthority SubAuthorityCount
       SubAuthority0 SubAuthority1 SubAuthority2 SubAuthority3
       SubAuthority4 SubAuthority5 SubAuthority6 SubAuthority7 =
     (if SubAuthorityCount > 8 then Some (STATUS_INVALID_SID, m, None)
      else (case alloc m (unat (RtlLengthRequiredSid (ucast SubAuthorityCount))) of
         None \<Rightarrow> Some (STATUS_NO_MEMORY, m, None)
       | Some (pSid, m) \<Rightarrow> do {
           m \<leftarrow> store m pSid SID_REVISION;
           m \<leftarrow> store m (pSid + 1) SubAuthorityCount;
           m \<leftarrow> memcpy m (pSid + 2) IdentifierAuthority 6;
           m \<leftarrow> fill_subauthorities m pSid (unat SubAuthorityCount)
                  [SubAuthority0, SubAuthority1, SubAuthority2, SubAuthority3,
                   SubAuthority4, SubAuthority5, SubAuthority6, SubAuthority7];
           Some (STATUS_SUCCESS, m, Some pSid)
         }))"

definition RtlFreeSid :: "(mem \<Rightarrow> nat \<Rightarrow> mem) \<Rightarrow> mem \<Rightarrow> nat \<Rightarrow> nat \<times> mem" where
  "RtlFreeSid release m Sid = (0, release m Sid)"

section \<open>Conversion to a string\<close>

text \<open>The conversions \<^verbatim>\<open>%lu\<close>, \<^verbatim>\<open>%u\<close> and \<^verbatim>\<open>%02hx\<close> of the formatted output of the C library.\<close>

fun decimal :: "nat \<Rightarrow> WCHAR list" where
  "decimal n = (if n < 10 then [48 + of_nat n] else decimal (n div 10) @ [48 + of_nat (n mod 10)])"

definition hex_digit :: "nat \<Rightarrow> WCHAR" where
  "hex_digit d = (if d < 10 then 48 + of_nat d else 87 + of_nat d)"

definition hex2 :: "UCHAR \<Rightarrow> WCHAR list" where
  "hex2 b = [hex_digit (unat b div 16), hex_digit (unat b mod 16)]"

text \<open>
  \<^verbatim>\<open>swprintf\<close> at the end of the characters already written to \<^verbatim>\<open>Buffer[256]\<close>: the text and its
  terminator have to fit, otherwise the stack buffer overflows.
\<close>

definition emit :: "WCHAR list \<Rightarrow> WCHAR list \<Rightarrow> WCHAR list option" where
  "emit written text =
     (if length written + length text + 1 \<le> 256 then Some (written @ text) else None)"

function emit_subauthorities :: "mem \<Rightarrow> nat \<Rightarrow> nat \<Rightarrow> nat \<Rightarrow> WCHAR list \<Rightarrow> WCHAR list option" where
  "emit_subauthorities m Sid Count i written =
     (if i < Count
      then do {
        v \<leftarrow> load_ULONG m (Sid + 8 + 4 * i);
        written \<leftarrow> emit written (45 # decimal (unat v));
        emit_subauthorities m Sid Count (i + 1) written
      }
      else Some written)"
  by pat_completeness auto
termination
  by (relation "measure (\<lambda>(_, _, n, i, _). n - i)") auto

text \<open>\<open>RtlCreateUnicodeString\<close> of \<^verbatim>\<open>unicode.c\<close>; \<open>can_alloc\<close> tells whether its allocation succeeds.\<close>

definition RtlCreateUnicodeString ::
    "bool \<Rightarrow> UNICODE_STRING \<Rightarrow> WCHAR list \<Rightarrow> bool \<times> UNICODE_STRING" where
  "RtlCreateUnicodeString can_alloc UniDest Source =
     (let Size = (length Source + 1) * 2 in
      if Size > 65535 then (False, UniDest)
      else if \<not> can_alloc then (False, UniDest\<lparr>UsBuffer := []\<rparr>)
      else (True, UniDest\<lparr>UsBuffer := Source @ [0], UsMaximumLength := of_nat Size,
                          UsLength := of_nat Size - 2\<rparr>))"

definition RtlConvertSidToUnicodeString ::
    "bool \<Rightarrow> mem \<Rightarrow> UNICODE_STRING \<Rightarrow> nat \<Rightarrow> bool \<Rightarrow> (NTSTATUS \<times> UNICODE_STRING) option" where
  "RtlConvertSidToUnicodeString can_alloc m String Sid AllocateBuffer =
     (if \<not> RtlValidSid m Sid then Some (STATUS_INVALID_SID, String)
      else do {
        wcs \<leftarrow> emit [] [83, 45, 49, 45];
        v0 \<leftarrow> m (Sid + 2);
        v1 \<leftarrow> m (Sid + 3);
        v2 \<leftarrow> m (Sid + 4);
        v3 \<leftarrow> m (Sid + 5);
        v4 \<leftarrow> m (Sid + 6);
        v5 \<leftarrow> m (Sid + 7);
        wcs \<leftarrow> (if v0 = 0 \<and> v1 = 0
                then emit wcs (decimal (unat ((push_bit 24 (ucast v2) OR push_bit 16 (ucast v3)
                                 OR push_bit 8 (ucast v4) OR ucast v5) :: ULONG)))
                else emit wcs ([48, 120] @ hex2 v0 @ hex2 v1 @ hex2 v2 @ hex2 v3 @ hex2 v4 @ hex2 v5));
        Count \<leftarrow> m (Sid + 1);
        wcs \<leftarrow> emit_subauthorities m Sid (unat Count) 0 wcs;
        if AllocateBuffer
        then (case RtlCreateUnicodeString can_alloc String wcs of
                (ok, String) \<Rightarrow> Some (if ok then STATUS_SUCCESS else STATUS_NO_MEMORY, String))
        else if 2 * length wcs > unat (UsMaximumLength String) then Some (STATUS_BUFFER_TOO_SMALL, String)
        else do {
          buf \<leftarrow> array_blit (UsBuffer String) 0 wcs;
          buf \<leftarrow> (if 2 * length wcs < unat (UsMaximumLength String)
                  then array_set buf (length wcs) 0 else Some buf);
          Some (STATUS_SUCCESS, String\<lparr>UsLength := of_nat (2 * length wcs), UsBuffer := buf\<rparr>)
        }
      })"

section \<open>Access masks\<close>

definition RtlAreAllAccessesGranted :: "ACCESS_MASK \<Rightarrow> ACCESS_MASK \<Rightarrow> bool" where
  "RtlAreAllAccessesGranted GrantedAccess DesiredAccess = (NOT GrantedAccess AND DesiredAccess = 0)"

definition RtlAreAnyAccessesGranted :: "ACCESS_MASK \<Rightarrow> ACCESS_MASK \<Rightarrow> bool" where
  "RtlAreAnyAccessesGranted GrantedAccess DesiredAccess = (GrantedAccess AND DesiredAccess \<noteq> 0)"

record GENERIC_MAPPING =
  GenericRead :: ACCESS_MASK
  GenericWrite :: ACCESS_MASK
  GenericExecute :: ACCESS_MASK
  GenericAll :: ACCESS_MASK

abbreviation (input) GENERIC_READ :: ACCESS_MASK where "GENERIC_READ \<equiv> 0x80000000"
abbreviation (input) GENERIC_WRITE :: ACCESS_MASK where "GENERIC_WRITE \<equiv> 0x40000000"
abbreviation (input) GENERIC_EXECUTE :: ACCESS_MASK where "GENERIC_EXECUTE \<equiv> 0x20000000"
abbreviation (input) GENERIC_ALL :: ACCESS_MASK where "GENERIC_ALL \<equiv> 0x10000000"

definition RtlMapGenericMask :: "ACCESS_MASK \<Rightarrow> GENERIC_MAPPING \<Rightarrow> ACCESS_MASK" where
  "RtlMapGenericMask AccessMask GenericMapping =
     (let AccessMask = (if AccessMask AND GENERIC_READ \<noteq> 0 then AccessMask OR GenericRead GenericMapping else AccessMask);
          AccessMask = (if AccessMask AND GENERIC_WRITE \<noteq> 0 then AccessMask OR GenericWrite GenericMapping else AccessMask);
          AccessMask = (if AccessMask AND GENERIC_EXECUTE \<noteq> 0 then AccessMask OR GenericExecute GenericMapping else AccessMask);
          AccessMask = (if AccessMask AND GENERIC_ALL \<noteq> 0 then AccessMask OR GenericAll GenericMapping else AccessMask)
      in AccessMask AND NOT (GENERIC_READ OR GENERIC_WRITE OR GENERIC_EXECUTE OR GENERIC_ALL))"

section \<open>Locally unique identifiers\<close>

record LUID =
  LowPart :: ULONG
  HighPart :: "32 word"

record LUID_AND_ATTRIBUTES =
  Luid :: LUID
  LuidAttributes :: ULONG

definition RtlCopyLuid :: "LUID \<Rightarrow> LUID \<Rightarrow> LUID" where
  "RtlCopyLuid LuidDest LuidSrc = LuidDest\<lparr>LowPart := LowPart LuidSrc, HighPart := HighPart LuidSrc\<rparr>"

fun copy_luids_from ::
    "nat \<Rightarrow> nat \<Rightarrow> LUID_AND_ATTRIBUTES list \<Rightarrow> LUID_AND_ATTRIBUTES list \<Rightarrow> LUID_AND_ATTRIBUTES list option" where
  "copy_luids_from 0 i Src Dest = Some Dest"
| "copy_luids_from (Suc left) i Src Dest = do {
     v \<leftarrow> array_get Src i;
     Dest \<leftarrow> array_set Dest i v;
     copy_luids_from left (i + 1) Src Dest
   }"

definition RtlCopyLuidAndAttributesArray ::
    "ULONG \<Rightarrow> LUID_AND_ATTRIBUTES list \<Rightarrow> LUID_AND_ATTRIBUTES list \<Rightarrow> LUID_AND_ATTRIBUTES list option" where
  "RtlCopyLuidAndAttributesArray Count Src Dest = copy_luids_from (unat Count) 0 Src Dest"

definition RtlEqualLuid :: "LUID \<Rightarrow> LUID \<Rightarrow> bool" where
  "RtlEqualLuid Luid1 Luid2 \<longleftrightarrow> LowPart Luid1 = LowPart Luid2 \<and> HighPart Luid1 = HighPart Luid2"

declare decimal.simps [simp del]
declare equal_prefix_from.simps [simp del]
declare emit_subauthorities.simps [simp del]

section \<open>What a SID in memory stands for\<close>

record ISID =
  SidRevision :: UCHAR
  SidAuthority :: "UCHAR list"
  SidSubs :: "ULONG list"

definition wf_SID :: "ISID \<Rightarrow> bool" where
  "wf_SID S \<longleftrightarrow> SidRevision S AND 0xF = 1 \<and> length (SidAuthority S) = 6 \<and> length (SidSubs S) \<le> 15"

definition sid_bytes :: "ISID \<Rightarrow> UCHAR list" where
  "sid_bytes S = [SidRevision S, of_nat (length (SidSubs S))] @ SidAuthority S
     @ concat (map bytes_ULONG (SidSubs S))"

definition sid_at :: "mem \<Rightarrow> nat \<Rightarrow> ISID \<Rightarrow> bool" where
  "sid_at m p S \<longleftrightarrow> p \<noteq> 0 \<and> wf_SID S \<and> holds m p (sid_bytes S)"

definition same_prefix :: "ISID \<Rightarrow> ISID \<Rightarrow> bool" where
  "same_prefix S T \<longleftrightarrow> SidRevision S = SidRevision T \<and> SidAuthority S = SidAuthority T \<and>
     length (SidSubs S) = length (SidSubs T) \<and> butlast (SidSubs S) = butlast (SidSubs T)"

definition sid_text :: "ISID \<Rightarrow> WCHAR list" where
  "sid_text S = [83, 45, 49, 45] @
     (let v = SidAuthority S in
      if v ! 0 = 0 \<and> v ! 1 = 0
      then decimal (unat (v ! 2) * 2 ^ 24 + unat (v ! 3) * 2 ^ 16 + unat (v ! 4) * 2 ^ 8 + unat (v ! 5))
      else [48, 120] @ concat (map hex2 v)) @
     concat (map (\<lambda>s. 45 # decimal (unat s)) (SidSubs S))"

fun placed :: "nat \<Rightarrow> ISID list \<Rightarrow> SID_AND_ATTRIBUTES list \<Rightarrow> SID_AND_ATTRIBUTES list" where
  "placed area (S # Ss) (x # xs) =
     \<lparr>SidPtr = area, SidAttributes = SidAttributes x\<rparr> # placed (area + length (sid_bytes S)) Ss xs"
| "placed area Ss xs = []"

text \<open>The sources of a copy: a SID each, outside the area the copies go to.\<close>

definition sids_at :: "mem \<Rightarrow> nat \<Rightarrow> nat \<Rightarrow> SID_AND_ATTRIBUTES list \<Rightarrow> ISID list \<Rightarrow> bool" where
  "sids_at m area n xs Ss \<longleftrightarrow> list_all2 (\<lambda>x S. sid_at m (SidPtr x) S \<and>
     (SidPtr x + length (sid_bytes S) \<le> area \<or> area + n \<le> SidPtr x)) xs Ss"

definition alloc_ok :: "(mem \<Rightarrow> nat \<Rightarrow> (nat \<times> mem) option) \<Rightarrow> bool" where
  "alloc_ok alloc \<longleftrightarrow> (\<forall>m n p m'. alloc m n = Some (p, m') \<longrightarrow>
     p \<noteq> 0 \<and> mapped m' p n \<and> (\<forall>q. m q \<noteq> None \<longrightarrow> m' q = m q \<and> (q < p \<or> p + n \<le> q)))"

definition Users :: ISID where
  "Users = \<lparr>SidRevision = 1, SidAuthority = [0, 0, 0, 0, 0, 5], SidSubs = [32, 545]\<rparr>"

definition Admins :: ISID where
  "Admins = \<lparr>SidRevision = 1, SidAuthority = [0, 0, 0, 0, 0, 5], SidSubs = [32, 544]\<rparr>"

text \<open>An allocator for the witness: new blocks begin at address 64, which nothing else uses.\<close>

definition alloc_at_64 :: "mem \<Rightarrow> nat \<Rightarrow> (nat \<times> mem) option" where
  "alloc_at_64 m n = (if n \<le> 40 \<and> (\<forall>i < 40. m (64 + i) = None) then Some (64, put m 64 (replicate n 0)) else None)"

section \<open>Layout\<close>

lemma length_concat_ULONG [simp]: "length (concat (map bytes_ULONG vs)) = 4 * length vs"
  by (induction vs) simp_all

lemma length_concat_ULONG_map [simp]: "length (concat (map (\<lambda>x. bytes_ULONG (f x)) xs)) = 4 * length xs"
  by (induction xs) simp_all

lemma bytes_ULONG_inject: "bytes_ULONG v = bytes_ULONG w \<longleftrightarrow> v = w"
  using load_ULONG_holds [of "block 0 (bytes_ULONG w)" 0] holds_block [of 0 "bytes_ULONG w"]
  by (metis option.inject)

lemma concat_ULONG_inject:
  "length vs = length ws \<Longrightarrow> concat (map bytes_ULONG vs) = concat (map bytes_ULONG ws) \<longleftrightarrow> vs = ws"
  by (induction vs ws rule: list_induct2) (auto simp: bytes_ULONG_inject)

lemma load_ULONG_array:
  "holds m p (concat (map bytes_ULONG vs)) \<Longrightarrow> i < length vs \<Longrightarrow> load_ULONG m (p + 4 * i) = Some (vs ! i)"
proof (induction vs arbitrary: p i)
  case (Cons v vs)
  show ?case
  proof (cases i)
    case 0
    with Cons.prems show ?thesis by (simp add: holds_append load_ULONG_holds)
  next
    case (Suc j)
    with Cons.prems Cons.IH [of "p + 4" j] show ?thesis by (simp add: holds_append add.assoc)
  qed
qed simp

lemma length_sid_bytes:
  "length (SidAuthority S) = 6 \<Longrightarrow> length (sid_bytes S) = 8 + 4 * length (SidSubs S)"
  by (simp add: sid_bytes_def)

lemma sid_bytes_inject:
  assumes "wf_SID S" "wf_SID T"
  shows "sid_bytes S = sid_bytes T \<longleftrightarrow> S = T"
proof
  assume eq: "sid_bytes S = sid_bytes T"
  have len: "length (SidAuthority S) = 6" "length (SidAuthority T) = 6" using assms by (simp_all add: wf_SID_def)
  have subs: "length (SidSubs S) = length (SidSubs T)"
    using arg_cong [OF eq, of length] length_sid_bytes [OF len(1)] length_sid_bytes [OF len(2)] by simp
  from eq len have "SidRevision S = SidRevision T" "SidAuthority S = SidAuthority T"
    "concat (map bytes_ULONG (SidSubs S)) = concat (map bytes_ULONG (SidSubs T))"
    by (simp_all add: sid_bytes_def)
  with concat_ULONG_inject [OF subs] show "S = T" by simp
qed simp

lemma sid_fields:
  assumes "sid_at m p S"
  shows "m p = Some (SidRevision S)" "m (Suc p) = Some (of_nat (length (SidSubs S)))"
    "holds m (p + 2) (SidAuthority S)" "holds m (p + 8) (concat (map bytes_ULONG (SidSubs S)))"
    "SidRevision S AND 0xF = 1" "length (SidAuthority S) = 6" "length (SidSubs S) \<le> 15" "p \<noteq> 0"
  using assms by (auto simp add: sid_at_def sid_bytes_def wf_SID_def holds_Cons holds_append eval_nat_numeral)

lemma load_ULONG_mapped: "mapped m p 4 \<Longrightarrow> \<exists>v. load_ULONG m p = Some v"
proof -
  assume "mapped m p 4"
  then have "mapped m p (Suc (Suc (Suc (Suc 0))))" by (simp add: eval_nat_numeral)
  then show ?thesis by (auto simp: load_ULONG_def mapped_Suc numeral_2_eq_2 numeral_3_eq_3)
qed

lemma unat_small_byte: "n \<le> 15 \<Longrightarrow> unat (of_nat n :: UCHAR) = n"
  by (simp add: unat_of_nat_small)

lemma RtlValidSid_ok: "sid_at m p S \<Longrightarrow> RtlValidSid m p"
  using sid_fields [of m p S] unat_small_byte [of "length (SidSubs S)"]
  by (simp add: RtlValidSid_def word_less_nat_alt)

lemma RtlValidSid_sid_at:
  assumes "RtlValidSid m p" "p \<noteq> 0" "RtlLengthSid m p = Some n" "mapped m p (unat n)"
  shows "\<exists>S. sid_at m p S \<and> unat n = length (sid_bytes S)"
proof -
  obtain r c where r: "m p = Some r" "r AND 0xF = 1" and c: "m (Suc p) = Some c" "unat c \<le> 15"
    using assms(1,2) by (auto simp: RtlValidSid_def word_less_nat_alt split: option.splits bind_splits if_splits)
  have n: "unat n = 8 + 4 * unat c"
    using assms(3) c by (auto simp: RtlLengthSid_def unat_word_ariths unsigned_ucast_eq take_bit_nat_eq_self)
  obtain ia where ia: "length ia = 6" "holds m (p + 2) ia"
    using mapped_holds [OF mapped_mono [OF assms(4), of "p + 2" 6]] n by auto
  define sub where "sub i = the (load_ULONG m (p + 8 + 4 * i))" for i
  have load: "load_ULONG m (p + 8 + 4 * i) = Some (sub i)" if "i < unat c" for i
  proof -
    have "mapped m (p + 8 + 4 * i) 4" using mapped_mono [OF assms(4)] n that by simp
    then show ?thesis using load_ULONG_mapped by (force simp: sub_def)
  qed
  have subs: "holds m (p + 8) (concat (map bytes_ULONG (map sub [0..<k])))" if "k \<le> unat c" for k
    using that load by (induction k) (auto simp: holds_append load_ULONG_holds comp_def)
  have "sid_at m p \<lparr>SidRevision = r, SidAuthority = ia, SidSubs = map sub [0..<unat c]\<rparr>"
    using r c ia subs [of "unat c"] assms(2)
    by (simp add: sid_at_def wf_SID_def sid_bytes_def holds_Cons holds_append numeral_2_eq_2 add.commute [of p 8])
  then show ?thesis using n ia by (force simp: length_sid_bytes)
qed

lemma RtlLengthSid_ok:
  assumes "sid_at m p S"
  shows "RtlLengthSid m p = Some (of_nat (length (sid_bytes S)))"
proof -
  have "ucast (of_nat (length (SidSubs S)) :: UCHAR) = (of_nat (length (SidSubs S)) :: ULONG)"
    using sid_fields(7) [OF assms] by (simp add: word_unat_eq_iff unsigned_ucast_eq unat_of_nat take_bit_nat_eq_self)
  then show ?thesis using sid_fields [OF assms] by (simp add: RtlLengthSid_def length_sid_bytes)
qed

lemma sid_length: "sid_at m p S \<Longrightarrow> length (sid_bytes S) \<le> 68"
  using sid_fields [of m p S] by (simp add: length_sid_bytes)

lemma unat_sid_length: "sid_at m p S \<Longrightarrow> unat (of_nat (length (sid_bytes S)) :: ULONG) = length (sid_bytes S)"
  using sid_length [of m p S] by (simp add: unat_of_nat)

section \<open>Comparison and copying\<close>

lemma load_USHORT_pair: "m p = Some a \<Longrightarrow> m (Suc p) = Some b \<Longrightarrow>
  load_USHORT m p = Some (ucast a OR push_bit 8 (ucast b))"
  by (simp add: load_USHORT_def)

lemma join_USHORT_inject:
  "(ucast (a :: UCHAR) OR push_bit 8 (ucast (b :: UCHAR)) :: USHORT) = ucast c OR push_bit 8 (ucast d)
   \<longleftrightarrow> a = c \<and> b = d"
  using split_USHORT [of a b] split_USHORT [of c d] by (metis list.inject)

lemma RtlEqualSid_ok:
  assumes S: "sid_at m p S" and T: "sid_at m q T"
  shows "RtlEqualSid m p q = Some (S = T)"
proof (cases "SidRevision S = SidRevision T \<and> length (SidSubs S) = length (SidSubs T)")
  case True
  then have len: "length (sid_bytes S) = length (sid_bytes T)"
    using sid_fields(6) [OF S] sid_fields(6) [OF T] by (simp add: length_sid_bytes)
  have "RtlEqualMemory m p q (length (sid_bytes S)) = Some (sid_bytes S = sid_bytes T)"
    using S T len by (intro RtlEqualMemory_ok) (simp_all add: sid_at_def)
  moreover have "sid_bytes S = sid_bytes T \<longleftrightarrow> S = T"
    using S T by (intro sid_bytes_inject) (simp_all add: sid_at_def)
  ultimately show ?thesis
    using True sid_fields(1,2) [OF S] sid_fields(1,2) [OF T] RtlLengthSid_ok [OF S] unat_sid_length [OF S]
    by (simp add: RtlEqualSid_def load_USHORT_pair)
next
  case False
  have "(of_nat (length (SidSubs S)) :: UCHAR) = of_nat (length (SidSubs T)) \<longleftrightarrow>
      length (SidSubs S) = length (SidSubs T)"
    using unat_small_byte [OF sid_fields(7) [OF S]] unat_small_byte [OF sid_fields(7) [OF T]] by metis
  with False have "\<not> (SidRevision S = SidRevision T \<and>
      (of_nat (length (SidSubs S)) :: UCHAR) = of_nat (length (SidSubs T)))" by simp
  then obtain x y where "load_USHORT m p = Some x" "load_USHORT m q = Some y" "x \<noteq> y"
    using load_USHORT_pair [OF sid_fields(1,2) [OF S]] load_USHORT_pair [OF sid_fields(1,2) [OF T]]
      join_USHORT_inject by blast
  moreover have "S \<noteq> T" using False by auto
  ultimately show ?thesis by (simp add: RtlEqualSid_def)
qed

lemma equal_authority_ok:
  "length xs = length ys \<Longrightarrow> holds m p xs \<Longrightarrow> holds m q ys \<Longrightarrow>
   equal_authority_from m p q (length xs) = Some (xs = ys)"
  by (induction xs ys arbitrary: p q rule: list_induct2) (auto simp: holds_Cons)

lemma equal_prefix_ok:
  assumes "holds m (p + 8) (concat (map bytes_ULONG vs))" "holds m (q + 8) (concat (map bytes_ULONG ws))"
    and "length vs = n" "length ws = n" "i < n"
  shows "equal_prefix_from m p q n i = Some (drop i (butlast vs) = drop i (butlast ws))"
  using assms(5)
proof (induction "n - i" arbitrary: i)
  case (Suc k)
  show ?case
  proof (cases "Suc i < n")
    case True
    have l: "load_ULONG m (p + 8 + 4 * i) = Some (vs ! i)" "load_ULONG m (q + 8 + 4 * i) = Some (ws ! i)"
      using load_ULONG_array [OF assms(1)] load_ULONG_array [OF assms(2)] Suc.prems assms(3,4) by simp_all
    have d: "drop i (butlast xs) = xs ! i # drop (Suc i) (butlast xs)" if "length xs = n" for xs :: "ULONG list"
      using that True by (simp add: Cons_nth_drop_Suc [symmetric] nth_butlast)
    have "equal_prefix_from m p q n (Suc i) = Some (drop (Suc i) (butlast vs) = drop (Suc i) (butlast ws))"
      using Suc True by simp
    then show ?thesis using l True d [OF assms(3)] d [OF assms(4)]
      by (subst equal_prefix_from.simps) simp
  next
    case False
    then show ?thesis using assms(3,4) by (subst equal_prefix_from.simps) simp
  qed
qed simp

lemma RtlEqualPrefixSid_ok:
  assumes S: "sid_at m p S" and T: "sid_at m q T"
  shows "RtlEqualPrefixSid m p q = Some (same_prefix S T)"
proof -
  have auth: "equal_authority_from m (p + 2) (q + 2) 6 = Some (SidAuthority S = SidAuthority T)"
    using equal_authority_ok [of "SidAuthority S" "SidAuthority T" m "p + 2" "q + 2"] sid_fields [OF S] sid_fields [OF T]
    by simp
  have count: "(of_nat (length (SidSubs S)) :: UCHAR) = of_nat (length (SidSubs T)) \<longleftrightarrow>
      length (SidSubs S) = length (SidSubs T)"
    using unat_small_byte [OF sid_fields(7) [OF S]] unat_small_byte [OF sid_fields(7) [OF T]] by metis
  have zero: "(of_nat (length (SidSubs S)) :: UCHAR) = 0 \<longleftrightarrow> SidSubs S = []"
    using unat_small_byte [OF sid_fields(7) [OF S]] by (metis unat_eq_zero length_0_conv)
  have loop: "equal_prefix_from m p q (length (SidSubs S)) 0 = Some (butlast (SidSubs S) = butlast (SidSubs T))"
    if "length (SidSubs T) = length (SidSubs S)" "SidSubs S \<noteq> []"
    using equal_prefix_ok [OF sid_fields(4) [OF S] sid_fields(4) [OF T] refl that(1), of 0] that(2) by simp
  show ?thesis
    using sid_fields(1,2) [OF S] sid_fields(1,2) [OF T] auth count zero loop unat_small_byte [OF sid_fields(7) [OF S]]
    by (auto simp: RtlEqualPrefixSid_def same_prefix_def)
qed

lemma RtlCopySid_ok:
  assumes "sid_at m src S" "mapped m dest (length (sid_bytes S))"
  shows "RtlCopySid m BufferLength dest src =
     (if length (sid_bytes S) \<le> unat BufferLength
      then Some (STATUS_SUCCESS, put m dest (sid_bytes S)) else Some (STATUS_BUFFER_TOO_SMALL, m))"
  using RtlLengthSid_ok [OF assms(1)] unat_sid_length [OF assms(1)] memcpy_ok [of m src "sid_bytes S" dest] assms
  by (auto simp: RtlCopySid_def RtlMoveMemory_def memmove_memcpy word_less_nat_alt sid_at_def)

lemma sid_at_put:
  "sid_at m q S \<Longrightarrow> q + length (sid_bytes S) \<le> p \<or> p + length bs \<le> q \<Longrightarrow> sid_at (put m p bs) q S"
  by (simp add: sid_at_def holds_put_other)

lemma sids_at_put:
  assumes "sids_at m area n xs Ss" "length bs \<le> n"
  shows "sids_at (put m area bs) (area + length bs) (n - length bs) xs Ss"
  using assms unfolding sids_at_def
  by (elim list.rel_mono_strong) (auto intro: sid_at_put)

lemma copy_sids_step:
  assumes "sids_at m area (unat asz) (drop k Src) (S # Ss)" "length Src \<le> length Dest" "k \<le> length Src"
    and "mapped m area (unat asz)"
  obtains x xs where "drop k Src = x # xs" "drop (Suc k) Src = xs" "k < length Src"
    and "\<not> length (sid_bytes S) \<le> unat asz \<Longrightarrow> copy_sids_from m Src (Suc left) k asz Dest area =
        Some (STATUS_BUFFER_TOO_SMALL, m, Dest, area, asz)"
    and "length (sid_bytes S) \<le> unat asz \<Longrightarrow>
        unat (asz - of_nat (length (sid_bytes S))) = unat asz - length (sid_bytes S) \<and>
        sids_at (put m area (sid_bytes S)) (area + length (sid_bytes S)) (unat asz - length (sid_bytes S)) xs Ss \<and>
        mapped (put m area (sid_bytes S)) (area + length (sid_bytes S)) (unat asz - length (sid_bytes S)) \<and>
        copy_sids_from m Src (Suc left) k asz Dest area =
        copy_sids_from (put m area (sid_bytes S)) Src left (Suc k) (asz - of_nat (length (sid_bytes S)))
          (Dest[k := \<lparr>SidPtr = area, SidAttributes = SidAttributes x\<rparr>]) (area + length (sid_bytes S))"
proof -
  let ?n = "length (sid_bytes S)"
  obtain x xs where x: "drop k Src = x # xs" using assms(1) by (auto simp: sids_at_def list_all2_Cons2)
  then have "k < length Src" by (metis drop_all linorder_not_less list.distinct(1))
  with x have k: "k < length Src" "Src ! k = x" "drop (Suc k) Src = xs"
    by (simp_all add: Cons_nth_drop_Suc [symmetric])
  have S: "sid_at m (SidPtr x) S" and xs: "sids_at m area (unat asz) xs Ss"
    using assms(1) unfolding x sids_at_def by simp_all
  note len = unat_sid_length [OF S] RtlLengthSid_ok [OF S]
  show thesis
  proof (rule that [of x xs])
    show "copy_sids_from m Src (Suc left) k asz Dest area = Some (STATUS_BUFFER_TOO_SMALL, m, Dest, area, asz)"
      if "\<not> ?n \<le> unat asz"
      using that len k by (simp add: word_less_nat_alt)
  next
    assume n: "?n \<le> unat asz"
    have "RtlCopySid m (of_nat ?n) area (SidPtr x) = Some (STATUS_SUCCESS, put m area (sid_bytes S))"
      using RtlCopySid_ok [OF S] mapped_mono [OF assms(4), of area ?n] n len by simp
    moreover have "mapped m (area + ?n) (unat asz - ?n)" using mapped_mono [OF assms(4)] n by simp
    ultimately show "unat (asz - of_nat ?n) = unat asz - ?n \<and>
        sids_at (put m area (sid_bytes S)) (area + ?n) (unat asz - ?n) xs Ss \<and>
        mapped (put m area (sid_bytes S)) (area + ?n) (unat asz - ?n) \<and>
        copy_sids_from m Src (Suc left) k asz Dest area =
        copy_sids_from (put m area (sid_bytes S)) Src left (Suc k) (asz - of_nat ?n)
          (Dest[k := \<lparr>SidPtr = area, SidAttributes = SidAttributes x\<rparr>]) (area + ?n)"
      using n len k assms(2) sids_at_put [OF xs n] by (simp add: unat_sub word_le_nat_alt word_less_nat_alt)
  qed (use x k in simp_all)
qed

lemma copy_sids_ok:
  assumes "sids_at m area (unat asz) (drop k Src) Ss" "length Src \<le> length Dest" "k \<le> length Src"
    and "mapped m area (unat asz)" "length (concat (map sid_bytes Ss)) \<le> unat asz"
  shows "copy_sids_from m Src (length Ss) k asz Dest area =
     Some (STATUS_SUCCESS, put m area (concat (map sid_bytes Ss)),
       take k Dest @ placed area Ss (drop k Src) @ drop (k + length Ss) Dest,
       area + length (concat (map sid_bytes Ss)),
       asz - of_nat (length (concat (map sid_bytes Ss))))"
  using assms
proof (induction Ss arbitrary: m k asz Dest area)
  case (Cons S Ss)
  let ?n = "length (sid_bytes S)" and ?m = "put m area (sid_bytes S)"
  obtain x xs where x: "drop k Src = x # xs" "drop (Suc k) Src = xs" "k < length Src"
    and step: "?n \<le> unat asz \<Longrightarrow> unat (asz - of_nat ?n) = unat asz - ?n \<and>
        sids_at ?m (area + ?n) (unat asz - ?n) xs Ss \<and> mapped ?m (area + ?n) (unat asz - ?n) \<and>
        copy_sids_from m Src (Suc (length Ss)) k asz Dest area =
        copy_sids_from ?m Src (length Ss) (Suc k) (asz - of_nat ?n)
          (Dest[k := \<lparr>SidPtr = area, SidAttributes = SidAttributes x\<rparr>]) (area + ?n)"
    by (rule copy_sids_step [OF Cons.prems(1-4), of "length Ss"]) blast
  let ?D = "Dest[k := \<lparr>SidPtr = area, SidAttributes = SidAttributes x\<rparr>]"
  have n: "?n \<le> unat asz" using Cons.prems(5) by simp
  have D: "take (Suc k) ?D = take k Dest @ [\<lparr>SidPtr = area, SidAttributes = SidAttributes x\<rparr>]"
    "drop (Suc k + length Ss) ?D = drop (Suc k + length Ss) Dest"
    using x Cons.prems(2) by (simp_all add: take_Suc_conv_app_nth)
  show ?case
    using step [OF n] Cons.IH [of ?m "area + ?n" "asz - of_nat ?n" "Suc k" ?D] x D Cons.prems(2,5) n
    by (simp add: put_append algebra_simps)
qed (simp add: sids_at_def)

lemma copy_sids_small:
  assumes "sids_at m area (unat asz) (drop k Src) Ss" "length Src \<le> length Dest" "k \<le> length Src"
    and "mapped m area (unat asz)" "unat asz < length (concat (map sid_bytes Ss))"
  shows "\<exists>m' D' a' n'. copy_sids_from m Src (length Ss) k asz Dest area =
     Some (STATUS_BUFFER_TOO_SMALL, m', D', a', n')"
  using assms
proof (induction Ss arbitrary: m k asz Dest area)
  case (Cons S Ss)
  let ?n = "length (sid_bytes S)"
  show ?case
    by (rule copy_sids_step [OF Cons.prems(1-4), of "length Ss"], cases "?n \<le> unat asz")
      (use Cons.IH Cons.prems(2,5) in \<open>auto simp del: copy_sids_from.simps\<close>)
qed simp

lemma placed_ok:
  assumes "length Ss = length xs"
  shows "length (placed a Ss xs) = length xs \<and> map SidAttributes (placed a Ss xs) = map SidAttributes xs \<and>
     (\<forall>m. holds m a (concat (map sid_bytes Ss)) \<longrightarrow>
        list_all2 (\<lambda>x S. holds m (SidPtr x) (sid_bytes S)) (placed a Ss xs) Ss) \<and>
     (a \<noteq> 0 \<longrightarrow> (\<forall>x \<in> set (placed a Ss xs). SidPtr x \<noteq> 0))"
  using assms
  by (induction Ss xs arbitrary: a rule: list_induct2) (simp_all add: holds_append, metis add_gr_0)

section \<open>Allocation\<close>

lemma fill_subauthorities_ok:
  "mapped m (p + 8) (4 * n) \<Longrightarrow> n \<le> length subs \<Longrightarrow>
   fill_subauthorities m p n subs = Some (put m (p + 8) (concat (map bytes_ULONG (take n subs))))"
proof (induction n arbitrary: m)
  case (Suc n)
  let ?m = "put m (p + 8 + 4 * n) (bytes_ULONG (subs ! n))"
  have "store_ULONG m (p + 8 + 4 * n) (subs ! n) = Some ?m"
    using Suc.prems(1) by (intro store_ULONG_put) (auto intro: mapped_mono)
  moreover have "fill_subauthorities ?m p n subs = Some (put ?m (p + 8) (concat (map bytes_ULONG (take n subs))))"
    using Suc.prems mapped_mono [OF Suc.prems(1), of "p + 8" "4 * n"] by (intro Suc.IH) simp_all
  moreover have "put ?m (p + 8) (concat (map bytes_ULONG (take n subs))) =
     put m (p + 8) (concat (map bytes_ULONG (take (Suc n) subs)))"
    using Suc.prems(2) by (simp add: take_Suc_conv_app_nth put_append put_comm)
  ultimately show ?case using Suc.prems(2) by simp
qed simp

lemma holds_alloc:
  assumes "alloc_ok alloc" "alloc m n = Some (p, m1)" "holds m q bs" "bs \<noteq> []"
  shows "holds m1 q bs"
  using assms unfolding alloc_ok_def holds_def by fastforce

lemma init_sid_ok:
  assumes "holds m ia v" "length v = 6" "mapped m p (8 + 4 * n)" "n \<le> length subs" "n \<le> 15"
    and "ia + 6 \<le> p \<or> p + 8 \<le> ia"
  shows "do {
       m \<leftarrow> store m p 1;
       m \<leftarrow> store m (p + 1) (of_nat n);
       m \<leftarrow> memcpy m (p + 2) ia 6;
       m \<leftarrow> fill_subauthorities m p n subs;
       Some (STATUS_SUCCESS, m, Some p)
     } = Some (STATUS_SUCCESS, put m p (sid_bytes \<lparr>SidRevision = 1, SidAuthority = v, SidSubs = take n subs\<rparr>), Some p)"
proof -
  let ?m = "put m p [1, of_nat n]"
  have st: "store m p 1 = Some (put m p [1])" using assms(3) by (intro store_put) (auto intro: mapped_mono)
  have st': "store (put m p [1]) (p + 1) (of_nat n) = Some ?m"
    using store_put [of "put m p [1]" "p + 1" "of_nat n"] mapped_mono [OF assms(3), of "p + 1" 1]
      put_append [of m p "[1]" "[of_nat n]"] by simp
  have "holds ?m ia v" using assms(1,2,6) by (subst holds_put_other) auto
  moreover have "mapped ?m (p + 2) 6" using assms(3) by (intro mapped_put) (auto intro: mapped_mono)
  ultimately have cp: "memcpy ?m (p + 2) ia 6 = Some (put ?m (p + 2) v)"
    using memcpy_ok [of ?m ia v "p + 2"] assms(2) by simp
  have "mapped (put ?m (p + 2) v) (p + 8) (4 * n)" using assms(3) by (intro mapped_put) (auto intro: mapped_mono)
  note fill = fill_subauthorities_ok [OF this assms(4)]
  have "put (put ?m (p + 2) v) (p + 8) (concat (map bytes_ULONG (take n subs))) =
      put m p (sid_bytes \<lparr>SidRevision = 1, SidAuthority = v, SidSubs = take n subs\<rparr>)"
    using put_append [of m p "[1, of_nat n] @ v" "concat (map bytes_ULONG (take n subs))"]
      put_append [of m p "[1, of_nat n]" v] assms(2,4) by (simp add: sid_bytes_def)
  with st st' cp fill show ?thesis by simp
qed

section \<open>The string form\<close>

lemma length_decimal: "n < 10 ^ k \<Longrightarrow> 0 < k \<Longrightarrow> length (decimal n) \<le> k"
proof (induction k arbitrary: n)
  case (Suc k)
  show ?case
  proof (cases "n < 10")
    case True
    then show ?thesis by (simp add: decimal.simps [of n])
  next
    case False
    then have "0 < k" using Suc.prems(1) by (cases k) auto
    moreover have "n div 10 < 10 ^ k" using Suc.prems(1) by (simp add: less_mult_imp_div_less mult.commute)
    ultimately show ?thesis using False Suc.IH [of "n div 10"] by (simp add: decimal.simps [of n])
  qed
qed simp

lemma length_decimal_ULONG: "length (decimal (unat (v :: ULONG))) \<le> 10"
proof -
  have "unat v < 10 ^ 10" by (rule less_trans [OF unat_ulong_less]) simp
  then show ?thesis by (rule length_decimal) simp
qed

lemma emit_subauthorities_ok:
  assumes "holds m (p + 8) (concat (map bytes_ULONG vs))" "i \<le> length vs"
    and "length w + 11 * (length vs - i) < 256"
  shows "emit_subauthorities m p (length vs) i w =
     Some (w @ concat (map (\<lambda>s. 45 # decimal (unat s)) (drop i vs)))"
  using assms(2,3)
proof (induction "length vs - i" arbitrary: i w)
  case 0
  then show ?case by (simp add: emit_subauthorities.simps)
next
  case (Suc k)
  then have i: "i < length vs" by simp
  let ?w = "w @ 45 # decimal (unat (vs ! i))"
  have len: "length ?w \<le> length w + 11" using length_decimal_ULONG [of "vs ! i"] by simp
  have le: "length ?w + 11 * (length vs - Suc i) < 256" using len Suc.prems i by simp
  then have "emit w (45 # decimal (unat (vs ! i))) = Some ?w" by (simp add: emit_def)
  moreover have "emit_subauthorities m p (length vs) (Suc i) ?w =
      Some (?w @ concat (map (\<lambda>s. 45 # decimal (unat s)) (drop (Suc i) vs)))"
    using Suc.hyps(2) i le by (intro Suc.hyps(1)) simp_all
  ultimately show ?case
    using i load_ULONG_array [OF assms(1) i] Cons_nth_drop_Suc [OF i]
    by (subst emit_subauthorities.simps) (simp add: Cons_nth_drop_Suc [symmetric])
qed

lemma authority_word:
  "unat (push_bit 24 (ucast (a :: UCHAR)) OR push_bit 16 (ucast (b :: UCHAR))
     OR push_bit 8 (ucast (c :: UCHAR)) OR ucast (d :: UCHAR) :: ULONG)
   = unat a * 2 ^ 24 + unat b * 2 ^ 16 + unat c * 2 ^ 8 + unat d"
proof -
  have w: "push_bit 24 (ucast a) OR push_bit 16 (ucast b) OR push_bit 8 (ucast c) OR (ucast d :: ULONG)
     = push_bit 24 (ucast a) + (push_bit 16 (ucast b) + (push_bit 8 (ucast c) + ucast d))"
    by (subst disjunctive_add; (subst disjunctive_add)?; (subst disjunctive_add)?)
      (auto simp: bit_simps bit_byte_ge)
  have lt: "unat x < 256" for x :: UCHAR using unsigned_less [of x] by simp
  have p: "unat (push_bit k (ucast x) :: ULONG) = unat x * 2 ^ k" if "k \<le> 24" for x :: UCHAR and k
  proof -
    have "unat x * 2 ^ k < 2 ^ 8 * 2 ^ 24"
      using lt [of x] that by (intro mult_less_le_imp_less power_increasing) simp_all
    moreover have "unat x < 2 ^ 32" using lt [of x] by simp
    ultimately show ?thesis
      unfolding unsigned_push_bit_eq by (simp add: push_bit_eq_mult unsigned_ucast_eq take_bit_nat_eq_self)
  qed
  have d: "unat (ucast d :: ULONG) = unat d" using lt [of d] by (simp add: unsigned_ucast_eq take_bit_nat_eq_self)
  have 1: "unat (push_bit 8 (ucast c) + ucast d :: ULONG) = unat c * 2 ^ 8 + unat d"
    using lt [of c] lt [of d] by (subst unat_add_small) (simp_all add: p d)
  have 2: "unat (push_bit 16 (ucast b) + (push_bit 8 (ucast c) + ucast d) :: ULONG) = unat b * 2 ^ 16 + (unat c * 2 ^ 8 + unat d)"
    using lt [of b] lt [of c] lt [of d] by (subst unat_add_small) (simp_all add: p 1)
  show ?thesis
    unfolding w using lt [of a] lt [of b] lt [of c] lt [of d] by (subst unat_add_small) (simp_all add: p 2)
qed

lemma length_hex2: "length (hex2 b) = 2"
  by (simp add: hex2_def)

lemma length_concat_hex2: "length (concat (map hex2 v)) = 2 * length v"
  by (induction v) (simp_all add: length_hex2)

lemma length_concat_decimal:
  "length (concat (map (\<lambda>s. 45 # decimal (unat (s :: ULONG))) vs)) \<le> 11 * length vs"
proof (induction vs)
  case (Cons v vs)
  then show ?case using length_decimal_ULONG [of v] by simp
qed simp

lemma sid_prefix_length:
  assumes "length v = 6"
  shows "length (let v = v in if v ! 0 = 0 \<and> v ! 1 = 0
      then decimal (unat (v ! 2) * 2 ^ 24 + unat (v ! 3) * 2 ^ 16 + unat (v ! 4) * 2 ^ 8 + unat (v ! 5))
      else [48, 120] @ concat (map hex2 v)) \<le> 14"
  using assms unfolding authority_word [symmetric] Let_def
  by (auto simp: length_concat_hex2 intro: le_trans [OF length_decimal_ULONG])

lemma length_sid_text: "sid_at m p S \<Longrightarrow> length (sid_text S) \<le> 183"
  using sid_prefix_length [of "SidAuthority S"] length_concat_decimal [of "SidSubs S"] sid_fields(6,7) [of m p S]
  by (simp add: sid_text_def)

lemma list_6: "length v = 6 \<Longrightarrow> v = [v ! 0, v ! 1, v ! 2, v ! 3, v ! 4, v ! 5]"
  by (intro nth_equalityI) (auto simp: less_Suc_eq eval_nat_numeral)

lemma convert_text_ok:
  assumes S: "sid_at m p S"
  shows "RtlConvertSidToUnicodeString can_alloc m String p AllocateBuffer =
    (let wcs = sid_text S in
     if AllocateBuffer
     then (case RtlCreateUnicodeString can_alloc String wcs of
             (ok, String) \<Rightarrow> Some (if ok then STATUS_SUCCESS else STATUS_NO_MEMORY, String))
     else if 2 * length wcs > unat (UsMaximumLength String) then Some (STATUS_BUFFER_TOO_SMALL, String)
     else do {
       buf \<leftarrow> array_blit (UsBuffer String) 0 wcs;
       buf \<leftarrow> (if 2 * length wcs < unat (UsMaximumLength String)
               then array_set buf (length wcs) 0 else Some buf);
       Some (STATUS_SUCCESS, String\<lparr>UsLength := of_nat (2 * length wcs), UsBuffer := buf\<rparr>)
     })"
proof -
  define v where "v = SidAuthority S"
  define body where "body = (if v ! 0 = 0 \<and> v ! 1 = 0
      then decimal (unat (v ! 2) * 2 ^ 24 + unat (v ! 3) * 2 ^ 16 + unat (v ! 4) * 2 ^ 8 + unat (v ! 5))
      else [48, 120] @ concat (map hex2 v))"
  have v6: "length v = 6" using sid_fields(6) [OF S] by (simp add: v_def)
  have b: "m (p + (2 + i)) = Some (v ! i)" if "i < 6" for i
    using sid_fields(3) [OF S] v6 that unfolding v_def [symmetric] holds_def by (simp add: add.assoc)
  have bytes: "m (p + 2) = Some (v ! 0)" "m (p + 3) = Some (v ! 1)" "m (p + 4) = Some (v ! 2)"
    "m (p + 5) = Some (v ! 3)" "m (p + 6) = Some (v ! 4)" "m (p + 7) = Some (v ! 5)"
    using b [of 0] b [of 1] b [of 2] b [of 3] b [of 4] b [of 5] by (simp_all add: add.assoc)
  have hex: "concat (map hex2 v) = hex2 (v ! 0) @ hex2 (v ! 1) @ hex2 (v ! 2) @ hex2 (v ! 3) @ hex2 (v ! 4) @ hex2 (v ! 5)"
    by (subst list_6 [OF v6]) simp
  have len: "length body \<le> 14" using sid_prefix_length [OF v6] by (simp add: body_def)
  have e1: "emit [] [83, 45, 49, 45] = Some [83, 45, 49, 45]" by (simp add: emit_def)
  have e2: "emit [83, 45, 49, 45] body = Some ([83, 45, 49, 45] @ body)" using len by (simp add: emit_def)
  have e3: "emit_subauthorities m p (length (SidSubs S)) 0 ([83, 45, 49, 45] @ body) = Some (sid_text S)"
    using emit_subauthorities_ok [OF sid_fields(4) [OF S], of 0 "[83, 45, 49, 45] @ body"] len sid_fields(7) [OF S]
    by (simp add: sid_text_def body_def v_def Let_def)
  have auth: "(if v ! 0 = 0 \<and> v ! 1 = 0
       then emit w (decimal (unat (push_bit 24 (ucast (v ! 2)) OR push_bit 16 (ucast (v ! 3))
              OR push_bit 8 (ucast (v ! 4)) OR ucast (v ! 5) :: ULONG)))
       else emit w ([48, 120] @ hex2 (v ! 0) @ hex2 (v ! 1) @ hex2 (v ! 2) @ hex2 (v ! 3) @ hex2 (v ! 4) @ hex2 (v ! 5)))
     = emit w body" for w
    by (simp add: body_def hex authority_word)
  have count: "m (p + 1) = Some (of_nat (length (SidSubs S)))" using sid_fields(2) [OF S] by simp
  show ?thesis
    unfolding RtlConvertSidToUnicodeString_def Let_def
    by (simp only: RtlValidSid_ok [OF S] bytes count Option.bind_lunit auth e1 e2 e3
        unat_small_byte [OF sid_fields(7) [OF S]] not_True_eq_False if_False)
qed

section \<open>Access masks\<close>

lemma RtlAreAllAccessesGranted_bits:
  "RtlAreAllAccessesGranted g d \<longleftrightarrow> (\<forall>n. bit d n \<longrightarrow> bit g n)"
  using bit_imp_le_length [of d]
  by (auto simp: RtlAreAllAccessesGranted_def bit_eq_iff bit_simps)

lemma RtlAreAnyAccessesGranted_bits:
  "RtlAreAnyAccessesGranted g d \<longleftrightarrow> (\<exists>n. bit d n \<and> bit g n)"
  using bit_imp_le_length [of d]
  by (auto simp: RtlAreAnyAccessesGranted_def bit_eq_iff bit_simps)

lemma generic_bits:
  "(a :: ULONG) AND 0x80000000 = 0 \<longleftrightarrow> \<not> bit a 31" "a AND 0x40000000 = 0 \<longleftrightarrow> \<not> bit a 30"
  "a AND 0x20000000 = 0 \<longleftrightarrow> \<not> bit a 29" "a AND 0x10000000 = 0 \<longleftrightarrow> \<not> bit a 28"
  using and_exp_eq_0_iff_not_bit [of a 31] and_exp_eq_0_iff_not_bit [of a 30]
    and_exp_eq_0_iff_not_bit [of a 29] and_exp_eq_0_iff_not_bit [of a 28] by simp_all

lemma bit_generic_mask:
  "bit ((0x80000000 :: ULONG) OR 0x40000000 OR 0x20000000 OR 0x10000000) n \<longleftrightarrow> 28 \<le> n \<and> n < 32"
proof -
  have "(0x80000000 :: ULONG) OR 0x40000000 OR 0x20000000 OR 0x10000000 = push_bit 28 (mask 4)"
    by (simp add: mask_numeral)
  then show ?thesis by (simp only: bit_push_bit_iff bit_mask_iff) auto
qed

lemma RtlMapGenericMask_bits:
  assumes "\<forall>w \<in> {GenericRead g, GenericWrite g, GenericExecute g, GenericAll g}. \<forall>k \<ge> 28. \<not> bit w k"
  shows "bit (RtlMapGenericMask a g) n \<longleftrightarrow> n < 28 \<and>
     (bit a n \<or> bit a 31 \<and> bit (GenericRead g) n \<or> bit a 30 \<and> bit (GenericWrite g) n \<or>
      bit a 29 \<and> bit (GenericExecute g) n \<or> bit a 28 \<and> bit (GenericAll g) n)"
proof -
  let ?add = "\<lambda>a c w :: ULONG. if a AND c \<noteq> 0 then a OR w else a"
  define m1 where "m1 = ?add a 0x80000000 (GenericRead g)"
  define m2 where "m2 = ?add m1 0x40000000 (GenericWrite g)"
  define m3 where "m3 = ?add m2 0x20000000 (GenericExecute g)"
  define m4 where "m4 = ?add m3 0x10000000 (GenericAll g)"
  have m1: "bit m1 k \<longleftrightarrow> bit a k \<or> bit a 31 \<and> bit (GenericRead g) k" for k
    by (simp add: m1_def generic_bits bit_or_iff)
  have m2: "bit m2 k \<longleftrightarrow> bit m1 k \<or> bit a 30 \<and> bit (GenericWrite g) k" for k
    using assms by (simp add: m2_def generic_bits bit_or_iff m1)
  have m3: "bit m3 k \<longleftrightarrow> bit m2 k \<or> bit a 29 \<and> bit (GenericExecute g) k" for k
    using assms by (simp add: m3_def generic_bits bit_or_iff m1 m2)
  have m4: "bit m4 k \<longleftrightarrow> bit m3 k \<or> bit a 28 \<and> bit (GenericAll g) k" for k
    using assms by (simp add: m4_def generic_bits bit_or_iff m1 m2 m3)
  have r: "RtlMapGenericMask a g = m4 AND NOT (0x80000000 OR 0x40000000 OR 0x20000000 OR 0x10000000)"
    unfolding RtlMapGenericMask_def Let_def m1_def m2_def m3_def m4_def ..
  have "n < 32" if "bit m4 n" using bit_imp_le_length [OF that] by simp
  then show ?thesis
    unfolding r bit_and_iff bit_not_iff bit_generic_mask using m1 m2 m3 m4 by auto
qed

section \<open>Properties\<close>

lemma sid_at_block: "p \<noteq> 0 \<Longrightarrow> wf_SID S \<Longrightarrow> sid_at (block p (sid_bytes S)) p S"
  by (simp add: sid_at_def)

lemma sid_at_holds: "p \<noteq> 0 \<Longrightarrow> wf_SID S \<Longrightarrow> holds m p (sid_bytes S) \<Longrightarrow> sid_at m p S"
  by (simp add: sid_at_def)

text \<open>
  On two valid SIDs in memory RtlEqualSid answers whether they are the same SID, and
  RtlEqualPrefixSid whether they agree in everything but the value of the last subauthority.
\<close>

theorem RtlEqualSid_correct:
  assumes "sid_at m Sid1 S" "sid_at m Sid2 T"
  shows "RtlEqualSid m Sid1 Sid2 = Some (S = T) \<and>
     RtlEqualPrefixSid m Sid1 Sid2 = Some (same_prefix S T)"
  using RtlEqualSid_ok [OF assms] RtlEqualPrefixSid_ok [OF assms] by simp

lemma wf_example: "wf_SID Users" "wf_SID Admins"
  by (simp_all add: Users_def Admins_def wf_SID_def)

lemma length_example: "length (sid_bytes Users) = 16" "length (sid_bytes Admins) = 16"
  by (simp_all add: Users_def Admins_def length_sid_bytes)

theorem RtlEqualSid_correct_witness:
  "RtlEqualSid (block 8 (sid_bytes Users @ sid_bytes Admins)) 8 24 = Some False \<and>
   RtlEqualPrefixSid (block 8 (sid_bytes Users @ sid_bytes Admins)) 8 24 = Some True"
proof -
  have "sid_at (block 8 (sid_bytes Users @ sid_bytes Admins)) 8 Users"
    "sid_at (block 8 (sid_bytes Users @ sid_bytes Admins)) 24 Admins"
    using holds_block [of 8 "sid_bytes Users @ sid_bytes Admins"] wf_example
    unfolding holds_append by (auto intro!: sid_at_holds simp: length_example)
  from RtlEqualSid_correct [OF this] show ?thesis by (simp add: same_prefix_def Users_def Admins_def)
qed

text \<open>
  Copying an array of valid SIDs that lie outside the target area succeeds exactly when they
  fit: each entry of the new array then points to a copy of its SID inside the area and
  keeps the attributes, the remaining space is reported, and no byte outside the used part
  of the area changes.
\<close>

theorem RtlCopySidAndAttributesArray_correct:
  assumes "sids_at m SidArea (unat SidAreaSize) Src Ss" "unat Count = length Src" "length Src \<le> length Dest"
    and "mapped m SidArea (unat SidAreaSize)" "SidArea \<noteq> 0"
  shows "if length (concat (map sid_bytes Ss)) \<le> unat SidAreaSize
    then \<exists>m' Dest'. RtlCopySidAndAttributesArray m Count Src SidAreaSize Dest SidArea =
        Some (STATUS_SUCCESS, m', Dest', Some (SidArea + length (concat (map sid_bytes Ss)),
          SidAreaSize - of_nat (length (concat (map sid_bytes Ss))))) \<and>
      list_all2 (\<lambda>x S. sid_at m' (SidPtr x) S) (take (length Src) Dest') Ss \<and>
      map SidAttributes (take (length Src) Dest') = map SidAttributes Src \<and>
      (\<forall>q. q < SidArea \<or> SidArea + length (concat (map sid_bytes Ss)) \<le> q \<longrightarrow> m' q = m q)
    else \<exists>m' Dest'. RtlCopySidAndAttributesArray m Count Src SidAreaSize Dest SidArea =
        Some (STATUS_BUFFER_TOO_SMALL, m', Dest', None)"
proof -
  have len: "length Ss = length Src" using assms(1) by (simp add: sids_at_def list_all2_lengthD)
  show ?thesis
  proof (cases "length (concat (map sid_bytes Ss)) \<le> unat SidAreaSize")
    case True
    let ?m = "put m SidArea (concat (map sid_bytes Ss))"
    have call: "RtlCopySidAndAttributesArray m Count Src SidAreaSize Dest SidArea =
      Some (STATUS_SUCCESS, ?m, placed SidArea Ss Src @ drop (length Ss) Dest,
        Some (SidArea + length (concat (map sid_bytes Ss)), SidAreaSize - of_nat (length (concat (map sid_bytes Ss)))))"
      using copy_sids_ok [of m SidArea SidAreaSize 0 Src Ss Dest] assms True len
      by (simp add: RtlCopySidAndAttributesArray_def)
    have wf: "\<forall>S \<in> set Ss. wf_SID S"
      using assms(1) unfolding sids_at_def by (auto simp: list_all2_conv_all_nth in_set_conv_nth sid_at_def)
    have "list_all2 (\<lambda>x S. sid_at ?m (SidPtr x) S) (placed SidArea Ss Src) Ss"
      using placed_ok [OF len, of SidArea] assms(5) wf len
      by (auto simp: sid_at_def list_all2_conv_all_nth)
    then show ?thesis
      using call True placed_ok [OF len, of SidArea] by (auto simp: put_other simp del: length_concat)
  next
    case False
    then show ?thesis using copy_sids_small [of m SidArea SidAreaSize 0 Src Ss Dest] assms len
      by (auto simp: RtlCopySidAndAttributesArray_def)
  qed
qed

theorem RtlCopySidAndAttributesArray_correct_witness:
  "\<exists>m' Dest'. RtlCopySidAndAttributesArray (block 8 (sid_bytes Users @ replicate 32 0)) 1
       [\<lparr>SidPtr = 8, SidAttributes = 7\<rparr>] 32 [\<lparr>SidPtr = 0, SidAttributes = 0\<rparr>] 24
     = Some (STATUS_SUCCESS, m', Dest', Some (40, 16)) \<and>
     list_all2 (\<lambda>x S. sid_at m' (SidPtr x) S) (take 1 Dest') [Users]"
proof -
  let ?m = "block 8 (sid_bytes Users @ replicate 32 0)"
  have h: "holds ?m 8 (sid_bytes Users)" "holds ?m 24 (replicate 32 0)"
    using holds_block [of 8 "sid_bytes Users @ replicate 32 0"] unfolding holds_append length_example
    by simp_all
  have "sids_at ?m 24 (unat (32 :: ULONG)) [\<lparr>SidPtr = 8, SidAttributes = 7\<rparr>] [Users]"
    using h wf_example by (simp add: sids_at_def sid_at_def length_example)
  moreover have "mapped ?m 24 (unat (32 :: ULONG))" using holds_mapped [OF h(2)] by simp
  ultimately show ?thesis
    using RtlCopySidAndAttributesArray_correct [of ?m 24 32 "[\<lparr>SidPtr = 8, SidAttributes = 7\<rparr>]" "[Users]" 1
        "[\<lparr>SidPtr = 0, SidAttributes = 0\<rparr>]"] by (auto simp: length_example)
qed

text \<open>
  For every result of an allocator that returns fresh mapped blocks,
  RtlAllocateAndInitializeSid returns STATUS_INVALID_SID for more than eight subauthorities,
  STATUS_NO_MEMORY when the allocation fails, and otherwise a block that holds exactly the
  SID made of the authority and the first subauthority arguments.
\<close>

theorem RtlAllocateAndInitializeSid_correct:
  assumes "alloc_ok alloc" "holds m IdentifierAuthority v" "length v = 6"
  shows "RtlAllocateAndInitializeSid alloc m IdentifierAuthority Count s0 s1 s2 s3 s4 s5 s6 s7 =
    (if 8 < unat Count then Some (STATUS_INVALID_SID, m, None)
     else case alloc m (8 + 4 * unat Count) of
       None \<Rightarrow> Some (STATUS_NO_MEMORY, m, None)
     | Some (p, m1) \<Rightarrow> Some (STATUS_SUCCESS, put m1 p (sid_bytes \<lparr>SidRevision = 1, SidAuthority = v,
         SidSubs = take (unat Count) [s0, s1, s2, s3, s4, s5, s6, s7]\<rparr>), Some p))"
proof (cases "8 < unat Count")
  case True
  then show ?thesis by (simp add: RtlAllocateAndInitializeSid_def word_less_nat_alt)
next
  case False
  let ?n = "unat Count" and ?subs = "[s0, s1, s2, s3, s4, s5, s6, s7]"
  have size: "unat (RtlLengthRequiredSid (ucast Count)) = 8 + 4 * ?n"
    using False by (simp add: RtlLengthRequiredSid_def unat_word_ariths unsigned_ucast_eq take_bit_nat_eq_self)
  show ?thesis
  proof (cases "alloc m (8 + 4 * ?n)")
    case None
    then show ?thesis using False size by (simp add: RtlAllocateAndInitializeSid_def word_less_nat_alt)
  next
    case (Some r)
    obtain p m1 where r: "r = (p, m1)" by fastforce
    have new: "mapped m1 p (8 + 4 * ?n)" "\<forall>q. m q \<noteq> None \<longrightarrow> q < p \<or> p + (8 + 4 * ?n) \<le> q"
      using assms(1) Some unfolding r alloc_ok_def by blast+
    have h: "holds m1 IdentifierAuthority v"
      using holds_alloc [OF assms(1) Some [unfolded r] assms(2)] assms(3) by fastforce
    have "m (IdentifierAuthority + i) \<noteq> None" if "i < 6" for i using assms(2,3) that by (simp add: holds_def)
    then have "IdentifierAuthority + i < p \<or> p + 8 \<le> IdentifierAuthority + i" if "i < 6" for i
      using new(2) that by (meson add_leD1 add_left_mono le_add1 order_trans)
    from this [of 0] this [of "p - IdentifierAuthority"]
    have "IdentifierAuthority + 6 \<le> p \<or> p + 8 \<le> IdentifierAuthority" by linarith
    then show ?thesis
      using init_sid_ok [OF h assms(3) new(1), of ?subs] False size Some r
      by (simp add: RtlAllocateAndInitializeSid_def word_less_nat_alt)
  qed
qed

text \<open>
  The text of a valid SID has at most 183 characters, so the 256-character stack buffer
  never overflows; with allocation the result is the terminated text, without it the text is
  copied when it fits the buffer (terminated when there is room) and STATUS_BUFFER_TOO_SMALL
  is returned with the string unchanged otherwise.
\<close>

theorem RtlConvertSidToUnicodeString_correct:
  assumes "sid_at m Sid S" "unat (UsMaximumLength String) = 2 * length (UsBuffer String)"
  shows "RtlConvertSidToUnicodeString True m String Sid True =
      Some (STATUS_SUCCESS, \<lparr>UsLength = of_nat (2 * length (sid_text S)),
        UsMaximumLength = of_nat (2 * length (sid_text S) + 2), UsBuffer = sid_text S @ [0]\<rparr>) \<and>
    (if length (UsBuffer String) < length (sid_text S)
     then RtlConvertSidToUnicodeString can_alloc m String Sid False = Some (STATUS_BUFFER_TOO_SMALL, String)
     else \<exists>buf. RtlConvertSidToUnicodeString can_alloc m String Sid False =
            Some (STATUS_SUCCESS, String\<lparr>UsLength := of_nat (2 * length (sid_text S)), UsBuffer := buf\<rparr>) \<and>
          take (length (sid_text S)) buf = sid_text S \<and> length buf = length (UsBuffer String) \<and>
          (length (sid_text S) < length buf \<longrightarrow> buf ! length (sid_text S) = 0)) \<and>
    length (sid_text S) \<le> 183"
proof -
  let ?t = "sid_text S"
  note len = length_sid_text [OF assms(1)]
  have "RtlCreateUnicodeString True String ?t = (True, \<lparr>UsLength = of_nat (2 * length ?t),
        UsMaximumLength = of_nat (2 * length ?t + 2), UsBuffer = ?t @ [0]\<rparr>)"
    using len by (simp add: RtlCreateUnicodeString_def Let_def)
  moreover have "array_blit (UsBuffer String) 0 ?t = Some (?t @ drop (length ?t) (UsBuffer String))"
    if "length ?t \<le> length (UsBuffer String)" using that by (simp add: array_blit_def)
  ultimately show ?thesis
    using convert_text_ok [OF assms(1)] assms(2) len
    by (auto simp: Let_def)
qed

lemma alloc_at_64_ok: "alloc_ok alloc_at_64"
proof -
  have "m q = None" if "\<forall>i < 40. m (64 + i) = None" "64 \<le> q" "q < 104" for m :: mem and q
    using that(1) [rule_format, of "q - 64"] that(2,3) by simp
  then show ?thesis
    unfolding alloc_ok_def alloc_at_64_def
    by (auto simp: put_def mapped_def split: if_splits)
qed

theorem RtlAllocateAndInitializeSid_correct_witness:
  "\<exists>m'. RtlAllocateAndInitializeSid alloc_at_64 (block 8 [0, 0, 0, 0, 0, 5]) 8 2 32 544 0 0 0 0 0 0
     = Some (STATUS_SUCCESS, m', Some 64) \<and> sid_at m' 64 Admins"
  using RtlAllocateAndInitializeSid_correct [OF alloc_at_64_ok holds_block, of "[0, 0, 0, 0, 0, 5]" 8 2 32 544 0 0 0 0 0 0]
    wf_example
  by (auto simp: alloc_at_64_def block_apply Admins_def sid_at_def take_Cons')

theorem RtlConvertSidToUnicodeString_correct_witness:
  "\<exists>buf. RtlConvertSidToUnicodeString False (block 8 (sid_bytes Admins))
       \<lparr>UsLength = 0, UsMaximumLength = 40, UsBuffer = replicate 20 0\<rparr> 8 False =
     Some (STATUS_SUCCESS, \<lparr>UsLength = 24, UsMaximumLength = 40, UsBuffer = buf\<rparr>) \<and>
     take 12 buf = [83, 45, 49, 45, 53, 45, 51, 50, 45, 53, 52, 52]"
proof -
  have t: "sid_text Admins = [83, 45, 49, 45, 53, 45, 51, 50, 45, 53, 52, 52]"
    by (simp add: sid_text_def Admins_def decimal.simps)
  then have l: "length (sid_text Admins) = 12" by simp
  have "sid_at (block 8 (sid_bytes Admins)) 8 Admins" using wf_example by (simp add: sid_at_block)
  from RtlConvertSidToUnicodeString_correct [OF this, of "\<lparr>UsLength = 0, UsMaximumLength = 40, UsBuffer = replicate 20 0\<rparr>" False,
      unfolded l]
  show ?thesis by (auto simp: t)
qed

end
