(* ===== verification/RtlAcl.thy ===== *)
theory RtlAcl
  imports RtlSid
begin

text \<open>
  Access control lists, \<^verbatim>\<open>sdk/lib/rtl/acl.c\<close>.

  An ACL is a block of the memory of \<open>CrtMem\<close>: an 8-byte header (revision, size, number of
  entries) followed by the entries (ACEs), which begin with a type, flags and their size, and by
  free space.  All routines work on the bytes, as the code does; \<open>Acl\<close>, \<open>Ace\<close>, \<open>AceList\<close> and
  \<open>Sid\<close> are addresses.
\<close>

unbundle bit_operations_syntax

section \<open>Layout\<close>

abbreviation (input) MIN_ACL_REVISION :: UCHAR where "MIN_ACL_REVISION \<equiv> 2"
abbreviation (input) MAX_ACL_REVISION :: UCHAR where "MAX_ACL_REVISION \<equiv> 4"

abbreviation (input) ACCESS_ALLOWED_ACE_TYPE :: UCHAR where "ACCESS_ALLOWED_ACE_TYPE \<equiv> 0"
abbreviation (input) ACCESS_DENIED_ACE_TYPE :: UCHAR where "ACCESS_DENIED_ACE_TYPE \<equiv> 1"
abbreviation (input) SYSTEM_AUDIT_ACE_TYPE :: UCHAR where "SYSTEM_AUDIT_ACE_TYPE \<equiv> 2"
abbreviation (input) ACCESS_MAX_MS_V2_ACE_TYPE :: UCHAR where "ACCESS_MAX_MS_V2_ACE_TYPE \<equiv> 3"
abbreviation (input) ACCESS_ALLOWED_COMPOUND_ACE_TYPE :: UCHAR where "ACCESS_ALLOWED_COMPOUND_ACE_TYPE \<equiv> 4"
abbreviation (input) ACCESS_MAX_MS_V3_ACE_TYPE :: UCHAR where "ACCESS_MAX_MS_V3_ACE_TYPE \<equiv> 4"
abbreviation (input) ACCESS_MIN_MS_OBJECT_ACE_TYPE :: UCHAR where "ACCESS_MIN_MS_OBJECT_ACE_TYPE \<equiv> 5"
abbreviation (input) ACCESS_ALLOWED_OBJECT_ACE_TYPE :: UCHAR where "ACCESS_ALLOWED_OBJECT_ACE_TYPE \<equiv> 5"
abbreviation (input) ACCESS_DENIED_OBJECT_ACE_TYPE :: UCHAR where "ACCESS_DENIED_OBJECT_ACE_TYPE \<equiv> 6"
abbreviation (input) SYSTEM_AUDIT_OBJECT_ACE_TYPE :: UCHAR where "SYSTEM_AUDIT_OBJECT_ACE_TYPE \<equiv> 7"
abbreviation (input) ACCESS_MAX_MS_OBJECT_ACE_TYPE :: UCHAR where "ACCESS_MAX_MS_OBJECT_ACE_TYPE \<equiv> 8"
abbreviation (input) ACCESS_MAX_MS_ACE_TYPE :: UCHAR where "ACCESS_MAX_MS_ACE_TYPE \<equiv> 8"
abbreviation (input) SYSTEM_AUDIT_CALLBACK_OBJECT_ACE_TYPE :: UCHAR where "SYSTEM_AUDIT_CALLBACK_OBJECT_ACE_TYPE \<equiv> 0xF"

abbreviation (input) VALID_INHERIT_FLAGS :: ULONG where "VALID_INHERIT_FLAGS \<equiv> 0x1F"
abbreviation (input) SUCCESSFUL_ACCESS_ACE_FLAG :: ULONG where "SUCCESSFUL_ACCESS_ACE_FLAG \<equiv> 0x40"
abbreviation (input) FAILED_ACCESS_ACE_FLAG :: ULONG where "FAILED_ACCESS_ACE_FLAG \<equiv> 0x80"
abbreviation (input) ACE_OBJECT_TYPE_PRESENT :: ULONG where "ACE_OBJECT_TYPE_PRESENT \<equiv> 1"
abbreviation (input) ACE_INHERITED_OBJECT_TYPE_PRESENT :: ULONG where "ACE_INHERITED_OBJECT_TYPE_PRESENT \<equiv> 2"

text \<open>The fields of the header of an ACL and of an ACE.\<close>

definition AclSize :: "mem \<Rightarrow> nat \<Rightarrow> USHORT option" where
  "AclSize m Acl = load_USHORT m (Acl + 2)"

definition AceCount :: "mem \<Rightarrow> nat \<Rightarrow> USHORT option" where
  "AceCount m Acl = load_USHORT m (Acl + 4)"

definition AceSize :: "mem \<Rightarrow> nat \<Rightarrow> USHORT option" where
  "AceSize m Ace = load_USHORT m (Ace + 2)"

text \<open>\<open>ROUND_DOWN\<close> of a \<^verbatim>\<open>USHORT\<close> that is widened to \<^verbatim>\<open>ULONG_PTR\<close>.\<close>

definition round_down :: "USHORT \<Rightarrow> USHORT \<Rightarrow> USHORT" where
  "round_down n align = n AND NOT (align - 1)"

section \<open>Validation\<close>

text \<open>
  The body of the loop of \<open>RtlValidAcl\<close> for one ACE: \<open>None\<close> is an access violation, which the
  handler turns into \<open>False\<close>; \<open>AclEnd\<close> is the address after the ACL.
\<close>

definition valid_known_ace :: "mem \<Rightarrow> nat \<Rightarrow> USHORT \<Rightarrow> bool option" where
  "valid_known_ace m Ace Size =
     (if round_down Size 4 \<noteq> Size then Some False
      else if Size < 4 then Some False
      else do {
        Revision \<leftarrow> m (Ace + 8);
        if Revision \<noteq> 1 then Some False
        else do {
          SubAuthorityCount \<leftarrow> m (Ace + 8 + 1);
          if SubAuthorityCount > 15 then Some False
          else do {
            n \<leftarrow> RtlLengthSid m (Ace + 8);
            Some (\<not> (ucast Size < 4 + n))
          }
        }
      })"

definition valid_object_ace :: "mem \<Rightarrow> UCHAR \<Rightarrow> nat \<Rightarrow> USHORT \<Rightarrow> bool option" where
  "valid_object_ace m AclRevision Ace Size =
     (if AclRevision < 4 then Some False
      else if round_down Size 4 \<noteq> Size then Some False
      else if Size < 16 then Some False
      else do {
        Flags \<leftarrow> load_ULONG m (Ace + 8);
        let GuidSize = (if Flags AND ACE_OBJECT_TYPE_PRESENT \<noteq> 0 then 16 else 0)
                     + (if Flags AND ACE_INHERITED_OBJECT_TYPE_PRESENT \<noteq> 0 then 16 else (0 :: ULONG));
        let Sid = Ace + 12 + unat GuidSize;
        Revision \<leftarrow> m Sid;
        if Revision \<noteq> 1 then Some False
        else do {
          SubAuthorityCount \<leftarrow> m (Sid + 1);
          if SubAuthorityCount > 15 then Some False
          else do {
            n \<leftarrow> RtlLengthSid m Sid;
            let RequiredObjectAceSize = (ucast ((16 - 4) + GuidSize + n) :: USHORT);
            Some (\<not> Size < RequiredObjectAceSize)
          }
        }
      })"

definition valid_ace :: "mem \<Rightarrow> UCHAR \<Rightarrow> nat \<Rightarrow> nat \<Rightarrow> bool option" where
  "valid_ace m AclRevision AclEnd Ace =
     (if Ace + 4 \<ge> AclEnd then Some False
      else do {
        Size \<leftarrow> AceSize m Ace;
        if round_down Size 2 \<noteq> Size then Some False
        else if Ace + unat Size > AclEnd then Some False
        else do {
          AceType \<leftarrow> m Ace;
          if AceType \<le> ACCESS_MAX_MS_V2_ACE_TYPE then valid_known_ace m Ace Size
          else if AceType = ACCESS_ALLOWED_OBJECT_ACE_TYPE \<or> AceType = ACCESS_DENIED_OBJECT_ACE_TYPE
          then valid_object_ace m AclRevision Ace Size
          else if AceType = ACCESS_ALLOWED_COMPOUND_ACE_TYPE then Some True
          else if AceType \<ge> ACCESS_MIN_MS_OBJECT_ACE_TYPE \<and> AceType \<le> ACCESS_MAX_MS_OBJECT_ACE_TYPE
          then Some True
          else Some (\<not> Size < 4)
        }
      })"

fun valid_aces_from :: "mem \<Rightarrow> UCHAR \<Rightarrow> nat \<Rightarrow> nat \<Rightarrow> nat \<Rightarrow> bool option" where
  "valid_aces_from m AclRevision AclEnd 0 Ace = Some True"
| "valid_aces_from m AclRevision AclEnd (Suc left) Ace = do {
     ok \<leftarrow> valid_ace m AclRevision AclEnd Ace;
     if ok
     then do {
       Size \<leftarrow> AceSize m Ace;
       valid_aces_from m AclRevision AclEnd left (Ace + unat Size)
     }
     else Some False
   }"

definition RtlValidAcl :: "mem \<Rightarrow> nat \<Rightarrow> bool" where
  "RtlValidAcl m Acl =
     (case do {
        AclRevision \<leftarrow> m Acl;
        if AclRevision < MIN_ACL_REVISION \<or> AclRevision > MAX_ACL_REVISION then Some False
        else do {
          Size \<leftarrow> AclSize m Acl;
          if round_down Size 2 \<noteq> Size then Some False
          else if Size < 8 then Some False
          else do {
            Count \<leftarrow> AceCount m Acl;
            valid_aces_from m AclRevision (Acl + unat Size) (unat Count) (Acl + 8)
          }
        }
      } of None \<Rightarrow> False | Some b \<Rightarrow> b)"

section \<open>Finding, inserting and deleting bytes\<close>

text \<open>The second component is the pointer \<^verbatim>\<open>*FirstFreeAce\<close>, \<open>None\<close> for the null pointer.\<close>

fun first_free_from :: "mem \<Rightarrow> nat \<Rightarrow> nat \<Rightarrow> nat \<Rightarrow> (bool \<times> nat option) option" where
  "first_free_from m AclEnd 0 Current =
     Some (True, if Current \<le> AclEnd then Some Current else None)"
| "first_free_from m AclEnd (Suc left) Current =
     (if Current \<ge> AclEnd then Some (False, None)
      else do {
        Size \<leftarrow> AceSize m Current;
        first_free_from m AclEnd left (Current + unat Size)
      })"

definition RtlFirstFreeAce :: "mem \<Rightarrow> nat \<Rightarrow> (bool \<times> nat option) option" where
  "RtlFirstFreeAce m Acl = do {
     Size \<leftarrow> AclSize m Acl;
     Count \<leftarrow> AceCount m Acl;
     first_free_from m (Acl + unat Size) (unat Count) (Acl + 8)
   }"

definition RtlpAddData :: "mem \<Rightarrow> nat \<Rightarrow> ULONG \<Rightarrow> nat \<Rightarrow> ULONG \<Rightarrow> mem option" where
  "RtlpAddData m AceList AceListLength Ace Offset = do {
     m \<leftarrow> (if Offset > 0 then RtlCopyMemory m (Ace + unat AceListLength) Ace (unat Offset) else Some m);
     if AceListLength \<noteq> 0 then RtlCopyMemory m Ace AceList (unat AceListLength) else Some m
   }"

definition RtlpDeleteData :: "mem \<Rightarrow> nat \<Rightarrow> ULONG \<Rightarrow> ULONG \<Rightarrow> mem option" where
  "RtlpDeleteData m Ace Size Offset = do {
     m \<leftarrow> (if Size < Offset then RtlMoveMemory m Ace (Ace + unat Size) (unat (Offset - Size)) else Some m);
     if Offset - Size < Offset then RtlZeroMemory m (Ace + unat Offset - unat Size) (unat Size) else Some m
   }"

section \<open>Adding an entry for a SID\<close>

definition RtlpAddKnownAce ::
    "mem \<Rightarrow> nat \<Rightarrow> ULONG \<Rightarrow> ULONG \<Rightarrow> ACCESS_MASK \<Rightarrow> nat \<Rightarrow> UCHAR \<Rightarrow> (NTSTATUS \<times> mem) option" where
  "RtlpAddKnownAce m Acl Revision Flags AccessMask Sid Type =
     (if \<not> RtlValidSid m Sid then Some (STATUS_INVALID_SID, m)
      else do {
        AclRevision \<leftarrow> m Acl;
        if AclRevision > 4 \<or> Revision > 4 then Some (STATUS_REVISION_MISMATCH, m)
        else do {
          let Revision = (if Revision < ucast AclRevision then ucast AclRevision else Revision);
          let InvalidFlags =
            (if Type = SYSTEM_AUDIT_ACE_TYPE
             then Flags AND NOT (VALID_INHERIT_FLAGS OR SUCCESSFUL_ACCESS_ACE_FLAG OR FAILED_ACCESS_ACE_FLAG)
             else Flags AND NOT VALID_INHERIT_FLAGS);
          if InvalidFlags \<noteq> 0 then Some (STATUS_INVALID_PARAMETER, m)
          else if \<not> RtlValidAcl m Acl then Some (STATUS_INVALID_ACL, m)
          else do {
            (ok, FreeAce) \<leftarrow> RtlFirstFreeAce m Acl;
            if \<not> ok then Some (STATUS_INVALID_ACL, m)
            else do {
              n \<leftarrow> RtlLengthSid m Sid;
              let Size = n + 8;
              Total \<leftarrow> AclSize m Acl;
              (case FreeAce of
                 None \<Rightarrow> Some (STATUS_ALLOTTED_SPACE_EXCEEDED, m)
               | Some Ace \<Rightarrow>
                   if Ace + unat Size > Acl + unat Total then Some (STATUS_ALLOTTED_SPACE_EXCEEDED, m)
                   else do {
                     m \<leftarrow> store m (Ace + 1) (ucast Flags);
                     m \<leftarrow> store m Ace Type;
                     m \<leftarrow> store_USHORT m (Ace + 2) (ucast Size);
                     m \<leftarrow> store_ULONG m (Ace + 4) AccessMask;
                     n \<leftarrow> RtlLengthSid m Sid;
                     (_, m) \<leftarrow> RtlCopySid m n (Ace + 8) Sid;
                     Count \<leftarrow> AceCount m Acl;
                     m \<leftarrow> store_USHORT m (Acl + 4) (Count + 1);
                     m \<leftarrow> store m Acl (ucast Revision);
                     Some (STATUS_SUCCESS, m)
                   })
            }
          }
        }
      })"

text \<open>A null GUID pointer is \<open>None\<close>.\<close>

definition RtlpAddKnownObjectAce ::
    "mem \<Rightarrow> nat \<Rightarrow> ULONG \<Rightarrow> ULONG \<Rightarrow> ACCESS_MASK \<Rightarrow> nat option \<Rightarrow> nat option \<Rightarrow> nat \<Rightarrow> UCHAR
     \<Rightarrow> (NTSTATUS \<times> mem) option" where
  "RtlpAddKnownObjectAce m Acl Revision Flags AccessMask ObjectTypeGuid InheritedObjectTypeGuid Sid Type =
     (if \<not> RtlValidSid m Sid then Some (STATUS_INVALID_SID, m)
      else do {
        AclRevision \<leftarrow> m Acl;
        if AclRevision > 4 \<or> Revision \<noteq> 4 then Some (STATUS_REVISION_MISMATCH, m)
        else do {
          let Revision = (if Revision < ucast AclRevision then ucast AclRevision else Revision);
          let InvalidFlags =
            (if Type = SYSTEM_AUDIT_OBJECT_ACE_TYPE \<or> Type = SYSTEM_AUDIT_CALLBACK_OBJECT_ACE_TYPE
             then Flags AND NOT (VALID_INHERIT_FLAGS OR SUCCESSFUL_ACCESS_ACE_FLAG OR FAILED_ACCESS_ACE_FLAG)
             else Flags AND NOT VALID_INHERIT_FLAGS);
          if InvalidFlags \<noteq> 0 then Some (STATUS_INVALID_PARAMETER, m)
          else if \<not> RtlValidAcl m Acl then Some (STATUS_INVALID_ACL, m)
          else do {
            (ok, FreeAce) \<leftarrow> RtlFirstFreeAce m Acl;
            if \<not> ok then Some (STATUS_INVALID_ACL, m)
            else do {
              n \<leftarrow> RtlLengthSid m Sid;
              let (AceObjectFlags, Size) = (0, n + 8 + 4);
              let (AceObjectFlags, Size) =
                (if ObjectTypeGuid \<noteq> None
                 then (AceObjectFlags OR ACE_OBJECT_TYPE_PRESENT, Size + 16) else (AceObjectFlags, Size));
              let (AceObjectFlags, Size) =
                (if InheritedObjectTypeGuid \<noteq> None
                 then (AceObjectFlags OR ACE_INHERITED_OBJECT_TYPE_PRESENT, Size + 16) else (AceObjectFlags, Size));
              Total \<leftarrow> AclSize m Acl;
              (case FreeAce of
                 None \<Rightarrow> Some (STATUS_ALLOTTED_SPACE_EXCEEDED, m)
               | Some Ace \<Rightarrow>
                   if Ace + unat Size > Acl + unat Total then Some (STATUS_ALLOTTED_SPACE_EXCEEDED, m)
                   else do {
                     m \<leftarrow> store m (Ace + 1) (ucast Flags);
                     m \<leftarrow> store m Ace Type;
                     m \<leftarrow> store_USHORT m (Ace + 2) (ucast Size);
                     m \<leftarrow> store_ULONG m (Ace + 4) AccessMask;
                     m \<leftarrow> store_ULONG m (Ace + 8) AceObjectFlags;
                     let SidStart = Ace + 12;
                     (m, SidStart) \<leftarrow> (case ObjectTypeGuid of
                         None \<Rightarrow> Some (m, SidStart)
                       | Some g \<Rightarrow> do { m \<leftarrow> RtlCopyMemory m SidStart g 16; Some (m, SidStart + 16) });
                     (m, SidStart) \<leftarrow> (case InheritedObjectTypeGuid of
                         None \<Rightarrow> Some (m, SidStart)
                       | Some g \<Rightarrow> do { m \<leftarrow> RtlCopyMemory m SidStart g 16; Some (m, SidStart + 16) });
                     n \<leftarrow> RtlLengthSid m Sid;
                     (_, m) \<leftarrow> RtlCopySid m n SidStart Sid;
                     Count \<leftarrow> AceCount m Acl;
                     m \<leftarrow> store_USHORT m (Acl + 4) (Count + 1);
                     m \<leftarrow> store m Acl (ucast Revision);
                     Some (STATUS_SUCCESS, m)
                   })
            }
          }
        }
      })"

definition RtlAddAccessAllowedAce :: "mem \<Rightarrow> nat \<Rightarrow> ULONG \<Rightarrow> ACCESS_MASK \<Rightarrow> nat \<Rightarrow> (NTSTATUS \<times> mem) option" where
  "RtlAddAccessAllowedAce m Acl Revision AccessMask Sid =
     RtlpAddKnownAce m Acl Revision 0 AccessMask Sid ACCESS_ALLOWED_ACE_TYPE"

definition RtlAddAccessAllowedAceEx :: "mem \<Rightarrow> nat \<Rightarrow> ULONG \<Rightarrow> ULONG \<Rightarrow> ACCESS_MASK \<Rightarrow> nat \<Rightarrow> (NTSTATUS \<times> mem) option" where
  "RtlAddAccessAllowedAceEx m Acl Revision Flags AccessMask Sid =
     RtlpAddKnownAce m Acl Revision Flags AccessMask Sid ACCESS_ALLOWED_ACE_TYPE"

definition RtlAddAccessAllowedObjectAce ::
    "mem \<Rightarrow> nat \<Rightarrow> ULONG \<Rightarrow> ULONG \<Rightarrow> ACCESS_MASK \<Rightarrow> nat option \<Rightarrow> nat option \<Rightarrow> nat
     \<Rightarrow> (NTSTATUS \<times> mem) option" where
  "RtlAddAccessAllowedObjectAce m Acl Revision Flags AccessMask ObjectTypeGuid InheritedObjectTypeGuid Sid =
     (if ObjectTypeGuid = None \<and> InheritedObjectTypeGuid = None
      then RtlpAddKnownAce m Acl Revision Flags AccessMask Sid ACCESS_ALLOWED_ACE_TYPE
      else RtlpAddKnownObjectAce m Acl Revision Flags AccessMask ObjectTypeGuid InheritedObjectTypeGuid
             Sid ACCESS_ALLOWED_OBJECT_ACE_TYPE)"

definition RtlAddAccessDeniedAce :: "mem \<Rightarrow> nat \<Rightarrow> ULONG \<Rightarrow> ACCESS_MASK \<Rightarrow> nat \<Rightarrow> (NTSTATUS \<times> mem) option" where
  "RtlAddAccessDeniedAce m Acl Revision AccessMask Sid =
     RtlpAddKnownAce m Acl Revision 0 AccessMask Sid ACCESS_DENIED_ACE_TYPE"

definition RtlAddAccessDeniedAceEx :: "mem \<Rightarrow> nat \<Rightarrow> ULONG \<Rightarrow> ULONG \<Rightarrow> ACCESS_MASK \<Rightarrow> nat \<Rightarrow> (NTSTATUS \<times> mem) option" where
  "RtlAddAccessDeniedAceEx m Acl Revision Flags AccessMask Sid =
     RtlpAddKnownAce m Acl Revision Flags AccessMask Sid ACCESS_DENIED_ACE_TYPE"

definition RtlAddAccessDeniedObjectAce ::
    "mem \<Rightarrow> nat \<Rightarrow> ULONG \<Rightarrow> ULONG \<Rightarrow> ACCESS_MASK \<Rightarrow> nat option \<Rightarrow> nat option \<Rightarrow> nat
     \<Rightarrow> (NTSTATUS \<times> mem) option" where
  "RtlAddAccessDeniedObjectAce m Acl Revision Flags AccessMask ObjectTypeGuid InheritedObjectTypeGuid Sid =
     (if ObjectTypeGuid = None \<and> InheritedObjectTypeGuid = None
      then RtlpAddKnownAce m Acl Revision Flags AccessMask Sid ACCESS_DENIED_ACE_TYPE
      else RtlpAddKnownObjectAce m Acl Revision Flags AccessMask ObjectTypeGuid InheritedObjectTypeGuid
             Sid ACCESS_DENIED_OBJECT_ACE_TYPE)"

definition audit_flags :: "ULONG \<Rightarrow> bool \<Rightarrow> bool \<Rightarrow> ULONG" where
  "audit_flags Flags Success Failure =
     (let Flags = (if Success then Flags OR SUCCESSFUL_ACCESS_ACE_FLAG else Flags)
      in if Failure then Flags OR FAILED_ACCESS_ACE_FLAG else Flags)"

definition RtlAddAuditAccessAce ::
    "mem \<Rightarrow> nat \<Rightarrow> ULONG \<Rightarrow> ACCESS_MASK \<Rightarrow> nat \<Rightarrow> bool \<Rightarrow> bool \<Rightarrow> (NTSTATUS \<times> mem) option" where
  "RtlAddAuditAccessAce m Acl Revision AccessMask Sid Success Failure =
     RtlpAddKnownAce m Acl Revision (audit_flags 0 Success Failure) AccessMask Sid SYSTEM_AUDIT_ACE_TYPE"

definition RtlAddAuditAccessAceEx ::
    "mem \<Rightarrow> nat \<Rightarrow> ULONG \<Rightarrow> ULONG \<Rightarrow> ACCESS_MASK \<Rightarrow> nat \<Rightarrow> bool \<Rightarrow> bool \<Rightarrow> (NTSTATUS \<times> mem) option" where
  "RtlAddAuditAccessAceEx m Acl Revision Flags AccessMask Sid Success Failure =
     RtlpAddKnownAce m Acl Revision (audit_flags Flags Success Failure) AccessMask Sid SYSTEM_AUDIT_ACE_TYPE"

definition RtlAddAuditAccessObjectAce ::
    "mem \<Rightarrow> nat \<Rightarrow> ULONG \<Rightarrow> ULONG \<Rightarrow> ACCESS_MASK \<Rightarrow> nat option \<Rightarrow> nat option \<Rightarrow> nat \<Rightarrow> bool \<Rightarrow> bool
     \<Rightarrow> (NTSTATUS \<times> mem) option" where
  "RtlAddAuditAccessObjectAce m Acl Revision Flags AccessMask ObjectTypeGuid InheritedObjectTypeGuid Sid Success Failure =
     (let Flags = audit_flags Flags Success Failure in
      if ObjectTypeGuid = None \<and> InheritedObjectTypeGuid = None
      then RtlpAddKnownAce m Acl Revision Flags AccessMask Sid SYSTEM_AUDIT_ACE_TYPE
      else RtlpAddKnownObjectAce m Acl Revision Flags AccessMask ObjectTypeGuid InheritedObjectTypeGuid
             Sid SYSTEM_AUDIT_OBJECT_ACE_TYPE)"

section \<open>Entries by index\<close>

fun get_ace_from :: "mem \<Rightarrow> nat \<Rightarrow> nat \<Rightarrow> nat \<Rightarrow> (NTSTATUS \<times> nat) option" where
  "get_ace_from m AclEnd 0 Ace =
     Some (if Ace \<ge> AclEnd then STATUS_INVALID_PARAMETER else STATUS_SUCCESS, Ace)"
| "get_ace_from m AclEnd (Suc left) Ace =
     (if Ace \<ge> AclEnd then Some (STATUS_INVALID_PARAMETER, Ace)
      else do {
        Size \<leftarrow> AceSize m Ace;
        get_ace_from m AclEnd left (Ace + unat Size)
      })"

text \<open>The second component is the value of \<^verbatim>\<open>*Ace\<close>, \<open>None\<close> when it was not written.\<close>

definition RtlGetAce :: "mem \<Rightarrow> nat \<Rightarrow> ULONG \<Rightarrow> (NTSTATUS \<times> nat option) option" where
  "RtlGetAce m Acl AceIndex = do {
     AclRevision \<leftarrow> m Acl;
     if AclRevision < MIN_ACL_REVISION \<or> AclRevision > MAX_ACL_REVISION
     then Some (STATUS_INVALID_PARAMETER, None)
     else do {
       Count \<leftarrow> AceCount m Acl;
       if AceIndex \<ge> ucast Count then Some (STATUS_INVALID_PARAMETER, None)
       else do {
         Size \<leftarrow> AclSize m Acl;
         (Status, Ace) \<leftarrow> get_ace_from m (Acl + unat Size) (unat AceIndex) (Acl + 8);
         Some (Status, Some Ace)
       }
     }
   }"

fun walk_aces :: "mem \<Rightarrow> nat \<Rightarrow> nat \<Rightarrow> nat option" where
  "walk_aces m 0 Ace = Some Ace"
| "walk_aces m (Suc n) Ace = do {
     Size \<leftarrow> AceSize m Ace;
     walk_aces m n (Ace + unat Size)
   }"

text \<open>
  The loop of \<open>RtlAddAce\<close> over the new entries.  An entry of size 0 is never left: the loop does
  not end, which is the value \<open>None\<close> here.
\<close>

partial_function (option) scan_new_aces ::
    "mem \<Rightarrow> ULONG \<Rightarrow> nat \<Rightarrow> nat \<Rightarrow> USHORT \<Rightarrow> (NTSTATUS \<times> nat \<times> USHORT) option" where
  "scan_new_aces m AclRevision ListEnd Ace NewAceCount =
     (if Ace < ListEnd
      then do {
        AceType \<leftarrow> m Ace;
        if AceType \<le> ACCESS_MAX_MS_ACE_TYPE \<and>
           (if AceType > ACCESS_MAX_MS_V3_ACE_TYPE then AclRevision < 4
            else AceType > ACCESS_MAX_MS_V2_ACE_TYPE \<and> AclRevision < 3)
        then Some (STATUS_INVALID_PARAMETER, Ace, NewAceCount)
        else do {
          Size \<leftarrow> AceSize m Ace;
          scan_new_aces m AclRevision ListEnd (Ace + unat Size) (NewAceCount + 1)
        }
      }
      else Some (STATUS_SUCCESS, Ace, NewAceCount))"

definition RtlAddAce :: "mem \<Rightarrow> nat \<Rightarrow> ULONG \<Rightarrow> ULONG \<Rightarrow> nat \<Rightarrow> ULONG \<Rightarrow> (NTSTATUS \<times> mem) option" where
  "RtlAddAce m Acl AclRevision StartingIndex AceList AceListLength =
     (if \<not> RtlValidAcl m Acl then Some (STATUS_INVALID_PARAMETER, m)
      else do {
        (ok, FreeAce) \<leftarrow> RtlFirstFreeAce m Acl;
        if \<not> ok then Some (STATUS_INVALID_PARAMETER, m)
        else do {
          (Status, Ace, NewAceCount) \<leftarrow> scan_new_aces m AclRevision (AceList + unat AceListLength) AceList 0;
          if Status \<noteq> STATUS_SUCCESS then Some (Status, m)
          else if Ace > AceList + unat AceListLength then Some (STATUS_INVALID_PARAMETER, m)
          else do {
            Size \<leftarrow> AclSize m Acl;
            (case FreeAce of
               None \<Rightarrow> Some (STATUS_BUFFER_TOO_SMALL, m)
             | Some Free \<Rightarrow>
                 if Free + unat AceListLength > Acl + unat Size then Some (STATUS_BUFFER_TOO_SMALL, m)
                 else do {
                   Count \<leftarrow> AceCount m Acl;
                   Ace \<leftarrow> walk_aces m (min (unat StartingIndex) (unat Count)) (Acl + 8);
                   m \<leftarrow> RtlpAddData m AceList AceListLength Ace (of_nat (Free - Ace));
                   Count \<leftarrow> AceCount m Acl;
                   m \<leftarrow> store_USHORT m (Acl + 4) (Count + NewAceCount);
                   OldRevision \<leftarrow> m Acl;
                   m \<leftarrow> store m Acl (ucast (min (ucast OldRevision) AclRevision));
                   Some (STATUS_SUCCESS, m)
                 })
          }
        }
      })"

definition RtlDeleteAce :: "mem \<Rightarrow> nat \<Rightarrow> ULONG \<Rightarrow> (NTSTATUS \<times> mem) option" where
  "RtlDeleteAce m Acl AceIndex =
     (if \<not> RtlValidAcl m Acl then Some (STATUS_INVALID_PARAMETER, m)
      else do {
        Count \<leftarrow> AceCount m Acl;
        if ucast Count \<le> AceIndex then Some (STATUS_INVALID_PARAMETER, m)
        else do {
          (ok, FreeAce) \<leftarrow> RtlFirstFreeAce m Acl;
          if \<not> ok then Some (STATUS_INVALID_PARAMETER, m)
          else do {
            Ace \<leftarrow> walk_aces m (unat AceIndex) (Acl + 8);
            Size \<leftarrow> AceSize m Ace;
            m \<leftarrow> RtlpDeleteData m Ace (ucast Size)
                   (case FreeAce of None \<Rightarrow> - of_nat Ace | Some Free \<Rightarrow> of_nat (Free - Ace));
            Count \<leftarrow> AceCount m Acl;
            m \<leftarrow> store_USHORT m (Acl + 4) (Count - 1);
            Some (STATUS_SUCCESS, m)
          }
        }
      })"

section \<open>Creation and information\<close>

definition RtlCreateAcl :: "mem \<Rightarrow> nat \<Rightarrow> ULONG \<Rightarrow> ULONG \<Rightarrow> (NTSTATUS \<times> mem) option" where
  "RtlCreateAcl m Acl Size AclRevision =
     (if Size < 8 then Some (STATUS_BUFFER_TOO_SMALL, m)
      else if AclRevision < ucast MIN_ACL_REVISION \<or> AclRevision > ucast MAX_ACL_REVISION \<or> Size > 0xFFFF
      then Some (STATUS_INVALID_PARAMETER, m)
      else do {
        m \<leftarrow> store_USHORT m (Acl + 2) (ucast ((Size + 4 - 1) AND NOT (4 - 1)));
        m \<leftarrow> store m Acl (ucast AclRevision);
        m \<leftarrow> store_USHORT m (Acl + 4) 0;
        m \<leftarrow> store m (Acl + 1) 0;
        m \<leftarrow> store_USHORT m (Acl + 6) 0;
        Some (STATUS_SUCCESS, m)
      })"

abbreviation (input) AclRevisionInformation :: ULONG where "AclRevisionInformation \<equiv> 1"
abbreviation (input) AclSizeInformation :: ULONG where "AclSizeInformation \<equiv> 2"

definition RtlQueryInformationAcl ::
    "mem \<Rightarrow> nat \<Rightarrow> nat \<Rightarrow> ULONG \<Rightarrow> ULONG \<Rightarrow> (NTSTATUS \<times> mem) option" where
  "RtlQueryInformationAcl m Acl Information InformationLength InformationClass = do {
     AclRevision \<leftarrow> m Acl;
     if AclRevision < MIN_ACL_REVISION \<or> AclRevision > MAX_ACL_REVISION
     then Some (STATUS_INVALID_PARAMETER, m)
     else if InformationClass = AclRevisionInformation
     then if InformationLength < 4 then Some (STATUS_BUFFER_TOO_SMALL, m)
          else do {
            m \<leftarrow> store_ULONG m Information (ucast AclRevision);
            Some (STATUS_SUCCESS, m)
          }
     else if InformationClass = AclSizeInformation
     then if InformationLength < 12 then Some (STATUS_BUFFER_TOO_SMALL, m)
          else do {
            (ok, FreeAce) \<leftarrow> RtlFirstFreeAce m Acl;
            if \<not> ok then Some (STATUS_INVALID_PARAMETER, m)
            else do {
              Count \<leftarrow> AceCount m Acl;
              m \<leftarrow> store_ULONG m Information (ucast Count);
              (case FreeAce of
                 Some Ace \<Rightarrow> do {
                   m \<leftarrow> store_ULONG m (Information + 4) (of_nat (Ace - Acl));
                   Size \<leftarrow> AclSize m Acl;
                   InUse \<leftarrow> load_ULONG m (Information + 4);
                   m \<leftarrow> store_ULONG m (Information + 8) (ucast Size - InUse);
                   Some (STATUS_SUCCESS, m)
                 }
               | None \<Rightarrow> do {
                   Size \<leftarrow> AclSize m Acl;
                   m \<leftarrow> store_ULONG m (Information + 4) (ucast Size);
                   m \<leftarrow> store_ULONG m (Information + 8) 0;
                   Some (STATUS_SUCCESS, m)
                 })
            }
          }
     else Some (STATUS_INVALID_INFO_CLASS, m)
   }"

definition RtlSetInformationAcl ::
    "mem \<Rightarrow> nat \<Rightarrow> nat \<Rightarrow> ULONG \<Rightarrow> ULONG \<Rightarrow> (NTSTATUS \<times> mem) option" where
  "RtlSetInformationAcl m Acl Information InformationLength InformationClass = do {
     AclRevision \<leftarrow> m Acl;
     if AclRevision < MIN_ACL_REVISION \<or> AclRevision > MAX_ACL_REVISION
     then Some (STATUS_INVALID_PARAMETER, m)
     else if InformationClass = AclRevisionInformation
     then if InformationLength < 4 then Some (STATUS_BUFFER_TOO_SMALL, m)
          else do {
            New \<leftarrow> load_ULONG m Information;
            if ucast AclRevision \<ge> New then Some (STATUS_INVALID_PARAMETER, m)
            else do {
              m \<leftarrow> store m Acl (ucast New);
              Some (STATUS_SUCCESS, m)
            }
          }
     else Some (STATUS_INVALID_INFO_CLASS, m)
   }"

section \<open>What an ACL in memory stands for\<close>

text \<open>The bytes of the entries and of the free space behind them.\<close>

record ACL =
  AclRevisionOf :: UCHAR
  AclSbz1 :: UCHAR
  AclSbz2 :: USHORT
  Aces :: "UCHAR list list"
  FreeBytes :: "UCHAR list"

definition acl_size :: "ACL \<Rightarrow> nat" where
  "acl_size A = 8 + length (concat (Aces A)) + length (FreeBytes A)"

definition acl_bytes :: "ACL \<Rightarrow> UCHAR list" where
  "acl_bytes A = [AclRevisionOf A, AclSbz1 A] @ bytes_USHORT (of_nat (acl_size A))
     @ bytes_USHORT (of_nat (length (Aces A))) @ bytes_USHORT (AclSbz2 A) @ concat (Aces A) @ FreeBytes A"

text \<open>An entry that carries its own length.\<close>

definition sized_ace :: "UCHAR list \<Rightarrow> bool" where
  "sized_ace a \<longleftrightarrow> 4 \<le> length a \<and> take 2 (drop 2 a) = bytes_USHORT (of_nat (length a))"

definition acl_at :: "mem \<Rightarrow> nat \<Rightarrow> ACL \<Rightarrow> bool" where
  "acl_at m p A \<longleftrightarrow> holds m p (acl_bytes A) \<and> acl_size A < 65536 \<and> (\<forall>a \<in> set (Aces A). sized_ace a)"

text \<open>A SID of at most 15 subauthorities inside the entry, \<open>k\<close> bytes from its start.\<close>

definition sid_inside :: "nat \<Rightarrow> UCHAR list \<Rightarrow> bool" where
  "sid_inside k a \<longleftrightarrow> k + 8 \<le> length a \<and> a ! k = 1 \<and> unat (a ! (k + 1)) \<le> 15 \<and>
     k + 8 + 4 * unat (a ! (k + 1)) \<le> length a"

definition guid_size :: "UCHAR \<Rightarrow> nat" where
  "guid_size flags = (if bit flags 0 then 16 else 0) + (if bit flags 1 then 16 else 0)"

definition wf_ace :: "UCHAR \<Rightarrow> UCHAR list \<Rightarrow> bool" where
  "wf_ace r a \<longleftrightarrow> sized_ace a \<and> 6 \<le> length a \<and> even (length a) \<and>
     (a ! 0 \<le> 3 \<longrightarrow> 4 dvd length a \<and> sid_inside 8 a) \<and>
     (a ! 0 = 5 \<or> a ! 0 = 6 \<longrightarrow> 4 \<le> r \<and> 4 dvd length a \<and> 16 \<le> length a \<and> sid_inside (12 + guid_size (a ! 8)) a)"

definition wf_acl :: "ACL \<Rightarrow> bool" where
  "wf_acl A \<longleftrightarrow> 2 \<le> AclRevisionOf A \<and> AclRevisionOf A \<le> 4 \<and> even (acl_size A) \<and>
     (\<forall>a \<in> set (Aces A). wf_ace (AclRevisionOf A) a)"

definition known_ace :: "UCHAR \<Rightarrow> ULONG \<Rightarrow> ACCESS_MASK \<Rightarrow> ISID \<Rightarrow> UCHAR list" where
  "known_ace Type Flags Mask S =
     [Type, ucast Flags] @ bytes_USHORT (of_nat (8 + length (sid_bytes S))) @ bytes_ULONG Mask @ sid_bytes S"

section \<open>Reading the fields\<close>

lemma acl_at_fields:
  "acl_at m p A \<longleftrightarrow> m p = Some (AclRevisionOf A) \<and> m (p + 1) = Some (AclSbz1 A) \<and>
     holds m (p + 2) (bytes_USHORT (of_nat (acl_size A))) \<and>
     holds m (p + 4) (bytes_USHORT (of_nat (length (Aces A)))) \<and>
     holds m (p + 6) (bytes_USHORT (AclSbz2 A)) \<and>
     holds m (p + 8) (concat (Aces A)) \<and>
     holds m (p + 8 + length (concat (Aces A))) (FreeBytes A) \<and>
     acl_size A < 65536 \<and> (\<forall>a \<in> set (Aces A). sized_ace a)"
proof -
  have split2: "holds m q (xs @ ys) \<longleftrightarrow> holds m q xs \<and> holds m (q + 2) ys" if "length xs = 2" for q xs ys
    using that by (simp add: holds_append)
  have n: "p + 4 = Suc (Suc (Suc (Suc p)))" "p + 6 = Suc (Suc (p + 4))" "p + 8 = Suc (Suc (p + 6))"
    by simp_all
  show ?thesis
    unfolding acl_at_def acl_bytes_def
    by (subst split2, simp)+ (simp add: holds_append holds_Cons n)
qed

lemma sized_ace_length: "sized_ace a \<Longrightarrow> 4 \<le> length a"
  by (simp add: sized_ace_def)

lemma length_Aces: "(\<forall>a \<in> set as. sized_ace a) \<Longrightarrow> 4 * length as \<le> length (concat as)"
  by (induction as) (auto dest: sized_ace_length)

lemma AceSize_ok:
  assumes "holds m q a" "sized_ace a"
  shows "AceSize m q = Some (of_nat (length a))"
  using assms holds_sub [OF assms(1), of 2 2]
  by (simp add: AceSize_def load_USHORT_holds sized_ace_def)

lemma acl_header:
  assumes "acl_at m p A"
  shows "m p = Some (AclRevisionOf A)" "AclSize m p = Some (of_nat (acl_size A))"
    "AceCount m p = Some (of_nat (length (Aces A)))" "holds m (p + 8) (concat (Aces A))"
    "unat (of_nat (acl_size A) :: USHORT) = acl_size A"
    "unat (of_nat (length (Aces A)) :: USHORT) = length (Aces A)"
    "\<forall>a \<in> set (Aces A). sized_ace a" "length (Aces A) < 65536"
proof -
  have f: "acl_size A < 65536" "\<forall>a \<in> set (Aces A). sized_ace a" using assms by (simp_all add: acl_at_fields)
  with length_Aces [OF f(2)] show "length (Aces A) < 65536" by (simp add: acl_size_def)
  then show "unat (of_nat (length (Aces A)) :: USHORT) = length (Aces A)" by (rule unat_of_nat_USHORT)
  show "unat (of_nat (acl_size A) :: USHORT) = acl_size A" by (rule unat_of_nat_USHORT) (rule f)
qed (use assms in \<open>simp_all add: acl_at_fields AclSize_def AceCount_def load_USHORT_holds\<close>)

section \<open>Walking over the entries\<close>

lemma walk_aces_ok:
  assumes "holds m q (concat as)" "\<forall>a \<in> set as. sized_ace a" "length (concat as) < 65536"
  shows "walk_aces m (length as) q = Some (q + length (concat as))"
  using assms
proof (induction as arbitrary: q)
  case (Cons a as)
  then have "AceSize m q = Some (of_nat (length a))" "unat (of_nat (length a) :: USHORT) = length a"
    by (simp_all add: AceSize_ok holds_append unat_of_nat_USHORT)
  with Cons show ?case by (simp add: holds_append)
qed simp

lemma first_free_ok:
  assumes "holds m q (concat as)" "\<forall>a \<in> set as. sized_ace a" "length (concat as) < 65536"
    and "q + length (concat as) \<le> e"
  shows "first_free_from m e (length as) q = Some (True, Some (q + length (concat as)))"
  using assms
proof (induction as arbitrary: q)
  case (Cons a as)
  then have "AceSize m q = Some (of_nat (length a))" "unat (of_nat (length a) :: USHORT) = length a"
    by (simp_all add: AceSize_ok holds_append unat_of_nat_USHORT)
  moreover have "4 \<le> length a" using Cons.prems(2) by (simp add: sized_ace_length)
  ultimately show ?case using Cons by (simp add: holds_append)
qed simp

lemma get_ace_ok:
  assumes "holds m q (concat as)" "\<forall>a \<in> set as. sized_ace a" "length (concat as) < 65536"
    and "q + length (concat as) < e"
  shows "get_ace_from m e (length as) q = Some (STATUS_SUCCESS, q + length (concat as))"
  using assms
proof (induction as arbitrary: q)
  case (Cons a as)
  then have "AceSize m q = Some (of_nat (length a))" "unat (of_nat (length a) :: USHORT) = length a"
    by (simp_all add: AceSize_ok holds_append unat_of_nat_USHORT)
  with Cons show ?case by (simp add: holds_append)
qed simp

lemma RtlFirstFreeAce_ok:
  assumes "acl_at m p A"
  shows "RtlFirstFreeAce m p = Some (True, Some (p + 8 + length (concat (Aces A))))"
  using acl_header [OF assms] first_free_ok [of m "p + 8" "Aces A" "p + acl_size A"] assms
  by (simp add: RtlFirstFreeAce_def acl_at_fields acl_size_def)

section \<open>Well-formed lists are valid\<close>

lemma and_not_mask_dvd: "2 ^ k dvd unat (x :: 'a::len word) \<Longrightarrow> x AND NOT (mask k) = x"
  by (simp add: word_unat_eq_iff unat_and_not_mask)

lemma round_down_ok:
  assumes "n < 65536"
  shows "even n \<Longrightarrow> round_down (of_nat n) 2 = of_nat n"
    and "4 dvd n \<Longrightarrow> round_down (of_nat n) 4 = of_nat n"
  using and_not_mask_dvd [of 1 "of_nat n :: USHORT"] and_not_mask_dvd [of 2 "of_nat n :: USHORT"]
  by (simp_all add: round_down_def mask_numeral unat_of_nat_USHORT [OF assms])

lemma RtlLengthSid_at: "m (p + 1) = Some c \<Longrightarrow> RtlLengthSid m p = Some (8 + 4 * ucast c)"
  by (simp add: RtlLengthSid_def)

lemma unat_length: "unat (c :: UCHAR) \<le> 15 \<Longrightarrow> unat (8 + 4 * ucast c :: ULONG) = 8 + 4 * unat c"
  by (simp add: unat_word_ariths unsigned_ucast_eq take_bit_nat_eq_self)

lemma sid_inside_reads:
  assumes "holds m q a" "sid_inside k a"
  shows "m (q + k) = Some 1" "m (q + k + 1) = Some (a ! (k + 1))" "\<not> a ! (k + 1) > 15"
    "RtlLengthSid m (q + k) = Some (8 + 4 * ucast (a ! (k + 1)))"
    "unat (8 + 4 * ucast (a ! (k + 1)) :: ULONG) = 8 + 4 * unat (a ! (k + 1))"
    "k + 8 + 4 * unat (a ! (k + 1)) \<le> length a"
proof -
  have k: "k + 8 \<le> length a" "a ! k = 1" "unat (a ! (k + 1)) \<le> 15" using assms(2) by (simp_all add: sid_inside_def)
  show "m (q + k) = Some 1" using holds_nth [OF assms(1), of k] k by simp
  show "m (q + k + 1) = Some (a ! (k + 1))" using holds_nth [OF assms(1), of "k + 1"] k by (simp add: add.assoc)
  then show "RtlLengthSid m (q + k) = Some (8 + 4 * ucast (a ! (k + 1)))" by (rule RtlLengthSid_at)
  show "unat (8 + 4 * ucast (a ! (k + 1)) :: ULONG) = 8 + 4 * unat (a ! (k + 1))" by (rule unat_length) (rule k)
  show "\<not> a ! (k + 1) > 15" using k by (simp add: word_less_nat_alt)
  show "k + 8 + 4 * unat (a ! (k + 1)) \<le> length a" using assms(2) by (simp add: sid_inside_def)
qed

lemma valid_known_ace_ok:
  assumes "holds m q a" "sid_inside 8 a" "4 dvd length a" "length a < 65536"
  shows "valid_known_ace m q (of_nat (length a)) = Some True"
proof -
  note r = sid_inside_reads [OF assms(1,2)]
  have n: "unat (of_nat (length a) :: USHORT) = length a" using assms(4) by (rule unat_of_nat_USHORT)
  have "unat (4 + (8 + 4 * ucast (a ! (8 + 1))) :: ULONG) = 4 + unat (8 + 4 * ucast (a ! (8 + 1)) :: ULONG)"
    using r(5,6) assms(4) by (subst unat_add_small) simp_all
  then have "\<not> ucast (of_nat (length a) :: USHORT) < (4 + (8 + 4 * ucast (a ! (8 + 1))) :: ULONG)"
    using r(5,6) n by (simp add: word_less_nat_alt unat_ucast_USHORT)
  then show ?thesis
    using r n assms round_down_ok(2) [of "length a"]
    by (simp add: valid_known_ace_def word_less_nat_alt [of "of_nat (length a) :: USHORT"])
qed

lemma load_ULONG_low: "load_ULONG m p = Some v \<Longrightarrow> m p = Some (ucast v)"
  by (simp add: load_ULONG_holds bytes_ULONG_def holds_Cons)

lemma flag_bits: "(v :: ULONG) AND 1 = 0 \<longleftrightarrow> \<not> bit v 0" "v AND 2 = 0 \<longleftrightarrow> \<not> bit v 1"
  using and_exp_eq_0_iff_not_bit [of v 0] and_exp_eq_0_iff_not_bit [of v 1] by simp_all

lemma guid_size_ULONG:
  "unat ((if F AND 1 \<noteq> 0 then 16 else 0) + (if F AND 2 \<noteq> 0 then 16 else (0 :: ULONG))) = guid_size (ucast (F :: ULONG))"
  by (simp add: flag_bits guid_size_def bit_simps)

lemma valid_object_ace_ok:
  assumes "holds m q a" "sid_inside (12 + guid_size (a ! 8)) a" "4 dvd length a" "16 \<le> length a" "length a < 65536"
    and "4 \<le> r"
  shows "valid_object_ace m r q (of_nat (length a)) = Some True"
proof -
  obtain F where F: "load_ULONG m (q + 8) = Some F"
    using load_ULONG_mapped [of m "q + 8"] mapped_mono [OF holds_mapped [OF assms(1)], of "q + 8" 4] assms(4) by auto
  define G :: ULONG where "G = (if F AND 1 \<noteq> 0 then 16 else 0) + (if F AND 2 \<noteq> 0 then 16 else 0)"
  have "ucast F = a ! 8" using load_ULONG_low [OF F] holds_nth [OF assms(1), of 8] assms(4) by simp
  then have G: "unat G = guid_size (a ! 8)" "unat G \<le> 32"
    using guid_size_ULONG [of F] by (simp_all add: G_def guid_size_def)
  define c where "c = a ! (12 + guid_size (a ! 8) + 1)"
  have r: "m (q + 12 + unat G) = Some 1" "m (q + 12 + unat G + 1) = Some c" "\<not> c > 15"
      "RtlLengthSid m (q + 12 + unat G) = Some (8 + 4 * ucast c)"
      "unat (8 + 4 * ucast c :: ULONG) = 8 + 4 * unat c" "12 + unat G + 8 + 4 * unat c \<le> length a"
    using sid_inside_reads [OF assms(1,2)] unfolding G(1) [symmetric] c_def by (simp_all add: add.assoc)
  have n: "unat (of_nat (length a) :: USHORT) = length a" using assms(5) by (rule unat_of_nat_USHORT)
  have c: "unat c \<le> 15" using r(3) by (simp add: word_less_nat_alt)
  have "unat (12 + G + (8 + 4 * ucast c)) = 12 + unat G + (8 + 4 * unat c)"
    using r(5) G(2) c by (subst unat_add_small; (subst unat_add_small)?) simp_all
  moreover have "unat (12 + G + (8 + 4 * ucast c)) < 65536" using calculation G(2) c by simp
  ultimately have "unat (ucast (12 + G + (8 + 4 * ucast c)) :: USHORT) = 12 + unat G + (8 + 4 * unat c)"
    by (simp only: unsigned_ucast_eq) (simp add: take_bit_nat_eq_self)
  then have size: "\<not> of_nat (length a) < (ucast (12 + G + (8 + 4 * ucast c)) :: USHORT)"
    using n r(6) by (simp only: word_less_nat_alt)
  have small: "\<not> (of_nat (length a) :: USHORT) < 16" using n assms(4) by (simp add: word_less_nat_alt)
  show ?thesis
    unfolding valid_object_ace_def Let_def F Option.bind_lunit
    using size small round_down_ok(2) [OF assms(5,3)] assms(6) r
    unfolding G_def [symmetric] by simp
qed

lemma wf_ace_sized: "wf_ace r a \<Longrightarrow> sized_ace a"
  by (simp add: wf_ace_def)

lemma valid_ace_ok:
  assumes "holds m q a" "wf_ace r a" "length a < 65536" "q + length a \<le> e"
  shows "valid_ace m r e q = Some True"
proof -
  have a: "6 \<le> length a" "even (length a)" "sized_ace a" using assms(2) by (simp_all add: wf_ace_def)
  have reads: "AceSize m q = Some (of_nat (length a))" "m q = Some (a ! 0)"
    using AceSize_ok [OF assms(1) a(3)] holds_nth [OF assms(1), of 0] a(1) by (simp, fastforce)
  have n: "unat (of_nat (length a) :: USHORT) = length a" using assms(3) by (rule unat_of_nat_USHORT)
  have "valid_known_ace m q (of_nat (length a)) = Some True" if "a ! 0 \<le> 3"
    using assms that by (intro valid_known_ace_ok) (simp_all add: wf_ace_def)
  moreover have "valid_object_ace m r q (of_nat (length a)) = Some True" if "a ! 0 = 5 \<or> a ! 0 = 6"
    using assms that by (intro valid_object_ace_ok) (simp_all add: wf_ace_def)
  moreover have "\<not> (of_nat (length a) :: USHORT) < 4" using n a(1) by (simp add: word_less_nat_alt)
  ultimately show ?thesis
    using reads a assms(4) n round_down_ok(1) [OF assms(3) a(2)] by (auto simp: valid_ace_def)
qed

lemma valid_aces_ok:
  assumes "holds m q (concat as)" "\<forall>a \<in> set as. wf_ace r a" "length (concat as) < 65536" "q + length (concat as) \<le> e"
  shows "valid_aces_from m r e (length as) q = Some True"
  using assms
proof (induction as arbitrary: q)
  case (Cons a as)
  have "sized_ace a" using Cons.prems(2) by (auto intro: wf_ace_sized)
  with Cons.prems have "AceSize m q = Some (of_nat (length a))" "unat (of_nat (length a) :: USHORT) = length a"
    by (simp_all add: AceSize_ok holds_append unat_of_nat_USHORT)
  moreover have "valid_ace m r e q = Some True"
    using Cons.prems by (intro valid_ace_ok [of _ _ a]) (simp_all add: holds_append)
  ultimately show ?case using Cons by (simp add: holds_append)
qed simp

lemma RtlValidAcl_ok:
  assumes "acl_at m p A" "wf_acl A"
  shows "RtlValidAcl m p"
proof -
  note h = acl_header [OF assms(1)]
  have size: "acl_size A < 65536" using assms(1) by (simp add: acl_at_def)
  have "valid_aces_from m (AclRevisionOf A) (p + acl_size A) (length (Aces A)) (p + 8) = Some True"
    using h(4) assms(2) size by (intro valid_aces_ok) (simp_all add: wf_acl_def acl_size_def)
  moreover have "\<not> (of_nat (acl_size A) :: USHORT) < 8" using h(5) by (simp add: word_less_nat_alt acl_size_def)
  moreover have "round_down (of_nat (acl_size A)) 2 = of_nat (acl_size A)"
    using size assms(2) by (intro round_down_ok(1)) (simp_all add: wf_acl_def)
  ultimately show ?thesis using h assms(2) by (simp add: RtlValidAcl_def wf_acl_def not_less)
qed

end
