(* ===== verification/RtlAclOps.thy ===== *)
theory RtlAclOps
  imports RtlAcl
begin

text \<open>
  The operations of \<^verbatim>\<open>acl.c\<close> on the list of entries: what each routine of \<open>RtlAcl\<close> does to the
  entries and the free space of a well-formed ACL, and that it keeps the ACL well-formed.
\<close>

unbundle bit_operations_syntax

section \<open>The effect of the operations\<close>

definition append_ace :: "ACL \<Rightarrow> UCHAR \<Rightarrow> UCHAR list \<Rightarrow> ACL" where
  "append_ace A r a =
     A\<lparr>AclRevisionOf := r, Aces := Aces A @ [a], FreeBytes := drop (length a) (FreeBytes A)\<rparr>"

definition write_entry :: "mem \<Rightarrow> nat \<Rightarrow> ACL \<Rightarrow> UCHAR list \<Rightarrow> UCHAR \<Rightarrow> mem" where
  "write_entry m p A a r = put (put (put m (p + 8 + length (concat (Aces A))) a)
      (p + 4) (bytes_USHORT (of_nat (length (Aces A)) + 1))) p [r]"

definition flags_ok :: "UCHAR \<Rightarrow> ULONG \<Rightarrow> bool" where
  "flags_ok T F \<longleftrightarrow> (if T = 2 then F AND NOT (0x1F OR 0x40 OR 0x80) else F AND NOT 0x1F) = 0"

definition delete_ace :: "ACL \<Rightarrow> nat \<Rightarrow> ACL" where
  "delete_ace A i = A\<lparr>Aces := take i (Aces A) @ drop (Suc i) (Aces A),
     FreeBytes := replicate (length (Aces A ! i)) 0 @ FreeBytes A\<rparr>"

definition insert_aces :: "ACL \<Rightarrow> nat \<Rightarrow> UCHAR list list \<Rightarrow> ACL" where
  "insert_aces A i new = A\<lparr>Aces := take i (Aces A) @ new @ drop i (Aces A),
     FreeBytes := drop (length (concat new)) (FreeBytes A)\<rparr>"

definition revision_admits :: "ULONG \<Rightarrow> UCHAR list \<Rightarrow> bool" where
  "revision_admits R a \<longleftrightarrow>
     \<not> (a ! 0 \<le> 8 \<and> (if a ! 0 > 4 then R < 4 else a ! 0 > 3 \<and> R < 3))"

text \<open>
  \<open>acl_entries m p as n\<close>: a well-formed ACL of \<open>n\<close> bytes with the entries \<open>as\<close> lies at \<open>p\<close>.
\<close>

definition acl_entries :: "mem \<Rightarrow> nat \<Rightarrow> UCHAR list list \<Rightarrow> nat \<Rightarrow> bool" where
  "acl_entries m p as n \<longleftrightarrow> (\<exists>A. acl_at m p A \<and> wf_acl A \<and> Aces A = as \<and> acl_size A = n)"

definition same_outside :: "nat \<Rightarrow> nat \<Rightarrow> mem \<Rightarrow> mem \<Rightarrow> bool" where
  "same_outside p n m m' \<longleftrightarrow> (\<forall>q. q < p \<or> p + n \<le> q \<longrightarrow> m' q = m q)"

fun delete_all :: "(mem \<Rightarrow> nat \<Rightarrow> ULONG \<Rightarrow> (NTSTATUS \<times> mem) option) \<Rightarrow> nat \<Rightarrow> mem \<Rightarrow> nat \<Rightarrow> mem option" where
  "delete_all del 0 m p = Some m"
| "delete_all del (Suc k) m p = do {
     (s, m) \<leftarrow> del m p 0;
     if s = STATUS_SUCCESS then delete_all del k m p else None
   }"

text \<open>The arguments of \<open>RtlpAddKnownAce\<close> and the entry they describe.\<close>

record known_ace_args =
  ArgRevision :: ULONG
  ArgFlags :: ULONG
  ArgMask :: ACCESS_MASK
  ArgSid :: nat
  ArgType :: UCHAR

definition add_known :: "mem \<Rightarrow> nat \<Rightarrow> known_ace_args \<Rightarrow> (NTSTATUS \<times> mem) option" where
  "add_known m p x = RtlpAddKnownAce m p (ArgRevision x) (ArgFlags x) (ArgMask x) (ArgSid x) (ArgType x)"

definition describes_known :: "mem \<Rightarrow> nat \<Rightarrow> nat \<Rightarrow> known_ace_args \<Rightarrow> UCHAR list \<Rightarrow> bool" where
  "describes_known m p n x a \<longleftrightarrow> (\<exists>S. sid_at m (ArgSid x) S \<and> SidRevision S = 1 \<and>
     (ArgSid x + length (sid_bytes S) \<le> p \<or> p + n \<le> ArgSid x) \<and>
     ArgRevision x \<le> 4 \<and> ArgType x \<le> 3 \<and> flags_ok (ArgType x) (ArgFlags x) \<and>
     a = known_ace (ArgType x) (ArgFlags x) (ArgMask x) S)"

text \<open>The memory of the witnesses: a SID at 8 and an empty ACL of 48 bytes at 64.\<close>

definition empty_acl :: ACL where
  "empty_acl = \<lparr>AclRevisionOf = 2, AclSbz1 = 0, AclSbz2 = 0, Aces = [], FreeBytes = replicate 40 0\<rparr>"

definition acl_mem :: mem where
  "acl_mem = put (block 8 (sid_bytes Admins)) 64 (acl_bytes empty_acl)"

definition two_aces :: ACL where
  "two_aces = \<lparr>AclRevisionOf = 2, AclSbz1 = 0, AclSbz2 = 0,
     Aces = [known_ace 0 0 7 Admins, known_ace 1 0 1 Users], FreeBytes = []\<rparr>"

section \<open>Appending an entry\<close>

lemma sid_at_disjoint_put:
  "sid_at m s S \<Longrightarrow> s + length (sid_bytes S) \<le> p \<or> p + n \<le> s \<Longrightarrow> length bs \<le> n \<Longrightarrow> sid_at (put m p bs) s S"
  by (rule sid_at_put) auto

lemma acl_write_entry:
  assumes "acl_at m p A" "sized_ace a" "length a \<le> length (FreeBytes A)"
  shows "acl_at (write_entry m p A a r) p (append_ace A r a)"
    and "q < p \<or> p + acl_size A \<le> q \<Longrightarrow> write_entry m p A a r q = m q"
proof -
  define m' where "m' = write_entry m p A a r"
  note m'_def = m'_def [unfolded write_entry_def]
  let ?e = "p + 8 + length (concat (Aces A))"
  have f: "m (p + 1) = Some (AclSbz1 A)" "holds m (p + 2) (bytes_USHORT (of_nat (acl_size A)))"
    "holds m (p + 6) (bytes_USHORT (AclSbz2 A))" "holds m (p + 8) (concat (Aces A))" "holds m ?e (FreeBytes A)"
    "acl_size A < 65536" "\<forall>a \<in> set (Aces A). sized_ace a"
    using assms(1) by (simp_all add: acl_at_fields)
  have free: "holds m (?e + length a) (drop (length a) (FreeBytes A))"
    using holds_sub [OF f(5), of "length a" "length (FreeBytes A) - length a"] assms(3) by simp
  have size: "acl_size (append_ace A r a) = acl_size A" using assms(3) by (simp add: append_ace_def acl_size_def)
  have body: "m' x = put m ?e a x" if "p + 6 \<le> x" for x using that by (simp add: m'_def put_other)
  have h: "holds m' x bs = holds (put m ?e a) x bs" if "p + 6 \<le> x" for x bs
    using that by (intro holds_cong body) simp
  have "m' p = Some r" "m' (p + 1) = Some (AclSbz1 A)"
    using f(1) by (simp_all add: m'_def put_other put_Cons)
  moreover have "holds m' (p + 2) (bytes_USHORT (of_nat (acl_size A)))"
    using f(2) by (simp add: m'_def holds_put_other)
  moreover have "holds m' (p + 4) (bytes_USHORT (of_nat (length (Aces A)) + 1))"
    by (simp add: m'_def holds_put_other)
  moreover have "holds m' (p + 6) (bytes_USHORT (AclSbz2 A))" "holds m' (p + 8) (concat (Aces A) @ a)"
    "holds m' (p + 8 + length (concat (Aces A) @ a)) (drop (length a) (FreeBytes A))"
    using f(3,4) free by (simp_all add: h holds_append holds_put_other add.assoc)
  ultimately have "acl_at m' p (append_ace A r a)"
    using f(6,7) assms(2) size by (simp add: acl_at_fields append_ace_def add.commute)
  then show "acl_at (write_entry m p A a r) p (append_ace A r a)" by (simp add: m'_def write_entry_def)
  show "write_entry m p A a r q = m q" if "q < p \<or> p + acl_size A \<le> q"
    using that assms(3) by (auto simp: write_entry_def put_other acl_size_def)
qed

text \<open>The stores of the header of an entry.\<close>

lemma write_ace_header:
  assumes "mapped m e 8"
  shows "do {
       m \<leftarrow> store m (e + 1) f;
       m \<leftarrow> store m e t;
       m \<leftarrow> store_USHORT m (e + 2) n;
       m \<leftarrow> store_ULONG m (e + 4) am;
       k m
     } = k (put m e ([t, f] @ bytes_USHORT n @ bytes_ULONG am))"
proof -
  have map: "mapped m' e 8 \<Longrightarrow> x + k \<le> 8 \<Longrightarrow> mapped m' (e + x) k" for m' x k
    by (rule mapped_mono [where p = e and n = 8]) simp_all
  let ?m1 = "put m (e + 1) [f]" and ?m2 = "put m e [t, f]"
  have 1: "store m (e + 1) f = Some ?m1" by (intro store_put map assms) simp
  have 2: "store ?m1 e t = Some ?m2"
    using map [OF assms, of 0 1] put_append [of m e "[t]" "[f]"] by (simp add: store_put put_comm)
  have 3: "store_USHORT ?m2 (e + 2) n = Some (put ?m2 (e + 2) (bytes_USHORT n))"
    by (intro store_USHORT_put map mapped_put assms) simp
  have 4: "store_ULONG (put ?m2 (e + 2) (bytes_USHORT n)) (e + 4) am =
      Some (put (put ?m2 (e + 2) (bytes_USHORT n)) (e + 4) (bytes_ULONG am))"
    by (intro store_ULONG_put map mapped_put assms) simp
  have "put (put ?m2 (e + 2) (bytes_USHORT n)) (e + 4) (bytes_ULONG am) =
      put m e ([t, f] @ bytes_USHORT n @ bytes_ULONG am)"
    by (simp add: put_append put_Cons numeral_eq_Suc)
  then show ?thesis by (simp only: 1 2 3 4 Option.bind_lunit)
qed

lemma RtlCopySid_put:
  assumes "sid_at m s S" "mapped m d (length (sid_bytes S))"
  shows "RtlCopySid m (of_nat (length (sid_bytes S))) d s = Some (STATUS_SUCCESS, put m d (sid_bytes S))"
  using RtlCopySid_ok [OF assms] unat_sid_length [OF assms(1)] by simp

text \<open>The update of the header of the list that ends both routines.\<close>

lemma finish_entry:
  assumes "acl_at m p A" "sized_ace a" "length a \<le> length (FreeBytes A)"
  defines "m1 \<equiv> put m (p + 8 + length (concat (Aces A))) a"
  shows "do {
       Count \<leftarrow> AceCount m1 p;
       m2 \<leftarrow> store_USHORT m1 (p + 4) (Count + 1);
       m3 \<leftarrow> store m2 p r;
       Some (STATUS_SUCCESS, m3)
     } = Some (STATUS_SUCCESS, write_entry m p A a r)"
proof -
  have f: "m p = Some (AclRevisionOf A)" "holds m (p + 4) (bytes_USHORT (of_nat (length (Aces A))))"
    using assms(1) by (simp_all add: acl_at_fields)
  then have h: "holds m1 (p + 4) (bytes_USHORT (of_nat (length (Aces A))))" by (simp add: m1_def holds_put_other)
  then have "AceCount m1 p = Some (of_nat (length (Aces A)))" by (simp add: AceCount_def load_USHORT_holds)
  moreover have "store_USHORT m1 (p + 4) v = Some (put m1 (p + 4) (bytes_USHORT v))" for v
    using holds_mapped [OF h] by (intro store_USHORT_put) simp
  moreover have "store (put m1 (p + 4) bs) p r = Some (put (put m1 (p + 4) bs) p [r])" for bs
    using f(1) by (intro store_put mapped_put) (simp add: m1_def put_other mapped_def)
  ultimately show ?thesis by (simp add: write_entry_def m1_def)
qed

lemma free_mapped:
  assumes "acl_at m p A" "n \<le> length (FreeBytes A)"
  shows "mapped m (p + 8 + length (concat (Aces A))) n"
proof -
  have "holds m (p + 8 + length (concat (Aces A))) (FreeBytes A)" using assms(1) by (simp add: acl_at_fields)
  from holds_mapped [OF this] show ?thesis using assms(2) by (auto intro: mapped_mono)
qed

lemma known_ace_header:
  "known_ace T F M S = ([T, ucast F] @ bytes_USHORT (of_nat (8 + length (sid_bytes S))) @ bytes_ULONG M) @ sid_bytes S"
  by (simp add: known_ace_def)

lemma length_known_ace [simp]: "length (known_ace T F M S) = 8 + length (sid_bytes S)"
  by (simp add: known_ace_def)

lemma sized_known_ace: "sized_ace (known_ace T F M S)"
  by (simp add: sized_ace_def known_ace_def)

lemma write_known_ace:
  assumes "sid_at m s S" "mapped m e (8 + length (sid_bytes S))"
    and "s + length (sid_bytes S) \<le> e \<or> e + (8 + length (sid_bytes S)) \<le> s"
  shows "do {
       m \<leftarrow> store m (e + 1) (ucast F);
       m \<leftarrow> store m e T;
       m \<leftarrow> store_USHORT m (e + 2) (of_nat (8 + length (sid_bytes S)));
       m \<leftarrow> store_ULONG m (e + 4) M;
       n \<leftarrow> RtlLengthSid m s;
       (_, m) \<leftarrow> RtlCopySid m n (e + 8) s;
       k m
     } = k (put m e (known_ace T F M S))"
proof -
  let ?h = "[T, ucast F] @ bytes_USHORT (of_nat (8 + length (sid_bytes S))) @ bytes_ULONG M"
  have len: "length ?h = 8" by simp
  have sid: "sid_at (put m e ?h) s S"
    using assms(3) by (intro sid_at_disjoint_put [OF assms(1), where n = "8 + length (sid_bytes S)"]) auto
  have map: "mapped (put m e ?h) (e + 8) (length (sid_bytes S))"
    by (intro mapped_put mapped_mono [OF assms(2)]) simp_all
  have "put (put m e ?h) (e + 8) (sid_bytes S) = put m e (known_ace T F M S)"
    unfolding known_ace_header by (subst put_append) (simp only: len)
  moreover have "mapped m e 8" by (rule mapped_mono [OF assms(2)]) simp_all
  ultimately show ?thesis
    using RtlLengthSid_ok [OF sid] RtlCopySid_put [OF sid map]
    by (subst write_ace_header) (simp_all del: append.simps)
qed

lemma ucast_of_nat_USHORT: "n < 65536 \<Longrightarrow> ucast (of_nat n :: ULONG) = (of_nat n :: USHORT)"
  by (simp add: word_unat_eq_iff unsigned_ucast_eq unat_of_nat take_bit_nat_eq_self)

lemma RtlpAddKnownAce_ok:
  assumes A: "acl_at m p A" "wf_acl A" and S: "sid_at m s S"
    and disj: "s + length (sid_bytes S) \<le> p \<or> p + acl_size A \<le> s"
    and args: "Revision \<le> 4" "flags_ok T F"
  shows "RtlpAddKnownAce m p Revision F M s T =
    (if 8 + length (sid_bytes S) \<le> length (FreeBytes A)
     then Some (STATUS_SUCCESS, write_entry m p A (known_ace T F M S) (ucast (max Revision (ucast (AclRevisionOf A)))))
     else Some (STATUS_ALLOTTED_SPACE_EXCEEDED, m))"
proof -
  let ?n = "length (sid_bytes S)" and ?e = "p + 8 + length (concat (Aces A))"
  note h = acl_header [OF A(1)]
  have n: "?n \<le> 68" using sid_length [OF S] .
  have Size: "(of_nat ?n + 8 :: ULONG) = of_nat (8 + ?n)" "unat (of_nat (8 + ?n) :: ULONG) = 8 + ?n"
    "ucast (of_nat (8 + ?n) :: ULONG) = (of_nat (8 + ?n) :: USHORT)"
    using n by (simp, simp only: unat_of_nat, simp, intro ucast_of_nat_USHORT, simp)
  have fits: "?e + (8 + ?n) > p + acl_size A \<longleftrightarrow> \<not> 8 + ?n \<le> length (FreeBytes A)"
    by (simp add: acl_size_def not_le)
  have rev: "\<not> AclRevisionOf A > 4" using A(2) by (simp add: wf_acl_def not_less)
  have maxr: "(if Revision < ucast (AclRevisionOf A) then ucast (AclRevisionOf A) else Revision) = max Revision (ucast (AclRevisionOf A))"
    by (auto simp: max_def)
  have wr: "do {
       m \<leftarrow> store m (?e + 1) (ucast F);
       m \<leftarrow> store m ?e T;
       m \<leftarrow> store_USHORT m (?e + 2) (of_nat (8 + ?n));
       m \<leftarrow> store_ULONG m (?e + 4) M;
       n \<leftarrow> RtlLengthSid m s;
       (_, m) \<leftarrow> RtlCopySid m n (?e + 8) s;
       k m
     } = k (put m ?e (known_ace T F M S))" if "8 + ?n \<le> length (FreeBytes A)" for k :: "mem \<Rightarrow> (NTSTATUS \<times> mem) option"
    using disj that by (intro write_known_ace S free_mapped A(1)) (auto simp: acl_size_def)
  have inv: "(if T = 2 then F AND NOT (0x1F OR 0x40 OR 0x80) else F AND NOT 0x1F) = 0"
    using args(2) by (simp only: flags_ok_def)
  show ?thesis
    unfolding RtlpAddKnownAce_def Let_def h(1,2) Option.bind_lunit inv
      RtlFirstFreeAce_ok [OF A(1)] RtlLengthSid_ok [OF S] prod.case option.case h(5) Size fits maxr
    using args(1) rev wr finish_entry [OF A(1) sized_known_ace] RtlValidSid_ok [OF S] RtlValidAcl_ok [OF A]
    by (simp add: not_less)
qed

lemma wf_ace_mono: "wf_ace r a \<Longrightarrow> r \<le> r' \<Longrightarrow> wf_ace r' a"
  by (auto simp: wf_ace_def)

lemma wf_append_ace:
  assumes "wf_acl A" "wf_ace r a" "AclRevisionOf A \<le> r" "r \<le> 4" "length a \<le> length (FreeBytes A)"
  shows "wf_acl (append_ace A r a)"
proof -
  have "acl_size (append_ace A r a) = acl_size A" using assms(5) by (simp add: acl_size_def append_ace_def)
  moreover have "2 \<le> r" using assms(1,3) by (auto simp: wf_acl_def)
  ultimately show ?thesis using assms wf_ace_mono [OF _ assms(3)] by (auto simp: wf_acl_def append_ace_def)
qed

lemma wf_known_ace:
  assumes "wf_SID S" "SidRevision S = 1" "T \<le> 3"
  shows "wf_ace r (known_ace T F M S)"
proof -
  have S: "length (SidAuthority S) = 6" "length (SidSubs S) \<le> 15" using assms(1) by (simp_all add: wf_SID_def)
  have len: "length (known_ace T F M S) = 16 + 4 * length (SidSubs S)" using S(1) by (simp add: length_sid_bytes)
  have drop: "drop 8 (known_ace T F M S) = sid_bytes S" by (simp add: known_ace_def)
  have b: "known_ace T F M S ! (8 + i) = sid_bytes S ! i" if "i < length (sid_bytes S)" for i
    using that drop by (metis length_known_ace nth_drop le_add1)
  have bytes: "sid_bytes S ! 0 = 1" "sid_bytes S ! 1 = of_nat (length (SidSubs S))"
    using assms(2) by (simp_all add: sid_bytes_def)
  have "sid_inside 8 (known_ace T F M S)"
    using b [of 0] b [of 1] bytes S len by (simp add: sid_inside_def length_sid_bytes unat_small_byte)
  moreover have "known_ace T F M S ! 0 = T" by (simp add: known_ace_def)
  moreover have "\<not> (T = 5 \<or> T = 6)" using assms(3) by auto
  moreover have "4 dvd 16 + 4 * length (SidSubs S)" by presburger
  ultimately show ?thesis using sized_known_ace [of T F M S] assms(3) len by (simp add: wf_ace_def)
qed

lemma index_ok:
  assumes "acl_at m p A" "i < length (Aces A)"
  shows "unat (of_nat i :: ULONG) = i" "\<not> ucast (of_nat (length (Aces A)) :: USHORT) \<le> (of_nat i :: ULONG)"
proof -
  show i: "unat (of_nat i :: ULONG) = i" using assms(2) acl_header(8) [OF assms(1)] by (simp add: unat_of_nat)
  show "\<not> ucast (of_nat (length (Aces A)) :: USHORT) \<le> (of_nat i :: ULONG)"
    unfolding word_le_nat_alt unat_ucast_USHORT i acl_header(6) [OF assms(1)] using assms(2) by simp
qed

lemma RtlGetAce_ok:
  assumes A: "acl_at m p A" "wf_acl A" and i: "i < length (Aces A)"
  shows "RtlGetAce m p (of_nat i) = Some (STATUS_SUCCESS, Some (p + 8 + length (concat (take i (Aces A))))) \<and>
     holds m (p + 8 + length (concat (take i (Aces A)))) (Aces A ! i)"
proof -
  note h = acl_header [OF A(1)]
  have split: "concat (Aces A) = concat (take i (Aces A)) @ (Aces A ! i) @ concat (drop (Suc i) (Aces A))"
    using id_take_nth_drop [OF i] by (metis concat.simps(2) concat_append)
  have hold: "holds m (p + 8) (concat (take i (Aces A)))" "holds m (p + 8 + length (concat (take i (Aces A)))) (Aces A ! i)"
    using h(4) unfolding split by (simp_all add: holds_append)
  have pos: "4 \<le> length (Aces A ! i)" using h(7) i by (simp add: sized_ace_length)
  have size: "acl_size A < 65536" using A(1) by (simp add: acl_at_def)
  have le: "length (concat (take i (Aces A))) + length (Aces A ! i) \<le> length (concat (Aces A))"
    unfolding split by simp
  have "\<forall>a \<in> set (take i (Aces A)). sized_ace a" using h(7) by (auto dest: in_set_takeD)
  then have "get_ace_from m (p + acl_size A) i (p + 8) = Some (STATUS_SUCCESS, p + 8 + length (concat (take i (Aces A))))"
    using get_ace_ok [OF hold(1), of "p + acl_size A"] size i le pos by (simp add: acl_size_def)
  moreover have "unat (of_nat i :: ULONG) = i" "\<not> ucast (of_nat (length (Aces A)) :: USHORT) \<le> (of_nat i :: ULONG)"
    using index_ok [OF A(1) i] by simp_all
  moreover have "\<not> AclRevisionOf A < 2" "\<not> AclRevisionOf A > 4" using A(2) by (simp_all add: wf_acl_def not_less)
  ultimately show ?thesis using h hold(2) by (simp add: RtlGetAce_def)
qed

section \<open>Moving entries\<close>

lemma put_frame:
  assumes "holds m q xs" "holds m (q + length xs + length ys) zs"
  shows "put m q (xs @ ys @ zs) = put m (q + length xs) ys"
proof -
  have "put m q (xs @ ys @ zs) = put (put m (q + length xs) ys) (q + length xs + length ys) zs"
    using put_id [OF assms(1)] by (simp add: put_append)
  also have "\<dots> = put m (q + length xs) ys" using assms(2) by (intro put_id) (simp add: holds_put_other)
  finally show ?thesis .
qed

lemma acl_rewrite:
  assumes A: "acl_at m p A" and as: "\<forall>a \<in> set as'. sized_ace a"
    and len: "length (concat as') + length free' = length (concat (Aces A)) + length (FreeBytes A)"
  shows "acl_at (put (put m (p + 8) (concat as' @ free')) (p + 4) (bytes_USHORT (of_nat (length as')))) p
           (A\<lparr>Aces := as', FreeBytes := free'\<rparr>)"
    and "q < p \<or> p + acl_size A \<le> q \<Longrightarrow>
         put (put m (p + 8) (concat as' @ free')) (p + 4) (bytes_USHORT (of_nat (length as'))) q = m q"
proof -
  have size: "acl_size (A\<lparr>Aces := as', FreeBytes := free'\<rparr>) = acl_size A" using len by (simp add: acl_size_def)
  have body: "holds (put (put m (p + 8) (concat as' @ free')) (p + 4) (bytes_USHORT c)) (p + 8) (concat as' @ free')" for c
    by (simp add: holds_put_other)
  show "acl_at (put (put m (p + 8) (concat as' @ free')) (p + 4) (bytes_USHORT (of_nat (length as')))) p
           (A\<lparr>Aces := as', FreeBytes := free'\<rparr>)"
    using A as body unfolding acl_at_fields size by (simp add: holds_put_other put_other holds_append)
  show "put (put m (p + 8) (concat as' @ free')) (p + 4) (bytes_USHORT (of_nat (length as'))) q = m q"
    if "q < p \<or> p + acl_size A \<le> q"
    using that len by (auto simp: put_other acl_size_def)
qed

lemma acl_set_revision:
  assumes "acl_at m p A"
  shows "acl_at (put m p [r]) p (A\<lparr>AclRevisionOf := r\<rparr>)"
proof -
  have "acl_size (A\<lparr>AclRevisionOf := r\<rparr>) = acl_size A" by (simp add: acl_size_def)
  then show ?thesis using assms unfolding acl_at_fields by (simp add: holds_put_other put_other) (simp add: put_Cons)
qed

text \<open>The update of the number of entries and of the revision after the body was rewritten.\<close>

lemma acl_update_header:
  assumes "acl_at m p A"
  shows "AceCount (put m (p + 8) bs) p = Some (of_nat (length (Aces A)))"
    "store_USHORT (put m (p + 8) bs) (p + 4) v = Some (put (put m (p + 8) bs) (p + 4) (bytes_USHORT v))"
    "put (put m (p + 8) bs) (p + 4) (bytes_USHORT v) p = Some (AclRevisionOf A)"
    "store (put (put m (p + 8) bs) (p + 4) (bytes_USHORT v)) p r =
       Some (put (put (put m (p + 8) bs) (p + 4) (bytes_USHORT v)) p [r])"
proof -
  have cnt: "holds (put m (p + 8) bs) (p + 4) (bytes_USHORT (of_nat (length (Aces A))))"
    using assms by (simp add: acl_at_fields holds_put_other)
  then show "AceCount (put m (p + 8) bs) p = Some (of_nat (length (Aces A)))"
    by (simp add: AceCount_def load_USHORT_holds)
  show "store_USHORT (put m (p + 8) bs) (p + 4) v = Some (put (put m (p + 8) bs) (p + 4) (bytes_USHORT v))"
    using holds_mapped [OF cnt] by (intro store_USHORT_put) simp
  show rev: "put (put m (p + 8) bs) (p + 4) (bytes_USHORT v) p = Some (AclRevisionOf A)"
    using acl_header(1) [OF assms] by (simp add: put_other)
  show "store (put (put m (p + 8) bs) (p + 4) (bytes_USHORT v)) p r =
       Some (put (put (put m (p + 8) bs) (p + 4) (bytes_USHORT v)) p [r])"
    using rev by (intro store_put) (simp add: mapped_def)
qed

lemma RtlpDeleteData_ok:
  assumes "holds m q (a @ rest)" "a \<noteq> []" "unat Size = length a" "unat Offset = length a + length rest"
  shows "RtlpDeleteData m q Size Offset = Some (put m q (rest @ replicate (length a) 0))"
proof -
  have diff: "unat (Offset - Size) = length rest" using assms(3,4) by (simp add: unat_sub word_le_nat_alt)
  have map: "mapped m q (length a + length rest)" using holds_mapped [OF assms(1)] by simp
  have "(if Size < Offset then RtlMoveMemory m q (q + unat Size) (unat (Offset - Size)) else Some m) = Some (put m q rest)"
    using assms memcpy_ok [of m "q + length a" rest q] mapped_mono [OF map, of q "length rest"] diff
    by (auto simp: RtlMoveMemory_def memmove_memcpy word_less_nat_alt holds_append)
  moreover have "Offset - Size < Offset" using assms diff by (simp add: word_less_nat_alt)
  moreover have "RtlZeroMemory (put m q rest) (q + unat Offset - unat Size) (unat Size) =
      Some (put m q (rest @ replicate (length a) 0))"
    using assms(3,4) mapped_mono [OF map, of "q + length rest" "length a"] by (simp add: RtlZeroMemory_ok put_append)
  ultimately show ?thesis by (simp add: RtlpDeleteData_def)
qed

lemma RtlpAddData_ok:
  assumes "holds m q rest" "unat Offset = length rest" "holds m lst new" "unat Len = length new"
    and "mapped m (q + length rest) (length new)"
    and "lst + length new \<le> q \<or> q + length new + length rest \<le> lst"
  shows "RtlpAddData m lst Len q Offset = Some (put m q (new @ rest))"
proof -
  have map: "mapped m q (length rest + length new)"
    using holds_mapped [OF assms(1)] assms(5) by (auto simp: mapped_def) (metis add_diff_inverse_nat add.assoc nat_add_left_cancel_less)
  let ?m = "put m (q + length new) rest"
  have 1: "(if Offset > 0 then RtlCopyMemory m (q + unat Len) q (unat Offset) else Some m) = Some ?m"
    using assms(1,2,4) memcpy_ok [of m q rest "q + length new"] mapped_mono [OF map, of "q + length new" "length rest"]
    by (auto simp: RtlCopyMemory_def word_less_nat_alt)
  have "holds ?m lst new" using assms(3,6) by (subst holds_put_other) auto
  then have 2: "(if Len \<noteq> 0 then RtlCopyMemory ?m q lst (unat Len) else Some ?m) = Some (put ?m q new)"
    using assms(4) memcpy_ok [of ?m lst new q] mapped_mono [OF map, of q "length new"]
    by (auto simp: RtlCopyMemory_def unat_eq_zero)
  have "put ?m q new = put m q (new @ rest)" by (simp add: put_append put_comm)
  with 1 2 show ?thesis by (simp add: RtlpAddData_def)
qed

text \<open>The positions in the list of entries.\<close>

lemma acl_split:
  assumes "acl_at m p A" "i \<le> length (Aces A)"
  shows "holds m (p + 8) (concat (take i (Aces A)))"
    "holds m (p + 8 + length (concat (take i (Aces A)))) (concat (drop i (Aces A)) @ FreeBytes A)"
    "length (concat (Aces A)) = length (concat (take i (Aces A))) + length (concat (drop i (Aces A)))"
    "walk_aces m i (p + 8) = Some (p + 8 + length (concat (take i (Aces A))))"
proof -
  have cat: "concat (Aces A) = concat (take i (Aces A)) @ concat (drop i (Aces A))"
    by (simp flip: concat_append)
  show len: "length (concat (Aces A)) = length (concat (take i (Aces A))) + length (concat (drop i (Aces A)))"
    by (subst cat) simp
  have f: "holds m (p + 8) (concat (Aces A))" "holds m (p + 8 + length (concat (Aces A))) (FreeBytes A)"
    using assms(1) by (simp_all add: acl_at_fields)
  show h: "holds m (p + 8) (concat (take i (Aces A)))" using f(1) by (subst (asm) cat) (simp add: holds_append)
  show "holds m (p + 8 + length (concat (take i (Aces A)))) (concat (drop i (Aces A)) @ FreeBytes A)"
    using f unfolding len by (subst (asm) cat) (simp add: holds_append add.assoc)
  have "\<forall>a \<in> set (take i (Aces A)). sized_ace a" using acl_header(7) [OF assms(1)] by (auto dest: in_set_takeD)
  moreover have "length (concat (take i (Aces A))) < 65536"
    using len assms(1) by (simp add: acl_at_def acl_size_def)
  ultimately show "walk_aces m i (p + 8) = Some (p + 8 + length (concat (take i (Aces A))))"
    using walk_aces_ok [OF h] assms(2) by simp
qed

lemma RtlDeleteAce_ok:
  assumes A: "acl_at m p A" "wf_acl A" and i: "i < length (Aces A)"
  shows "\<exists>m'. RtlDeleteAce m p (of_nat i) = Some (STATUS_SUCCESS, m') \<and> acl_at m' p (delete_ace A i) \<and>
     (\<forall>q. q < p \<or> p + acl_size A \<le> q \<longrightarrow> m' q = m q)"
proof -
  let ?pre = "concat (take i (Aces A))" and ?a = "Aces A ! i" and ?post = "concat (drop (Suc i) (Aces A))"
  let ?e = "p + 8 + length ?pre" and ?z = "replicate (length (Aces A ! i)) (0 :: UCHAR)"
  let ?as = "take i (Aces A) @ drop (Suc i) (Aces A)" and ?free = "?z @ FreeBytes A"
  note h = acl_header [OF A(1)]
  note sp = acl_split [OF A(1) less_imp_le [OF i]]
  have drop: "concat (drop i (Aces A)) = ?a @ ?post" using i by (simp flip: Cons_nth_drop_Suc)
  have size: "acl_size A < 65536" using A(1) by (simp add: acl_at_def)
  have e: "holds m ?e (?a @ ?post)" and fr: "holds m (?e + length (?a @ ?post)) (FreeBytes A)"
    using sp(2) unfolding drop by (simp_all add: holds_append add.assoc)
  have a: "sized_ace ?a" using h(7) i by simp
  then have a: "sized_ace ?a" "?a \<noteq> []" using sized_ace_length [of ?a] by auto
  have len: "length (concat (Aces A)) = length ?pre + length ?a + length ?post" using sp(3) unfolding drop by simp
  have Size: "AceSize m ?e = Some (of_nat (length ?a))" "unat (ucast (of_nat (length ?a) :: USHORT) :: ULONG) = length ?a"
    using AceSize_ok [OF _ a(1)] e size len by (simp_all add: holds_append unat_ucast_USHORT unat_of_nat_USHORT acl_size_def)
  have Off: "unat (of_nat (p + 8 + length (concat (Aces A)) - ?e) :: ULONG) = length ?a + length ?post"
  proof -
    have d: "p + 8 + length (concat (Aces A)) - ?e = length ?a + length ?post" using len by simp
    show ?thesis unfolding d by (rule unat_of_nat_small) (use size len in \<open>simp add: acl_size_def\<close>)
  qed
  have del: "RtlpDeleteData m ?e (ucast (of_nat (length ?a) :: USHORT)) (of_nat (p + 8 + length (concat (Aces A)) - ?e)) =
      Some (put m ?e (?post @ ?z))"
    by (rule RtlpDeleteData_ok [OF e a(2) Size(2) Off])
  have frame: "put m ?e (?post @ ?z) = put m (p + 8) (concat ?as @ ?free)"
    using put_frame [OF sp(1), of "?post @ ?z" "FreeBytes A"] fr by (simp add: add_ac)
  let ?m = "put m (p + 8) (concat ?as @ ?free)"
  have c: "of_nat (length (Aces A)) - 1 = (of_nat (length ?as) :: USHORT)" using i by (simp add: of_nat_diff)
  have as: "\<forall>a \<in> set ?as. sized_ace a" using h(7) by (auto dest: in_set_takeD in_set_dropD)
  have "RtlDeleteAce m p (of_nat i) = Some (STATUS_SUCCESS, put ?m (p + 4) (bytes_USHORT (of_nat (length ?as))))"
    using RtlValidAcl_ok [OF A] index_ok [OF A(1) i] RtlFirstFreeAce_ok [OF A(1)] h(3) sp(4) Size(1) del frame
      acl_update_header(1) [OF A(1)] acl_update_header(2) [OF A(1), of "concat ?as @ ?free" "of_nat (length (Aces A)) - 1", unfolded c]
    by (simp add: RtlDeleteAce_def c del: length_append)
  moreover have "length (concat ?as) + length ?free = length (concat (Aces A)) + length (FreeBytes A)" using len by simp
  ultimately show ?thesis using acl_rewrite [OF A(1) as, of ?free] by (simp add: delete_ace_def)
qed

lemma acl_size_delete:
  assumes "i < length (Aces A)"
  shows "acl_size (delete_ace A i) = acl_size A"
proof -
  have "length (concat (Aces A)) = length (concat (take i (Aces A))) + length (Aces A ! i) + length (concat (drop (Suc i) (Aces A)))"
    using id_take_nth_drop [OF assms] by (metis concat.simps(2) concat_append length_append add.assoc)
  then show ?thesis by (simp add: acl_size_def delete_ace_def)
qed

lemma wf_delete_ace: "wf_acl A \<Longrightarrow> i < length (Aces A) \<Longrightarrow> wf_acl (delete_ace A i)"
  using acl_size_delete [of i A] by (auto simp: wf_acl_def delete_ace_def dest: in_set_takeD in_set_dropD)

section \<open>Inserting a list of entries\<close>

lemma scan_new_aces_ok:
  assumes "holds m q (concat new)" "\<forall>a \<in> set new. sized_ace a \<and> revision_admits R a" "length (concat new) < 65536"
  shows "scan_new_aces m R (q + length (concat new)) q c = Some (STATUS_SUCCESS, q + length (concat new), c + of_nat (length new))"
  using assms
proof (induction new arbitrary: q c)
  case Nil
  then show ?case by (simp add: scan_new_aces.simps)
next
  case (Cons a as)
  have a: "sized_ace a" "revision_admits R a" "4 \<le> length a" using Cons.prems(2) by (auto dest: sized_ace_length)
  have h: "holds m q a" "holds m (q + length a) (concat as)" using Cons.prems(1) by (simp_all add: holds_append)
  have reads: "AceSize m q = Some (of_nat (length a))" "unat (of_nat (length a) :: USHORT) = length a" "m q = Some (a ! 0)"
    using AceSize_ok [OF h(1) a(1)] Cons.prems(3) holds_nth [OF h(1), of 0] a(3)
    by (simp, simp add: unat_of_nat_USHORT, fastforce)
  have "scan_new_aces m R (q + length a + length (concat as)) (q + length a) (c + 1) =
      Some (STATUS_SUCCESS, q + length a + length (concat as), c + 1 + of_nat (length as))"
    using Cons.prems h(2) by (intro Cons.IH) simp_all
  then show ?case
    using reads a(2,3) by (subst scan_new_aces.simps) (auto simp: revision_admits_def add_ac)
qed

lemma RtlAddAce_ok:
  assumes A: "acl_at m p A" "wf_acl A" and new: "holds m lst (concat new)" "unat Len = length (concat new)"
    and ok: "\<forall>a \<in> set new. sized_ace a \<and> revision_admits R a"
    and disj: "lst + length (concat new) \<le> p \<or> p + acl_size A \<le> lst"
    and fits: "length (concat new) \<le> length (FreeBytes A)"
    and i_def: "i = min (unat StartingIndex) (length (Aces A))"
  shows "\<exists>m'. RtlAddAce m p R StartingIndex lst Len = Some (STATUS_SUCCESS, m') \<and>
     acl_at m' p ((insert_aces A i new)\<lparr>AclRevisionOf := ucast (min (ucast (AclRevisionOf A)) R)\<rparr>) \<and>
     (\<forall>q. q < p \<or> p + acl_size A \<le> q \<longrightarrow> m' q = m q)"
proof -
  let ?pre = "concat (take i (Aces A))" and ?post = "concat (drop i (Aces A))"
  let ?e = "p + 8 + length ?pre" and ?f = "p + 8 + length (concat (Aces A))"
  let ?as = "take i (Aces A) @ new @ drop i (Aces A)" and ?free = "drop (length (concat new)) (FreeBytes A)"
  let ?r = "ucast (min (ucast (AclRevisionOf A)) R)"
  note h = acl_header [OF A(1)]
  have i: "i \<le> length (Aces A)" by (simp add: i_def)
  note sp = acl_split [OF A(1) i]
  have size: "acl_size A < 65536" using A(1) by (simp add: acl_at_def)
  have post: "holds m ?e ?post" and free: "holds m (?e + length ?post) (FreeBytes A)"
    using sp(2) by (simp_all add: holds_append)
  have off: "unat (of_nat (?f - ?e) :: ULONG) = length ?post"
  proof -
    have d: "?f - ?e = length ?post" using sp(3) by simp
    show ?thesis unfolding d by (rule unat_of_nat_small) (use size sp(3) in \<open>simp add: acl_size_def\<close>)
  qed
  have "mapped m (?e + length ?post) (length (concat new))"
    using holds_mapped [OF free] fits by (auto intro: mapped_mono)
  moreover have "lst + length (concat new) \<le> ?e \<or> ?e + length (concat new) + length ?post \<le> lst"
    using disj fits sp(3) by (auto simp: acl_size_def)
  ultimately have add: "RtlpAddData m lst Len ?e (of_nat (?f - ?e)) = Some (put m ?e (concat new @ ?post))"
    by (intro RtlpAddData_ok post off new)
  have "holds m (?e + length (concat new @ ?post)) ?free"
    using holds_sub [OF free, of "length (concat new)" "length (FreeBytes A) - length (concat new)"] fits
    by (simp add: add_ac)
  then have frame: "put m ?e (concat new @ ?post) = put m (p + 8) (concat ?as @ ?free)"
    using put_frame [OF sp(1), of "concat new @ ?post" ?free] by (simp add: add_ac)
  let ?m = "put m (p + 8) (concat ?as @ ?free)" and ?c = "bytes_USHORT (of_nat (length ?as))"
  have c: "of_nat (length (Aces A)) + of_nat (length new) = (of_nat (length ?as) :: USHORT)"
    using i by (simp add: of_nat_diff)
  have scan: "scan_new_aces m R (lst + length (concat new)) lst 0 = Some (STATUS_SUCCESS, lst + length (concat new), of_nat (length new))"
    using scan_new_aces_ok [OF new(1) ok, of 0] fits size by (simp add: acl_size_def)
  have run: "RtlAddAce m p R StartingIndex lst Len = Some (STATUS_SUCCESS, put (put ?m (p + 4) ?c) p [?r])"
    unfolding RtlAddAce_def RtlFirstFreeAce_ok [OF A(1)] Option.bind_lunit prod.case new(2) scan option.case h(2,3,5,6)
      i_def [symmetric] sp(4) add frame acl_update_header [OF A(1)] c
    using RtlValidAcl_ok [OF A] fits by (simp add: acl_size_def)
  have as: "\<forall>a \<in> set ?as. sized_ace a" using h(7) ok by (auto dest: in_set_takeD in_set_dropD)
  have len: "length (concat ?as) + length ?free = length (concat (Aces A)) + length (FreeBytes A)"
    using sp(3) fits by simp
  have "acl_at (put (put ?m (p + 4) ?c) p [?r]) p ((insert_aces A i new)\<lparr>AclRevisionOf := ?r\<rparr>)"
    using acl_set_revision [OF acl_rewrite(1) [OF A(1) as len], of ?r] by (simp add: insert_aces_def)
  moreover have "put (put ?m (p + 4) ?c) p [?r] q = m q" if "q < p \<or> p + acl_size A \<le> q" for q
    using acl_rewrite(2) [OF A(1) as len that] that by (subst put_other) (auto simp: acl_size_def)
  ultimately show ?thesis using run by blast
qed



text \<open>
  An entry of size 0 in the new list keeps the loop where it is: every result the loop could have
  is excluded by induction over its computation.
\<close>

lemma scan_new_aces_stuck:
  assumes "AceSize m q = Some 0" "m q = Some t" "t > 8" "q < e"
  shows "scan_new_aces m R e q c = None"
proof (rule ccontr)
  assume "scan_new_aces m R e q c \<noteq> None"
  then obtain y where "scan_new_aces m R e q c = Some y" by blast
  have "\<not> (AceSize m q = Some 0 \<and> (\<exists>t. m q = Some t \<and> t > 8) \<and> q < e)"
  proof (rule scan_new_aces.raw_induct [of "\<lambda>m R e q c y. \<not> (AceSize m q = Some 0 \<and> (\<exists>t. m q = Some t \<and> t > 8) \<and> q < e)"])
    show "scan_new_aces m R e q c = Some y" by fact
  qed (fastforce split: bind_splits if_splits)
  with assms show False by blast
qed

section \<open>Creation\<close>

lemma RtlCreateAcl_ok:
  assumes map: "holds m (p + 8) bs" "mapped m p 8" "length bs + 8 = (unat Size + 3) div 4 * 4"
    and args: "8 \<le> Size" "Size \<le> 65532" "2 \<le> R" "R \<le> 4"
  shows "\<exists>m'. RtlCreateAcl m p Size R = Some (STATUS_SUCCESS, m') \<and>
     acl_at m' p \<lparr>AclRevisionOf = ucast R, AclSbz1 = 0, AclSbz2 = 0, Aces = [], FreeBytes = bs\<rparr> \<and>
     (\<forall>q. q < p \<or> p + 8 \<le> q \<longrightarrow> m' q = m q)"
proof -
  have Size: "unat Size \<le> 65532" using args(2) by (simp add: word_le_nat_alt)
  have "unat (Size + 4 - 1) = unat Size + 3"
    using Size unat_add_small [of 3 Size] by simp
  then have "unat ((Size + 4 - 1) AND NOT (mask 2)) = length bs + 8" using map(3) by (simp add: unat_and_not_mask)
  moreover have "(4 - 1 :: ULONG) = mask 2" by (simp add: mask_numeral)
  ultimately have sz: "(Size + 4 - 1) AND NOT (4 - 1) = of_nat (length bs + 8)" by (metis of_nat_unat ucast_id)
  have len: "length bs + 8 < 65536" using map(3) Size by linarith
  have u: "ucast ((Size + 4 - 1) AND NOT (4 - 1)) = (of_nat (length bs + 8) :: USHORT)"
    unfolding sz by (rule ucast_of_nat_USHORT) (rule len)
  let ?n = "bytes_USHORT (of_nat (length bs + 8))" and ?z = "bytes_USHORT 0"
  let ?m = "put (put (put (put (put m (p + 2) ?n) p [ucast R]) (p + 4) ?z) (p + 1) [0]) (p + 6) ?z"
  have st: "store_USHORT m' (p + x) v = Some (put m' (p + x) (bytes_USHORT v))" if "mapped m' p 8" "x + 2 \<le> 8" for m' x v
    by (intro store_USHORT_put mapped_mono [OF that(1)]) (use that(2) in simp_all)
  have st1: "store m' (p + x) v = Some (put m' (p + x) [v])" if "mapped m' p 8" "x + 1 \<le> 8" for m' x v
    by (intro store_put mapped_mono [OF that(1)]) (use that(2) in simp_all)
  have st0: "store m' p v = Some (put m' p [v])" if "mapped m' p 8" for m' v using st1 [OF that, of 0] by simp
  have guards: "\<not> Size < 8" "\<not> (R < ucast (2 :: UCHAR) \<or> R > ucast (4 :: UCHAR) \<or> Size > 0xFFFF)"
    using args Size by (simp_all add: not_less word_le_nat_alt)
  have "RtlCreateAcl m p Size R = Some (STATUS_SUCCESS, ?m)"
    unfolding RtlCreateAcl_def u if_not_P [OF guards(1)] if_not_P [OF guards(2)]
    by (simp only: st st1 st0 map(2) mapped_put Option.bind_lunit)
  moreover have "acl_at ?m p \<lparr>AclRevisionOf = ucast R, AclSbz1 = 0, AclSbz2 = 0, Aces = [], FreeBytes = bs\<rparr>"
    using map(1) len unfolding acl_at_fields
    by (simp add: holds_put_other put_other acl_size_def add.commute) (simp add: put_Cons put_other)
  moreover have "?m q = m q" if "q < p \<or> p + 8 \<le> q" for q using that by (auto simp: put_other)
  ultimately show ?thesis by blast
qed

section \<open>Validated lists are safe to walk\<close>

lemma valid_aceD:
  assumes "valid_ace m r e q = Some True"
  obtains Size where "AceSize m q = Some Size" "q + 4 < e" "q + unat Size \<le> e"
  using assms by (auto simp: valid_ace_def not_less not_le split: if_splits bind_splits)

lemma valid_aces_walk:
  assumes "valid_aces_from m r e n q = Some True" "q \<le> e"
  shows "\<exists>q'. first_free_from m e n q = Some (True, Some q') \<and> q \<le> q' \<and> q' \<le> e"
  using assms
proof (induction n arbitrary: q)
  case (Suc n)
  then have ok: "valid_ace m r e q = Some True" by (auto split: bind_splits if_splits)
  from valid_aceD [OF ok] obtain Size where s: "AceSize m q = Some Size" "q + 4 < e" "q + unat Size \<le> e" .
  then have "valid_aces_from m r e n (q + unat Size) = Some True" using Suc.prems(1) ok by simp
  from Suc.IH [OF this s(3)] obtain q' where
    "first_free_from m e n (q + unat Size) = Some (True, Some q')" "q + unat Size \<le> q'" "q' \<le> e" by blast
  then show ?case using s by auto
qed simp

lemma RtlValidAcl_walk:
  assumes "RtlValidAcl m p"
  shows "\<exists>Size q. AclSize m p = Some Size \<and> RtlFirstFreeAce m p = Some (True, Some q) \<and>
     p + 8 \<le> q \<and> q \<le> p + unat Size"
proof -
  from assms obtain r Size Count where
    "m p = Some r" "AclSize m p = Some Size" "\<not> Size < 8" "AceCount m p = Some Count"
    "valid_aces_from m r (p + unat Size) (unat Count) (p + 8) = Some True"
    by (auto simp: RtlValidAcl_def split: option.splits bind_splits if_splits)
  moreover from this valid_aces_walk [of m r "p + unat Size" "unat Count" "p + 8"]
  obtain q where "first_free_from m (p + unat Size) (unat Count) (p + 8) = Some (True, Some q)"
    "p + 8 \<le> q" "q \<le> p + unat Size" by (auto simp: not_less word_le_nat_alt)
  ultimately show ?thesis by (auto simp: RtlFirstFreeAce_def)
qed

section \<open>The contract of an access control list\<close>

locale ace_list =
  fixes entries :: "mem \<Rightarrow> nat \<Rightarrow> UCHAR list list \<Rightarrow> nat \<Rightarrow> bool"
    and get :: "mem \<Rightarrow> nat \<Rightarrow> ULONG \<Rightarrow> (NTSTATUS \<times> nat option) option"
    and del :: "mem \<Rightarrow> nat \<Rightarrow> ULONG \<Rightarrow> (NTSTATUS \<times> mem) option"
  assumes get_nth: "entries m p as n \<Longrightarrow> i < length as \<Longrightarrow>
      \<exists>q. get m p (of_nat i) = Some (STATUS_SUCCESS, Some q) \<and> holds m q (as ! i)"
    and del_nth: "entries m p as n \<Longrightarrow> i < length as \<Longrightarrow>
      \<exists>m'. del m p (of_nat i) = Some (STATUS_SUCCESS, m') \<and>
        entries m' p (take i as @ drop (Suc i) as) n \<and> same_outside p n m m'"
begin

lemma get_after_del:
  assumes "entries m p as n" "i < length as" "j < length as - 1"
  shows "\<exists>m' q. del m p (of_nat i) = Some (STATUS_SUCCESS, m') \<and>
     get m' p (of_nat j) = Some (STATUS_SUCCESS, Some q) \<and> holds m' q (as ! (if j < i then j else Suc j))"
proof -
  obtain m' where m': "del m p (of_nat i) = Some (STATUS_SUCCESS, m')"
    "entries m' p (take i as @ drop (Suc i) as) n" using del_nth [OF assms(1,2)] by blast
  have j: "j < length (take i as @ drop (Suc i) as)" using assms(2,3) by simp
  have "(take i as @ drop (Suc i) as) ! j = as ! (if j < i then j else Suc j)"
    using assms(2,3) by (simp add: nth_append)
  with get_nth [OF m'(2) j] m'(1) show ?thesis by auto
qed

lemma drain:
  assumes "entries m p as n"
  shows "\<exists>m'. delete_all del (length as) m p = Some m' \<and> entries m' p [] n \<and> same_outside p n m m'"
  using assms
proof (induction as arbitrary: m)
  case Nil
  then show ?case by (simp add: same_outside_def)
next
  case (Cons a as)
  obtain m1 where m1: "del m p 0 = Some (STATUS_SUCCESS, m1)" "entries m1 p as n" "same_outside p n m m1"
    using del_nth [OF Cons.prems, of 0] by auto
  from Cons.IH [OF m1(2)] obtain m' where
    "delete_all del (length as) m1 p = Some m'" "entries m' p [] n" "same_outside p n m1 m'" by blast
  with m1 show ?case by (auto simp: same_outside_def)
qed

end

text \<open>An ACL to which entries can be appended, described by arguments \<open>x\<close> of \<open>add\<close>.\<close>

locale growing_ace_list = ace_list +
  fixes add :: "mem \<Rightarrow> nat \<Rightarrow> 'x \<Rightarrow> (NTSTATUS \<times> mem) option"
    and describes :: "mem \<Rightarrow> nat \<Rightarrow> nat \<Rightarrow> 'x \<Rightarrow> UCHAR list \<Rightarrow> bool"
  assumes add_last: "entries m p as n \<Longrightarrow> describes m p n x a \<Longrightarrow> 8 + length (concat as) + length a \<le> n \<Longrightarrow>
      \<exists>m'. add m p x = Some (STATUS_SUCCESS, m') \<and> entries m' p (as @ [a]) n \<and> same_outside p n m m'"
begin

lemma get_added:
  assumes "entries m p as n" "describes m p n x a" "8 + length (concat as) + length a \<le> n"
  shows "\<exists>m' q. add m p x = Some (STATUS_SUCCESS, m') \<and>
     get m' p (of_nat (length as)) = Some (STATUS_SUCCESS, Some q) \<and> holds m' q a"
proof -
  obtain m' where m': "add m p x = Some (STATUS_SUCCESS, m')" "entries m' p (as @ [a]) n"
    using add_last [OF assms] by blast
  with get_nth [OF m'(2), of "length as"] show ?thesis by auto
qed

lemma del_added:
  assumes "entries m p as n" "describes m p n x a" "8 + length (concat as) + length a \<le> n"
  shows "\<exists>m1 m2. add m p x = Some (STATUS_SUCCESS, m1) \<and>
     del m1 p (of_nat (length as)) = Some (STATUS_SUCCESS, m2) \<and> entries m2 p as n \<and> same_outside p n m m2"
proof -
  obtain m1 where m1: "add m p x = Some (STATUS_SUCCESS, m1)" "entries m1 p (as @ [a]) n" "same_outside p n m m1"
    using add_last [OF assms] by blast
  with del_nth [OF m1(2), of "length as"] show ?thesis by (auto simp: same_outside_def)
qed

end

lemma ucast_ucast_UCHAR: "ucast (ucast (x :: UCHAR) :: ULONG) = x"
  by (rule bit_word_eqI) (auto simp: bit_simps)

lemma RtlpAddKnownAce_entries:
  assumes A: "acl_at m p A" "wf_acl A" and S: "sid_at m s S" "SidRevision S = 1"
    and disj: "s + length (sid_bytes S) \<le> p \<or> p + acl_size A \<le> s"
    and args: "R \<le> 4" "flags_ok T F" "T \<le> 3" and room: "8 + length (sid_bytes S) \<le> length (FreeBytes A)"
  shows "\<exists>m' A'. RtlpAddKnownAce m p R F M s T = Some (STATUS_SUCCESS, m') \<and> acl_at m' p A' \<and> wf_acl A' \<and>
     Aces A' = Aces A @ [known_ace T F M S] \<and> acl_size A' = acl_size A \<and>
     ucast (AclRevisionOf A') = max R (ucast (AclRevisionOf A)) \<and> same_outside p (acl_size A) m m'"
proof -
  let ?r = "ucast (max R (ucast (AclRevisionOf A))) :: UCHAR" and ?a = "known_ace T F M S"
  let ?A = "append_ace A ?r ?a" and ?m = "write_entry m p A ?a ?r"
  have rev: "unat (AclRevisionOf A) \<le> 4" "unat R \<le> 4" using A(2) args(1) by (simp_all add: wf_acl_def word_le_nat_alt)
  then have u: "unat (max R (ucast (AclRevisionOf A))) = max (unat R) (unat (AclRevisionOf A))"
    by (auto simp: max_def word_le_nat_alt unsigned_ucast_eq take_bit_nat_eq_self)
  then have r: "unat ?r = max (unat R) (unat (AclRevisionOf A))" using rev
    by (simp add: unsigned_ucast_eq unsigned_take_bit_eq take_bit_nat_eq_self)
  have le: "AclRevisionOf A \<le> ?r" "?r \<le> 4" using r rev by (simp_all add: word_le_nat_alt)
  have wide: "(ucast ?r :: ULONG) = max R (ucast (AclRevisionOf A))"
    by (simp only: word_unat_eq_iff unat_ucast_UCHAR r u)
  have len: "length ?a \<le> length (FreeBytes A)" using room by simp
  have "wf_SID S" using S(1) by (simp add: sid_at_def)
  then have "wf_acl ?A" using wf_append_ace [OF A(2) _ le len] wf_known_ace [OF _ S(2) args(3)] by blast
  moreover have "acl_at ?m p ?A" and out: "same_outside p (acl_size A) m ?m"
    using acl_write_entry [OF A(1) sized_known_ace len] by (simp_all add: same_outside_def)
  moreover have "RtlpAddKnownAce m p R F M s T = Some (STATUS_SUCCESS, ?m)"
    using RtlpAddKnownAce_ok [OF A S(1) disj args(1,2)] room by simp
  moreover have "Aces ?A = Aces A @ [?a]" "acl_size ?A = acl_size A" "AclRevisionOf ?A = ?r"
    using len by (simp_all add: append_ace_def acl_size_def)
  ultimately show ?thesis using wide by metis
qed

interpretation rtl_acl: ace_list acl_entries RtlGetAce RtlDeleteAce
proof
  fix m p as n i
  assume "acl_entries m p as n" "i < length as"
  then obtain A where A: "acl_at m p A" "wf_acl A" "Aces A = as" "acl_size A = n" "i < length (Aces A)"
    by (auto simp: acl_entries_def)
  show "\<exists>q. RtlGetAce m p (of_nat i) = Some (STATUS_SUCCESS, Some q) \<and> holds m q (as ! i)"
    using RtlGetAce_ok [OF A(1,2,5)] A(3) by blast
  have "acl_size (delete_ace A i) = n" using acl_size_delete [OF A(5)] A(4) by simp
  then show "\<exists>m'. RtlDeleteAce m p (of_nat i) = Some (STATUS_SUCCESS, m') \<and>
      acl_entries m' p (take i as @ drop (Suc i) as) n \<and> same_outside p n m m'"
    using RtlDeleteAce_ok [OF A(1,2,5)] wf_delete_ace [OF A(2,5)] A(3,4)
    unfolding acl_entries_def same_outside_def delete_ace_def by fastforce
qed

interpretation rtl_acl_add: growing_ace_list acl_entries RtlGetAce RtlDeleteAce add_known describes_known
proof
  fix m p as n x a
  assume "acl_entries m p as n" "describes_known m p n x a" "8 + length (concat as) + length a \<le> n"
  then obtain A S where A: "acl_at m p A" "wf_acl A" "Aces A = as" "acl_size A = n"
    and S: "sid_at m (ArgSid x) S" "SidRevision S = 1" "ArgSid x + length (sid_bytes S) \<le> p \<or> p + acl_size A \<le> ArgSid x"
      "ArgRevision x \<le> 4" "ArgType x \<le> 3" "flags_ok (ArgType x) (ArgFlags x)"
    and a: "a = known_ace (ArgType x) (ArgFlags x) (ArgMask x) S" "8 + length (concat (Aces A)) + length a \<le> acl_size A"
    by (auto simp: acl_entries_def describes_known_def)
  have "8 + length (sid_bytes S) \<le> length (FreeBytes A)" using a by (simp add: acl_size_def)
  from RtlpAddKnownAce_entries [OF A(1,2) S(1-3) S(4) S(6) S(5) this, of "ArgMask x"]
  show "\<exists>m'. add_known m p x = Some (STATUS_SUCCESS, m') \<and> acl_entries m' p (as @ [a]) n \<and> same_outside p n m m'"
    using A(3,4) a(1) unfolding acl_entries_def add_known_def by blast
qed

section \<open>Properties\<close>

lemma acl_mem_ok: "acl_at acl_mem 64 empty_acl" "wf_acl empty_acl" "sid_at acl_mem 8 Admins" "acl_size empty_acl = 48"
proof -
  have "length (acl_bytes empty_acl) = 48" by (simp add: acl_bytes_def empty_acl_def)
  then show "sid_at acl_mem 8 Admins"
    unfolding acl_mem_def by (intro sid_at_put sid_at_block wf_example) (simp_all add: length_example)
qed (simp_all add: acl_at_def acl_mem_def wf_acl_def acl_size_def empty_acl_def)

lemma two_aces_ok: "acl_entries (block 64 (acl_bytes two_aces)) 64 (Aces two_aces) 56"
proof -
  have size: "acl_size two_aces = 56" by (simp add: acl_size_def two_aces_def length_example)
  have "wf_ace 2 (known_ace 0 0 7 Admins)" "wf_ace 2 (known_ace 1 0 1 Users)"
    using wf_example by (auto intro!: wf_known_ace simp: Admins_def Users_def)
  then have "wf_acl two_aces" using size by (simp add: wf_acl_def two_aces_def)
  moreover have "acl_at (block 64 (acl_bytes two_aces)) 64 two_aces"
    using size by (simp add: acl_at_def two_aces_def sized_known_ace)
  ultimately show ?thesis using size by (auto simp: acl_entries_def)
qed

text \<open>
  C7. For a revision argument of at most 4, an entry type of at most 3 and flags that are
  valid for the type: adding an entry for a valid SID of revision 1 that lies outside a
  well-formed ACL appends exactly the encoded entry, leaves one of the two revisions in the
  header, keeps the size and the well-formedness of the ACL and changes no byte outside it;
  when the free space is too small the status is STATUS_ALLOTTED_SPACE_EXCEEDED and nothing
  changes.
\<close>

theorem RtlpAddKnownAce_correct:
  assumes "acl_at m Acl A" "wf_acl A" "sid_at m Sid S" "SidRevision S = 1"
    and "Sid + length (sid_bytes S) \<le> Acl \<or> Acl + acl_size A \<le> Sid"
    and "Revision \<le> 4" "flags_ok Type Flags" "Type \<le> 3"
  shows "if 8 + length (sid_bytes S) \<le> length (FreeBytes A)
    then \<exists>m' A'. RtlpAddKnownAce m Acl Revision Flags Mask Sid Type = Some (STATUS_SUCCESS, m') \<and>
        acl_at m' Acl A' \<and> wf_acl A' \<and> Aces A' = Aces A @ [known_ace Type Flags Mask S] \<and>
        acl_size A' = acl_size A \<and> ucast (AclRevisionOf A') \<in> {Revision, ucast (AclRevisionOf A)} \<and>
        same_outside Acl (acl_size A) m m'
    else RtlpAddKnownAce m Acl Revision Flags Mask Sid Type = Some (STATUS_ALLOTTED_SPACE_EXCEEDED, m)"
proof (cases "8 + length (sid_bytes S) \<le> length (FreeBytes A)")
  case True
  then obtain m' A' where "RtlpAddKnownAce m Acl Revision Flags Mask Sid Type = Some (STATUS_SUCCESS, m')" "acl_at m' Acl A'" "wf_acl A'"
    "Aces A' = Aces A @ [known_ace Type Flags Mask S]" "acl_size A' = acl_size A" "same_outside Acl (acl_size A) m m'"
    and "ucast (AclRevisionOf A') = max Revision (ucast (AclRevisionOf A))"
    using RtlpAddKnownAce_entries [OF assms(1-7) assms(8)] by blast
  moreover have "max Revision (ucast (AclRevisionOf A)) \<in> {Revision, ucast (AclRevisionOf A)}" by (simp add: max_def)
  ultimately show ?thesis using True by auto
next
  case False
  then show ?thesis using RtlpAddKnownAce_ok [OF assms(1-3) assms(5-7)] by simp
qed

theorem RtlpAddKnownAce_correct_witness:
  "\<exists>m' A'. RtlpAddKnownAce acl_mem 64 2 0 0x1F01FF 8 0 = Some (STATUS_SUCCESS, m') \<and>
     acl_at m' 64 A' \<and> wf_acl A' \<and> Aces A' = [known_ace 0 0 0x1F01FF Admins]"
proof -
  have "SidRevision Admins = 1" "flags_ok 0 0" "length (FreeBytes empty_acl) = 40" "Aces empty_acl = []"
    by (simp_all add: Admins_def flags_ok_def empty_acl_def)
  then show ?thesis
    using RtlpAddKnownAce_correct [OF acl_mem_ok(1-3), of 2 0 0 "0x1F01FF"] by (auto simp: length_example)
qed



text \<open>
  C21. An access-allowed entry added to a well-formed ACL with enough space is what
  RtlGetAce returns for the next index, and deleting that index restores the list of
  entries.
\<close>

theorem RtlAddAccessAllowedAce_get:
  assumes "acl_entries m Acl as n" "sid_at m Sid S" "SidRevision S = 1"
    and "Sid + length (sid_bytes S) \<le> Acl \<or> Acl + n \<le> Sid" "Revision \<le> 4"
    and "16 + length (concat as) + length (sid_bytes S) \<le> n"
  shows "\<exists>m1 m2 q. RtlAddAccessAllowedAce m Acl Revision Mask Sid = Some (STATUS_SUCCESS, m1) \<and>
     RtlGetAce m1 Acl (of_nat (length as)) = Some (STATUS_SUCCESS, Some q) \<and> holds m1 q (known_ace 0 0 Mask S) \<and>
     RtlDeleteAce m1 Acl (of_nat (length as)) = Some (STATUS_SUCCESS, m2) \<and> acl_entries m2 Acl as n"
proof -
  let ?x = "\<lparr>ArgRevision = Revision, ArgFlags = 0, ArgMask = Mask, ArgSid = Sid, ArgType = 0\<rparr>"
  have x: "describes_known m Acl n ?x (known_ace 0 0 Mask S)"
    using assms(2-5) by (auto simp: describes_known_def flags_ok_def)
  have room: "8 + length (concat as) + length (known_ace 0 0 Mask S) \<le> n" using assms(6) by simp
  have "add_known m Acl ?x = RtlAddAccessAllowedAce m Acl Revision Mask Sid"
    by (simp add: add_known_def RtlAddAccessAllowedAce_def)
  then show ?thesis
    using rtl_acl_add.get_added [OF assms(1) x room] rtl_acl_add.del_added [OF assms(1) x room] by auto
qed

theorem RtlAddAccessAllowedAce_get_witness:
  "\<exists>m1 m2 q. RtlAddAccessAllowedAce acl_mem 64 2 7 8 = Some (STATUS_SUCCESS, m1) \<and>
     RtlGetAce m1 64 0 = Some (STATUS_SUCCESS, Some q) \<and> holds m1 q (known_ace 0 0 7 Admins) \<and>
     RtlDeleteAce m1 64 0 = Some (STATUS_SUCCESS, m2) \<and> acl_entries m2 64 [] 48"
proof -
  have "acl_entries acl_mem 64 [] 48"
    using acl_mem_ok unfolding acl_entries_def by (intro exI [of _ empty_acl]) (simp add: empty_acl_def)
  moreover have "SidRevision Admins = 1" by (simp add: Admins_def)
  ultimately show ?thesis
    using RtlAddAccessAllowedAce_get [of acl_mem 64 "[]" 48 8 Admins 2 7] acl_mem_ok(3) by (simp add: length_example)
qed

text \<open>
  C33. Deleting the first entry of a well-formed ACL as often as it has entries succeeds
  every time and leaves a well-formed ACL of the same size without entries, with no byte
  outside it changed.
\<close>

theorem RtlDeleteAce_drains:
  assumes "acl_entries m Acl as n"
  shows "\<exists>m'. delete_all RtlDeleteAce (length as) m Acl = Some m' \<and> acl_entries m' Acl [] n \<and> same_outside Acl n m m'"
  by (rule rtl_acl.drain [OF assms])

theorem RtlDeleteAce_drains_witness:
  "\<exists>m'. delete_all RtlDeleteAce 2 (block 64 (acl_bytes two_aces)) 64 = Some m' \<and> acl_entries m' 64 [] 56"
  using RtlDeleteAce_drains [OF two_aces_ok] by (auto simp: numeral_2_eq_2 two_aces_def)

text \<open>
  C24. RtlValidAcl accepts every well-formed ACL, and for an ACL it accepts RtlFirstFreeAce
  walks over all entries without a fault and ends at an address between the header and the
  end of the ACL.
\<close>

theorem RtlValidAcl_sound:
  "(acl_entries m Acl as n \<longrightarrow> RtlValidAcl m Acl) \<and>
   (RtlValidAcl m Acl \<longrightarrow> (\<exists>Size q. AclSize m Acl = Some Size \<and>
      RtlFirstFreeAce m Acl = Some (True, Some q) \<and> Acl + 8 \<le> q \<and> q \<le> Acl + unat Size))"
  using RtlValidAcl_ok RtlValidAcl_walk by (auto simp: acl_entries_def)

theorem RtlValidAcl_sound_witness:
  "\<exists>Size q. AclSize (block 64 (acl_bytes two_aces)) 64 = Some Size \<and>
     RtlFirstFreeAce (block 64 (acl_bytes two_aces)) 64 = Some (True, Some q) \<and> 72 \<le> q \<and> q \<le> 64 + unat Size"
  using RtlValidAcl_sound [of "block 64 (acl_bytes two_aces)" 64 "Aces two_aces" 56] two_aces_ok by simp

text \<open>
  An entry of an unknown type and size 0 in the new list is never left: \<open>RtlAddAce\<close> does not return.
\<close>

lemma RtlAddAce_no_progress:
  assumes "acl_entries m Acl as n" "AceSize m AceList = Some 0" "m AceList = Some t" "t > 8" "0 < AceListLength"
  shows "RtlAddAce m Acl AclRevision StartingIndex AceList AceListLength = None"
proof -
  obtain A where A: "acl_at m Acl A" "wf_acl A" using assms(1) by (auto simp: acl_entries_def)
  have "0 < unat AceListLength" using assms(5) by (simp add: word_less_nat_alt)
  then have "scan_new_aces m AclRevision (AceList + unat AceListLength) AceList 0 = None"
    by (intro scan_new_aces_stuck [OF assms(2-4)]) simp
  then show ?thesis using RtlValidAcl_ok [OF A] RtlFirstFreeAce_ok [OF A(1)] by (simp add: RtlAddAce_def)
qed

text \<open>
  The new revision of the list is the smaller one, but the new entries were checked against the
  argument: an object entry put into a list of revision 2 makes the list invalid.
\<close>

lemma RtlAddAce_invalidates:
  assumes "acl_at m Acl A" "wf_acl A" "AclRevisionOf A < 4" "Aces A = []"
    and "holds m AceList a" "unat AceListLength = length a" "sized_ace a" "a ! 0 = 5" "even (length a)"
    and "AceList + length a \<le> Acl \<or> Acl + acl_size A \<le> AceList" "length a \<le> length (FreeBytes A)"
  shows "\<exists>m'. RtlAddAce m Acl 4 0 AceList AceListLength = Some (STATUS_SUCCESS, m') \<and> \<not> RtlValidAcl m' Acl"
proof -
  have adm: "\<forall>x \<in> set [a]. sized_ace x \<and> revision_admits 4 x" using assms(7,8) by (simp add: revision_admits_def)
  have i: "0 = min (unat (0 :: ULONG)) (length (Aces A))" by simp
  let ?r = "ucast (min (ucast (AclRevisionOf A)) 4 :: ULONG) :: UCHAR"
  let ?A = "(insert_aces A 0 [a])\<lparr>AclRevisionOf := ?r\<rparr>"
  obtain m' where m': "RtlAddAce m Acl 4 0 AceList AceListLength = Some (STATUS_SUCCESS, m')" "acl_at m' Acl ?A"
    using RtlAddAce_ok [OF assms(1,2) _ _ adm _ _ i, of AceList AceListLength] assms(5,6,10,11) by auto
  have "unat (ucast (AclRevisionOf A) :: ULONG) < 4" using assms(3) by (simp add: unat_ucast_UCHAR word_less_nat_alt)
  then have "min (ucast (AclRevisionOf A)) 4 = (ucast (AclRevisionOf A) :: ULONG)" by (simp add: min_def word_le_nat_alt)
  then have r: "?r = AclRevisionOf A" by (simp add: ucast_ucast_UCHAR)
  have h: "holds m' (Acl + 8) a" using m'(2) assms(4) by (simp add: acl_at_fields insert_aces_def)
  have "m' (Acl + 8) = Some (5 :: UCHAR)" "AceSize m' (Acl + 8) = Some (of_nat (length a))"
    using holds_nth [OF h, of 0] assms(7,8) sized_ace_length [OF assms(7)] AceSize_ok [OF h assms(7)] by (force, simp)
  then have v: "valid_ace m' (AclRevisionOf A) e (Acl + 8) \<noteq> Some True" for e
    using assms(3) by (auto simp: valid_ace_def valid_object_ace_def split: if_splits)
  have "\<not> RtlValidAcl m' Acl"
    using acl_header(1,2,3,6) [OF m'(2)] assms(4) r v
    by (auto simp: RtlValidAcl_def insert_aces_def split: option.splits if_splits bind_splits)
  with m'(1) show ?thesis by blast
qed

end
