(* ===== verification/SeToken.thy ===== *)
theory SeToken
  imports RtlAclOps
begin

text \<open>
  What the access check reads of an access token and of a security descriptor: the test of a SID
  against the SIDs of a token and the SID of an ACE (\<^verbatim>\<open>ntoskrnl/se/sid.c\<close>), the ownership,
  administrator and restriction tests (\<^verbatim>\<open>token.c\<close>), the privilege checks (\<^verbatim>\<open>priv.c\<close>), the parts of
  a security descriptor (\<^verbatim>\<open>ntoskrnl/include/internal/se.h\<close>, \<^verbatim>\<open>sdk/lib/rtl/sd.c\<close>) and the lists of
  object types (\<^verbatim>\<open>objtype.c\<close>).

  SIDs, ACLs and security descriptors lie in the byte memory of \<open>CrtMem\<close>; the token is a record
  whose SID arrays point into it.  The structures have their 32-bit layout.  Locks have no effect
  on the results and are left out; \<^verbatim>\<open>ASSERT\<close> is not compiled into a free build.
\<close>

unbundle bit_operations_syntax

section \<open>Tokens\<close>

datatype KPROCESSOR_MODE = KernelMode | UserMode

datatype SECURITY_IMPERSONATION_LEVEL =
  SecurityAnonymous | SecurityIdentification | SecurityImpersonation | SecurityDelegation

datatype TOKEN_TYPE = TokenPrimary | TokenImpersonation

record TOKEN =
  UserAndGroups :: "SID_AND_ATTRIBUTES list"
  RestrictedSids :: "SID_AND_ATTRIBUTES list"
  TokenPrivileges :: "LUID_AND_ATTRIBUTES list"
  TokenFlags :: ULONG
  TokenType :: TOKEN_TYPE
  TokenLevel :: SECURITY_IMPERSONATION_LEVEL

abbreviation (input) SE_GROUP_ENABLED :: ULONG where "SE_GROUP_ENABLED \<equiv> 0x4"
abbreviation (input) SE_GROUP_USE_FOR_DENY_ONLY :: ULONG where "SE_GROUP_USE_FOR_DENY_ONLY \<equiv> 0x10"
abbreviation (input) TOKEN_HAS_ADMIN_GROUP :: ULONG where "TOKEN_HAS_ADMIN_GROUP \<equiv> 0x8"
abbreviation (input) TOKEN_IS_RESTRICTED :: ULONG where "TOKEN_IS_RESTRICTED \<equiv> 0x10"

definition SeTokenIsAdmin :: "TOKEN \<Rightarrow> bool" where
  "SeTokenIsAdmin Token \<longleftrightarrow> TokenFlags Token AND TOKEN_HAS_ADMIN_GROUP \<noteq> 0"

definition SeTokenIsRestricted :: "TOKEN \<Rightarrow> bool" where
  "SeTokenIsRestricted Token \<longleftrightarrow> TokenFlags Token AND TOKEN_IS_RESTRICTED \<noteq> 0"

text \<open>The loop of \<open>SepSidInTokenEx\<close>, from the element with index \<open>SidIndex\<close> on.\<close>

fun sid_in_token_from ::
    "mem \<Rightarrow> nat \<Rightarrow> ULONG \<Rightarrow> USHORT \<Rightarrow> bool \<Rightarrow> bool \<Rightarrow> nat \<Rightarrow> SID_AND_ATTRIBUTES list \<Rightarrow> bool option" where
  "sid_in_token_from m Sid SidLength SidMetadata Deny Restricted SidIndex [] = Some False"
| "sid_in_token_from m Sid SidLength SidMetadata Deny Restricted SidIndex (x # xs) = do {
     TokenMetadata \<leftarrow> load_USHORT m (SidPtr x);
     Same \<leftarrow> (if TokenMetadata = SidMetadata then RtlEqualMemory m Sid (SidPtr x) (unat SidLength) else Some False);
     if Same
     then Some (\<not> Restricted \<and> SidIndex = 0 \<and> SidAttributes x AND SE_GROUP_USE_FOR_DENY_ONLY = 0 \<or>
                SidAttributes x AND SE_GROUP_ENABLED \<noteq> 0 \<or>
                Deny \<and> SidAttributes x AND SE_GROUP_USE_FOR_DENY_ONLY \<noteq> 0)
     else sid_in_token_from m Sid SidLength SidMetadata Deny Restricted (SidIndex + 1) xs
   }"

text \<open>\<open>SePrincipalSelfSid\<close> is the address of the well-known SID of that name.\<close>

definition SepSidInTokenEx ::
    "mem \<Rightarrow> nat \<Rightarrow> TOKEN \<Rightarrow> nat \<Rightarrow> nat \<Rightarrow> bool \<Rightarrow> bool \<Rightarrow> bool option" where
  "SepSidInTokenEx m SePrincipalSelfSid Token PrincipalSelfSid Sid Deny Restricted = do {
     IsSelf \<leftarrow> (if PrincipalSelfSid \<noteq> 0 then RtlEqualSid m SePrincipalSelfSid Sid else Some False);
     let Sid = (if IsSelf then PrincipalSelfSid else Sid);
     let SidAndAttributes = (if Restricted then RestrictedSids Token else UserAndGroups Token);
     SubAuthorityCount \<leftarrow> m (Sid + 1);
     let SidLength = 8 + 4 * ucast SubAuthorityCount;
     SidMetadata \<leftarrow> load_USHORT m Sid;
     sid_in_token_from m Sid SidLength SidMetadata Deny Restricted 0 SidAndAttributes
   }"

definition SepSidInToken :: "mem \<Rightarrow> nat \<Rightarrow> TOKEN \<Rightarrow> nat \<Rightarrow> bool option" where
  "SepSidInToken m SePrincipalSelfSid Token Sid = SepSidInTokenEx m SePrincipalSelfSid Token 0 Sid False False"

text \<open>The address of the SID of an ACE, 0 for an unknown type of ACE.\<close>

definition SepGetSidFromAce :: "mem \<Rightarrow> nat \<Rightarrow> nat option" where
  "SepGetSidFromAce m Ace = do {
     AceType \<leftarrow> m Ace;
     if AceType = ACCESS_DENIED_ACE_TYPE \<or> AceType = ACCESS_ALLOWED_ACE_TYPE \<or>
        AceType = SYSTEM_AUDIT_ACE_TYPE \<or> AceType = 3
     then Some (Ace + 8)
     else if AceType = ACCESS_DENIED_OBJECT_ACE_TYPE \<or> AceType = ACCESS_ALLOWED_OBJECT_ACE_TYPE
     then do {
       Flags \<leftarrow> load_ULONG m (Ace + 8);
       let GuidSize = (if Flags AND ACE_OBJECT_TYPE_PRESENT \<noteq> 0 then 16 else 0)
                    + (if Flags AND ACE_INHERITED_OBJECT_TYPE_PRESENT \<noteq> 0 then 16 else (0 :: ULONG));
       Some (Ace + 12 + unat GuidSize)
     }
     else Some 0
   }"

section \<open>Privileges\<close>

abbreviation (input) SE_PRIVILEGE_ENABLED :: ULONG where "SE_PRIVILEGE_ENABLED \<equiv> 0x2"
abbreviation (input) SE_PRIVILEGE_USED_FOR_ACCESS :: ULONG where "SE_PRIVILEGE_USED_FOR_ACCESS \<equiv> 0x80000000"
abbreviation (input) PRIVILEGE_SET_ALL_NECESSARY :: ULONG where "PRIVILEGE_SET_ALL_NECESSARY \<equiv> 1"

definition SeSecurityPrivilege :: LUID where
  "SeSecurityPrivilege = \<lparr>LowPart = 8, HighPart = 0\<rparr>"

definition SeTakeOwnershipPrivilege :: LUID where
  "SeTakeOwnershipPrivilege = \<lparr>LowPart = 9, HighPart = 0\<rparr>"

text \<open>The inner loop: the attributes of the first privilege of the token with that LUID.\<close>

fun token_privilege :: "LUID_AND_ATTRIBUTES list \<Rightarrow> LUID \<Rightarrow> ULONG option" where
  "token_privilege [] v = None"
| "token_privilege (p # ps) v = (if RtlEqualLuid (Luid p) v then Some (LuidAttributes p) else token_privilege ps v)"

text \<open>The outer loop, which also marks the privileges it used in the array of the caller.\<close>

fun check_privileges ::
    "LUID_AND_ATTRIBUTES list \<Rightarrow> LUID_AND_ATTRIBUTES list \<Rightarrow> ULONG \<Rightarrow> bool \<times> LUID_AND_ATTRIBUTES list" where
  "check_privileges held [] Required = (False, [])"
| "check_privileges held (p # ps) Required =
     (case token_privilege held (Luid p) of
        Some Attributes \<Rightarrow>
          if Attributes AND SE_PRIVILEGE_ENABLED \<noteq> 0
          then let p = p\<lparr>LuidAttributes := LuidAttributes p OR SE_PRIVILEGE_USED_FOR_ACCESS\<rparr>
               in if Required - 1 = 0 then (True, p # ps)
                  else let (r, ps) = check_privileges held ps (Required - 1) in (r, p # ps)
          else let (r, ps) = check_privileges held ps Required in (r, p # ps)
      | None \<Rightarrow> let (r, ps) = check_privileges held ps Required in (r, p # ps))"

definition SepPrivilegeCheck ::
    "TOKEN \<Rightarrow> LUID_AND_ATTRIBUTES list \<Rightarrow> ULONG \<Rightarrow> KPROCESSOR_MODE \<Rightarrow> bool \<times> LUID_AND_ATTRIBUTES list" where
  "SepPrivilegeCheck Token Privileges PrivilegeControl PreviousMode =
     (if PreviousMode = KernelMode then (True, Privileges)
      else check_privileges (TokenPrivileges Token) Privileges
             (if PrivilegeControl AND PRIVILEGE_SET_ALL_NECESSARY \<noteq> 0 then of_nat (length Privileges) else 1))"

definition SepSinglePrivilegeCheck :: "LUID \<Rightarrow> TOKEN \<Rightarrow> KPROCESSOR_MODE \<Rightarrow> bool" where
  "SepSinglePrivilegeCheck PrivilegeValue Token PreviousMode =
     fst (SepPrivilegeCheck Token [\<lparr>Luid = PrivilegeValue, LuidAttributes = SE_PRIVILEGE_ENABLED\<rparr>]
            PRIVILEGE_SET_ALL_NECESSARY PreviousMode)"

record PRIVILEGE_SET =
  PsControl :: ULONG
  Privilege :: "LUID_AND_ATTRIBUTES list"

record SECURITY_SUBJECT_CONTEXT =
  ClientToken :: "TOKEN option"
  ImpersonationLevel :: SECURITY_IMPERSONATION_LEVEL
  PrimaryToken :: TOKEN

abbreviation (input) ACCESS_SYSTEM_SECURITY :: ACCESS_MASK where "ACCESS_SYSTEM_SECURITY \<equiv> 0x01000000"
abbreviation (input) MAXIMUM_ALLOWED :: ACCESS_MASK where "MAXIMUM_ALLOWED \<equiv> 0x02000000"
abbreviation (input) READ_CONTROL :: ACCESS_MASK where "READ_CONTROL \<equiv> 0x00020000"
abbreviation (input) WRITE_DAC :: ACCESS_MASK where "WRITE_DAC \<equiv> 0x00040000"
abbreviation (input) WRITE_OWNER :: ACCESS_MASK where "WRITE_OWNER \<equiv> 0x00080000"

text \<open>
  The status, the two masks the caller passed by reference, and what was stored through
  \<open>OutPrivilegeSet\<close> (\<open>None\<close>: nothing; \<open>Some None\<close>: a null pointer).  \<open>pool n\<close> says whether the pool
  has \<open>n\<close> bytes; \<open>want\<close> says whether \<open>OutPrivilegeSet\<close> is given.
\<close>

definition policy_privileges :: "ACCESS_MASK \<Rightarrow> LUID_AND_ATTRIBUTES list" where
  "policy_privileges AccessMask =
     (if AccessMask AND WRITE_OWNER \<noteq> 0
      then [\<lparr>Luid = SeTakeOwnershipPrivilege, LuidAttributes = SE_PRIVILEGE_USED_FOR_ACCESS\<rparr>] else []) @
     (if AccessMask AND ACCESS_SYSTEM_SECURITY \<noteq> 0
      then [\<lparr>Luid = SeSecurityPrivilege, LuidAttributes = SE_PRIVILEGE_USED_FOR_ACCESS\<rparr>] else [])"

definition SePrivilegePolicyCheck ::
    "(nat \<Rightarrow> bool) \<Rightarrow> ACCESS_MASK \<Rightarrow> ACCESS_MASK \<Rightarrow> SECURITY_SUBJECT_CONTEXT option \<Rightarrow> TOKEN \<Rightarrow> bool \<Rightarrow> KPROCESSOR_MODE \<Rightarrow>
     NTSTATUS \<times> ACCESS_MASK \<times> ACCESS_MASK \<times> PRIVILEGE_SET option option" where
  "SePrivilegePolicyCheck pool DesiredAccess GrantedAccess SubjectContext Token want PreviousMode =
     (let Token = (case SubjectContext of None \<Rightarrow> Token
                   | Some c \<Rightarrow> (case ClientToken c of Some t \<Rightarrow> t | None \<Rightarrow> PrimaryToken c));
          Security = DesiredAccess AND ACCESS_SYSTEM_SECURITY \<noteq> 0
      in if Security \<and> \<not> SepSinglePrivilegeCheck SeSecurityPrivilege Token PreviousMode
         then (STATUS_PRIVILEGE_NOT_HELD, DesiredAccess, GrantedAccess, None)
         else
           let Owner = DesiredAccess AND WRITE_OWNER \<noteq> 0 \<and>
                       SepSinglePrivilegeCheck SeTakeOwnershipPrivilege Token PreviousMode;
               AccessMask = (if Security then ACCESS_SYSTEM_SECURITY else 0) OR (if Owner then WRITE_OWNER else 0);
               PrivilegeCount = (if Security then 1 else 0) + (if Owner then 1 else (0 :: nat));
               GrantedAccess = GrantedAccess OR AccessMask;
               DesiredAccess = DesiredAccess AND NOT AccessMask
           in if \<not> want then (STATUS_SUCCESS, DesiredAccess, GrantedAccess, None)
              else if PrivilegeCount > 0
              then if pool (8 + 12 * PrivilegeCount)
                   then (STATUS_SUCCESS, DesiredAccess, GrantedAccess,
                         Some (Some \<lparr>PsControl = 0, Privilege = policy_privileges AccessMask\<rparr>))
                   else (STATUS_INSUFFICIENT_RESOURCES, DesiredAccess, GrantedAccess, Some None)
              else (STATUS_SUCCESS, DesiredAccess, GrantedAccess, Some None))"

section \<open>Security descriptors\<close>

abbreviation (input) SECURITY_DESCRIPTOR_REVISION :: UCHAR where "SECURITY_DESCRIPTOR_REVISION \<equiv> 1"
abbreviation (input) SE_DACL_PRESENT :: USHORT where "SE_DACL_PRESENT \<equiv> 0x0004"
abbreviation (input) SE_DACL_DEFAULTED :: USHORT where "SE_DACL_DEFAULTED \<equiv> 0x0008"
abbreviation (input) SE_SACL_PRESENT :: USHORT where "SE_SACL_PRESENT \<equiv> 0x0010"
abbreviation (input) SE_SELF_RELATIVE :: USHORT where "SE_SELF_RELATIVE \<equiv> 0x8000"

text \<open>
  A part of a descriptor: \<open>Member\<close> is the offset of the member, which holds an offset from the
  descriptor in the self-relative form and an address in the absolute one; 0 is a null pointer.
\<close>

definition descriptor_part :: "mem \<Rightarrow> nat \<Rightarrow> USHORT \<Rightarrow> nat \<Rightarrow> nat option" where
  "descriptor_part m Descriptor Control Member = do {
     v \<leftarrow> load_ULONG m (Descriptor + Member);
     if Control AND SE_SELF_RELATIVE \<noteq> 0
     then Some (if v = 0 then 0 else Descriptor + unat v)
     else Some (unat v)
   }"

definition SepGetOwnerFromDescriptor :: "mem \<Rightarrow> nat \<Rightarrow> nat option" where
  "SepGetOwnerFromDescriptor m Descriptor = do {
     Control \<leftarrow> load_USHORT m (Descriptor + 2);
     descriptor_part m Descriptor Control 4
   }"

definition SepGetGroupFromDescriptor :: "mem \<Rightarrow> nat \<Rightarrow> nat option" where
  "SepGetGroupFromDescriptor m Descriptor = do {
     Control \<leftarrow> load_USHORT m (Descriptor + 2);
     descriptor_part m Descriptor Control 8
   }"

definition SepGetSaclFromDescriptor :: "mem \<Rightarrow> nat \<Rightarrow> nat option" where
  "SepGetSaclFromDescriptor m Descriptor = do {
     Control \<leftarrow> load_USHORT m (Descriptor + 2);
     if Control AND SE_SACL_PRESENT = 0 then Some 0 else descriptor_part m Descriptor Control 12
   }"

definition SepGetDaclFromDescriptor :: "mem \<Rightarrow> nat \<Rightarrow> nat option" where
  "SepGetDaclFromDescriptor m Descriptor = do {
     Control \<leftarrow> load_USHORT m (Descriptor + 2);
     if Control AND SE_DACL_PRESENT = 0 then Some 0 else descriptor_part m Descriptor Control 16
   }"

text \<open>
  The last three components are \<^verbatim>\<open>*DaclPresent\<close>, \<^verbatim>\<open>*Dacl\<close> and \<^verbatim>\<open>*DaclDefaulted\<close>, \<open>None\<close> when the
  call did not write them.
\<close>

definition RtlGetDaclSecurityDescriptor ::
    "mem \<Rightarrow> nat \<Rightarrow> (NTSTATUS \<times> bool option \<times> nat option \<times> bool option) option" where
  "RtlGetDaclSecurityDescriptor m Sd = do {
     Revision \<leftarrow> m Sd;
     if Revision \<noteq> SECURITY_DESCRIPTOR_REVISION then Some (STATUS_UNKNOWN_REVISION, None, None, None)
     else do {
       Control \<leftarrow> load_USHORT m (Sd + 2);
       if Control AND SE_DACL_PRESENT = SE_DACL_PRESENT
       then do {
         Dacl \<leftarrow> SepGetDaclFromDescriptor m Sd;
         Some (STATUS_SUCCESS, Some True, Some Dacl, Some (Control AND SE_DACL_DEFAULTED = SE_DACL_DEFAULTED))
       }
       else Some (STATUS_SUCCESS, Some False, None, None)
     }
   }"

definition SepTokenIsOwner :: "mem \<Rightarrow> nat \<Rightarrow> TOKEN \<Rightarrow> nat \<Rightarrow> bool option" where
  "SepTokenIsOwner m SePrincipalSelfSid Token SecurityDescriptor = do {
     Sid \<leftarrow> SepGetOwnerFromDescriptor m SecurityDescriptor;
     Result \<leftarrow> SepSidInToken m SePrincipalSelfSid Token Sid;
     if Result \<and> TokenFlags Token AND TOKEN_IS_RESTRICTED \<noteq> 0
     then SepSidInTokenEx m SePrincipalSelfSid Token 0 Sid False True
     else Some Result
   }"

section \<open>What a token stands for\<close>

text \<open>
  \<open>group_list_at m xs gs\<close>: the array \<open>xs\<close> holds the SIDs and attributes \<open>gs\<close>.  The byte string of a SID
  identifies it, and it is what an ACE carries.  \<open>group_counts\<close> is the answer for the element with
  index \<open>i\<close> whose SID matches, \<open>token_has\<close> the answer for a whole list.
\<close>

definition group_list_at :: "mem \<Rightarrow> SID_AND_ATTRIBUTES list \<Rightarrow> (ISID \<times> ULONG) list \<Rightarrow> bool" where
  "group_list_at m xs gs \<longleftrightarrow> list_all2 (\<lambda>x g. sid_at m (SidPtr x) (fst g) \<and> SidAttributes x = snd g) xs gs"

definition group_counts :: "bool \<Rightarrow> bool \<Rightarrow> nat \<Rightarrow> ULONG \<Rightarrow> bool" where
  "group_counts Deny Restricted i attrs \<longleftrightarrow>
     \<not> Restricted \<and> i = 0 \<and> \<not> bit attrs 4 \<or> bit attrs 2 \<or> Deny \<and> bit attrs 4"

fun token_has :: "bool \<Rightarrow> bool \<Rightarrow> nat \<Rightarrow> (ISID \<times> ULONG) list \<Rightarrow> UCHAR list \<Rightarrow> bool" where
  "token_has Deny Restricted i [] sid = False"
| "token_has Deny Restricted i (g # gs) sid =
     (if sid_bytes (fst g) = sid then group_counts Deny Restricted i (snd g)
      else token_has Deny Restricted (Suc i) gs sid)"

definition privilege_enabled :: "TOKEN \<Rightarrow> LUID \<Rightarrow> bool" where
  "privilege_enabled Token v \<longleftrightarrow>
     (case token_privilege (TokenPrivileges Token) v of None \<Rightarrow> False | Some a \<Rightarrow> bit a 1)"

lemma ULONG_flag: "(v :: ULONG) AND 0x4 = 0 \<longleftrightarrow> \<not> bit v 2" "v AND 0x10 = 0 \<longleftrightarrow> \<not> bit v 4"
    "v AND 0x2 = 0 \<longleftrightarrow> \<not> bit v 1"
  using and_exp_eq_0_iff_not_bit [of v 2] and_exp_eq_0_iff_not_bit [of v 4] and_exp_eq_0_iff_not_bit [of v 1]
  by simp_all

text \<open>The two comparisons of the loop together compare the SIDs.\<close>

lemma same_sid:
  assumes S: "sid_at m p S" and T: "sid_at m q T" and mp: "load_USHORT m p = Some mp"
  shows "(do { a \<leftarrow> load_USHORT m q;
     if a = mp then RtlEqualMemory m p q (length (sid_bytes S)) else Some False }) = Some (sid_bytes T = sid_bytes S)"
proof -
  obtain mq where mq: "load_USHORT m q = Some mq"
    using load_USHORT_pair [OF sid_fields(1,2) [OF T]] by blast
  have n: "RtlLengthSid m p = Some (of_nat (length (sid_bytes S)))" by (rule RtlLengthSid_ok [OF S])
  have "RtlEqualSid m p q = Some (S = T)" by (rule RtlEqualSid_ok [OF S T])
  moreover have "sid_bytes T = sid_bytes S \<longleftrightarrow> S = T"
    using S T sid_bytes_inject [of T S] by (auto simp: sid_at_def)
  ultimately show ?thesis
    using mp mq n unat_sid_length [OF S] by (auto simp: RtlEqualSid_def split: if_splits)
qed

lemma sid_in_token_from_ok:
  assumes "group_list_at m xs gs" "sid_at m p S" "load_USHORT m p = Some mp"
  shows "sid_in_token_from m p (of_nat (length (sid_bytes S))) mp Deny Restricted i xs =
     Some (token_has Deny Restricted i gs (sid_bytes S))"
  using assms(1) unfolding group_list_at_def
proof (induction xs gs arbitrary: i rule: list_all2_induct)
  case (Cons x xs g gs)
  then have T: "sid_at m (SidPtr x) (fst g)" "SidAttributes x = snd g" by simp_all
  note same = same_sid [OF assms(2) T(1) assms(3)]
  obtain a where a: "load_USHORT m (SidPtr x) = Some a" using same by (cases "load_USHORT m (SidPtr x)") auto
  from same have "(if a = mp then RtlEqualMemory m p (SidPtr x) (unat (of_nat (length (sid_bytes S)) :: ULONG))
      else Some False) = Some (sid_bytes (fst g) = sid_bytes S)"
    unfolding unat_sid_length [OF assms(2)] a by simp
  then show ?case by (simp only: sid_in_token_from.simps a Option.bind_lunit T(2) Cons.IH)
      (simp add: group_counts_def ULONG_flag)
qed simp

lemma SepSidInTokenEx_ok:
  assumes "sid_at m p S" "group_list_at m (if Restricted then RestrictedSids T else UserAndGroups T) gs"
  shows "SepSidInTokenEx m self T 0 p Deny Restricted = Some (token_has Deny Restricted 0 gs (sid_bytes S))"
proof -
  obtain mp where mp: "load_USHORT m p = Some mp"
    using load_USHORT_pair [OF sid_fields(1,2) [OF assms(1)]] by blast
  have "8 + 4 * ucast (of_nat (length (SidSubs S)) :: UCHAR) = (of_nat (length (sid_bytes S)) :: ULONG)"
    using RtlLengthSid_ok [OF assms(1)] sid_fields(2) [OF assms(1)] by (simp add: RtlLengthSid_def)
  then show ?thesis
    using sid_in_token_from_ok [OF assms(2,1) mp] sid_fields(2) [OF assms(1)] mp
    by (simp add: SepSidInTokenEx_def Let_def)
qed

text \<open>With a principal, the well-known SID of the principal itself stands for it.\<close>

lemma SepSidInTokenEx_self:
  assumes "sid_at m p S" "sid_at m self Self" "sid_at m q Q"
    and "group_list_at m (if Restricted then RestrictedSids T else UserAndGroups T) gs"
  shows "SepSidInTokenEx m self T q p Deny Restricted =
     Some (token_has Deny Restricted 0 gs (sid_bytes (if S = Self then Q else S)))"
proof -
  have q: "q \<noteq> 0" using assms(3) by (simp add: sid_at_def)
  have "SepSidInTokenEx m self T q p Deny Restricted =
      SepSidInTokenEx m self T 0 (if Self = S then q else p) Deny Restricted"
    using q RtlEqualSid_ok [OF assms(2,1)] by (simp add: SepSidInTokenEx_def Let_def)
  then show ?thesis using assms SepSidInTokenEx_ok [OF assms(1,4)] SepSidInTokenEx_ok [OF assms(3,4)] by auto
qed

section \<open>What the privilege checks decide\<close>

lemma SepSinglePrivilegeCheck_iff [simp]:
  "SepSinglePrivilegeCheck v T mode \<longleftrightarrow> mode = KernelMode \<or> privilege_enabled T v"
  by (auto simp: SepSinglePrivilegeCheck_def SepPrivilegeCheck_def privilege_enabled_def ULONG_flag
      split: option.splits)

end
