(* ===== verification/RtlSd.thy ===== *)
theory RtlSd
  imports SeToken
begin

text \<open>
  Security descriptors, \<^verbatim>\<open>sdk/lib/rtl/sd.c\<close>, in the 32-bit layout: revision, one byte for the resource
  manager, the control flags, and the owner, the group, the SACL and the DACL, as addresses in the
  absolute form and as offsets in the self-relative form.  A descriptor is a block of the memory;
  pointers are addresses, 0 is the null pointer.
\<close>

unbundle bit_operations_syntax

abbreviation (input) SE_OWNER_DEFAULTED :: USHORT where "SE_OWNER_DEFAULTED \<equiv> 0x0001"
abbreviation (input) SE_GROUP_DEFAULTED :: USHORT where "SE_GROUP_DEFAULTED \<equiv> 0x0002"
abbreviation (input) SE_SACL_DEFAULTED :: USHORT where "SE_SACL_DEFAULTED \<equiv> 0x0020"
abbreviation (input) SE_RM_CONTROL_VALID :: USHORT where "SE_RM_CONTROL_VALID \<equiv> 0x4000"
abbreviation (input) OWNER_SECURITY_INFORMATION :: ULONG where "OWNER_SECURITY_INFORMATION \<equiv> 1"
abbreviation (input) GROUP_SECURITY_INFORMATION :: ULONG where "GROUP_SECURITY_INFORMATION \<equiv> 2"

text \<open>\<^verbatim>\<open>SE_DACL_UNTRUSTED\<close> to \<^verbatim>\<open>SE_SACL_PROTECTED\<close>: 0x0040 to 0x2000.\<close>

abbreviation (input) attribute_bits :: USHORT where "attribute_bits \<equiv> 0x3FC0"

section \<open>Sizes and parts\<close>

definition ROUND_UP :: "ULONG \<Rightarrow> ULONG \<Rightarrow> ULONG" where
  "ROUND_UP n align = (n + align - 1) AND NOT (align - 1)"

text \<open>The result and \<^verbatim>\<open>*MaxLength\<close>.\<close>

definition RtlpValidateSDOffsetAndSize :: "ULONG \<Rightarrow> ULONG \<Rightarrow> ULONG \<Rightarrow> bool \<times> ULONG" where
  "RtlpValidateSDOffsetAndSize Offset Length MinLength =
     (if Offset < 20 then (False, 0)
      else if Offset \<ge> Length then (False, 0)
      else if Length - Offset < MinLength then (False, 0)
      else if Offset AND NOT 3 \<noteq> Offset then (False, 0)
      else (True, Length - Offset))"

record sd_query =
  QueryOwner :: nat
  QueryOwnerSize :: ULONG
  QueryGroup :: nat
  QueryGroupSize :: ULONG
  QueryDacl :: nat
  QueryDaclSize :: ULONG
  QuerySacl :: nat
  QuerySaclSize :: ULONG

definition sid_part_size :: "mem \<Rightarrow> nat \<Rightarrow> ULONG option" where
  "sid_part_size m Sid = (if Sid \<noteq> 0 then do { n \<leftarrow> RtlLengthSid m Sid; Some (ROUND_UP n 4) } else Some 0)"

definition acl_part_size :: "mem \<Rightarrow> nat \<Rightarrow> ULONG option" where
  "acl_part_size m Acl = (if Acl \<noteq> 0 then do { n \<leftarrow> AclSize m Acl; Some (ROUND_UP (ucast n) 4) } else Some 0)"

definition RtlpQuerySecurityDescriptor :: "mem \<Rightarrow> nat \<Rightarrow> sd_query option" where
  "RtlpQuerySecurityDescriptor m SecurityDescriptor = do {
     Owner \<leftarrow> SepGetOwnerFromDescriptor m SecurityDescriptor;
     OwnerSize \<leftarrow> sid_part_size m Owner;
     PrimaryGroup \<leftarrow> SepGetGroupFromDescriptor m SecurityDescriptor;
     PrimaryGroupSize \<leftarrow> sid_part_size m PrimaryGroup;
     Dacl \<leftarrow> SepGetDaclFromDescriptor m SecurityDescriptor;
     DaclSize \<leftarrow> acl_part_size m Dacl;
     Sacl \<leftarrow> SepGetSaclFromDescriptor m SecurityDescriptor;
     SaclSize \<leftarrow> acl_part_size m Sacl;
     Some \<lparr>QueryOwner = Owner, QueryOwnerSize = OwnerSize, QueryGroup = PrimaryGroup, QueryGroupSize = PrimaryGroupSize,
           QueryDacl = Dacl, QueryDaclSize = DaclSize, QuerySacl = Sacl, QuerySaclSize = SaclSize\<rparr>
   }"

section \<open>Creation and length\<close>

definition RtlCreateSecurityDescriptor :: "mem \<Rightarrow> nat \<Rightarrow> ULONG \<Rightarrow> (NTSTATUS \<times> mem) option" where
  "RtlCreateSecurityDescriptor m Sd Revision =
     (if Revision \<noteq> 1 then Some (STATUS_UNKNOWN_REVISION, m)
      else do {
        m \<leftarrow> RtlZeroMemory m Sd 20;
        m \<leftarrow> store m Sd SECURITY_DESCRIPTOR_REVISION;
        Some (STATUS_SUCCESS, m)
      })"

definition RtlCreateSecurityDescriptorRelative :: "mem \<Rightarrow> nat \<Rightarrow> ULONG \<Rightarrow> (NTSTATUS \<times> mem) option" where
  "RtlCreateSecurityDescriptorRelative m SecurityDescriptor Revision =
     (if Revision \<noteq> 1 then Some (STATUS_UNKNOWN_REVISION, m)
      else do {
        m \<leftarrow> RtlZeroMemory m SecurityDescriptor 20;
        m \<leftarrow> store m SecurityDescriptor SECURITY_DESCRIPTOR_REVISION;
        m \<leftarrow> store_USHORT m (SecurityDescriptor + 2) SE_SELF_RELATIVE;
        Some (STATUS_SUCCESS, m)
      })"

definition RtlLengthSecurityDescriptor :: "mem \<Rightarrow> nat \<Rightarrow> ULONG option" where
  "RtlLengthSecurityDescriptor m Sd = do {
     Control \<leftarrow> load_USHORT m (Sd + 2);
     let Length = (if Control AND SE_SELF_RELATIVE \<noteq> 0 then 20 else 20);
     Owner \<leftarrow> SepGetOwnerFromDescriptor m Sd;
     OwnerSize \<leftarrow> sid_part_size m Owner;
     Group \<leftarrow> SepGetGroupFromDescriptor m Sd;
     GroupSize \<leftarrow> sid_part_size m Group;
     Dacl \<leftarrow> SepGetDaclFromDescriptor m Sd;
     DaclSize \<leftarrow> acl_part_size m Dacl;
     Sacl \<leftarrow> SepGetSaclFromDescriptor m Sd;
     SaclSize \<leftarrow> acl_part_size m Sacl;
     Some (Length + OwnerSize + GroupSize + DaclSize + SaclSize)
   }"

section \<open>Reading the members\<close>

text \<open>
  Values stored through pointers follow the status, \<open>None\<close> when the call did not write them.
  \<open>RtlGetDaclSecurityDescriptor\<close> is in \<open>SeToken\<close>.
\<close>

definition RtlGetSaclSecurityDescriptor ::
    "mem \<Rightarrow> nat \<Rightarrow> (NTSTATUS \<times> bool option \<times> nat option \<times> bool option) option" where
  "RtlGetSaclSecurityDescriptor m Sd = do {
     Revision \<leftarrow> m Sd;
     if Revision \<noteq> SECURITY_DESCRIPTOR_REVISION then Some (STATUS_UNKNOWN_REVISION, None, None, None)
     else do {
       Control \<leftarrow> load_USHORT m (Sd + 2);
       if Control AND SE_SACL_PRESENT = SE_SACL_PRESENT
       then do {
         Sacl \<leftarrow> SepGetSaclFromDescriptor m Sd;
         Some (STATUS_SUCCESS, Some True, Some Sacl, Some (Control AND SE_SACL_DEFAULTED = SE_SACL_DEFAULTED))
       }
       else Some (STATUS_SUCCESS, Some False, None, None)
     }
   }"

definition get_sid_member ::
    "(mem \<Rightarrow> nat \<Rightarrow> nat option) \<Rightarrow> USHORT \<Rightarrow> mem \<Rightarrow> nat \<Rightarrow> (NTSTATUS \<times> nat option \<times> bool option) option" where
  "get_sid_member get flag m Sd = do {
     Revision \<leftarrow> m Sd;
     if Revision \<noteq> SECURITY_DESCRIPTOR_REVISION then Some (STATUS_UNKNOWN_REVISION, None, None)
     else do {
       Sid \<leftarrow> get m Sd;
       Control \<leftarrow> load_USHORT m (Sd + 2);
       Some (STATUS_SUCCESS, Some Sid, Some (Control AND flag = flag))
     }
   }"

definition RtlGetOwnerSecurityDescriptor :: "mem \<Rightarrow> nat \<Rightarrow> (NTSTATUS \<times> nat option \<times> bool option) option" where
  "RtlGetOwnerSecurityDescriptor = get_sid_member SepGetOwnerFromDescriptor SE_OWNER_DEFAULTED"

definition RtlGetGroupSecurityDescriptor :: "mem \<Rightarrow> nat \<Rightarrow> (NTSTATUS \<times> nat option \<times> bool option) option" where
  "RtlGetGroupSecurityDescriptor = get_sid_member SepGetGroupFromDescriptor SE_GROUP_DEFAULTED"

definition RtlGetControlSecurityDescriptor :: "mem \<Rightarrow> nat \<Rightarrow> (NTSTATUS \<times> USHORT option \<times> ULONG) option" where
  "RtlGetControlSecurityDescriptor m Sd = do {
     Revision \<leftarrow> m Sd;
     if Revision \<noteq> SECURITY_DESCRIPTOR_REVISION then Some (STATUS_UNKNOWN_REVISION, None, ucast Revision)
     else do {
       Control \<leftarrow> load_USHORT m (Sd + 2);
       Some (STATUS_SUCCESS, Some Control, ucast Revision)
     }
   }"

definition RtlGetSecurityDescriptorRMControl :: "mem \<Rightarrow> nat \<Rightarrow> (bool \<times> UCHAR) option" where
  "RtlGetSecurityDescriptorRMControl m Sd = do {
     Control \<leftarrow> load_USHORT m (Sd + 2);
     if Control AND SE_RM_CONTROL_VALID = 0 then Some (False, 0)
     else do {
       Sbz1 \<leftarrow> m (Sd + 1);
       Some (True, Sbz1)
     }
   }"

section \<open>Setting the members\<close>

definition set_control :: "mem \<Rightarrow> nat \<Rightarrow> (USHORT \<Rightarrow> USHORT) \<Rightarrow> mem option" where
  "set_control m Sd f = do {
     Control \<leftarrow> load_USHORT m (Sd + 2);
     store_USHORT m (Sd + 2) (f Control)
   }"

text \<open>The last two statements of the four setters: the flag that says that the member is a default.\<close>

definition set_defaulted :: "mem \<Rightarrow> nat \<Rightarrow> USHORT \<Rightarrow> bool \<Rightarrow> mem option" where
  "set_defaulted m Sd flag Defaulted = do {
     m \<leftarrow> set_control m Sd (\<lambda>c. c AND NOT flag);
     if Defaulted then set_control m Sd (\<lambda>c. c OR flag) else Some m
   }"

definition set_acl_member ::
    "nat \<Rightarrow> USHORT \<Rightarrow> USHORT \<Rightarrow> mem \<Rightarrow> nat \<Rightarrow> bool \<Rightarrow> nat \<Rightarrow> bool \<Rightarrow> (NTSTATUS \<times> mem) option" where
  "set_acl_member member present_flag defaulted_flag m Sd Present Acl Defaulted = do {
     Revision \<leftarrow> m Sd;
     if Revision \<noteq> SECURITY_DESCRIPTOR_REVISION then Some (STATUS_UNKNOWN_REVISION, m)
     else do {
       Control \<leftarrow> load_USHORT m (Sd + 2);
       if Control AND SE_SELF_RELATIVE \<noteq> 0 then Some (STATUS_INVALID_SECURITY_DESCR, m)
       else if \<not> Present then do {
         m \<leftarrow> set_control m Sd (\<lambda>c. c AND NOT present_flag);
         Some (STATUS_SUCCESS, m)
       }
       else do {
         m \<leftarrow> store_ULONG m (Sd + member) (of_nat Acl);
         m \<leftarrow> set_control m Sd (\<lambda>c. c OR present_flag);
         m \<leftarrow> set_defaulted m Sd defaulted_flag Defaulted;
         Some (STATUS_SUCCESS, m)
       }
     }
   }"

definition RtlSetDaclSecurityDescriptor :: "mem \<Rightarrow> nat \<Rightarrow> bool \<Rightarrow> nat \<Rightarrow> bool \<Rightarrow> (NTSTATUS \<times> mem) option" where
  "RtlSetDaclSecurityDescriptor = set_acl_member 16 SE_DACL_PRESENT SE_DACL_DEFAULTED"

definition RtlSetSaclSecurityDescriptor :: "mem \<Rightarrow> nat \<Rightarrow> bool \<Rightarrow> nat \<Rightarrow> bool \<Rightarrow> (NTSTATUS \<times> mem) option" where
  "RtlSetSaclSecurityDescriptor = set_acl_member 12 SE_SACL_PRESENT SE_SACL_DEFAULTED"

definition set_sid_member :: "nat \<Rightarrow> USHORT \<Rightarrow> mem \<Rightarrow> nat \<Rightarrow> nat \<Rightarrow> bool \<Rightarrow> (NTSTATUS \<times> mem) option" where
  "set_sid_member member defaulted_flag m Sd Sid Defaulted = do {
     Revision \<leftarrow> m Sd;
     if Revision \<noteq> SECURITY_DESCRIPTOR_REVISION then Some (STATUS_UNKNOWN_REVISION, m)
     else do {
       Control \<leftarrow> load_USHORT m (Sd + 2);
       if Control AND SE_SELF_RELATIVE \<noteq> 0 then Some (STATUS_INVALID_SECURITY_DESCR, m)
       else do {
         m \<leftarrow> store_ULONG m (Sd + member) (of_nat Sid);
         m \<leftarrow> set_defaulted m Sd defaulted_flag Defaulted;
         Some (STATUS_SUCCESS, m)
       }
     }
   }"

definition RtlSetOwnerSecurityDescriptor :: "mem \<Rightarrow> nat \<Rightarrow> nat \<Rightarrow> bool \<Rightarrow> (NTSTATUS \<times> mem) option" where
  "RtlSetOwnerSecurityDescriptor = set_sid_member 4 SE_OWNER_DEFAULTED"

definition RtlSetGroupSecurityDescriptor :: "mem \<Rightarrow> nat \<Rightarrow> nat \<Rightarrow> bool \<Rightarrow> (NTSTATUS \<times> mem) option" where
  "RtlSetGroupSecurityDescriptor = set_sid_member 8 SE_GROUP_DEFAULTED"

definition RtlSetControlSecurityDescriptor :: "mem \<Rightarrow> nat \<Rightarrow> USHORT \<Rightarrow> USHORT \<Rightarrow> (NTSTATUS \<times> mem) option" where
  "RtlSetControlSecurityDescriptor m Sd ControlBitsOfInterest ControlBitsToSet =
     (if ControlBitsOfInterest AND NOT attribute_bits \<noteq> 0 \<or> ControlBitsToSet AND NOT ControlBitsOfInterest \<noteq> 0
      then Some (STATUS_INVALID_PARAMETER, m)
      else do {
        m \<leftarrow> set_control m Sd (\<lambda>c. c AND NOT ControlBitsOfInterest);
        m \<leftarrow> set_control m Sd (\<lambda>c. c OR (ControlBitsToSet AND ControlBitsOfInterest));
        Some (STATUS_SUCCESS, m)
      })"

text \<open>The last component is \<^verbatim>\<open>*Revision\<close>.\<close>

definition RtlSetAttributesSecurityDescriptor :: "mem \<Rightarrow> nat \<Rightarrow> USHORT \<Rightarrow> (NTSTATUS \<times> mem \<times> ULONG) option" where
  "RtlSetAttributesSecurityDescriptor m Sd Control = do {
     Revision \<leftarrow> m Sd;
     if Revision \<noteq> SECURITY_DESCRIPTOR_REVISION then Some (STATUS_UNKNOWN_REVISION, m, ucast Revision)
     else do {
       let Control = Control AND attribute_bits;
       (Status, m) \<leftarrow> RtlSetControlSecurityDescriptor m Sd Control Control;
       Some (Status, m, ucast Revision)
     }
   }"

text \<open>\<open>RMControl\<close> is the byte behind the pointer, \<open>None\<close> for a null pointer.\<close>

definition RtlSetSecurityDescriptorRMControl :: "mem \<Rightarrow> nat \<Rightarrow> UCHAR option \<Rightarrow> mem option" where
  "RtlSetSecurityDescriptorRMControl m Sd RMControl = (case RMControl of
     None \<Rightarrow> do {
       m \<leftarrow> set_control m Sd (\<lambda>c. c AND NOT SE_RM_CONTROL_VALID);
       store m (Sd + 1) 0
     }
   | Some c \<Rightarrow> do {
       m \<leftarrow> set_control m Sd (\<lambda>c. c OR SE_RM_CONTROL_VALID);
       store m (Sd + 1) c
     })"

section \<open>Copies and the two forms\<close>

text \<open>\<open>alloc m n\<close> is the heap: the address of a new block of \<open>n\<close> bytes and the memory with it, or \<open>None\<close>.\<close>

definition RtlCopySecurityDescriptor ::
    "(mem \<Rightarrow> nat \<Rightarrow> (nat \<times> mem) option) \<Rightarrow> mem \<Rightarrow> nat \<Rightarrow> (NTSTATUS \<times> mem \<times> nat) option" where
  "RtlCopySecurityDescriptor alloc m Sd = do {
     q \<leftarrow> RtlpQuerySecurityDescriptor m Sd;
     let TotalLength = 20 + QueryOwnerSize q + QueryGroupSize q + QueryDaclSize q + QuerySaclSize q;
     case alloc m (unat TotalLength) of
       None \<Rightarrow> Some (STATUS_NO_MEMORY, m, 0)
     | Some (p, m) \<Rightarrow> do {
         m \<leftarrow> RtlCopyMemory m p Sd (unat TotalLength);
         Some (STATUS_SUCCESS, m, p)
       }
   }"

text \<open>
  One part of a self-relative descriptor: it is copied to \<open>Current\<close>, and its offset is stored in the
  member.  The result has the new value of \<open>Current\<close>.
\<close>

definition copy_part :: "mem \<Rightarrow> nat \<Rightarrow> nat \<Rightarrow> nat \<Rightarrow> nat \<Rightarrow> ULONG \<Rightarrow> (mem \<times> nat) option" where
  "copy_part m RelSd member Current Part Length =
     (if Length \<noteq> 0 then do {
        m \<leftarrow> RtlCopyMemory m Current Part (unat Length);
        m \<leftarrow> store_ULONG m (RelSd + member) (of_nat (Current - RelSd));
        Some (m, Current + unat Length)
      }
      else Some (m, Current))"

text \<open>The status, \<^verbatim>\<open>*BufferLength\<close> and the memory.\<close>

definition RtlMakeSelfRelativeSD :: "mem \<Rightarrow> nat \<Rightarrow> nat \<Rightarrow> ULONG \<Rightarrow> (NTSTATUS \<times> ULONG \<times> mem) option" where
  "RtlMakeSelfRelativeSD m SecurityDescriptor RelSd BufferLength = do {
     q \<leftarrow> RtlpQuerySecurityDescriptor m SecurityDescriptor;
     let TotalLength = 20 + QueryOwnerSize q + QueryGroupSize q + QuerySaclSize q + QueryDaclSize q;
     if BufferLength < TotalLength then Some (STATUS_BUFFER_TOO_SMALL, TotalLength, m)
     else do {
       m \<leftarrow> RtlZeroMemory m RelSd (unat TotalLength);
       m \<leftarrow> RtlCopyMemory m RelSd SecurityDescriptor 4;
       (m, Current) \<leftarrow> copy_part m RelSd 12 (RelSd + 20) (QuerySacl q) (QuerySaclSize q);
       (m, Current) \<leftarrow> copy_part m RelSd 16 Current (QueryDacl q) (QueryDaclSize q);
       (m, Current) \<leftarrow> copy_part m RelSd 4 Current (QueryOwner q) (QueryOwnerSize q);
       (m, Current) \<leftarrow> copy_part m RelSd 8 Current (QueryGroup q) (QueryGroupSize q);
       m \<leftarrow> set_control m RelSd (\<lambda>c. c OR SE_SELF_RELATIVE);
       Some (STATUS_SUCCESS, BufferLength, m)
     }
   }"

definition RtlAbsoluteToSelfRelativeSD :: "mem \<Rightarrow> nat \<Rightarrow> nat \<Rightarrow> ULONG \<Rightarrow> (NTSTATUS \<times> ULONG \<times> mem) option" where
  "RtlAbsoluteToSelfRelativeSD m AbsoluteSecurityDescriptor SelfRelativeSecurityDescriptor BufferLength = do {
     Control \<leftarrow> load_USHORT m (AbsoluteSecurityDescriptor + 2);
     if Control AND SE_SELF_RELATIVE \<noteq> 0 then Some (STATUS_BAD_DESCRIPTOR_FORMAT, BufferLength, m)
     else RtlMakeSelfRelativeSD m AbsoluteSecurityDescriptor SelfRelativeSecurityDescriptor BufferLength
   }"

text \<open>The buffers of the caller of \<open>RtlSelfRelativeToAbsoluteSD\<close> with their sizes, which are stored back.\<close>

record sd_sizes =
  AbsoluteSDSize :: ULONG
  DaclSize :: ULONG
  SaclSize :: ULONG
  OwnerSize :: ULONG
  PrimaryGroupSize :: ULONG

record sd_buffers =
  DaclBuffer :: nat
  SaclBuffer :: nat
  OwnerBuffer :: nat
  GroupBuffer :: nat

text \<open>One part of an absolute descriptor: it is moved to its buffer, whose address is stored in the member.\<close>

definition move_part ::
    "(mem \<Rightarrow> nat \<Rightarrow> nat option) \<Rightarrow> mem \<Rightarrow> nat \<Rightarrow> nat \<Rightarrow> nat \<Rightarrow> nat \<Rightarrow> mem option" where
  "move_part len m Sd member Target Part =
     (if Part \<noteq> 0 then do {
        n \<leftarrow> len m Part;
        m \<leftarrow> RtlMoveMemory m Target Part n;
        store_ULONG m (Sd + member) (of_nat Target)
      }
      else Some m)"

definition sid_bytes_at :: "mem \<Rightarrow> nat \<Rightarrow> nat option" where
  "sid_bytes_at m Sid = do { n \<leftarrow> RtlLengthSid m Sid; Some (unat n) }"

definition acl_bytes_at :: "mem \<Rightarrow> nat \<Rightarrow> nat option" where
  "acl_bytes_at m Acl = do { n \<leftarrow> AclSize m Acl; Some (unat n) }"

definition RtlSelfRelativeToAbsoluteSD ::
    "mem \<Rightarrow> nat \<Rightarrow> nat \<Rightarrow> sd_sizes \<Rightarrow> sd_buffers \<Rightarrow> (NTSTATUS \<times> sd_sizes \<times> mem) option" where
  "RtlSelfRelativeToAbsoluteSD m RelSd Sd sizes buffers = do {
     Control \<leftarrow> load_USHORT m (RelSd + 2);
     if Control AND SE_SELF_RELATIVE = 0 then Some (STATUS_BAD_DESCRIPTOR_FORMAT, sizes, m)
     else do {
       q \<leftarrow> RtlpQuerySecurityDescriptor m RelSd;
       if Sd = 0 \<or> 20 > AbsoluteSDSize sizes \<or> QueryOwnerSize q > OwnerSize sizes \<or>
          QueryGroupSize q > PrimaryGroupSize sizes \<or> QueryDaclSize q > DaclSize sizes \<or> QuerySaclSize q > SaclSize sizes
       then Some (STATUS_BUFFER_TOO_SMALL,
                  \<lparr>AbsoluteSDSize = 20, DaclSize = QueryDaclSize q, SaclSize = QuerySaclSize q,
                   OwnerSize = QueryOwnerSize q, PrimaryGroupSize = QueryGroupSize q\<rparr>, m)
       else do {
         m \<leftarrow> RtlMoveMemory m Sd RelSd 20;
         m \<leftarrow> store_ULONG m (Sd + 4) 0;
         m \<leftarrow> store_ULONG m (Sd + 8) 0;
         m \<leftarrow> store_ULONG m (Sd + 12) 0;
         m \<leftarrow> store_ULONG m (Sd + 16) 0;
         m \<leftarrow> set_control m Sd (\<lambda>c. c AND NOT SE_SELF_RELATIVE);
         m \<leftarrow> move_part sid_bytes_at m Sd 4 (OwnerBuffer buffers) (QueryOwner q);
         m \<leftarrow> move_part sid_bytes_at m Sd 8 (GroupBuffer buffers) (QueryGroup q);
         m \<leftarrow> move_part acl_bytes_at m Sd 16 (DaclBuffer buffers) (QueryDacl q);
         m \<leftarrow> move_part acl_bytes_at m Sd 12 (SaclBuffer buffers) (QuerySacl q);
         Some (STATUS_SUCCESS, sizes, m)
       }
     }
   }"

text \<open>
  The conversion in place.  With 32-bit pointers both forms have the same layout, so the function
  returns before it would move data; \<open>has_size\<close> says whether the pointer \<^verbatim>\<open>BufferSize\<close> is not null.
\<close>

definition RtlSelfRelativeToAbsoluteSD2 :: "mem \<Rightarrow> nat \<Rightarrow> bool \<Rightarrow> (NTSTATUS \<times> mem) option" where
  "RtlSelfRelativeToAbsoluteSD2 m Sd has_size =
     (if Sd = 0 then Some (STATUS_INVALID_PARAMETER_1, m)
      else if \<not> has_size then Some (STATUS_INVALID_PARAMETER_2, m)
      else do {
        Control \<leftarrow> load_USHORT m (Sd + 2);
        if Control AND SE_SELF_RELATIVE = 0 then Some (STATUS_BAD_DESCRIPTOR_FORMAT, m)
        else do {
          q \<leftarrow> RtlpQuerySecurityDescriptor m Sd;
          m \<leftarrow> set_control m Sd (\<lambda>c. c AND NOT SE_SELF_RELATIVE);
          m \<leftarrow> store_ULONG m (Sd + 4) (of_nat (QueryOwner q));
          m \<leftarrow> store_ULONG m (Sd + 8) (of_nat (QueryGroup q));
          m \<leftarrow> store_ULONG m (Sd + 12) (of_nat (QuerySacl q));
          m \<leftarrow> store_ULONG m (Sd + 16) (of_nat (QueryDacl q));
          Some (STATUS_SUCCESS, m)
        }
      })"

section \<open>Validation\<close>

text \<open>A fault is caught by the handler, which answers FALSE.\<close>

definition RtlValidSecurityDescriptor :: "mem \<Rightarrow> nat \<Rightarrow> bool" where
  "RtlValidSecurityDescriptor m Sd =
     (case do {
        Revision \<leftarrow> m Sd;
        if Revision \<noteq> SECURITY_DESCRIPTOR_REVISION then Some False
        else do {
          Owner \<leftarrow> SepGetOwnerFromDescriptor m Sd;
          if Owner \<noteq> 0 \<and> \<not> RtlValidSid m Owner then Some False
          else do {
            Group \<leftarrow> SepGetGroupFromDescriptor m Sd;
            if Group \<noteq> 0 \<and> \<not> RtlValidSid m Group then Some False
            else do {
              Dacl \<leftarrow> SepGetDaclFromDescriptor m Sd;
              if Dacl \<noteq> 0 \<and> \<not> RtlValidAcl m Dacl then Some False
              else do {
                Sacl \<leftarrow> SepGetSaclFromDescriptor m Sd;
                Some (\<not> (Sacl \<noteq> 0 \<and> \<not> RtlValidAcl m Sacl))
              }
            }
          }
        }
      } of None \<Rightarrow> False | Some r \<Rightarrow> r)"

definition valid_relative_sid :: "mem \<Rightarrow> nat \<Rightarrow> ULONG \<Rightarrow> nat \<Rightarrow> bool \<Rightarrow> bool option" where
  "valid_relative_sid m Sd SecurityDescriptorLength member Required = do {
     Offset \<leftarrow> load_ULONG m (Sd + member);
     if Offset \<noteq> 0 then
       let (ok, Length) = RtlpValidateSDOffsetAndSize Offset SecurityDescriptorLength 12
       in if \<not> ok then Some False
          else if \<not> RtlValidSid m (unat Offset + Sd) then Some False
          else do {
            n \<leftarrow> RtlLengthSid m (unat Offset + Sd);
            Some (\<not> Length < n)
          }
     else Some (\<not> Required)
   }"

definition valid_relative_acl :: "mem \<Rightarrow> nat \<Rightarrow> ULONG \<Rightarrow> nat \<Rightarrow> USHORT \<Rightarrow> bool option" where
  "valid_relative_acl m Sd SecurityDescriptorLength member flag = do {
     Control \<leftarrow> load_USHORT m (Sd + 2);
     if Control AND flag = flag then do {
       Offset \<leftarrow> load_ULONG m (Sd + member);
       let (ok, Length) = RtlpValidateSDOffsetAndSize Offset SecurityDescriptorLength 8;
       if \<not> ok then Some False
       else if \<not> RtlValidAcl m (unat Offset + Sd) then Some False
       else do {
         n \<leftarrow> AclSize m (unat Offset + Sd);
         Some (\<not> Length < ucast n)
       }
     }
     else Some True
   }"

definition RtlValidRelativeSecurityDescriptor :: "mem \<Rightarrow> nat \<Rightarrow> ULONG \<Rightarrow> ULONG \<Rightarrow> bool option" where
  "RtlValidRelativeSecurityDescriptor m Sd SecurityDescriptorLength RequiredInformation =
     (if SecurityDescriptorLength < 20 then Some False
      else do {
        Revision \<leftarrow> m Sd;
        if Revision \<noteq> SECURITY_DESCRIPTOR_REVISION then Some False
        else do {
          Control \<leftarrow> load_USHORT m (Sd + 2);
          if Control AND SE_SELF_RELATIVE = 0 then Some False
          else do {
            Owner \<leftarrow> valid_relative_sid m Sd SecurityDescriptorLength 4 (RequiredInformation AND OWNER_SECURITY_INFORMATION \<noteq> 0);
            if \<not> Owner then Some False
            else do {
              Group \<leftarrow> valid_relative_sid m Sd SecurityDescriptorLength 8 (RequiredInformation AND GROUP_SECURITY_INFORMATION \<noteq> 0);
              if \<not> Group then Some False
              else do {
                Dacl \<leftarrow> valid_relative_acl m Sd SecurityDescriptorLength 16 SE_DACL_PRESENT;
                if \<not> Dacl then Some False
                else valid_relative_acl m Sd SecurityDescriptorLength 12 SE_SACL_PRESENT
              }
            }
          }
        }
      })"

section \<open>A descriptor as a record\<close>

record SECURITY_DESCRIPTOR =
  SdRevision :: UCHAR
  SdSbz1 :: UCHAR
  SdControl :: USHORT
  SdOwner :: ULONG
  SdGroup :: ULONG
  SdSacl :: ULONG
  SdDacl :: ULONG

definition sd_bytes :: "SECURITY_DESCRIPTOR \<Rightarrow> UCHAR list" where
  "sd_bytes s = [SdRevision s, SdSbz1 s] @ bytes_USHORT (SdControl s) @ bytes_ULONG (SdOwner s) @ bytes_ULONG (SdGroup s) @
     bytes_ULONG (SdSacl s) @ bytes_ULONG (SdDacl s)"

definition sd_at :: "mem \<Rightarrow> nat \<Rightarrow> SECURITY_DESCRIPTOR \<Rightarrow> bool" where
  "sd_at m p s \<longleftrightarrow> holds m p (sd_bytes s)"

text \<open>A flag that is set or cleared.\<close>

definition with_flag :: "USHORT \<Rightarrow> bool \<Rightarrow> USHORT \<Rightarrow> USHORT" where
  "with_flag flag on c = (if on then c AND NOT flag OR flag else c AND NOT flag)"

text \<open>The address a member stands for.\<close>

definition sd_address :: "nat \<Rightarrow> USHORT \<Rightarrow> ULONG \<Rightarrow> nat" where
  "sd_address p c v = (if v = 0 then 0 else if bit c 15 then p + unat v else unat v)"

lemma length_sd_bytes [simp]: "length (sd_bytes s) = 20"
  by (simp add: sd_bytes_def)

lemma sd_holds:
  "sd_at m p s \<longleftrightarrow> holds m p [SdRevision s, SdSbz1 s] \<and> holds m (p + 2) (bytes_USHORT (SdControl s)) \<and>
     holds m (p + 4) (bytes_ULONG (SdOwner s)) \<and> holds m (p + 8) (bytes_ULONG (SdGroup s)) \<and>
     holds m (p + 12) (bytes_ULONG (SdSacl s)) \<and> holds m (p + 16) (bytes_ULONG (SdDacl s))"
  by (simp add: sd_at_def sd_bytes_def holds_append holds_Cons eval_nat_numeral)

lemma sd_at_iff:
  "sd_at m p s \<longleftrightarrow> m p = Some (SdRevision s) \<and> m (p + 1) = Some (SdSbz1 s) \<and> load_USHORT m (p + 2) = Some (SdControl s) \<and>
     load_ULONG m (p + 4) = Some (SdOwner s) \<and> load_ULONG m (p + 8) = Some (SdGroup s) \<and>
     load_ULONG m (p + 12) = Some (SdSacl s) \<and> load_ULONG m (p + 16) = Some (SdDacl s)"
  unfolding sd_holds load_USHORT_holds load_ULONG_holds by (simp add: holds_Cons)

lemma sd_reads:
  assumes "sd_at m p s"
  shows "m p = Some (SdRevision s)" "m (p + 1) = Some (SdSbz1 s)" "load_USHORT m (p + 2) = Some (SdControl s)"
    "load_ULONG m (p + 4) = Some (SdOwner s)" "load_ULONG m (p + 8) = Some (SdGroup s)"
    "load_ULONG m (p + 12) = Some (SdSacl s)" "load_ULONG m (p + 16) = Some (SdDacl s)"
  using assms unfolding sd_at_iff by blast+

lemma sd_mapped: "sd_at m p s \<Longrightarrow> mapped m p 20"
  using holds_mapped [of m p "sd_bytes s"] by (simp add: sd_at_def)

text \<open>Stores to a member.\<close>

lemma sd_store_member:
  assumes "sd_at m p s" "(k, s') \<in> {(4, s\<lparr>SdOwner := v\<rparr>), (8, s\<lparr>SdGroup := v\<rparr>), (12, s\<lparr>SdSacl := v\<rparr>), (16, s\<lparr>SdDacl := v\<rparr>)}"
  shows "\<exists>m'. store_ULONG m (p + k) v = Some m' \<and> sd_at m' p s' \<and> same_outside p 20 m m'"
proof -
  have k: "k \<le> 16" using assms(2) by auto
  then have "store_ULONG m (p + k) v = Some (put m (p + k) (bytes_ULONG v))"
    by (intro store_ULONG_put mapped_mono [OF sd_mapped [OF assms(1)]]) simp_all
  moreover have "same_outside p 20 m (put m (p + k) (bytes_ULONG v))" using k by (auto simp: same_outside_def put_other)
  moreover have "sd_at (put m (p + k) (bytes_ULONG v)) p s'"
    using assms by (auto simp: sd_holds holds_put_other)
  ultimately show ?thesis by blast
qed

lemma sd_set_control:
  assumes "sd_at m p s"
  shows "\<exists>m'. set_control m p f = Some m' \<and> sd_at m' p (s\<lparr>SdControl := f (SdControl s)\<rparr>) \<and> same_outside p 20 m m'"
proof -
  let ?m = "put m (p + 2) (bytes_USHORT (f (SdControl s)))"
  have "store_USHORT m (p + 2) (f (SdControl s)) = Some ?m"
    by (intro store_USHORT_put mapped_mono [OF sd_mapped [OF assms]]) simp_all
  then have "set_control m p f = Some ?m" using sd_reads(3) [OF assms] by (simp add: set_control_def)
  moreover have "same_outside p 20 m ?m" by (auto simp: same_outside_def put_other)
  moreover have "sd_at ?m p (s\<lparr>SdControl := f (SdControl s)\<rparr>)"
    using assms by (auto simp: sd_holds holds_put_other)
  ultimately show ?thesis by blast
qed

section \<open>The setters are updates of the record\<close>

lemma same_outside_trans: "same_outside p n m m' \<Longrightarrow> same_outside p n m' m'' \<Longrightarrow> same_outside p n m m''"
  by (simp add: same_outside_def)

lemma sd_set_defaulted:
  assumes "sd_at m p s"
  shows "\<exists>m'. set_defaulted m p flag d = Some m' \<and> sd_at m' p (s\<lparr>SdControl := with_flag flag d (SdControl s)\<rparr>) \<and>
     same_outside p 20 m m'"
proof -
  obtain m1 where 1: "set_control m p (\<lambda>c. c AND NOT flag) = Some m1" "sd_at m1 p (s\<lparr>SdControl := SdControl s AND NOT flag\<rparr>)"
    "same_outside p 20 m m1" using sd_set_control [OF assms, of "\<lambda>c. c AND NOT flag"] by auto
  obtain m2 where 2: "set_control m1 p (\<lambda>c. c OR flag) = Some m2"
    "sd_at m2 p (s\<lparr>SdControl := SdControl s AND NOT flag OR flag\<rparr>)" "same_outside p 20 m1 m2"
    using sd_set_control [OF 1(2), of "\<lambda>c. c OR flag"] by auto
  show ?thesis using 1 2 same_outside_trans [OF 1(3) 2(3)] by (cases d) (simp_all add: set_defaulted_def with_flag_def)
qed

lemma sd_absolute:
  assumes "sd_at m p s" "SdRevision s = 1" "\<not> bit (SdControl s) 15"
  shows "m p = Some 1" "load_USHORT m (p + 2) = Some (SdControl s)" "SdControl s AND SE_SELF_RELATIVE = 0"
  using sd_reads [OF assms(1)] assms(2,3) and_exp_eq_0_iff_not_bit [of "SdControl s" 15] by simp_all

lemma sd_set_sid_member:
  assumes s: "sd_at m p s" "SdRevision s = 1" "\<not> bit (SdControl s) 15"
    and "(k, s') \<in> {(4, s\<lparr>SdOwner := of_nat q\<rparr>), (8, s\<lparr>SdGroup := of_nat q\<rparr>)}"
  shows "\<exists>m'. set_sid_member k flag m p q d = Some (STATUS_SUCCESS, m') \<and>
     sd_at m' p (s'\<lparr>SdControl := with_flag flag d (SdControl s)\<rparr>) \<and> same_outside p 20 m m'"
proof -
  obtain m1 where 1: "store_ULONG m (p + k) (of_nat q) = Some m1" "sd_at m1 p s'" "same_outside p 20 m m1"
    using sd_store_member [OF s(1), of k s' "of_nat q"] assms(4) by auto
  have "SdControl s' = SdControl s" using assms(4) by auto
  then obtain m2 where "set_defaulted m1 p flag d = Some m2" "sd_at m2 p (s'\<lparr>SdControl := with_flag flag d (SdControl s)\<rparr>)"
    "same_outside p 20 m1 m2" using sd_set_defaulted [OF 1(2), of flag d] by auto
  with 1 sd_absolute [OF s] show ?thesis by (auto simp: set_sid_member_def intro: same_outside_trans)
qed

lemma sd_set_acl_member:
  assumes s: "sd_at m p s" "SdRevision s = 1" "\<not> bit (SdControl s) 15"
    and "(k, s') \<in> {(12, s\<lparr>SdSacl := of_nat q\<rparr>), (16, s\<lparr>SdDacl := of_nat q\<rparr>)}"
  shows "\<exists>m'. set_acl_member k pf df m p present q d = Some (STATUS_SUCCESS, m') \<and>
     sd_at m' p (if present then s'\<lparr>SdControl := with_flag df d (SdControl s OR pf)\<rparr>
                 else s\<lparr>SdControl := with_flag pf False (SdControl s)\<rparr>) \<and> same_outside p 20 m m'"
proof (cases present)
  case True
  obtain m1 where 1: "store_ULONG m (p + k) (of_nat q) = Some m1" "sd_at m1 p s'" "same_outside p 20 m m1"
    using sd_store_member [OF s(1), of k s' "of_nat q"] assms(4) by auto
  have "SdControl s' = SdControl s" using assms(4) by auto
  then obtain m2 where 2: "set_control m1 p (\<lambda>c. c OR pf) = Some m2" "sd_at m2 p (s'\<lparr>SdControl := SdControl s OR pf\<rparr>)"
    "same_outside p 20 m1 m2" using sd_set_control [OF 1(2), of "\<lambda>c. c OR pf"] by auto
  then obtain m3 where "set_defaulted m2 p df d = Some m3"
    "sd_at m3 p (s'\<lparr>SdControl := with_flag df d (SdControl s OR pf)\<rparr>)" "same_outside p 20 m2 m3"
    using sd_set_defaulted [OF 2(2), of df d] by auto
  with True 1 2 sd_absolute [OF s] show ?thesis
    by (auto simp: set_acl_member_def intro: same_outside_trans)
next
  case False
  obtain m1 where "set_control m p (\<lambda>c. c AND NOT pf) = Some m1" "sd_at m1 p (s\<lparr>SdControl := SdControl s AND NOT pf\<rparr>)"
    "same_outside p 20 m m1" using sd_set_control [OF s(1), of "\<lambda>c. c AND NOT pf"] by auto
  with False sd_absolute [OF s] show ?thesis by (auto simp: set_acl_member_def with_flag_def)
qed

text \<open>The getters read the record.\<close>

lemma sd_parts:
  assumes "sd_at m p s"
  shows "SepGetOwnerFromDescriptor m p = Some (sd_address p (SdControl s) (SdOwner s))"
    "SepGetGroupFromDescriptor m p = Some (sd_address p (SdControl s) (SdGroup s))"
    "SepGetDaclFromDescriptor m p = Some (if bit (SdControl s) 2 then sd_address p (SdControl s) (SdDacl s) else 0)"
    "SepGetSaclFromDescriptor m p = Some (if bit (SdControl s) 4 then sd_address p (SdControl s) (SdSacl s) else 0)"
proof -
  have c: "SdControl s AND 4 = 0 \<longleftrightarrow> \<not> bit (SdControl s) 2" "SdControl s AND 16 = 0 \<longleftrightarrow> \<not> bit (SdControl s) 4"
    "SdControl s AND 0x8000 = 0 \<longleftrightarrow> \<not> bit (SdControl s) 15"
    using and_exp_eq_0_iff_not_bit [of "SdControl s" 2] and_exp_eq_0_iff_not_bit [of "SdControl s" 4]
      and_exp_eq_0_iff_not_bit [of "SdControl s" 15] by simp_all
  have part: "descriptor_part m p (SdControl s) k = Some (sd_address p (SdControl s) v)" if "load_ULONG m (p + k) = Some v" for k v
    using that by (simp add: descriptor_part_def sd_address_def c)
  note r = sd_reads [OF assms]
  show "SepGetOwnerFromDescriptor m p = Some (sd_address p (SdControl s) (SdOwner s))"
    "SepGetGroupFromDescriptor m p = Some (sd_address p (SdControl s) (SdGroup s))"
    "SepGetDaclFromDescriptor m p = Some (if bit (SdControl s) 2 then sd_address p (SdControl s) (SdDacl s) else 0)"
    "SepGetSaclFromDescriptor m p = Some (if bit (SdControl s) 4 then sd_address p (SdControl s) (SdSacl s) else 0)"
    unfolding SepGetOwnerFromDescriptor_def SepGetGroupFromDescriptor_def SepGetDaclFromDescriptor_def SepGetSaclFromDescriptor_def
      r(3) Option.bind_lunit c part [OF r(4)] part [OF r(5)] part [OF r(6)] part [OF r(7)] by simp_all
qed

section \<open>Flags of the control word\<close>

lemma bit_with_flag:
  assumes "k < 16"
  shows "bit (with_flag (2 ^ k) d c) n \<longleftrightarrow> (if n = k then d else bit c n)"
  using assms by (auto simp: with_flag_def bit_or_iff bit_and_iff bit_not_iff bit_exp_iff dest: bit_imp_le_length)

lemma bit_control:
  "bit (with_flag 1 d c) n \<longleftrightarrow> (if n = 0 then d else bit c n)" "bit (with_flag 2 d c) n \<longleftrightarrow> (if n = 1 then d else bit c n)"
  "bit (with_flag 4 d c) n \<longleftrightarrow> (if n = 2 then d else bit c n)" "bit (with_flag 8 d c) n \<longleftrightarrow> (if n = 3 then d else bit c n)"
  "bit (with_flag 0x10 d c) n \<longleftrightarrow> (if n = 4 then d else bit c n)" "bit (with_flag 0x20 d c) n \<longleftrightarrow> (if n = 5 then d else bit c n)"
  "bit (with_flag 0x8000 d c) n \<longleftrightarrow> (if n = 15 then d else bit c n)"
  using bit_with_flag [of 0 d c n] bit_with_flag [of 1 d c n] bit_with_flag [of 2 d c n] bit_with_flag [of 3 d c n]
    bit_with_flag [of 4 d c n] bit_with_flag [of 5 d c n] bit_with_flag [of 15 d c n] by simp_all

text \<open>The two ways of the code to set a flag.\<close>

lemma or_flag: "c OR flag = with_flag flag True c" and and_not_flag: "c AND NOT flag = with_flag flag False c"
  by (auto simp: with_flag_def bit_or_iff bit_and_iff bit_not_iff dest: bit_imp_le_length intro!: bit_word_eqI)

lemma control_flag:
  "(c :: USHORT) AND 1 = 1 \<longleftrightarrow> bit c 0" "c AND 2 = 2 \<longleftrightarrow> bit c 1" "c AND 4 = 4 \<longleftrightarrow> bit c 2" "c AND 8 = 8 \<longleftrightarrow> bit c 3"
  "c AND 0x10 = 0x10 \<longleftrightarrow> bit c 4" "c AND 0x20 = 0x20 \<longleftrightarrow> bit c 5" "c AND 0x8000 = 0 \<longleftrightarrow> \<not> bit c 15"
  using and_exp_cases [of c 0] and_exp_cases [of c 1] and_exp_cases [of c 2] and_exp_cases [of c 3] and_exp_cases [of c 4]
    and_exp_cases [of c 5] and_exp_cases [of c 15] by simp_all

lemma put_segment:
  assumes "length ys' = length ys"
  shows "put (put m p (xs @ ys @ zs)) (p + length xs) ys' = put m p (xs @ ys' @ zs)"
proof -
  let ?a = "p + length xs"
  have "put (put m p (xs @ ys @ zs)) ?a ys' = put (put (put (put m p xs) ?a ys) (?a + length ys) zs) ?a ys'"
    by (simp add: put_append)
  also have "\<dots> = put (put (put (put m p xs) ?a ys) ?a ys') (?a + length ys) zs" using assms by (intro put_comm) simp
  also have "\<dots> = put m p (xs @ ys' @ zs)" using assms by (simp add: put_put put_append)
  finally show ?thesis .
qed

lemma sd_create:
  assumes "mapped m p 20"
  shows "\<exists>m'. RtlCreateSecurityDescriptor m p 1 = Some (STATUS_SUCCESS, m') \<and> same_outside p 20 m m' \<and>
     sd_at m' p \<lparr>SdRevision = 1, SdSbz1 = 0, SdControl = 0, SdOwner = 0, SdGroup = 0, SdSacl = 0, SdDacl = 0\<rparr>"
proof -
  let ?z = "put m p (replicate 20 0)" and ?s = "\<lparr>SdRevision = 1, SdSbz1 = 0, SdControl = 0, SdOwner = 0, SdGroup = 0, SdSacl = 0, SdDacl = 0\<rparr>"
  have "mapped ?z p 1" using assms by (intro mapped_put mapped_mono [OF assms]) simp_all
  then have "RtlCreateSecurityDescriptor m p 1 = Some (STATUS_SUCCESS, put ?z p [1])"
    using RtlZeroMemory_ok [OF assms] store_put [of ?z p 1] by (simp add: RtlCreateSecurityDescriptor_def)
  moreover have "put ?z p [1] = put m p (sd_bytes ?s)"
    using put_segment [of "[1]" "[0]" m p "[]" "replicate 19 0"]
    by (simp add: sd_bytes_def bytes_ULONG_def bytes_USHORT_def eval_nat_numeral)
  moreover have "same_outside p 20 m (put m p (sd_bytes ?s))" by (auto simp: same_outside_def put_other)
  ultimately show ?thesis by (auto simp: sd_at_def)
qed

section \<open>Building a descriptor\<close>

lemma sd_address_of_nat: "q < 2 ^ 32 \<Longrightarrow> \<not> bit c 15 \<Longrightarrow> sd_address p c (of_nat q) = q"
  by (auto simp: sd_address_def unat_of_nat_small word_unat_eq_iff)

lemma sd_getters:
  assumes "sd_at m p s" "SdRevision s = 1"
  shows "RtlGetOwnerSecurityDescriptor m p =
      Some (STATUS_SUCCESS, Some (sd_address p (SdControl s) (SdOwner s)), Some (bit (SdControl s) 0))"
    "RtlGetGroupSecurityDescriptor m p =
      Some (STATUS_SUCCESS, Some (sd_address p (SdControl s) (SdGroup s)), Some (bit (SdControl s) 1))"
    "RtlGetSaclSecurityDescriptor m p = Some (if bit (SdControl s) 4
      then (STATUS_SUCCESS, Some True, Some (sd_address p (SdControl s) (SdSacl s)), Some (bit (SdControl s) 5))
      else (STATUS_SUCCESS, Some False, None, None))"
    "RtlGetDaclSecurityDescriptor m p = Some (if bit (SdControl s) 2
      then (STATUS_SUCCESS, Some True, Some (sd_address p (SdControl s) (SdDacl s)), Some (bit (SdControl s) 3))
      else (STATUS_SUCCESS, Some False, None, None))"
  using sd_reads(1,3) [OF assms(1)] sd_parts [OF assms(1)] assms(2)
  by (simp_all add: RtlGetOwnerSecurityDescriptor_def RtlGetGroupSecurityDescriptor_def get_sid_member_def
    RtlGetSaclSecurityDescriptor_def RtlGetDaclSecurityDescriptor_def control_flag)

text \<open>
  C25. After RtlCreateSecurityDescriptor and the four setters for owner, group, SACL and
  DACL, all of which succeed, each getter returns what its setter was given, with the flags
  for presence and default, and only the 20 bytes of the descriptor have changed.
\<close>

theorem SecurityDescriptor_set_get:
  assumes "mapped m p 20" "ow < 2 ^ 32" "gr < 2 ^ 32" "sa < 2 ^ 32" "da < 2 ^ 32"
  shows "\<exists>m1 m2 m3 m4 m5. RtlCreateSecurityDescriptor m p 1 = Some (STATUS_SUCCESS, m1) \<and>
     RtlSetOwnerSecurityDescriptor m1 p ow ow_def = Some (STATUS_SUCCESS, m2) \<and>
     RtlSetGroupSecurityDescriptor m2 p gr gr_def = Some (STATUS_SUCCESS, m3) \<and>
     RtlSetSaclSecurityDescriptor m3 p sacl sa sa_def = Some (STATUS_SUCCESS, m4) \<and>
     RtlSetDaclSecurityDescriptor m4 p dacl da da_def = Some (STATUS_SUCCESS, m5) \<and>
     RtlGetOwnerSecurityDescriptor m5 p = Some (STATUS_SUCCESS, Some ow, Some ow_def) \<and>
     RtlGetGroupSecurityDescriptor m5 p = Some (STATUS_SUCCESS, Some gr, Some gr_def) \<and>
     RtlGetSaclSecurityDescriptor m5 p = Some (STATUS_SUCCESS, if sacl then (Some True, Some sa, Some sa_def) else (Some False, None, None)) \<and>
     RtlGetDaclSecurityDescriptor m5 p = Some (STATUS_SUCCESS, if dacl then (Some True, Some da, Some da_def) else (Some False, None, None)) \<and>
     same_outside p 20 m m5"
proof -
  let ?c2 = "with_flag 1 ow_def 0" let ?c3 = "with_flag 2 gr_def ?c2"
  let ?c4 = "if sacl then with_flag 0x20 sa_def (with_flag 0x10 True ?c3) else with_flag 0x10 False ?c3"
  let ?c5 = "if dacl then with_flag 8 da_def (with_flag 4 True ?c4) else with_flag 4 False ?c4"
  let ?s1 = "\<lparr>SdRevision = 1, SdSbz1 = 0, SdControl = 0, SdOwner = 0, SdGroup = 0, SdSacl = 0, SdDacl = 0\<rparr>"
  let ?s2 = "?s1\<lparr>SdOwner := of_nat ow, SdControl := ?c2\<rparr>" let ?s3 = "?s2\<lparr>SdGroup := of_nat gr, SdControl := ?c3\<rparr>"
  let ?s4 = "?s3\<lparr>SdSacl := if sacl then of_nat sa else 0, SdControl := ?c4\<rparr>"
  let ?s5 = "?s4\<lparr>SdDacl := if dacl then of_nat da else 0, SdControl := ?c5\<rparr>"
  have c: "\<not> bit ?c2 15" "\<not> bit ?c3 15" "\<not> bit ?c4 15" "\<not> bit ?c5 15" by (simp_all add: bit_control)
  obtain m1 where 1: "RtlCreateSecurityDescriptor m p 1 = Some (STATUS_SUCCESS, m1)" "same_outside p 20 m m1" "sd_at m1 p ?s1"
    using sd_create [OF assms(1)] by blast
  obtain m2 where 2: "RtlSetOwnerSecurityDescriptor m1 p ow ow_def = Some (STATUS_SUCCESS, m2)" "sd_at m2 p ?s2" "same_outside p 20 m1 m2"
    using sd_set_sid_member [OF 1(3), of 4 "?s1\<lparr>SdOwner := of_nat ow\<rparr>" ow 1 ow_def] unfolding RtlSetOwnerSecurityDescriptor_def by auto
  obtain m3 where 3: "RtlSetGroupSecurityDescriptor m2 p gr gr_def = Some (STATUS_SUCCESS, m3)" "sd_at m3 p ?s3" "same_outside p 20 m2 m3"
    using sd_set_sid_member [OF 2(2), of 8 "?s2\<lparr>SdGroup := of_nat gr\<rparr>" gr 2 gr_def] c unfolding RtlSetGroupSecurityDescriptor_def by auto
  obtain m4 where 4: "RtlSetSaclSecurityDescriptor m3 p sacl sa sa_def = Some (STATUS_SUCCESS, m4)" "sd_at m4 p ?s4" "same_outside p 20 m3 m4"
    using sd_set_acl_member [OF 3(2), of 12 "?s3\<lparr>SdSacl := of_nat sa\<rparr>" sa "0x10" "0x20" sacl sa_def] c
    unfolding RtlSetSaclSecurityDescriptor_def or_flag by (cases sacl) auto
  obtain m5 where 5: "RtlSetDaclSecurityDescriptor m4 p dacl da da_def = Some (STATUS_SUCCESS, m5)" "sd_at m5 p ?s5" "same_outside p 20 m4 m5"
    using sd_set_acl_member [OF 4(2), of 16 "?s4\<lparr>SdDacl := of_nat da\<rparr>" da 4 8 dacl da_def] c
    unfolding RtlSetDaclSecurityDescriptor_def or_flag by (cases dacl) auto
  have "same_outside p 20 m m5" using 1(2) 2(3) 3(3) 4(3) 5(3) by (simp add: same_outside_def)
  with 1(1) 2(1) 3(1) 4(1) 5(1) sd_getters [OF 5(2)] c assms(2-5) show ?thesis
    by (simp add: sd_address_of_nat bit_control)
qed

theorem SecurityDescriptor_set_get_witness:
  "\<exists>m1 m2 m3 m4 m5. RtlCreateSecurityDescriptor (block 16 (replicate 20 7)) 16 1 = Some (STATUS_SUCCESS, m1) \<and>
     RtlSetOwnerSecurityDescriptor m1 16 100 True = Some (STATUS_SUCCESS, m2) \<and>
     RtlSetGroupSecurityDescriptor m2 16 200 False = Some (STATUS_SUCCESS, m3) \<and>
     RtlSetSaclSecurityDescriptor m3 16 False 300 True = Some (STATUS_SUCCESS, m4) \<and>
     RtlSetDaclSecurityDescriptor m4 16 True 400 False = Some (STATUS_SUCCESS, m5) \<and>
     RtlGetOwnerSecurityDescriptor m5 16 = Some (STATUS_SUCCESS, Some 100, Some True) \<and>
     RtlGetDaclSecurityDescriptor m5 16 = Some (STATUS_SUCCESS, Some True, Some 400, Some False)"
proof -
  have "mapped (block 16 (replicate 20 7)) 16 20" using holds_mapped [OF holds_block, of 16 "replicate 20 7"] by simp
  from SecurityDescriptor_set_get [OF this, of 100 200 300 400 True False False True True False] show ?thesis by fastforce
qed

end
