(* ===== verification/SeObjectTypes.thy ===== *)
theory SeObjectTypes
  imports SeToken
begin

text \<open>
  Lists of object types for access checks on a hierarchy of objects: validation and capture of the
  list of the caller (\<^verbatim>\<open>ntoskrnl/se/objtype.c\<close>) and the four routines of \<^verbatim>\<open>accesschk.c\<close> that record the
  rights an ACE denies or allows in the list.

  A captured list is an Isabelle list; \<open>[]\<close> stands for a null pointer with length 0, the only case in
  which a caller passes no list.  A GUID is its sixteen bytes.
\<close>

unbundle bit_operations_syntax

section \<open>The lists\<close>

record ACCESS_CHECK_RIGHTS =
  RemainingAccessRights :: ACCESS_MASK
  GrantedAccessRights :: ACCESS_MASK
  DeniedAccessRights :: ACCESS_MASK

record OBJECT_TYPE_LIST =
  UserLevel :: USHORT
  ObjectType :: nat

record OBJECT_TYPE_LIST_INTERNAL =
  ObjectTypeGuid :: "UCHAR list"
  Level :: USHORT
  ObjectAccessRights :: ACCESS_CHECK_RIGHTS

abbreviation (input) ACCESS_OBJECT_GUID :: USHORT where "ACCESS_OBJECT_GUID \<equiv> 0"
abbreviation (input) ACCESS_MAX_LEVEL :: USHORT where "ACCESS_MAX_LEVEL \<equiv> 4"

section \<open>Validation and capture\<close>

text \<open>
  The list of the caller: the elements that can be read, and the length that was passed.
  \<open>probe n\<close> is \<^verbatim>\<open>ProbeForRead\<close> of \<open>n\<close> bytes of the list, \<open>probe_guid p\<close> of the GUID at \<open>p\<close>; \<open>Some\<close> is the
  exception it raises.  Reading an element that cannot be read is an access violation, which the
  handler returns too.  \<^verbatim>\<open>SIZE_T\<close> has 32 bits.
\<close>

fun validate_types_from ::
    "(nat \<Rightarrow> NTSTATUS option) \<Rightarrow> OBJECT_TYPE_LIST list \<Rightarrow> nat \<Rightarrow> nat \<Rightarrow> USHORT \<Rightarrow> NTSTATUS" where
  "validate_types_from probe_guid xs 0 i PrevLevel = STATUS_SUCCESS"
| "validate_types_from probe_guid xs (Suc left) i PrevLevel =
     (case array_get xs i of
        None \<Rightarrow> STATUS_ACCESS_VIOLATION
      | Some x \<Rightarrow>
          if UserLevel x > ACCESS_MAX_LEVEL then STATUS_INVALID_PARAMETER
          else if i \<noteq> 0 \<and> (UserLevel x = ACCESS_OBJECT_GUID \<or> uint (UserLevel x) > uint PrevLevel + 1)
          then STATUS_INVALID_PARAMETER
          else if i = 0 \<and> UserLevel x \<noteq> ACCESS_OBJECT_GUID then STATUS_INVALID_PARAMETER
          else case probe_guid (ObjectType x) of
                 Some e \<Rightarrow> e
               | None \<Rightarrow> validate_types_from probe_guid xs left (i + 1) (UserLevel x))"

definition SepValidateObjectTypeList ::
    "(nat \<Rightarrow> NTSTATUS option) \<Rightarrow> (nat \<Rightarrow> NTSTATUS option) \<Rightarrow> OBJECT_TYPE_LIST list \<Rightarrow> ULONG \<Rightarrow> NTSTATUS" where
  "SepValidateObjectTypeList probe probe_guid ObjectTypeList ObjectTypeListLength =
     (let Size = ObjectTypeListLength * 8
      in if Size = 0 then STATUS_INVALID_PARAMETER
         else case probe (unat Size) of
                Some e \<Rightarrow> e
              | None \<Rightarrow> validate_types_from probe_guid ObjectTypeList (unat ObjectTypeListLength) 0 0)"

fun load_bytes :: "mem \<Rightarrow> nat \<Rightarrow> nat \<Rightarrow> UCHAR list option" where
  "load_bytes m p 0 = Some []"
| "load_bytes m p (Suc n) = do {
     b \<leftarrow> m p;
     bs \<leftarrow> load_bytes m (p + 1) n;
     Some (b # bs)
   }"

text \<open>
  The copy loop writes element \<open>i\<close> of a block of \<open>capacity\<close> elements; a write behind the block is the
  value \<open>None\<close>.  The inner sum is the exception the handler turns into a status.
\<close>

fun capture_types_from ::
    "mem \<Rightarrow> OBJECT_TYPE_LIST list \<Rightarrow> nat \<Rightarrow> nat \<Rightarrow> nat \<Rightarrow> (NTSTATUS + OBJECT_TYPE_LIST_INTERNAL list) option" where
  "capture_types_from m xs capacity 0 i = Some (Inr [])"
| "capture_types_from m xs capacity (Suc left) i =
     (case array_get xs i of
        None \<Rightarrow> Some (Inl STATUS_ACCESS_VIOLATION)
      | Some x \<Rightarrow>
          (case load_bytes m (ObjectType x) 16 of
             None \<Rightarrow> Some (Inl STATUS_ACCESS_VIOLATION)
           | Some g \<Rightarrow>
               if i < capacity
               then do {
                 r \<leftarrow> capture_types_from m xs capacity left (i + 1);
                 case r of
                   Inl e \<Rightarrow> Some (Inl e)
                 | Inr ys \<Rightarrow> Some (Inr (\<lparr>ObjectTypeGuid = g, Level = UserLevel x,
                     ObjectAccessRights = \<lparr>RemainingAccessRights = 0, GrantedAccessRights = 0, DeniedAccessRights = 0\<rparr>\<rparr> # ys))
               }
               else None))"

definition SeCaptureObjectTypeList ::
    "(nat \<Rightarrow> NTSTATUS option) \<Rightarrow> (nat \<Rightarrow> NTSTATUS option) \<Rightarrow> (nat \<Rightarrow> bool) \<Rightarrow> mem \<Rightarrow>
     OBJECT_TYPE_LIST list option \<Rightarrow> ULONG \<Rightarrow> KPROCESSOR_MODE \<Rightarrow> (NTSTATUS \<times> OBJECT_TYPE_LIST_INTERNAL list) option" where
  "SeCaptureObjectTypeList probe probe_guid pool m ObjectTypeList ObjectTypeListLength PreviousMode =
     (if PreviousMode = KernelMode then Some (STATUS_NOT_IMPLEMENTED, [])
      else if ObjectTypeListLength = 0 then Some (STATUS_SUCCESS, [])
      else case ObjectTypeList of
        None \<Rightarrow> Some (STATUS_INVALID_PARAMETER, [])
      | Some xs \<Rightarrow>
          let Status = SepValidateObjectTypeList probe probe_guid xs ObjectTypeListLength
          in if \<not> NT_SUCCESS Status then Some (Status, [])
             else
               let Size = ObjectTypeListLength * 32
               in if \<not> pool (unat Size) then Some (STATUS_INSUFFICIENT_RESOURCES, [])
                  else do {
                    r \<leftarrow> capture_types_from m xs (unat Size div 32) (unat ObjectTypeListLength) 0;
                    case r of
                      Inl e \<Rightarrow> Some (e, [])
                    | Inr InternalTypeList \<Rightarrow> Some (STATUS_SUCCESS, InternalTypeList)
                  })"

section \<open>Finding an object\<close>

text \<open>\<^verbatim>\<open>RtlCompareMemory\<close> of the GUID at \<open>p\<close> with the copy on the stack, up to the first difference.\<close>

fun SepIsEqualObjectTypeGuid :: "mem \<Rightarrow> nat \<Rightarrow> UCHAR list \<Rightarrow> bool option" where
  "SepIsEqualObjectTypeGuid m p [] = Some True"
| "SepIsEqualObjectTypeGuid m p (b # bs) = do {
     a \<leftarrow> m p;
     if a = b then SepIsEqualObjectTypeGuid m (p + 1) bs else Some False
   }"

definition SepGetObjectTypeGuidFromAce :: "nat \<Rightarrow> bool \<Rightarrow> nat" where
  "SepGetObjectTypeGuidFromAce Ace IsAceDenied = (if IsAceDenied then Ace + 12 else Ace + 12)"

fun guid_in_list_from :: "mem \<Rightarrow> nat \<Rightarrow> nat \<Rightarrow> OBJECT_TYPE_LIST_INTERNAL list \<Rightarrow> nat option option" where
  "guid_in_list_from m Guid i [] = Some None"
| "guid_in_list_from m Guid i (x # xs) = do {
     e \<leftarrow> SepIsEqualObjectTypeGuid m Guid (ObjectTypeGuid x);
     if e then Some (Some i) else guid_in_list_from m Guid (i + 1) xs
   }"

definition SepObjectTypeGuidInList :: "mem \<Rightarrow> OBJECT_TYPE_LIST_INTERNAL list \<Rightarrow> nat \<Rightarrow> nat option option" where
  "SepObjectTypeGuidInList m ObjectTypeList Guid = guid_in_list_from m Guid 0 ObjectTypeList"

section \<open>Recording rights\<close>

text \<open>The index of the object an ACE names, the root when it names none.\<close>

definition target_object :: "mem \<Rightarrow> OBJECT_TYPE_LIST_INTERNAL list \<Rightarrow> nat \<Rightarrow> nat option option" where
  "target_object m ObjectTypeList Guid =
     (if Guid = 0 then Some (Some 0) else SepObjectTypeGuidInList m ObjectTypeList Guid)"

definition deny_rights :: "ACCESS_MASK \<Rightarrow> ACCESS_CHECK_RIGHTS \<Rightarrow> ACCESS_CHECK_RIGHTS" where
  "deny_rights Access R = R\<lparr>DeniedAccessRights := DeniedAccessRights R OR (Access AND NOT (GrantedAccessRights R))\<rparr>"

definition allow_rights :: "ACCESS_MASK \<Rightarrow> ACCESS_CHECK_RIGHTS \<Rightarrow> ACCESS_CHECK_RIGHTS" where
  "allow_rights Access R = R\<lparr>GrantedAccessRights := GrantedAccessRights R OR (Access AND NOT (DeniedAccessRights R))\<rparr>"

definition remove_remaining :: "ACCESS_MASK \<Rightarrow> ACCESS_CHECK_RIGHTS \<Rightarrow> ACCESS_CHECK_RIGHTS" where
  "remove_remaining Access R = R\<lparr>RemainingAccessRights := RemainingAccessRights R AND NOT Access\<rparr>"

definition on_rights ::
    "(ACCESS_CHECK_RIGHTS \<Rightarrow> ACCESS_CHECK_RIGHTS) \<Rightarrow> OBJECT_TYPE_LIST_INTERNAL \<Rightarrow> OBJECT_TYPE_LIST_INTERNAL" where
  "on_rights f x = x\<lparr>ObjectAccessRights := f (ObjectAccessRights x)\<rparr>"

text \<open>The loop over the children, which stops at an object that is not below the target.\<close>

fun update_children ::
    "(ACCESS_CHECK_RIGHTS \<Rightarrow> ACCESS_CHECK_RIGHTS) \<Rightarrow> USHORT \<Rightarrow> OBJECT_TYPE_LIST_INTERNAL list \<Rightarrow>
     OBJECT_TYPE_LIST_INTERNAL list" where
  "update_children f l [] = []"
| "update_children f l (x # xs) = (if Level x \<le> l then x # xs else on_rights f x # update_children f l xs)"

definition update_subtree ::
    "(ACCESS_CHECK_RIGHTS \<Rightarrow> ACCESS_CHECK_RIGHTS) \<Rightarrow> OBJECT_TYPE_LIST_INTERNAL list \<Rightarrow> nat \<Rightarrow>
     OBJECT_TYPE_LIST_INTERNAL list option" where
  "update_subtree f xs i = do {
     x \<leftarrow> array_get xs i;
     Some (take i xs @ on_rights f x # update_children f (Level x) (drop (i + 1) xs))
   }"

definition SepDenyAccessObjectTypeResultList ::
    "mem \<Rightarrow> OBJECT_TYPE_LIST_INTERNAL list \<Rightarrow> ACCESS_MASK \<Rightarrow> nat \<Rightarrow> OBJECT_TYPE_LIST_INTERNAL list option" where
  "SepDenyAccessObjectTypeResultList m ObjectTypeList AccessMask Guid = do {
     r \<leftarrow> target_object m ObjectTypeList Guid;
     case r of None \<Rightarrow> Some ObjectTypeList | Some i \<Rightarrow> update_subtree (deny_rights AccessMask) ObjectTypeList i
   }"

definition SepAllowAccessObjectTypeResultList ::
    "mem \<Rightarrow> OBJECT_TYPE_LIST_INTERNAL list \<Rightarrow> ACCESS_MASK \<Rightarrow> nat \<Rightarrow> OBJECT_TYPE_LIST_INTERNAL list option" where
  "SepAllowAccessObjectTypeResultList m ObjectTypeList AccessMask Guid = do {
     r \<leftarrow> target_object m ObjectTypeList Guid;
     case r of None \<Rightarrow> Some ObjectTypeList | Some i \<Rightarrow> update_subtree (allow_rights AccessMask) ObjectTypeList i
   }"

text \<open>The first component is \<^verbatim>\<open>*BreakOnDeny\<close>.\<close>

definition SepDenyAccessObjectTypeList ::
    "mem \<Rightarrow> OBJECT_TYPE_LIST_INTERNAL list \<Rightarrow> ACCESS_MASK \<Rightarrow> nat \<Rightarrow> (bool \<times> OBJECT_TYPE_LIST_INTERNAL list) option" where
  "SepDenyAccessObjectTypeList m ObjectTypeList AccessMask Guid = do {
     r \<leftarrow> target_object m ObjectTypeList Guid;
     case r of
       None \<Rightarrow> Some (False, ObjectTypeList)
     | Some i \<Rightarrow> do {
         x \<leftarrow> array_get ObjectTypeList i;
         Some (RemainingAccessRights (ObjectAccessRights x) AND AccessMask \<noteq> 0,
               ObjectTypeList[i := on_rights (deny_rights AccessMask) x])
       }
   }"

definition SepAllowAccessObjectTypeList ::
    "mem \<Rightarrow> OBJECT_TYPE_LIST_INTERNAL list \<Rightarrow> ACCESS_MASK \<Rightarrow> bool \<Rightarrow> nat \<Rightarrow> OBJECT_TYPE_LIST_INTERNAL list option" where
  "SepAllowAccessObjectTypeList m ObjectTypeList AccessMask RemoveRemainingRights Guid = do {
     r \<leftarrow> target_object m ObjectTypeList Guid;
     case r of
       None \<Rightarrow> Some ObjectTypeList
     | Some i \<Rightarrow> do {
         x \<leftarrow> array_get ObjectTypeList i;
         let x = (if RemoveRemainingRights then on_rights (remove_remaining AccessMask) x else x);
         Some (ObjectTypeList[i := on_rights (allow_rights AccessMask) x])
       }
   }"

section \<open>What the lists stand for\<close>

text \<open>
  \<open>levels_ok ls\<close>: the levels of a hierarchy in depth-first order with one root.  \<open>below xs i j\<close>: object
  \<open>j\<close> is object \<open>i\<close> or one of its descendants.  \<open>first_object\<close>: the index of the first object with a GUID.
\<close>

fun levels_from :: "USHORT \<Rightarrow> USHORT list \<Rightarrow> bool" where
  "levels_from p [] = True"
| "levels_from p (l # ls) = (0 < l \<and> l \<le> 4 \<and> unat l \<le> unat p + 1 \<and> levels_from l ls)"

definition levels_ok :: "USHORT list \<Rightarrow> bool" where
  "levels_ok ls \<longleftrightarrow> (case ls of [] \<Rightarrow> True | l # ls \<Rightarrow> l = 0 \<and> levels_from l ls)"

definition below :: "OBJECT_TYPE_LIST_INTERNAL list \<Rightarrow> nat \<Rightarrow> nat \<Rightarrow> bool" where
  "below xs i j \<longleftrightarrow> i \<le> j \<and> (\<forall>k \<in> {i<..j}. Level (xs ! i) < Level (xs ! k))"

fun first_object :: "UCHAR list \<Rightarrow> OBJECT_TYPE_LIST_INTERNAL list \<Rightarrow> nat option" where
  "first_object g [] = None"
| "first_object g (x # xs) = (if ObjectTypeGuid x = g then Some 0 else map_option Suc (first_object g xs))"

definition no_rights :: ACCESS_CHECK_RIGHTS where
  "no_rights = \<lparr>RemainingAccessRights = 0, GrantedAccessRights = 0, DeniedAccessRights = 0\<rparr>"

definition captured :: "mem \<Rightarrow> OBJECT_TYPE_LIST \<Rightarrow> OBJECT_TYPE_LIST_INTERNAL" where
  "captured m x = \<lparr>ObjectTypeGuid = the (load_bytes m (ObjectType x) 16), Level = UserLevel x, ObjectAccessRights = no_rights\<rparr>"

definition sample_types :: "OBJECT_TYPE_LIST_INTERNAL list" where
  "sample_types = [\<lparr>ObjectTypeGuid = replicate 16 0, Level = 0, ObjectAccessRights = no_rights\<rparr>,
     \<lparr>ObjectTypeGuid = replicate 16 1, Level = 1, ObjectAccessRights = no_rights\<rparr>,
     \<lparr>ObjectTypeGuid = replicate 16 2, Level = 2, ObjectAccessRights = no_rights\<rparr>,
     \<lparr>ObjectTypeGuid = replicate 16 3, Level = 1, ObjectAccessRights = no_rights\<rparr>]"

section \<open>Capture\<close>

lemma validate_types_levels:
  assumes "validate_types_from probe_guid xs left i p = STATUS_SUCCESS" "0 < i" "\<forall>q. probe_guid q \<noteq> Some STATUS_SUCCESS"
  shows "levels_from p (map UserLevel (take left (drop i xs))) \<and> (left = 0 \<or> i + left \<le> length xs)"
  using assms(1,2)
proof (induction left arbitrary: i p)
  case (Suc left)
  from Suc.prems obtain x where x: "array_get xs i = Some x" "i < length xs" "x = xs ! i"
    by (auto simp: array_get_def split: if_splits)
  have v: "UserLevel x \<le> 4 \<and> UserLevel x \<noteq> 0 \<and> uint (UserLevel x) \<le> uint p + 1 \<and>
      validate_types_from probe_guid xs left (Suc i) (UserLevel x) = STATUS_SUCCESS"
    using Suc.prems(2) assms(3) Suc.prems(1) [unfolded validate_types_from.simps x(1) option.case]
    by (cases "UserLevel x > 4"; cases "UserLevel x = 0"; cases "uint (UserLevel x) > uint p + 1"; cases "probe_guid (ObjectType x)") simp_all
  have d: "drop i xs = x # drop (Suc i) xs" using x(2,3) by (simp add: Cons_nth_drop_Suc)
  have u: "unat (UserLevel x) \<le> unat p + 1" using v by (simp only: uint_nat) linarith
  have "levels_from (UserLevel x) (map UserLevel (take left (drop (Suc i) xs))) \<and> (left = 0 \<or> Suc i + left \<le> length xs)"
    using Suc.IH [of "Suc i" "UserLevel x"] v by blast
  then show ?case using v u x(2) unfolding d by (simp add: word_neq_0_conv) linarith
qed simp

lemma validate_levels:
  assumes "SepValidateObjectTypeList probe probe_guid xs n = STATUS_SUCCESS"
    "\<forall>q. probe q \<noteq> Some STATUS_SUCCESS" "\<forall>q. probe_guid q \<noteq> Some STATUS_SUCCESS"
  shows "levels_ok (map UserLevel (take (unat n) xs)) \<and> unat n \<le> length xs"
proof -
  have run: "validate_types_from probe_guid xs (unat n) 0 0 = STATUS_SUCCESS" "n \<noteq> 0"
    using assms by (auto simp: SepValidateObjectTypeList_def Let_def split: if_splits option.splits)
  then obtain k where k: "unat n = Suc k" by (metis not0_implies_Suc unat_eq_zero)
  with run assms(3) obtain x ys where x: "xs = x # ys" "UserLevel x = 0"
      "validate_types_from probe_guid xs k 1 0 = STATUS_SUCCESS"
    by (cases xs) (auto simp: array_get_def split: if_splits option.splits)
  from validate_types_levels [OF x(3) _ assms(3)] k show ?thesis
    by (auto simp: x(1,2) levels_ok_def)
qed

lemma capture_types_ok:
  assumes "i + left \<le> length xs" "i + left \<le> capacity" "\<forall>x \<in> set xs. load_bytes m (ObjectType x) 16 \<noteq> None"
  shows "capture_types_from m xs capacity left i = Some (Inr (map (captured m) (take left (drop i xs))))"
  using assms(1,2)
proof (induction left arbitrary: i)
  case (Suc left)
  then have "drop i xs = xs ! i # drop (Suc i) xs" by (simp add: Cons_nth_drop_Suc)
  moreover obtain g where "load_bytes m (ObjectType (xs ! i)) 16 = Some g"
    using assms(3) Suc.prems nth_mem [of i xs] by force
  ultimately show ?case using Suc by (simp add: array_get_def captured_def no_rights_def)
qed simp

lemma capture_types_overflow:
  assumes "capacity < i + left" "i \<le> capacity" "i + left \<le> length xs"
    "\<forall>x \<in> set xs. load_bytes m (ObjectType x) 16 \<noteq> None"
  shows "capture_types_from m xs capacity left i = None"
  using assms(1-3)
proof (induction left arbitrary: i)
  case (Suc left)
  obtain g where "load_bytes m (ObjectType (xs ! i)) 16 = Some g"
    using assms(4) Suc.prems nth_mem [of i xs] by force
  then show ?case using Suc by (simp add: array_get_def)
qed simp

lemma capacity: "unat ((n :: ULONG) * 32) div 32 = unat n mod 2 ^ 27"
proof -
  have "unat n * 32 mod 4294967296 = unat n mod 134217728 * 32" using mod_mult_mult2 [of "unat n" 32 134217728] by simp
  then show ?thesis by (simp add: unat_word_ariths)
qed

section \<open>Finding and updating\<close>

lemma load_bytes_ok: "holds m p bs \<Longrightarrow> load_bytes m p (length bs) = Some bs"
  by (induction bs arbitrary: p) (simp_all add: holds_Cons)

lemma SepIsEqualObjectTypeGuid_ok:
  "holds m p g \<Longrightarrow> length g = length g' \<Longrightarrow> SepIsEqualObjectTypeGuid m p g' = Some (g' = g)"
  by (induction g' arbitrary: p g) (auto simp: holds_Cons length_Suc_conv)

lemma guid_in_list_ok:
  "holds m p g \<Longrightarrow> \<forall>x \<in> set xs. length (ObjectTypeGuid x) = length g \<Longrightarrow>
   guid_in_list_from m p i xs = Some (map_option (\<lambda>k. i + k) (first_object g xs))"
  by (induction xs arbitrary: i) (auto simp: SepIsEqualObjectTypeGuid_ok map_option_case split: option.splits)

lemma target_object_ok:
  "holds m p g \<Longrightarrow> p \<noteq> 0 \<Longrightarrow> \<forall>x \<in> set xs. length (ObjectTypeGuid x) = length g \<Longrightarrow>
   target_object m xs p = Some (first_object g xs)"
  by (simp add: target_object_def SepObjectTypeGuidInList_def guid_in_list_ok option.map_ident)

lemma first_object_less: "first_object g xs = Some i \<Longrightarrow> i < length xs \<and> ObjectTypeGuid (xs ! i) = g"
  by (induction xs arbitrary: i) (auto split: if_splits)

lemma length_update_children [simp]: "length (update_children f l xs) = length xs"
  by (induction xs) simp_all

lemma update_children_nth:
  "j < length xs \<Longrightarrow> update_children f l xs ! j =
     (if \<forall>k \<le> j. l < Level (xs ! k) then on_rights f (xs ! j) else xs ! j)"
proof (induction xs arbitrary: j)
  case (Cons x xs)
  have all: "(\<forall>k \<le> Suc i. l < Level ((x # xs) ! k)) \<longleftrightarrow> l < Level x \<and> (\<forall>k \<le> i. l < Level (xs ! k))" for i
    using all_less_Suc_shift [of "Suc i" "\<lambda>k. l < Level ((x # xs) ! k)"] by (simp add: less_Suc_eq_le)
  show ?case
  proof (cases j)
    case (Suc i)
    have "Level x \<le> l \<longleftrightarrow> \<not> l < Level x" by auto
    then show ?thesis using Cons.IH [of i] Cons.prems
      by (cases "l < Level x"; cases "\<forall>k \<le> i. l < Level (xs ! k)") (auto simp: Suc all)
  qed (simp add: not_le)
qed simp

lemma below_drop:
  assumes "i < length xs"
  shows "(\<forall>k \<le> d. Level (xs ! i) < Level (drop (Suc i) xs ! k)) \<longleftrightarrow> below xs i (Suc i + d)"
proof -
  have "{i<..Suc i + d} = (\<lambda>k. Suc i + k) ` {..d}"
  proof
    show "{i<..Suc i + d} \<subseteq> (\<lambda>k. Suc i + k) ` {..d}"
    proof
      fix k assume "k \<in> {i<..Suc i + d}"
      then have "k = Suc i + (k - Suc i)" "k - Suc i \<in> {..d}" by auto
      then show "k \<in> (\<lambda>k. Suc i + k) ` {..d}" by blast
    qed
  qed auto
  then show ?thesis using assms by (auto simp: below_def Suc_leI)
qed

lemma update_subtree_ok:
  assumes "i < length xs"
  shows "\<exists>ys. update_subtree f xs i = Some ys \<and> length ys = length xs \<and>
     (\<forall>j < length xs. ys ! j = (if below xs i j then on_rights f (xs ! j) else xs ! j))"
proof -
  let ?ys = "take i xs @ on_rights f (xs ! i) # update_children f (Level (xs ! i)) (drop (Suc i) xs)"
  have "?ys ! j = (if below xs i j then on_rights f (xs ! j) else xs ! j)" if j: "j < length xs" for j
  proof -
    consider "j < i" | "j = i" | d where "j = Suc i + d" by (metis less_imp_Suc_add linorder_neqE_nat add_Suc)
    then show ?thesis
    proof cases
      case 3
      then have "d < length (drop (Suc i) xs)" using j by simp
      note child = update_children_nth [OF this, of f "Level (xs ! i)", unfolded below_drop [OF assms]]
      have "?ys ! j = update_children f (Level (xs ! i)) (drop (Suc i) xs) ! d"
        using 3 assms by (simp add: nth_append)
      with child 3 assms show ?thesis by (simp add: Suc_leI)
    qed (use assms in \<open>simp_all add: nth_append below_def\<close>)
  qed
  moreover have "length ?ys = length xs" using assms by simp
  ultimately show ?thesis using assms by (simp add: update_subtree_def array_get_def)
qed

section \<open>Properties\<close>

text \<open>
  C38. For a valid list of 2^27 or more objects the 32-bit product of length and element
  size wraps around, the block that is allocated is too small and the copy loop of
  SeCaptureObjectTypeList stores behind it.
\<close>

theorem SeCaptureObjectTypeList_overflow:
  assumes "2 ^ 27 \<le> unat n" "unat n \<le> length xs" "SepValidateObjectTypeList probe probe_guid xs n = STATUS_SUCCESS"
    and "\<forall>k. pool k" "\<forall>x \<in> set xs. load_bytes m (ObjectType x) 16 \<noteq> None"
  shows "SeCaptureObjectTypeList probe probe_guid pool m (Some xs) n UserMode = None"
proof -
  have "unat n mod 2 ^ 27 < unat n" using assms(1) pos_mod_bound [of "2 ^ 27" "int (unat n)"]
    by (metis mod_less_divisor order_less_le_trans zero_less_numeral zero_less_power)
  then have "capture_types_from m xs (unat (n * 32) div 32) (unat n) 0 = None"
    unfolding capacity using assms(2,5) by (intro capture_types_overflow) simp_all
  moreover have "n \<noteq> 0" using assms(1) by auto
  ultimately show ?thesis using assms(3,4) by (simp add: SeCaptureObjectTypeList_def)
qed

lemma validate_children:
  "0 < i \<Longrightarrow> i + left \<le> length xs \<Longrightarrow> \<forall>j < length xs. 0 < j \<longrightarrow> UserLevel (xs ! j) = 1 \<Longrightarrow> p \<in> {0, 1} \<Longrightarrow>
   validate_types_from (\<lambda>q. None) xs left i p = STATUS_SUCCESS"
  by (induction left arbitrary: i p) (auto simp: array_get_def)

theorem SeCaptureObjectTypeList_overflow_witness:
  "SeCaptureObjectTypeList (\<lambda>k. None) (\<lambda>q. None) (\<lambda>k. True) (block 64 (replicate 16 0))
     (Some (\<lparr>UserLevel = 0, ObjectType = 64\<rparr> # replicate (2 ^ 27) \<lparr>UserLevel = 1, ObjectType = 64\<rparr>)) 0x08000001 UserMode = None"
proof -
  define k :: nat where "k = 2 ^ 27"
  define xs where "xs = \<lparr>UserLevel = 0, ObjectType = 64\<rparr> # replicate k \<lparr>UserLevel = 1, ObjectType = 64\<rparr>"
  have n: "unat (0x08000001 :: ULONG) = Suc k" by (simp add: k_def)
  have "validate_types_from (\<lambda>q. None) xs k 1 0 = STATUS_SUCCESS"
    by (rule validate_children) (auto simp: xs_def nth_Cons')
  then have "validate_types_from (\<lambda>q. None) xs (Suc k) 0 0 = STATUS_SUCCESS" by (simp add: xs_def array_get_def)
  then have "SepValidateObjectTypeList (\<lambda>k. None) (\<lambda>q. None) xs 0x08000001 = STATUS_SUCCESS"
    unfolding SepValidateObjectTypeList_def n by simp
  moreover have "load_bytes (block 64 (replicate 16 0)) 64 16 \<noteq> None"
    using load_bytes_ok [of "block 64 (replicate 16 0)" 64 "replicate 16 0"] by (simp add: block_def)
  ultimately have "SeCaptureObjectTypeList (\<lambda>k. None) (\<lambda>q. None) (\<lambda>k. True) (block 64 (replicate 16 0)) (Some xs) 0x08000001 UserMode = None"
    using n by (intro SeCaptureObjectTypeList_overflow) (auto simp: xs_def k_def)
  then show ?thesis unfolding xs_def k_def .
qed

text \<open>
  C23. SepAllowAccessObjectTypeResultList and SepDenyAccessObjectTypeResultList change the
  rights of exactly the first object with the GUID and of the objects below it in the
  hierarchy, each by adding the mask to its granted (denied) rights except for those already
  denied (granted), and keep every other object.
\<close>

theorem ObjectTypeResultList_subtree:
  assumes "holds m p g" "p \<noteq> 0" "\<forall>x \<in> set xs. length (ObjectTypeGuid x) = length g"
  shows "\<exists>ys zs. SepAllowAccessObjectTypeResultList m xs Access p = Some ys \<and> length ys = length xs \<and>
     SepDenyAccessObjectTypeResultList m xs Access p = Some zs \<and> length zs = length xs \<and>
     (\<forall>j < length xs.
        if \<exists>i. first_object g xs = Some i \<and> below xs i j
        then ys ! j = on_rights (allow_rights Access) (xs ! j) \<and> zs ! j = on_rights (deny_rights Access) (xs ! j)
        else ys ! j = xs ! j \<and> zs ! j = xs ! j)"
proof (cases "first_object g xs")
  case None
  then show ?thesis using target_object_ok [OF assms]
    by (simp add: SepAllowAccessObjectTypeResultList_def SepDenyAccessObjectTypeResultList_def)
next
  case (Some i)
  then have "i < length xs" using first_object_less by blast
  from update_subtree_ok [OF this, of "allow_rights Access"] update_subtree_ok [OF this, of "deny_rights Access"]
  obtain ys zs where "update_subtree (allow_rights Access) xs i = Some ys" "length ys = length xs"
      "update_subtree (deny_rights Access) xs i = Some zs" "length zs = length xs"
      "\<forall>j < length xs. ys ! j = (if below xs i j then on_rights (allow_rights Access) (xs ! j) else xs ! j)"
      "\<forall>j < length xs. zs ! j = (if below xs i j then on_rights (deny_rights Access) (xs ! j) else xs ! j)" by blast
  then show ?thesis using target_object_ok [OF assms] Some
    by (simp add: SepAllowAccessObjectTypeResultList_def SepDenyAccessObjectTypeResultList_def)
qed

theorem ObjectTypeResultList_subtree_witness:
  "\<exists>ys. SepAllowAccessObjectTypeResultList (block 64 (replicate 16 1)) sample_types 7 64 = Some ys \<and>
     map (GrantedAccessRights \<circ> ObjectAccessRights) ys = [0, 7, 7, 0]"
proof -
  have "holds (block 64 (replicate 16 1)) 64 (replicate 16 1)" unfolding block_def by (rule holds_put)
  from ObjectTypeResultList_subtree [OF this, of sample_types 7] obtain ys where
    ys: "SepAllowAccessObjectTypeResultList (block 64 (replicate 16 1)) sample_types 7 64 = Some ys" "length ys = 4"
      "\<forall>j < 4. ys ! j = (if \<exists>i. first_object (replicate 16 1) sample_types = Some i \<and> below sample_types i j
         then on_rights (allow_rights 7) (sample_types ! j) else sample_types ! j)"
    by (force simp: sample_types_def)
  have f: "first_object (replicate 16 1) sample_types = Some 1" by (simp add: sample_types_def)
  have "{1<..(1::nat)} = {}" "{1<..(2::nat)} = {2}" "{1<..(3::nat)} = {2, 3}" by auto
  then have below: "\<not> below sample_types 1 0" "below sample_types 1 1" "below sample_types 1 2" "\<not> below sample_types 1 3"
    by (simp_all add: below_def sample_types_def)
  obtain a b c d where abcd: "ys = [a, b, c, d]" using ys(2) by (auto simp: length_Suc_conv numeral_eq_Suc)
  have "a = sample_types ! 0" "b = on_rights (allow_rights 7) (sample_types ! 1)"
    "c = on_rights (allow_rights 7) (sample_types ! 2)" "d = sample_types ! 3"
    using ys(3) [rule_format, of 0] ys(3) [rule_format, of 1] ys(3) [rule_format, of 2] ys(3) [rule_format, of 3]
    by (simp_all add: abcd f below del: One_nat_def)
  then have "map (GrantedAccessRights \<circ> ObjectAccessRights) ys = [0, 7, 7, 0]"
    by (simp add: abcd sample_types_def on_rights_def allow_rights_def no_rights_def)
  with ys(1) show ?thesis by (intro exI [of _ ys] conjI)
qed

end
