(* ===== verification/SeAccess.thy ===== *)
theory SeAccess
  imports SeObjectTypes
begin

text \<open>
  The access check of the security reference monitor (\<^verbatim>\<open>ntoskrnl/se/accesschk.c\<close>): the analysis of the
  ACEs of a DACL, the worker, \<open>SeAccessCheck\<close> and \<open>SeFastTraverseCheck\<close>.  The DACL and the SIDs are
  read from memory with the routines of \<open>RtlAcl\<close>, \<open>RtlSid\<close> and \<open>SeToken\<close>.
\<close>

unbundle bit_operations_syntax

abbreviation (input) INHERIT_ONLY_ACE :: UCHAR where "INHERIT_ONLY_ACE \<equiv> 0x8"
abbreviation (input) GENERIC_ACCESS :: ACCESS_MASK where
  "GENERIC_ACCESS \<equiv> GENERIC_READ OR GENERIC_WRITE OR GENERIC_EXECUTE OR GENERIC_ALL"

section \<open>The ACEs of a DACL\<close>

text \<open>
  The steps every branch of the analysis begins with: the SID of the ACE is looked up in the token,
  and if it is there the mask of the ACE is read and mapped.  \<open>Some None\<close>: the SID is not there.
\<close>

definition ace_access :: "mem \<Rightarrow> GENERIC_MAPPING \<Rightarrow> nat \<Rightarrow> ACCESS_MASK option" where
  "ace_access m GenericMapping Ace = do {
     Access \<leftarrow> load_ULONG m (Ace + 4);
     Some (if Access AND GENERIC_ACCESS \<noteq> 0 then RtlMapGenericMask Access GenericMapping else Access)
   }"

definition ace_for_token ::
    "mem \<Rightarrow> nat \<Rightarrow> GENERIC_MAPPING \<Rightarrow> TOKEN \<Rightarrow> nat \<Rightarrow> bool \<Rightarrow> bool \<Rightarrow> nat \<Rightarrow> ACCESS_MASK option option" where
  "ace_for_token m self GenericMapping AccessToken PrincipalSelfSid IsTokenRestricted Deny Ace = do {
     Sid \<leftarrow> SepGetSidFromAce m Ace;
     In \<leftarrow> SepSidInTokenEx m self AccessToken PrincipalSelfSid Sid Deny IsTokenRestricted;
     if In then do { Access \<leftarrow> ace_access m GenericMapping Ace; Some (Some Access) } else Some None
   }"

type_synonym check_state = "ACCESS_CHECK_RIGHTS \<times> OBJECT_TYPE_LIST_INTERNAL list"

text \<open>The body of the loop for \<^verbatim>\<open>AccessCheckMaximum\<close>.\<close>

definition analyze_maximum_ace ::
    "mem \<Rightarrow> nat \<Rightarrow> GENERIC_MAPPING \<Rightarrow> TOKEN \<Rightarrow> nat \<Rightarrow> bool \<Rightarrow> bool \<Rightarrow> nat \<Rightarrow> check_state \<Rightarrow> check_state option" where
  "analyze_maximum_ace m self GenericMapping AccessToken PrincipalSelfSid IsTokenRestricted UseResultList CurrentAce s = do {
     let (AccessCheckRights, ObjectTypeList) = s;
     AceFlags \<leftarrow> m (CurrentAce + 1);
     if AceFlags AND INHERIT_ONLY_ACE \<noteq> 0 then Some s
     else do {
       AceType \<leftarrow> m CurrentAce;
       if AceType = ACCESS_DENIED_ACE_TYPE then do {
         A \<leftarrow> ace_for_token m self GenericMapping AccessToken PrincipalSelfSid IsTokenRestricted True CurrentAce;
         case A of None \<Rightarrow> Some s
         | Some Access \<Rightarrow> Some (deny_rights Access AccessCheckRights, ObjectTypeList)
       }
       else if AceType = ACCESS_ALLOWED_ACE_TYPE then do {
         A \<leftarrow> ace_for_token m self GenericMapping AccessToken PrincipalSelfSid IsTokenRestricted False CurrentAce;
         case A of None \<Rightarrow> Some s
         | Some Access \<Rightarrow> Some (allow_rights Access AccessCheckRights, ObjectTypeList)
       }
       else if AceType = ACCESS_DENIED_OBJECT_ACE_TYPE then do {
         A \<leftarrow> ace_for_token m self GenericMapping AccessToken PrincipalSelfSid IsTokenRestricted True CurrentAce;
         case A of None \<Rightarrow> Some s
         | Some Access \<Rightarrow>
             if ObjectTypeList = [] then Some (deny_rights Access AccessCheckRights, ObjectTypeList)
             else if \<not> UseResultList then do {
               (_, ObjectTypeList) \<leftarrow> SepDenyAccessObjectTypeList m ObjectTypeList Access
                 (SepGetObjectTypeGuidFromAce CurrentAce True);
               Some (AccessCheckRights, ObjectTypeList)
             }
             else do {
               ObjectTypeList \<leftarrow> SepDenyAccessObjectTypeResultList m ObjectTypeList Access
                 (SepGetObjectTypeGuidFromAce CurrentAce True);
               Some (AccessCheckRights, ObjectTypeList)
             }
       }
       else if AceType = ACCESS_ALLOWED_OBJECT_ACE_TYPE then do {
         A \<leftarrow> ace_for_token m self GenericMapping AccessToken PrincipalSelfSid IsTokenRestricted False CurrentAce;
         case A of None \<Rightarrow> Some s
         | Some Access \<Rightarrow>
             if ObjectTypeList = [] then Some (allow_rights Access AccessCheckRights, ObjectTypeList)
             else if \<not> UseResultList then do {
               ObjectTypeList \<leftarrow> SepAllowAccessObjectTypeList m ObjectTypeList Access False
                 (SepGetObjectTypeGuidFromAce CurrentAce False);
               Some (AccessCheckRights, ObjectTypeList)
             }
             else do {
               ObjectTypeList \<leftarrow> SepAllowAccessObjectTypeResultList m ObjectTypeList Access
                 (SepGetObjectTypeGuidFromAce CurrentAce False);
               Some (AccessCheckRights, ObjectTypeList)
             }
       }
       else Some s
     }
   }"

text \<open>
  The body of the loop for \<^verbatim>\<open>AccessCheckRegular\<close>; the first component says that the loop is left.
  \<open>grant_remaining\<close> removes remaining rights and records them as granted.
\<close>

definition refute_rights :: "ACCESS_MASK \<Rightarrow> ACCESS_CHECK_RIGHTS \<Rightarrow> ACCESS_CHECK_RIGHTS" where
  "refute_rights Access R = R\<lparr>DeniedAccessRights := DeniedAccessRights R OR Access\<rparr>"

definition grant_remaining :: "ACCESS_MASK \<Rightarrow> ACCESS_CHECK_RIGHTS \<Rightarrow> ACCESS_CHECK_RIGHTS" where
  "grant_remaining Access R = R\<lparr>RemainingAccessRights := RemainingAccessRights R AND NOT Access,
     GrantedAccessRights := GrantedAccessRights R OR Access\<rparr>"

definition analyze_regular_ace ::
    "mem \<Rightarrow> nat \<Rightarrow> GENERIC_MAPPING \<Rightarrow> TOKEN \<Rightarrow> nat \<Rightarrow> bool \<Rightarrow> nat \<Rightarrow> check_state \<Rightarrow> (bool \<times> check_state) option" where
  "analyze_regular_ace m self GenericMapping AccessToken PrincipalSelfSid IsTokenRestricted CurrentAce s = do {
     let (AccessCheckRights, ObjectTypeList) = s;
     AceFlags \<leftarrow> m (CurrentAce + 1);
     if AceFlags AND INHERIT_ONLY_ACE \<noteq> 0 then Some (False, s)
     else do {
       AceType \<leftarrow> m CurrentAce;
       if AceType = ACCESS_DENIED_ACE_TYPE then do {
         A \<leftarrow> ace_for_token m self GenericMapping AccessToken PrincipalSelfSid IsTokenRestricted True CurrentAce;
         case A of None \<Rightarrow> Some (False, s)
         | Some Access \<Rightarrow>
             if RemainingAccessRights AccessCheckRights AND Access \<noteq> 0
             then Some (True, (refute_rights Access AccessCheckRights, ObjectTypeList))
             else Some (False, s)
       }
       else if AceType = ACCESS_ALLOWED_ACE_TYPE then do {
         A \<leftarrow> ace_for_token m self GenericMapping AccessToken PrincipalSelfSid IsTokenRestricted False CurrentAce;
         case A of None \<Rightarrow> Some (False, s)
         | Some Access \<Rightarrow> Some (False, (grant_remaining Access AccessCheckRights, ObjectTypeList))
       }
       else if AceType = ACCESS_DENIED_OBJECT_ACE_TYPE then do {
         A \<leftarrow> ace_for_token m self GenericMapping AccessToken PrincipalSelfSid IsTokenRestricted True CurrentAce;
         case A of None \<Rightarrow> Some (False, s)
         | Some Access \<Rightarrow>
             if ObjectTypeList = [] then
               if RemainingAccessRights AccessCheckRights AND Access \<noteq> 0
               then Some (True, (refute_rights Access AccessCheckRights, ObjectTypeList))
               else Some (False, s)
             else do {
               (BreakOnDeny, ObjectTypeList) \<leftarrow> SepDenyAccessObjectTypeList m ObjectTypeList Access
                 (SepGetObjectTypeGuidFromAce CurrentAce True);
               Some (BreakOnDeny, (AccessCheckRights, ObjectTypeList))
             }
       }
       else if AceType = ACCESS_ALLOWED_OBJECT_ACE_TYPE then do {
         A \<leftarrow> ace_for_token m self GenericMapping AccessToken PrincipalSelfSid IsTokenRestricted False CurrentAce;
         case A of None \<Rightarrow> Some (False, s)
         | Some Access \<Rightarrow>
             if ObjectTypeList = [] then Some (False, (grant_remaining Access AccessCheckRights, ObjectTypeList))
             else do {
               ObjectTypeList \<leftarrow> SepAllowAccessObjectTypeList m ObjectTypeList Access True
                 (SepGetObjectTypeGuidFromAce CurrentAce False);
               Some (False, (AccessCheckRights, ObjectTypeList))
             }
       }
       else Some (False, s)
     }
   }"

text \<open>
  The loop over the DACL.  Both loops of the code assert that \<open>RtlGetAce\<close> succeeds.
\<close>

fun for_aces ::
    "mem \<Rightarrow> nat \<Rightarrow> (nat \<Rightarrow> check_state \<Rightarrow> (bool \<times> check_state) option) \<Rightarrow> nat \<Rightarrow> ULONG \<Rightarrow> check_state \<Rightarrow> check_state option" where
  "for_aces m Dacl body 0 AceIndex s = Some s"
| "for_aces m Dacl body (Suc left) AceIndex s = do {
     (Status, p) \<leftarrow> RtlGetAce m Dacl AceIndex;
     if \<not> NT_SUCCESS Status then None
     else do {
       CurrentAce \<leftarrow> p;
       (stop, s) \<leftarrow> body CurrentAce s;
       if stop then Some s else for_aces m Dacl body left (AceIndex + 1) s
     }
   }"

datatype ACCESS_CHECK_RIGHT_TYPE = AccessCheckMaximum | AccessCheckRegular

definition SepAnalyzeAcesFromDacl ::
    "ACCESS_CHECK_RIGHT_TYPE \<Rightarrow> ACCESS_MASK \<Rightarrow> mem \<Rightarrow> nat \<Rightarrow> nat \<Rightarrow> TOKEN \<Rightarrow> bool \<Rightarrow> nat \<Rightarrow> GENERIC_MAPPING \<Rightarrow> bool \<Rightarrow>
     check_state \<Rightarrow> check_state option" where
  "SepAnalyzeAcesFromDacl ActionType RemainingAccess m self Dacl AccessToken IsTokenRestricted PrincipalSelfSid
       GenericMapping UseResultList s = do {
     Count \<leftarrow> AceCount m Dacl;
     case ActionType of
       AccessCheckMaximum \<Rightarrow>
         for_aces m Dacl
           (\<lambda>Ace s. do {
              s \<leftarrow> analyze_maximum_ace m self GenericMapping AccessToken PrincipalSelfSid IsTokenRestricted UseResultList Ace s;
              Some (False, s)
            })
           (unat Count) 0 s
     | AccessCheckRegular \<Rightarrow>
         let (AccessCheckRights, ObjectTypeList) = s;
             AccessCheckRights = AccessCheckRights\<lparr>RemainingAccessRights := RemainingAccess\<rparr>;
             ObjectTypeList = map (on_rights (\<lambda>R. R\<lparr>RemainingAccessRights := RemainingAccess\<rparr>)) ObjectTypeList
         in for_aces m Dacl
              (analyze_regular_ace m self GenericMapping AccessToken PrincipalSelfSid IsTokenRestricted)
              (unat Count) 0 (AccessCheckRights, ObjectTypeList)
   }"

section \<open>The worker\<close>

text \<open>
  What the blocks of the worker leave behind when they jump to \<^verbatim>\<open>ReturnCommonStatus\<close>: the status, the
  value of \<open>PreviouslyGrantedAccess\<close>, and the two arrays of results of the caller.
\<close>

record worker_exit =
  ExitStatus :: NTSTATUS
  ExitGranted :: ACCESS_MASK
  GrantedAccessList :: "ACCESS_MASK list"
  AccessStatusList :: "NTSTATUS list"

text \<open>The loop that reports the rights and the status of each object of the list.\<close>

fun report_objects ::
    "ACCESS_MASK \<Rightarrow> ACCESS_MASK \<Rightarrow> ACCESS_MASK \<Rightarrow> OBJECT_TYPE_LIST_INTERNAL list \<Rightarrow> nat \<Rightarrow>
     ACCESS_MASK list \<times> NTSTATUS list \<Rightarrow> (ACCESS_MASK list \<times> NTSTATUS list) option" where
  "report_objects PreviouslyGrantedAccess MaskDesired WantedRights [] i out = Some out"
| "report_objects PreviouslyGrantedAccess MaskDesired WantedRights (x # xs) i (Granted, Statuses) = do {
     let GrantedRights = (GrantedAccessRights (ObjectAccessRights x) OR PreviouslyGrantedAccess) AND MaskDesired;
     Statuses \<leftarrow> array_set Statuses i
       (if GrantedRights \<noteq> 0 \<and> NOT GrantedRights AND WantedRights = 0 then STATUS_SUCCESS else STATUS_ACCESS_DENIED);
     Granted \<leftarrow> array_set Granted i GrantedRights;
     report_objects PreviouslyGrantedAccess MaskDesired WantedRights xs (i + 1) (Granted, Statuses)
   }"

text \<open>The block for \<^verbatim>\<open>MAXIMUM_ALLOWED\<close> and for result lists, and the regular one behind it.\<close>

definition check_maximum ::
    "mem \<Rightarrow> nat \<Rightarrow> nat \<Rightarrow> TOKEN \<Rightarrow> nat \<Rightarrow> GENERIC_MAPPING \<Rightarrow> bool \<Rightarrow> OBJECT_TYPE_LIST_INTERNAL list \<Rightarrow>
     ACCESS_MASK \<Rightarrow> ACCESS_MASK \<Rightarrow> ACCESS_MASK \<Rightarrow> ACCESS_MASK \<Rightarrow> ACCESS_MASK list \<Rightarrow> NTSTATUS list \<Rightarrow> worker_exit option" where
  "check_maximum m self Dacl Token PrincipalSelfSid GenericMapping UseResultList ObjectTypeList
       RemainingAccess PreviouslyGrantedAccess MaskDesired WantedRights Granted Statuses = do {
     s \<leftarrow> SepAnalyzeAcesFromDacl AccessCheckMaximum 0 m self Dacl Token False PrincipalSelfSid GenericMapping
            UseResultList (no_rights, ObjectTypeList);
     s \<leftarrow> (if SeTokenIsRestricted Token
           then SepAnalyzeAcesFromDacl AccessCheckMaximum 0 m self Dacl Token True PrincipalSelfSid GenericMapping
                  UseResultList s
           else Some s);
     let (AccessCheckRights, ObjectTypeList) = s;
     if ObjectTypeList = [] \<or> \<not> UseResultList then
       let GrantedRights = (if ObjectTypeList = [] then GrantedAccessRights AccessCheckRights
             else foldr (\<lambda>x G. GrantedAccessRights (ObjectAccessRights x) OR G) ObjectTypeList 0);
           RemainingAccess = RemainingAccess AND NOT (MAXIMUM_ALLOWED OR GrantedRights)
       in if RemainingAccess \<noteq> 0
          then Some \<lparr>ExitStatus = STATUS_ACCESS_DENIED, ExitGranted = 0, GrantedAccessList = Granted, AccessStatusList = Statuses\<rparr>
          else let PreviouslyGrantedAccess = PreviouslyGrantedAccess OR GrantedRights
               in Some \<lparr>ExitStatus = (if PreviouslyGrantedAccess \<noteq> 0 then STATUS_SUCCESS else STATUS_ACCESS_DENIED),
                        ExitGranted = PreviouslyGrantedAccess, GrantedAccessList = Granted, AccessStatusList = Statuses\<rparr>
     else do {
       (Granted, Statuses) \<leftarrow>
         report_objects PreviouslyGrantedAccess MaskDesired WantedRights ObjectTypeList 0 (Granted, Statuses);
       Some \<lparr>ExitStatus = (if STATUS_ACCESS_DENIED \<in> set (take (length ObjectTypeList) Statuses)
                           then STATUS_ACCESS_DENIED else STATUS_SUCCESS),
             ExitGranted = PreviouslyGrantedAccess, GrantedAccessList = Granted, AccessStatusList = Statuses\<rparr>
     }
   }"

text \<open>Whether a pass granted everything: without a list, or for some object of the list.\<close>

definition all_granted :: "check_state \<Rightarrow> bool" where
  "all_granted s \<longleftrightarrow> (if snd s = [] then RemainingAccessRights (fst s) = 0
     else \<exists>x \<in> set (snd s). RemainingAccessRights (ObjectAccessRights x) = 0)"

definition check_regular ::
    "mem \<Rightarrow> nat \<Rightarrow> nat \<Rightarrow> TOKEN \<Rightarrow> nat \<Rightarrow> GENERIC_MAPPING \<Rightarrow> OBJECT_TYPE_LIST_INTERNAL list \<Rightarrow>
     ACCESS_MASK \<Rightarrow> ACCESS_MASK \<Rightarrow> ACCESS_MASK \<Rightarrow> (NTSTATUS \<times> ACCESS_MASK) option" where
  "check_regular m self Dacl Token PrincipalSelfSid GenericMapping ObjectTypeList
       DesiredAccess RemainingAccess PreviouslyGrantedAccess = do {
     s \<leftarrow> SepAnalyzeAcesFromDacl AccessCheckRegular RemainingAccess m self Dacl Token False PrincipalSelfSid
            GenericMapping False (no_rights, ObjectTypeList);
     if \<not> all_granted s then Some (STATUS_ACCESS_DENIED, 0)
     else do {
       s \<leftarrow> (if SeTokenIsRestricted Token
             then SepAnalyzeAcesFromDacl AccessCheckRegular RemainingAccess m self Dacl Token True PrincipalSelfSid
                    GenericMapping False s
             else Some s);
       if SeTokenIsRestricted Token \<and> \<not> all_granted s then Some (STATUS_ACCESS_DENIED, 0)
       else let PreviouslyGrantedAccess = PreviouslyGrantedAccess OR DesiredAccess
            in Some (if PreviouslyGrantedAccess = 0 then STATUS_ACCESS_DENIED else STATUS_SUCCESS, PreviouslyGrantedAccess)
     }
   }"

text \<open>The part of the worker behind the privilege check, for remaining rights that are not 0.\<close>

definition check_dacl ::
    "mem \<Rightarrow> nat \<Rightarrow> nat \<Rightarrow> TOKEN \<Rightarrow> nat \<Rightarrow> GENERIC_MAPPING \<Rightarrow> bool \<Rightarrow> OBJECT_TYPE_LIST_INTERNAL list \<Rightarrow> ACCESS_MASK \<Rightarrow>
     ACCESS_MASK \<Rightarrow> ACCESS_MASK \<Rightarrow> ACCESS_MASK \<Rightarrow> ACCESS_MASK \<Rightarrow> ACCESS_MASK list \<Rightarrow> NTSTATUS list \<Rightarrow> worker_exit option" where
  "check_dacl m self SecurityDescriptor Token PrincipalSelfSid GenericMapping UseResultList ObjectTypeList DesiredAccess
       RemainingAccess PreviouslyGrantedAccess MaskDesired WantedRights Granted Statuses =
     (let leave = (\<lambda>Status Access. Some \<lparr>ExitStatus = Status, ExitGranted = Access,
                     GrantedAccessList = Granted, AccessStatusList = Statuses\<rparr>)
      in if GenericRead GenericMapping = 0 \<and> GenericWrite GenericMapping = 0 \<and>
            GenericExecute GenericMapping = 0 \<and> GenericAll GenericMapping = 0
         then if SeTokenIsAdmin Token then leave STATUS_SUCCESS (PreviouslyGrantedAccess OR RemainingAccess)
              else leave STATUS_ACCESS_DENIED 0
         else do {
           (Status, Present, Dacl, _) \<leftarrow> RtlGetDaclSecurityDescriptor m SecurityDescriptor;
           if \<not> NT_SUCCESS Status then leave Status PreviouslyGrantedAccess
           else if Present = Some False \<or> Dacl = Some 0
           then let Access = PreviouslyGrantedAccess OR RemainingAccess
                in leave STATUS_SUCCESS
                     (if RemainingAccess AND MAXIMUM_ALLOWED \<noteq> 0
                      then Access AND NOT MAXIMUM_ALLOWED OR GenericAll GenericMapping else Access)
           else do {
             Dacl \<leftarrow> Dacl;
             Count \<leftarrow> AceCount m Dacl;
             if Count = 0
             then if RemainingAccess = MAXIMUM_ALLOWED \<and> PreviouslyGrantedAccess \<noteq> 0
                  then leave STATUS_SUCCESS PreviouslyGrantedAccess
                  else leave STATUS_ACCESS_DENIED 0
             else if DesiredAccess AND MAXIMUM_ALLOWED \<noteq> 0 \<or> UseResultList
             then check_maximum m self Dacl Token PrincipalSelfSid GenericMapping UseResultList ObjectTypeList
                    RemainingAccess PreviouslyGrantedAccess MaskDesired WantedRights Granted Statuses
             else do {
               (Status, Access) \<leftarrow> check_regular m self Dacl Token PrincipalSelfSid GenericMapping ObjectTypeList
                 DesiredAccess RemainingAccess PreviouslyGrantedAccess;
               leave Status Access
             }
           }
         })"

text \<open>
  The worker returns \<open>NT_SUCCESS Status\<close>, what it stored through \<open>Privileges\<close>, and the two arrays.
  \<open>want\<close> says whether \<open>Privileges\<close> is not null; the first assignment to \<^verbatim>\<open>*Privileges\<close> does not test it.
\<close>

definition SepAccessCheckWorker ::
    "(nat \<Rightarrow> bool) \<Rightarrow> mem \<Rightarrow> nat \<Rightarrow> nat \<Rightarrow> TOKEN option \<Rightarrow> TOKEN \<Rightarrow> nat \<Rightarrow> ACCESS_MASK \<Rightarrow> OBJECT_TYPE_LIST_INTERNAL list \<Rightarrow>
     ACCESS_MASK \<Rightarrow> GENERIC_MAPPING \<Rightarrow> KPROCESSOR_MODE \<Rightarrow> bool \<Rightarrow> bool \<Rightarrow> ACCESS_MASK list \<Rightarrow> NTSTATUS list \<Rightarrow>
     (bool \<times> PRIVILEGE_SET option option \<times> ACCESS_MASK list \<times> NTSTATUS list) option" where
  "SepAccessCheckWorker pool m self SecurityDescriptor ClientAccessToken PrimaryAccessToken PrincipalSelfSid DesiredAccess
       ObjectTypeList PreviouslyGrantedAccess GenericMapping AccessMode UseResultList want Granted Statuses = do {
     (Privileges, e) \<leftarrow>
       (if DesiredAccess = 0 then
          if PreviouslyGrantedAccess = 0
          then Some (None, \<lparr>ExitStatus = STATUS_ACCESS_DENIED, ExitGranted = PreviouslyGrantedAccess,
                            GrantedAccessList = Granted, AccessStatusList = Statuses\<rparr>)
          else if want
          then Some (Some None, \<lparr>ExitStatus = STATUS_SUCCESS, ExitGranted = PreviouslyGrantedAccess,
                                 GrantedAccessList = Granted, AccessStatusList = Statuses\<rparr>)
          else None
        else
          let DesiredAccess = RtlMapGenericMask DesiredAccess GenericMapping;
              PreviouslyGrantedAccess = (if PreviouslyGrantedAccess \<noteq> 0
                then RtlMapGenericMask PreviouslyGrantedAccess GenericMapping else PreviouslyGrantedAccess);
              MaskDesired = (if DesiredAccess AND MAXIMUM_ALLOWED \<noteq> 0 then NOT MAXIMUM_ALLOWED
                             else DesiredAccess OR PreviouslyGrantedAccess);
              WantedRights = (if DesiredAccess AND MAXIMUM_ALLOWED \<noteq> 0
                              then (DesiredAccess OR PreviouslyGrantedAccess) AND NOT MAXIMUM_ALLOWED
                              else DesiredAccess OR PreviouslyGrantedAccess);
              Token = (case ClientAccessToken of Some t \<Rightarrow> t | None \<Rightarrow> PrimaryAccessToken);
              (Status, RemainingAccess, PreviouslyGrantedAccess, Privileges) =
                SePrivilegePolicyCheck pool DesiredAccess PreviouslyGrantedAccess None Token want AccessMode
          in if \<not> NT_SUCCESS Status \<or> RemainingAccess = 0
             then Some (Privileges, \<lparr>ExitStatus = (if NT_SUCCESS Status then STATUS_SUCCESS else Status),
                          ExitGranted = PreviouslyGrantedAccess, GrantedAccessList = Granted, AccessStatusList = Statuses\<rparr>)
             else do {
               e \<leftarrow> check_dacl m self SecurityDescriptor Token PrincipalSelfSid GenericMapping UseResultList ObjectTypeList
                      DesiredAccess RemainingAccess PreviouslyGrantedAccess MaskDesired WantedRights Granted Statuses;
               Some (Privileges, e)
             });
     if UseResultList then Some (NT_SUCCESS (ExitStatus e), Privileges, GrantedAccessList e, AccessStatusList e)
     else do {
       Granted \<leftarrow> array_set (GrantedAccessList e) 0 (ExitGranted e);
       Statuses \<leftarrow> array_set (AccessStatusList e) 0 (ExitStatus e);
       Some (NT_SUCCESS (ExitStatus e), Privileges, Granted, Statuses)
     }
   }"

section \<open>The checks of the kernel\<close>

text \<open>
  The return value, \<^verbatim>\<open>*AccessStatus\<close>, and \<^verbatim>\<open>*GrantedAccess\<close> and \<^verbatim>\<open>*Privileges\<close>, which are \<open>None\<close> when they
  were not written.  A security descriptor at address 0 is a null pointer.
\<close>

record access_result =
  Allowed :: bool
  AccessStatus :: NTSTATUS
  GrantedAccess :: "ACCESS_MASK option"
  ResultPrivileges :: "PRIVILEGE_SET option option"

fun level_number :: "SECURITY_IMPERSONATION_LEVEL \<Rightarrow> nat" where
  "level_number SecurityAnonymous = 0"
| "level_number SecurityIdentification = 1"
| "level_number SecurityImpersonation = 2"
| "level_number SecurityDelegation = 3"

definition SeAccessCheck ::
    "(nat \<Rightarrow> bool) \<Rightarrow> mem \<Rightarrow> nat \<Rightarrow> nat \<Rightarrow> SECURITY_SUBJECT_CONTEXT \<Rightarrow> ACCESS_MASK \<Rightarrow> ACCESS_MASK \<Rightarrow> GENERIC_MAPPING \<Rightarrow>
     KPROCESSOR_MODE \<Rightarrow> access_result option" where
  "SeAccessCheck pool m self SecurityDescriptor SubjectSecurityContext DesiredAccess PreviouslyGrantedAccess
       GenericMapping AccessMode =
     (if AccessMode = KernelMode
      then Some \<lparr>Allowed = True, AccessStatus = STATUS_SUCCESS,
                 GrantedAccess = Some
                   (if DesiredAccess AND MAXIMUM_ALLOWED \<noteq> 0
                    then GenericAll GenericMapping OR (DesiredAccess AND NOT MAXIMUM_ALLOWED) OR PreviouslyGrantedAccess
                    else DesiredAccess OR PreviouslyGrantedAccess),
                 ResultPrivileges = None\<rparr>
      else if SecurityDescriptor = 0
      then Some \<lparr>Allowed = False, AccessStatus = STATUS_ACCESS_DENIED, GrantedAccess = None, ResultPrivileges = None\<rparr>
      else if ClientToken SubjectSecurityContext \<noteq> None \<and>
              level_number (ImpersonationLevel SubjectSecurityContext) < level_number SecurityImpersonation
      then Some \<lparr>Allowed = False, AccessStatus = STATUS_BAD_IMPERSONATION_LEVEL, GrantedAccess = None, ResultPrivileges = None\<rparr>
      else do {
        let Token = (case ClientToken SubjectSecurityContext of Some t \<Rightarrow> t | None \<Rightarrow> PrimaryToken SubjectSecurityContext);
        Owner \<leftarrow> (if DesiredAccess AND (WRITE_DAC OR READ_CONTROL OR MAXIMUM_ALLOWED) \<noteq> 0
                 then SepTokenIsOwner m self Token SecurityDescriptor else Some False);
        let PreviouslyGrantedAccess =
              (if \<not> Owner then PreviouslyGrantedAccess
               else if DesiredAccess AND MAXIMUM_ALLOWED \<noteq> 0 then PreviouslyGrantedAccess OR (WRITE_DAC OR READ_CONTROL)
               else PreviouslyGrantedAccess OR (DesiredAccess AND (WRITE_DAC OR READ_CONTROL)));
        let DesiredAccess = (if Owner then DesiredAccess AND NOT (WRITE_DAC OR READ_CONTROL) else DesiredAccess);
        if DesiredAccess = 0
        then Some \<lparr>Allowed = PreviouslyGrantedAccess \<noteq> 0,
                   AccessStatus = (if PreviouslyGrantedAccess = 0 then STATUS_ACCESS_DENIED else STATUS_SUCCESS),
                   GrantedAccess = Some PreviouslyGrantedAccess, ResultPrivileges = None\<rparr>
        else do {
          (ret, Privileges, Granted, Statuses) \<leftarrow>
            SepAccessCheckWorker pool m self SecurityDescriptor (ClientToken SubjectSecurityContext)
              (PrimaryToken SubjectSecurityContext) 0 DesiredAccess [] PreviouslyGrantedAccess GenericMapping AccessMode
              False True [0] [STATUS_SUCCESS];
          Some \<lparr>Allowed = ret, AccessStatus = hd Statuses, GrantedAccess = Some (hd Granted), ResultPrivileges = Privileges\<rparr>
        }
      })"

text \<open>The loop of the fast check; the address of the entry is advanced by the size of the entry.\<close>

fun fast_traverse_from :: "mem \<Rightarrow> nat \<Rightarrow> ACCESS_MASK \<Rightarrow> nat \<Rightarrow> nat \<Rightarrow> bool option" where
  "fast_traverse_from m SeWorldSid DesiredAccess 0 Ace = Some False"
| "fast_traverse_from m SeWorldSid DesiredAccess (Suc left) Ace = do {
     AceFlags \<leftarrow> m (Ace + 1);
     r \<leftarrow>
       (if AceFlags AND INHERIT_ONLY_ACE \<noteq> 0 then Some None
        else do {
          AceType \<leftarrow> m Ace;
          if AceType = ACCESS_ALLOWED_ACE_TYPE then do {
            Mask \<leftarrow> load_ULONG m (Ace + 4);
            if Mask AND DesiredAccess = 0 then Some None
            else do {
              World \<leftarrow> RtlEqualSid m SeWorldSid (Ace + 8);
              Some (if World then Some True else None)
            }
          }
          else if AceType = ACCESS_DENIED_ACE_TYPE then do {
            Mask \<leftarrow> load_ULONG m (Ace + 4);
            Some (if Mask AND DesiredAccess \<noteq> 0 then Some False else None)
          }
          else Some None
        });
     case r of
       Some v \<Rightarrow> Some v
     | None \<Rightarrow> do {
         Size \<leftarrow> AceSize m Ace;
         fast_traverse_from m SeWorldSid DesiredAccess left (Ace + unat Size)
       }
   }"

definition SeFastTraverseCheck :: "mem \<Rightarrow> nat \<Rightarrow> nat \<Rightarrow> ULONG \<Rightarrow> ACCESS_MASK \<Rightarrow> bool option" where
  "SeFastTraverseCheck m SeWorldSid SecurityDescriptor AccessStateFlags DesiredAccess =
     (if SecurityDescriptor = 0 then Some False
      else do {
        Dacl \<leftarrow> SepGetDaclFromDescriptor m SecurityDescriptor;
        if Dacl = 0 then Some True
        else do {
          Count \<leftarrow> AceCount m Dacl;
          if Count = 0 then Some False
          else if AccessStateFlags AND TOKEN_IS_RESTRICTED \<noteq> 0 then Some False
          else fast_traverse_from m SeWorldSid DesiredAccess (unat Count) (Dacl + 8)
        }
      })"

end
