(* ===== verification/SeAccessSpec.thy ===== *)
theory SeAccessSpec
  imports SeAccess
begin

text \<open>
  What the access check decides.  A DACL is read as a list of rules, one for each entry that applies
  to the token; each right is decided by the first rule that names it.  The analysis of the kernel
  is shown to compute these decisions, and the checks are described by them.
\<close>

unbundle bit_operations_syntax

section \<open>Decisions\<close>

datatype verdict = Grant | Refuse

fun decide :: "(verdict \<times> ACCESS_MASK) list \<Rightarrow> nat \<Rightarrow> verdict option" where
  "decide [] b = None"
| "decide ((v, M) # rs) b = (if bit M b then Some v else decide rs b)"

text \<open>The parts of an entry, read from its bytes.\<close>

definition ace_verdict :: "UCHAR list \<Rightarrow> verdict option" where
  "ace_verdict a = (if bit (a ! 1) 3 then None
     else if a ! 0 = 1 \<or> a ! 0 = 6 then Some Refuse
     else if a ! 0 = 0 \<or> a ! 0 = 5 then Some Grant else None)"

definition ace_mask :: "UCHAR list \<Rightarrow> ACCESS_MASK" where
  "ace_mask a = ucast (a ! 4) OR push_bit 8 (ucast (a ! 5)) OR push_bit 16 (ucast (a ! 6)) OR push_bit 24 (ucast (a ! 7))"

definition ace_sid_offset :: "UCHAR list \<Rightarrow> nat" where
  "ace_sid_offset a = (if a ! 0 = 5 \<or> a ! 0 = 6 then 12 + guid_size (a ! 8) else 8)"

definition ace_sid :: "UCHAR list \<Rightarrow> UCHAR list" where
  "ace_sid a = (let k = ace_sid_offset a in take (8 + 4 * unat (a ! (k + 1))) (drop k a))"

definition mapped_mask :: "GENERIC_MAPPING \<Rightarrow> UCHAR list \<Rightarrow> ACCESS_MASK" where
  "mapped_mask gm a = (if ace_mask a AND GENERIC_ACCESS \<noteq> 0 then RtlMapGenericMask (ace_mask a) gm else ace_mask a)"

text \<open>The rule of an entry for a token with the groups \<open>gs\<close>, and the rules of a DACL.\<close>

definition ace_rule :: "GENERIC_MAPPING \<Rightarrow> (ISID \<times> ULONG) list \<Rightarrow> bool \<Rightarrow> UCHAR list \<Rightarrow> (verdict \<times> ACCESS_MASK) option" where
  "ace_rule gm gs Restricted a = (case ace_verdict a of
     None \<Rightarrow> None
   | Some v \<Rightarrow> if token_has (v = Refuse) Restricted 0 gs (ace_sid a) then Some (v, mapped_mask gm a) else None)"

definition rules :: "GENERIC_MAPPING \<Rightarrow> (ISID \<times> ULONG) list \<Rightarrow> bool \<Rightarrow> UCHAR list list \<Rightarrow> (verdict \<times> ACCESS_MASK) list" where
  "rules gm gs Restricted as = List.map_filter (ace_rule gm gs Restricted) as"

text \<open>Running a step over the entries, until a step stops the loop; the steps of the two kinds of analysis.\<close>

fun run_aces :: "('a \<Rightarrow> 's \<Rightarrow> bool \<times> 's) \<Rightarrow> 'a list \<Rightarrow> 's \<Rightarrow> 's" where
  "run_aces f [] s = s"
| "run_aces f (a # as) s = (let (stop, s') = f a s in if stop then s' else run_aces f as s')"

definition max_rule :: "verdict \<times> ACCESS_MASK \<Rightarrow> ACCESS_CHECK_RIGHTS \<Rightarrow> ACCESS_CHECK_RIGHTS" where
  "max_rule r R = (case r of (Refuse, M) \<Rightarrow> deny_rights M R | (Grant, M) \<Rightarrow> allow_rights M R)"

definition regular_rule :: "verdict \<times> ACCESS_MASK \<Rightarrow> ACCESS_CHECK_RIGHTS \<Rightarrow> bool \<times> ACCESS_CHECK_RIGHTS" where
  "regular_rule r R = (case r of
     (Refuse, M) \<Rightarrow> if RemainingAccessRights R AND M \<noteq> 0 then (True, refute_rights M R) else (False, R)
   | (Grant, M) \<Rightarrow> (False, grant_remaining M R))"

section \<open>Objects, tokens and requests\<close>

text \<open>
  \<open>descriptor_at m sd Ow as\<close>: a security descriptor with owner \<open>Ow\<close> and a DACL with the entries \<open>as\<close> lies at
  \<open>sd\<close>, in absolute or self-relative form.  \<open>token_at\<close>: the SID arrays of the token hold these groups.
\<close>

definition descriptor_at :: "mem \<Rightarrow> nat \<Rightarrow> ISID \<Rightarrow> UCHAR list list \<Rightarrow> bool" where
  "descriptor_at m sd Ow as \<longleftrightarrow> sd \<noteq> 0 \<and> m sd = Some 1 \<and>
     (\<exists>c ow da n. load_USHORT m (sd + 2) = Some c \<and> bit c 2 \<and>
        load_ULONG m (sd + 4) = Some ow \<and> load_ULONG m (sd + 16) = Some da \<and> ow \<noteq> 0 \<and> da \<noteq> 0 \<and>
        sid_at m ((if bit c 15 then sd else 0) + unat ow) Ow \<and>
        acl_entries m ((if bit c 15 then sd else 0) + unat da) as n)"

definition token_at :: "mem \<Rightarrow> TOKEN \<Rightarrow> (ISID \<times> ULONG) list \<Rightarrow> (ISID \<times> ULONG) list \<Rightarrow> bool" where
  "token_at m T gs rs \<longleftrightarrow> group_list_at m (UserAndGroups T) gs \<and> group_list_at m (RestrictedSids T) rs"

text \<open>What the owner test, the DACL and the privileges allow.\<close>

definition token_owns :: "TOKEN \<Rightarrow> (ISID \<times> ULONG) list \<Rightarrow> (ISID \<times> ULONG) list \<Rightarrow> ISID \<Rightarrow> bool" where
  "token_owns T gs rs Ow \<longleftrightarrow> token_has False False 0 gs (sid_bytes Ow) \<and>
     (SeTokenIsRestricted T \<longrightarrow> token_has False True 0 rs (sid_bytes Ow))"

definition dacl_grants ::
    "GENERIC_MAPPING \<Rightarrow> TOKEN \<Rightarrow> (ISID \<times> ULONG) list \<Rightarrow> (ISID \<times> ULONG) list \<Rightarrow> UCHAR list list \<Rightarrow> nat \<Rightarrow> bool" where
  "dacl_grants gm T gs rs as b \<longleftrightarrow> decide (rules gm gs False as) b = Some Grant \<and>
     (SeTokenIsRestricted T \<longrightarrow> decide (rules gm rs True as) b = Some Grant)"

definition by_privilege :: "TOKEN \<Rightarrow> nat \<Rightarrow> bool" where
  "by_privilege T b \<longleftrightarrow> b = 24 \<or> b = 19 \<and> privilege_enabled T SeTakeOwnershipPrivilege"

definition rights_allowed ::
    "GENERIC_MAPPING \<Rightarrow> TOKEN \<Rightarrow> (ISID \<times> ULONG) list \<Rightarrow> (ISID \<times> ULONG) list \<Rightarrow> UCHAR list list \<Rightarrow> ACCESS_MASK \<Rightarrow> bool" where
  "rights_allowed gm T gs rs as R \<longleftrightarrow> (bit R 24 \<longrightarrow> privilege_enabled T SeSecurityPrivilege) \<and>
     (\<forall>b < 32. bit R b \<and> \<not> by_privilege T b \<longrightarrow> dacl_grants gm T gs rs as b)"

definition effective_token :: "SECURITY_SUBJECT_CONTEXT \<Rightarrow> TOKEN" where
  "effective_token c = (case ClientToken c of Some t \<Rightarrow> t | None \<Rightarrow> PrimaryToken c)"

definition may_impersonate :: "SECURITY_SUBJECT_CONTEXT \<Rightarrow> bool" where
  "may_impersonate c \<longleftrightarrow> (ClientToken c = None \<or> ImpersonationLevel c \<in> {SecurityImpersonation, SecurityDelegation})"

text \<open>The masks of a mapping hold specific and standard rights only, and one of them is not empty.\<close>

definition plain_mapping :: "GENERIC_MAPPING \<Rightarrow> bool" where
  "plain_mapping gm \<longleftrightarrow> (\<forall>w \<in> {GenericRead gm, GenericWrite gm, GenericExecute gm, GenericAll gm}. \<forall>k \<ge> 25. \<not> bit w k) \<and>
     (GenericRead gm \<noteq> 0 \<or> GenericWrite gm \<noteq> 0 \<or> GenericExecute gm \<noteq> 0 \<or> GenericAll gm \<noteq> 0)"

text \<open>
  With \<^verbatim>\<open>MAXIMUM_ALLOWED\<close> both passes over the DACL add to the same record of rights: a right the second
  pass does not grant is not taken away.
\<close>

definition maximum_grants ::
    "GENERIC_MAPPING \<Rightarrow> TOKEN \<Rightarrow> (ISID \<times> ULONG) list \<Rightarrow> (ISID \<times> ULONG) list \<Rightarrow> UCHAR list list \<Rightarrow> nat \<Rightarrow> bool" where
  "maximum_grants gm T gs rs as b \<longleftrightarrow> decide (rules gm gs False as) b = Some Grant \<or>
     SeTokenIsRestricted T \<and> decide (rules gm gs False as) b = None \<and> decide (rules gm rs True as) b = Some Grant"

definition maximum_passes ::
    "GENERIC_MAPPING \<Rightarrow> TOKEN \<Rightarrow> (ISID \<times> ULONG) list \<Rightarrow> (ISID \<times> ULONG) list \<Rightarrow> UCHAR list list \<Rightarrow> ACCESS_CHECK_RIGHTS" where
  "maximum_passes gm T gs rs as =
     (let R = fold max_rule (rules gm gs False as) no_rights
      in if SeTokenIsRestricted T then fold max_rule (rules gm rs True as) R else R)"

definition owner_rights :: "TOKEN \<Rightarrow> (ISID \<times> ULONG) list \<Rightarrow> (ISID \<times> ULONG) list \<Rightarrow> ISID \<Rightarrow> ACCESS_MASK" where
  "owner_rights T gs rs Ow = (if token_owns T gs rs Ow then WRITE_DAC OR READ_CONTROL else 0)"

text \<open>The owner part of \<open>SeAccessCheck\<close>, which leaves a request for the worker.\<close>

definition owned_rights :: "ACCESS_MASK \<Rightarrow> ACCESS_MASK \<Rightarrow> ACCESS_MASK" where
  "owned_rights D W = (if bit D 25 then W else D AND W)"

lemma rules_simps [simp]:
  "rules gm gs Restricted [] = []"
  "rules gm gs Restricted (a # as) =
     (case ace_rule gm gs Restricted a of None \<Rightarrow> rules gm gs Restricted as | Some r \<Rightarrow> r # rules gm gs Restricted as)"
  by (simp_all add: rules_def map_filter_simps split: option.splits)

section \<open>Reading an entry\<close>

lemma bit_flag_UCHAR: "(x :: UCHAR) AND 8 = 0 \<longleftrightarrow> \<not> bit x 3"
  using and_exp_eq_0_iff_not_bit [of x 3] by simp

lemma ace_reads:
  assumes "holds m q a" "8 \<le> length a"
  shows "m q = Some (a ! 0)" "m (q + 1) = Some (a ! 1)" "load_ULONG m (q + 4) = Some (ace_mask a)"
proof -
  have r: "m (q + i) = Some (a ! i)" if "i < 8" for i using holds_nth [OF assms(1)] assms(2) that by simp
  show "m q = Some (a ! 0)" "m (q + 1) = Some (a ! 1)" using r [of 0] r [of 1] by simp_all
  show "load_ULONG m (q + 4) = Some (ace_mask a)"
    using r [of 4] r [of 5] r [of 6] r [of 7] by (simp add: load_ULONG_def ace_mask_def add.commute [of q])
qed

text \<open>The SID of an entry of one of the four types that count.\<close>

lemma sid_inside_at:
  assumes "holds m q a" "sid_inside k a" "k \<noteq> 0"
  shows "\<exists>S. sid_at m (q + k) S \<and> sid_bytes S = take (8 + 4 * unat (a ! (k + 1))) (drop k a)"
proof -
  let ?n = "8 + 4 * unat (a ! (k + 1))"
  note r = sid_inside_reads [OF assms(1,2)]
  have "RtlValidSid m (q + k)" using r(1-3) assms(3) by (simp add: RtlValidSid_def)
  moreover have "mapped m (q + k) ?n" using holds_mapped [OF holds_sub [OF assms(1), of k ?n]] r(6) by simp
  ultimately obtain S where S: "sid_at m (q + k) S" "?n = length (sid_bytes S)"
    using RtlValidSid_sid_at [of m "q + k"] r(4,5) assms(3) by (metis add_is_0)
  moreover have "holds m (q + k) (take ?n (drop k a))" using holds_sub [OF assms(1), of k ?n] r(6) by simp
  ultimately show ?thesis using holds_unique [of m "q + k" "sid_bytes S"] r(6) by (auto simp: sid_at_def)
qed

lemma ace_sid_ok:
  assumes "holds m q a" "wf_ace r a" "a ! 0 \<in> {0, 1, 5, 6}"
  shows "SepGetSidFromAce m q = Some (q + ace_sid_offset a)"
    and "\<exists>S. sid_at m (q + ace_sid_offset a) S \<and> sid_bytes S = ace_sid a"
    and "8 \<le> length a"
proof -
  have inside: "sid_inside (ace_sid_offset a) a"
    using assms(2,3) by (auto simp: wf_ace_def ace_sid_offset_def)
  then show "\<exists>S. sid_at m (q + ace_sid_offset a) S \<and> sid_bytes S = ace_sid a"
    using sid_inside_at [OF assms(1) inside] by (simp add: ace_sid_def Let_def ace_sid_offset_def)
  show len: "8 \<le> length a" using inside by (simp add: sid_inside_def ace_sid_offset_def split: if_splits)
  note reads = ace_reads [OF assms(1) len]
  show "SepGetSidFromAce m q = Some (q + ace_sid_offset a)"
  proof (cases "a ! 0 = 5 \<or> a ! 0 = 6")
    case True
    then have "16 \<le> length a" using assms(2) by (simp add: wf_ace_def)
    moreover from this obtain F where F: "load_ULONG m (q + 8) = Some F"
      using load_ULONG_mapped [of m "q + 8"] mapped_mono [OF holds_mapped [OF assms(1)], of "q + 8" 4] by auto
    ultimately have "ucast F = a ! 8" using load_ULONG_low [OF F] holds_nth [OF assms(1), of 8] by simp
    then show ?thesis using True reads(1) F guid_size_ULONG [of F]
      by (auto simp: SepGetSidFromAce_def ace_sid_offset_def Let_def)
  qed (use assms(3) reads(1) in \<open>auto simp: SepGetSidFromAce_def ace_sid_offset_def\<close>)
qed

lemma ace_for_token_ok:
  assumes "holds m q a" "wf_ace r a" "a ! 0 \<in> {0, 1, 5, 6}"
    and "group_list_at m (if Restricted then RestrictedSids T else UserAndGroups T) gs"
  shows "ace_for_token m self gm T 0 Restricted Deny q =
     Some (if token_has Deny Restricted 0 gs (ace_sid a) then Some (mapped_mask gm a) else None)"
proof -
  note sid = ace_sid_ok [OF assms(1-3)]
  from sid(2) obtain S where S: "sid_at m (q + ace_sid_offset a) S" "sid_bytes S = ace_sid a" by blast
  show ?thesis
    using SepSidInTokenEx_ok [OF S(1) assms(4), of self Deny] S(2) sid(1) ace_reads(3) [OF assms(1) sid(3)]
    by (simp add: ace_for_token_def ace_access_def mapped_mask_def)
qed

section \<open>The loop over the entries\<close>

lemma for_aces_from:
  assumes "acl_entries m p as n" "length as < 65536"
    and body: "\<And>q a s. a \<in> set as \<Longrightarrow> holds m q a \<Longrightarrow> P s \<Longrightarrow> body q s = Some (f a s) \<and> P (snd (f a s))"
  shows "P s \<Longrightarrow> i + k = length as \<Longrightarrow> for_aces m p body k (of_nat i) s = Some (run_aces f (drop i as) s)"
proof (induction k arbitrary: i s)
  case (Suc k)
  then have i: "i < length as" by simp
  obtain q where q: "RtlGetAce m p (of_nat i) = Some (STATUS_SUCCESS, Some q)" "holds m q (as ! i)"
    using rtl_acl.get_nth [OF assms(1) i] by blast
  obtain stop s' where s': "f (as ! i) s = (stop, s')" by (cases "f (as ! i) s")
  have b: "body q s = Some (stop, s')" "P s'" using body [OF nth_mem [OF i] q(2) Suc.prems(1)] s' by simp_all
  have "for_aces m p body k (of_nat (Suc i)) s' = Some (run_aces f (drop (Suc i) as) s')"
    using Suc.IH [OF b(2), of "Suc i"] Suc.prems(2) by simp
  moreover have "drop i as = as ! i # drop (Suc i) as" using i by (simp add: Cons_nth_drop_Suc)
  ultimately show ?case using q(1) b(1) s' by (simp add: add.commute)
qed simp

lemma acl_entries_facts:
  assumes "acl_entries m p as n"
  shows "AceCount m p = Some (of_nat (length as))" "unat (of_nat (length as) :: USHORT) = length as"
    "length as < 65536" "\<forall>a \<in> set as. \<exists>r. wf_ace r a"
  using assms acl_header [of m p] by (auto simp: acl_entries_def wf_acl_def)

lemmas for_aces_ok = for_aces_from [where i = 0, simplified]

section \<open>Granting the maximum\<close>

lemma max_rules_decide:
  assumes "\<not> (bit (GrantedAccessRights R) b \<and> bit (DeniedAccessRights R) b)" "b < 32"
  shows "(bit (GrantedAccessRights (fold max_rule rs R)) b \<longleftrightarrow>
      bit (GrantedAccessRights R) b \<or> \<not> bit (DeniedAccessRights R) b \<and> decide rs b = Some Grant) \<and>
    (bit (DeniedAccessRights (fold max_rule rs R)) b \<longleftrightarrow>
      bit (DeniedAccessRights R) b \<or> \<not> bit (GrantedAccessRights R) b \<and> decide rs b = Some Refuse)"
  using assms(1)
proof (induction rs arbitrary: R)
  case (Cons r rs)
  obtain v M where r: "r = (v, M)" by (cases r)
  let ?R = "max_rule r R"
  have R: "bit (GrantedAccessRights ?R) b \<longleftrightarrow> bit (GrantedAccessRights R) b \<or>
      v = Grant \<and> bit M b \<and> \<not> bit (DeniedAccessRights R) b"
    "bit (DeniedAccessRights ?R) b \<longleftrightarrow> bit (DeniedAccessRights R) b \<or>
      v = Refuse \<and> bit M b \<and> \<not> bit (GrantedAccessRights R) b"
    using assms(2) by (cases v; simp add: r max_rule_def deny_rights_def allow_rights_def bit_simps)+
  then have "\<not> (bit (GrantedAccessRights ?R) b \<and> bit (DeniedAccessRights ?R) b)"
    using Cons.prems by (cases v) auto
  from Cons.IH [OF this] R Cons.prems show ?case by (cases v) (auto simp: r)
qed simp

lemma ace_head:
  assumes "holds m q a" "wf_ace r a"
  shows "m q = Some (a ! 0)" "m (q + 1) = Some (a ! 1)"
proof -
  have "6 \<le> length a" using assms(2) by (simp add: wf_ace_def)
  then have "0 < length a" "1 < length a" by linarith+
  then show "m q = Some (a ! 0)" "m (q + 1) = Some (a ! 1)"
    using holds_nth [OF assms(1), of 0] holds_nth [OF assms(1), of 1] by simp_all
qed

lemma maximum_ace_ok:
  assumes "holds m q a" "wf_ace r a" "group_list_at m (if Restricted then RestrictedSids T else UserAndGroups T) gs"
  shows "analyze_maximum_ace m self gm T 0 Restricted U q (R, []) =
     Some (case ace_rule gm gs Restricted a of None \<Rightarrow> R | Some r \<Rightarrow> max_rule r R, [])"
proof -
  note reads = ace_head [OF assms(1,2)]
  show ?thesis
  proof (cases "a ! 0 \<in> {0, 1, 5, 6}")
    case True
    note t = ace_for_token_ok [OF assms(1,2) True assms(3)]
    show ?thesis using True reads
      by (auto simp: analyze_maximum_ace_def t bit_flag_UCHAR ace_rule_def ace_verdict_def max_rule_def)
  next
    case False
    then show ?thesis using reads
      by (simp add: analyze_maximum_ace_def bit_flag_UCHAR ace_rule_def ace_verdict_def)
  qed
qed

lemma run_maximum:
  "run_aces (\<lambda>a (R, _). (False, (case ace_rule gm gs Restricted a of None \<Rightarrow> R | Some r \<Rightarrow> max_rule r R, []))) as (R, []) =
   (fold max_rule (rules gm gs Restricted as) R, [])"
  by (induction as arbitrary: R) (simp_all split: option.splits)

lemma analyze_maximum_ok:
  assumes "acl_entries m p as n" "group_list_at m (if Restricted then RestrictedSids T else UserAndGroups T) gs"
  shows "SepAnalyzeAcesFromDacl AccessCheckMaximum w m self p T Restricted 0 gm U (R, []) =
     Some (fold max_rule (rules gm gs Restricted as) R, [])"
proof -
  note e = acl_entries_facts [OF assms(1)]
  let ?body = "\<lambda>q s. do { s \<leftarrow> analyze_maximum_ace m self gm T 0 Restricted U q s; Some (False, s) }"
  let ?f = "\<lambda>a (R, _ :: OBJECT_TYPE_LIST_INTERNAL list).
    (False, (case ace_rule gm gs Restricted a of None \<Rightarrow> R | Some r \<Rightarrow> max_rule r R, []))"
  have "for_aces m p ?body (length as) 0 (R, []) = Some (run_aces ?f as (R, []))"
  proof (rule for_aces_ok [OF assms(1) e(3), where P = "\<lambda>s. snd s = []"])
    fix q a and s :: check_state assume "a \<in> set as" "holds m q a" "snd s = []"
    with e(4) maximum_ace_ok [OF _ _ assms(2)] show "?body q s = Some (?f a s) \<and> snd (snd (?f a s)) = []"
      by (cases s) fastforce
  qed simp_all
  then show ?thesis by (simp add: SepAnalyzeAcesFromDacl_def e(1,2) run_maximum)
qed

section \<open>Granting what was asked for\<close>

lemma and_eq_0_bits: "(x :: ULONG) AND y = 0 \<longleftrightarrow> (\<forall>b. \<not> (bit x b \<and> bit y b))"
  using bit_imp_le_length [of x] by (auto simp: bit_eq_iff bit_simps)

lemma eq_0_bits: "(x :: ULONG) = 0 \<longleftrightarrow> (\<forall>b. \<not> bit x b)"
  using and_eq_0_bits [of x x] by simp

lemma regular_rules_decide:
  "RemainingAccessRights (run_aces regular_rule rs R) = 0 \<longleftrightarrow>
   (\<forall>b. bit (RemainingAccessRights R) b \<longrightarrow> decide rs b = Some Grant)"
proof (induction rs arbitrary: R)
  case (Cons r rs)
  obtain v M where r: "r = (v, M)" by (cases r)
  show ?case
  proof (cases v)
    case Grant
    have "bit (RemainingAccessRights R AND NOT M) b \<longleftrightarrow> bit (RemainingAccessRights R) b \<and> \<not> bit M b" for b
      by (auto simp: bit_simps dest: bit_imp_le_length)
    with Cons.IH [of "grant_remaining M R"] show ?thesis
      by (auto simp: r Grant regular_rule_def grant_remaining_def)
  next
    case Refuse
    show ?thesis
    proof (cases "RemainingAccessRights R AND M = 0")
      case True
      then have "\<not> (bit (RemainingAccessRights R) b \<and> bit M b)" for b by (simp add: and_eq_0_bits)
      with Cons.IH [of R] True show ?thesis by (auto simp: r Refuse regular_rule_def)
    next
      case False
      then obtain b where "bit (RemainingAccessRights R) b" "bit M b" by (auto simp: and_eq_0_bits)
      then have "RemainingAccessRights R \<noteq> 0" by auto
      with False \<open>bit (RemainingAccessRights R) b\<close> \<open>bit M b\<close> show ?thesis
        by (auto simp: r Refuse regular_rule_def refute_rights_def)
    qed
  qed
qed (simp add: eq_0_bits)

lemma regular_ace_ok:
  assumes "holds m q a" "wf_ace r a" "group_list_at m (if Restricted then RestrictedSids T else UserAndGroups T) gs"
  shows "analyze_regular_ace m self gm T 0 Restricted q (R, []) =
     Some (case ace_rule gm gs Restricted a of None \<Rightarrow> (False, (R, []))
           | Some r \<Rightarrow> map_prod id (\<lambda>R. (R, [])) (regular_rule r R))"
proof -
  note reads = ace_head [OF assms(1,2)]
  show ?thesis
  proof (cases "a ! 0 \<in> {0, 1, 5, 6}")
    case True
    note t = ace_for_token_ok [OF assms(1,2) True assms(3)]
    show ?thesis using True reads
      by (auto simp: analyze_regular_ace_def t bit_flag_UCHAR ace_rule_def ace_verdict_def regular_rule_def)
  next
    case False
    then show ?thesis using reads
      by (simp add: analyze_regular_ace_def bit_flag_UCHAR ace_rule_def ace_verdict_def)
  qed
qed

lemma run_regular:
  "run_aces (\<lambda>a (R, _). case ace_rule gm gs Restricted a of None \<Rightarrow> (False, (R, []))
      | Some r \<Rightarrow> map_prod id (\<lambda>R. (R, [])) (regular_rule r R)) as (R, []) =
   (run_aces regular_rule (rules gm gs Restricted as) R, [])"
  by (induction as arbitrary: R) (auto split: option.splits prod.splits)

lemma analyze_regular_ok:
  assumes "acl_entries m p as n" "group_list_at m (if Restricted then RestrictedSids T else UserAndGroups T) gs"
  shows "SepAnalyzeAcesFromDacl AccessCheckRegular w m self p T Restricted 0 gm U (R, []) =
     Some (run_aces regular_rule (rules gm gs Restricted as) (R\<lparr>RemainingAccessRights := w\<rparr>), [])"
proof -
  note e = acl_entries_facts [OF assms(1)]
  let ?body = "analyze_regular_ace m self gm T 0 Restricted"
  let ?f = "\<lambda>a (R, _ :: OBJECT_TYPE_LIST_INTERNAL list). case ace_rule gm gs Restricted a of None \<Rightarrow> (False, (R, []))
      | Some r \<Rightarrow> map_prod id (\<lambda>R. (R, [])) (regular_rule r R)"
  have "for_aces m p ?body (length as) 0 s = Some (run_aces ?f as s)" if "snd s = []" for s
  proof (rule for_aces_ok [OF assms(1) e(3), where P = "\<lambda>s. snd s = []"])
    fix q a and s :: check_state assume "a \<in> set as" "holds m q a" "snd s = []"
    with e(4) regular_ace_ok [OF _ _ assms(2)] show "?body q s = Some (?f a s) \<and> snd (snd (?f a s)) = []"
      by (cases s) (fastforce split: option.splits simp: snd_map_prod)
  qed (simp_all add: that)
  then show ?thesis by (simp add: SepAnalyzeAcesFromDacl_def e(1,2) run_regular)
qed

section \<open>The parts of the worker\<close>

lemma bit_flags_USHORT: "(c :: USHORT) AND 4 = 0 \<longleftrightarrow> \<not> bit c 2" "c AND 0x8000 = 0 \<longleftrightarrow> \<not> bit c 15"
  "c AND 4 = 4 \<longleftrightarrow> bit c 2"
proof -
  show *: "c AND 4 = 0 \<longleftrightarrow> \<not> bit c 2" "c AND 0x8000 = 0 \<longleftrightarrow> \<not> bit c 15"
    using and_exp_eq_0_iff_not_bit [of c 2] and_exp_eq_0_iff_not_bit [of c 15] by simp_all
  show "c AND 4 = 4 \<longleftrightarrow> bit c 2" using and_exp_cases [of c 2] by simp
qed

lemma descriptor_parts:
  assumes "descriptor_at m sd Ow as"
  shows "\<exists>p. SepGetOwnerFromDescriptor m sd = Some p \<and> sid_at m p Ow"
    and "\<exists>d n x. RtlGetDaclSecurityDescriptor m sd = Some (STATUS_SUCCESS, Some True, Some d, x) \<and>
      SepGetDaclFromDescriptor m sd = Some d \<and> d \<noteq> 0 \<and> acl_entries m d as n" and "sd \<noteq> 0"
proof -
  obtain c ow da n where d: "sd \<noteq> 0" "m sd = Some 1" "load_USHORT m (sd + 2) = Some c" "bit c 2"
    "load_ULONG m (sd + 4) = Some ow" "load_ULONG m (sd + 16) = Some da" "ow \<noteq> 0" "da \<noteq> 0"
    "sid_at m ((if bit c 15 then sd else 0) + unat ow) Ow" "acl_entries m ((if bit c 15 then sd else 0) + unat da) as n"
    using assms by (auto simp: descriptor_at_def)
  have part: "descriptor_part m sd c k = Some ((if bit c 15 then sd else 0) + unat v)"
    if "load_ULONG m (sd + k) = Some v" "v \<noteq> 0" for k v
    using that by (simp add: descriptor_part_def bit_flags_USHORT)
  show "\<exists>p. SepGetOwnerFromDescriptor m sd = Some p \<and> sid_at m p Ow"
    using d part [of 4 ow] by (simp add: SepGetOwnerFromDescriptor_def)
  have dacl: "SepGetDaclFromDescriptor m sd = Some ((if bit c 15 then sd else 0) + unat da)"
    using d part [of 16 da] by (simp add: SepGetDaclFromDescriptor_def bit_flags_USHORT)
  moreover have "(if bit c 15 then sd else 0) + unat da \<noteq> 0" using d(8) by (simp add: unat_eq_zero)
  ultimately show "\<exists>d n x. RtlGetDaclSecurityDescriptor m sd = Some (STATUS_SUCCESS, Some True, Some d, x) \<and>
      SepGetDaclFromDescriptor m sd = Some d \<and> d \<noteq> 0 \<and> acl_entries m d as n"
    using d(2,3,4,10) by (auto simp: RtlGetDaclSecurityDescriptor_def bit_flags_USHORT simp del: unat_eq_zero)
  show "sd \<noteq> 0" by (rule d)
qed

lemma SepTokenIsOwner_ok:
  assumes "descriptor_at m sd Ow as" "token_at m T gs rs"
  shows "SepTokenIsOwner m self T sd = Some (token_owns T gs rs Ow)"
proof -
  from descriptor_parts(1) [OF assms(1)] obtain p where p: "SepGetOwnerFromDescriptor m sd = Some p" "sid_at m p Ow" by blast
  have "SepSidInTokenEx m self T 0 p False False = Some (token_has False False 0 gs (sid_bytes Ow))"
    "SepSidInTokenEx m self T 0 p False True = Some (token_has False True 0 rs (sid_bytes Ow))"
    using assms(2) by (auto simp: token_at_def intro!: SepSidInTokenEx_ok [OF p(2)])
  then show ?thesis
    by (auto simp: SepTokenIsOwner_def SepSidInToken_def p(1) token_owns_def SeTokenIsRestricted_def)
qed

lemma check_regular_ok:
  assumes "acl_entries m d as n" "token_at m T gs rs"
  shows "check_regular m self d T 0 gm [] D R P = Some
     (if \<forall>b. bit R b \<longrightarrow> dacl_grants gm T gs rs as b
      then (if P OR D = 0 then STATUS_ACCESS_DENIED else STATUS_SUCCESS, P OR D) else (STATUS_ACCESS_DENIED, 0))"
proof -
  note a = analyze_regular_ok [OF assms(1)]
  have "group_list_at m (if False then RestrictedSids T else UserAndGroups T) gs"
    "group_list_at m (if True then RestrictedSids T else UserAndGroups T) rs"
    using assms(2) by (simp_all add: token_at_def)
  then show ?thesis
    unfolding check_regular_def
    by (simp add: a all_granted_def regular_rules_decide dacl_grants_def Let_def)
qed

lemma maximum_passes_bits:
  "bit (GrantedAccessRights (maximum_passes gm T gs rs as)) b \<longleftrightarrow> b < 32 \<and> maximum_grants gm T gs rs as b"
proof (cases "b < 32")
  case True
  let ?R = "fold max_rule (rules gm gs False as) no_rights"
  have 1: "bit (GrantedAccessRights ?R) b \<longleftrightarrow> decide (rules gm gs False as) b = Some Grant"
    "bit (DeniedAccessRights ?R) b \<longleftrightarrow> decide (rules gm gs False as) b = Some Refuse"
    using max_rules_decide [of no_rights b "rules gm gs False as"] True by (simp_all add: no_rights_def)
  have 2: "bit (GrantedAccessRights (fold max_rule (rules gm rs True as) ?R)) b \<longleftrightarrow>
      bit (GrantedAccessRights ?R) b \<or> \<not> bit (DeniedAccessRights ?R) b \<and> decide (rules gm rs True as) b = Some Grant"
    using max_rules_decide [of ?R b "rules gm rs True as"] 1 True by auto
  have "decide rs b = None \<or> decide rs b = Some Grant \<or> decide rs b = Some Refuse" for rs
    by (metis option.exhaust verdict.exhaust)
  then show ?thesis using True 1 2 by (auto simp: maximum_passes_def maximum_grants_def Let_def)
qed (auto dest: bit_imp_le_length)

lemma check_maximum_ok:
  fixes gm :: GENERIC_MAPPING
  assumes "acl_entries m d as n" "token_at m T gs rs"
  defines "G \<equiv> GrantedAccessRights (maximum_passes gm T gs rs as)"
  shows "check_maximum m self d T 0 gm False [] R P M W Gl Sl = Some
     (if R AND NOT (MAXIMUM_ALLOWED OR G) \<noteq> 0
      then \<lparr>ExitStatus = STATUS_ACCESS_DENIED, ExitGranted = 0, GrantedAccessList = Gl, AccessStatusList = Sl\<rparr>
      else \<lparr>ExitStatus = (if P OR G \<noteq> 0 then STATUS_SUCCESS else STATUS_ACCESS_DENIED), ExitGranted = P OR G,
            GrantedAccessList = Gl, AccessStatusList = Sl\<rparr>)"
proof -
  have "group_list_at m (if False then RestrictedSids T else UserAndGroups T) gs"
    "group_list_at m (if True then RestrictedSids T else UserAndGroups T) rs"
    using assms(2) by (simp_all add: token_at_def)
  note passes = this [THEN analyze_maximum_ok [OF assms(1)]]
  show ?thesis
    unfolding check_maximum_def G_def maximum_passes_def Let_def passes(1) Option.bind_lunit
    by (cases "SeTokenIsRestricted T") (simp_all add: passes(2) Let_def)
qed

declare bit_numeral_word_iff [simp del]

lemma bit_right [simp]:
  "bit (0x01000000 :: ULONG) b \<longleftrightarrow> b = 24" "bit (0x02000000 :: ULONG) b \<longleftrightarrow> b = 25"
  "bit (0x00080000 :: ULONG) b \<longleftrightarrow> b = 19" "bit (0x00040000 :: ULONG) b \<longleftrightarrow> b = 18" "bit (0x00020000 :: ULONG) b \<longleftrightarrow> b = 17"
  using bit_exp_iff [of 24 b, where 'a = "32 word"] bit_exp_iff [of 25 b, where 'a = "32 word"]
    bit_exp_iff [of 19 b, where 'a = "32 word"] bit_exp_iff [of 18 b, where 'a = "32 word"]
    bit_exp_iff [of 17 b, where 'a = "32 word"] by auto

lemma bit_rights [simp]:
  "bit (0x00060000 :: ULONG) b \<longleftrightarrow> b = 17 \<or> b = 18" "bit (0x02060000 :: ULONG) b \<longleftrightarrow> b = 17 \<or> b = 18 \<or> b = 25"
  using bit_or_iff [of "0x00020000 :: ULONG" "0x00040000" b] bit_or_iff [of "0x00060000 :: ULONG" "0x02000000" b]
  by auto

lemma right_mask:
  "(x :: ULONG) AND 0x01000000 = 0 \<longleftrightarrow> \<not> bit x 24" "x AND 0x02000000 = 0 \<longleftrightarrow> \<not> bit x 25"
  "x AND 0x00080000 = 0 \<longleftrightarrow> \<not> bit x 19"
  by (auto simp: and_eq_0_bits)

lemma policy_not_held:
  assumes "bit R 24" "\<not> privilege_enabled T SeSecurityPrivilege"
  shows "SePrivilegePolicyCheck pool R P None T True UserMode = (STATUS_PRIVILEGE_NOT_HELD, R, P, None)"
  using assms by (simp add: SePrivilegePolicyCheck_def right_mask)

lemma policy_ok:
  assumes "bit R 24 \<longrightarrow> privilege_enabled T SeSecurityPrivilege" "\<forall>n. pool n"
  shows "\<exists>A ps. SePrivilegePolicyCheck pool R P None T True UserMode = (STATUS_SUCCESS, R AND NOT A, P OR A, Some ps) \<and>
     (\<forall>b. bit A b \<longleftrightarrow> bit R b \<and> by_privilege T b)"
proof -
  let ?take = "bit R 19 \<and> privilege_enabled T SeTakeOwnershipPrivilege"
  let ?A = "(if bit R 24 then 0x01000000 else 0) OR (if ?take then 0x00080000 else 0) :: ULONG"
  have "\<exists>ps. SePrivilegePolicyCheck pool R P None T True UserMode = (STATUS_SUCCESS, R AND NOT ?A, P OR ?A, Some ps)"
    using assms by (auto simp: SePrivilegePolicyCheck_def right_mask Let_def)
  moreover have "bit ?A b \<longleftrightarrow> bit R b \<and> by_privilege T b" for b
    by (auto simp: bit_or_iff bit_right by_privilege_def)
  ultimately show ?thesis by blast
qed

lemma check_dacl_regular:
  assumes "descriptor_at m sd Ow as" "as \<noteq> []" "token_at m T gs rs" "plain_mapping gm" "\<not> bit D 25"
  shows "check_dacl m self sd T 0 gm False [] D R P M W Gl Sl = Some
     (if \<forall>b. bit R b \<longrightarrow> dacl_grants gm T gs rs as b
      then \<lparr>ExitStatus = (if P OR D = 0 then STATUS_ACCESS_DENIED else STATUS_SUCCESS), ExitGranted = P OR D,
            GrantedAccessList = Gl, AccessStatusList = Sl\<rparr>
      else \<lparr>ExitStatus = STATUS_ACCESS_DENIED, ExitGranted = 0, GrantedAccessList = Gl, AccessStatusList = Sl\<rparr>)"
proof -
  obtain d n x where d: "RtlGetDaclSecurityDescriptor m sd = Some (STATUS_SUCCESS, Some True, Some d, x)" "d \<noteq> 0"
    "acl_entries m d as n" using descriptor_parts(2) [OF assms(1)] by blast
  note e = acl_entries_facts [OF d(3)]
  have count: "(of_nat (length as) :: USHORT) \<noteq> 0" using e(2) assms(2) by (metis length_0_conv unat_0)
  show ?thesis
    using assms(4,5) d(1,2) e(1) count check_regular_ok [OF d(3) assms(3), of self gm D R P]
    by (simp add: check_dacl_def plain_mapping_def right_mask Let_def) blast
qed

text \<open>A request without \<^verbatim>\<open>MAXIMUM_ALLOWED\<close>; \<open>R\<close> are the mapped rights.\<close>

lemma worker_regular:
  fixes R P' :: ACCESS_MASK
  assumes obj: "descriptor_at m sd Ow as" "as \<noteq> []" "token_at m T gs rs" "plain_mapping gm" "\<forall>n. pool n"
    and T: "T = (case C of Some t \<Rightarrow> t | None \<Rightarrow> Pr)" and D: "D \<noteq> 0" "R = RtlMapGenericMask D gm" "\<not> bit R 25"
    and P': "P' = (if P \<noteq> 0 then RtlMapGenericMask P gm else P)"
  defines "held \<equiv> bit R 24 \<longrightarrow> privilege_enabled T SeSecurityPrivilege"
  shows "\<exists>ps. SepAccessCheckWorker pool m self sd C Pr 0 D [] P gm UserMode False True [g0] [s0] =
     Some (if rights_allowed gm T gs rs as R then (True, ps, [P' OR R], [STATUS_SUCCESS])
           else if held then (False, ps, [0], [STATUS_ACCESS_DENIED])
           else (False, ps, [P'], [STATUS_PRIVILEGE_NOT_HELD]))"
proof (cases held)
  case False
  then have "SePrivilegePolicyCheck pool R P' None T True UserMode = (STATUS_PRIVILEGE_NOT_HELD, R, P', None)"
    unfolding held_def by (intro policy_not_held) auto
  with False show ?thesis
    by (simp add: SepAccessCheckWorker_def D(1) Let_def held_def rights_allowed_def flip: T D(2) P')
next
  case True
  then obtain A ps where A: "SePrivilegePolicyCheck pool R P' None T True UserMode = (STATUS_SUCCESS, R AND NOT A, P' OR A, Some ps)"
      "\<forall>b. bit A b \<longleftrightarrow> bit R b \<and> by_privilege T b"
    using policy_ok [OF _ obj(5)] unfolding held_def by blast
  have rem: "bit (R AND NOT A) b \<longleftrightarrow> bit R b \<and> \<not> by_privilege T b" for b
    using A(2) bit_imp_le_length [of R b] by (auto simp: bit_and_iff bit_not_iff)
  have AR: "P' OR A OR R = P' OR R" by (rule bit_word_eqI) (auto simp: bit_or_iff A(2))
  have ok: "rights_allowed gm T gs rs as R \<longleftrightarrow> (\<forall>b. bit (R AND NOT A) b \<longrightarrow> dacl_grants gm T gs rs as b)"
    using True bit_imp_le_length [of R] by (auto simp: rights_allowed_def held_def rem)
  show ?thesis
  proof (cases "R AND NOT A = 0")
    case True
    then have "P' OR A = P' OR R" using rem A(2) by (intro bit_word_eqI) (auto simp: bit_or_iff)
    moreover have "rights_allowed gm T gs rs as R" using ok True by simp
    ultimately show ?thesis using True A(1)
      by (simp add: SepAccessCheckWorker_def D(1) Let_def flip: T D(2) P')
  next
    case False
    then have "P' OR R \<noteq> 0" by (auto simp: eq_0_bits bit_or_iff bit_and_iff)
    then show ?thesis using False A(1) AR ok \<open>held\<close> check_dacl_regular [OF obj(1-4) D(3)]
      by (simp add: SepAccessCheckWorker_def D(1) Let_def or.assoc flip: T D(2) P')
  qed
qed

section \<open>The checks\<close>

lemma map_plain:
  assumes "plain_mapping gm"
  shows "\<not> bit a 25 \<Longrightarrow> \<not> bit (RtlMapGenericMask a gm) 25"
    and "\<forall>k \<ge> 28. \<not> bit a k \<Longrightarrow> RtlMapGenericMask a gm = a"
proof -
  have g: "\<forall>w \<in> {GenericRead gm, GenericWrite gm, GenericExecute gm, GenericAll gm}. \<forall>k \<ge> 28. \<not> bit w k"
    using assms by (simp add: plain_mapping_def)
  note b = RtlMapGenericMask_bits [OF g]
  show "\<not> bit a 25 \<Longrightarrow> \<not> bit (RtlMapGenericMask a gm) 25"
    using assms by (simp add: b plain_mapping_def)
  show "\<forall>k \<ge> 28. \<not> bit a k \<Longrightarrow> RtlMapGenericMask a gm = a"
    by (rule bit_word_eqI) (auto simp: b not_le [symmetric])
qed

lemma impersonation_ok: "may_impersonate c \<Longrightarrow>
  \<not> (ClientToken c \<noteq> None \<and> level_number (ImpersonationLevel c) < level_number SecurityImpersonation)"
  by (auto simp: may_impersonate_def)

lemma and_not_id: "\<forall>b. \<not> (bit x b \<and> bit y b) \<Longrightarrow> (x :: ULONG) AND NOT y = x"
  by (rule bit_word_eqI) (auto simp: bit_and_iff bit_not_iff)

text \<open>The owner test that \<open>SeAccessCheck\<close> and \<open>SepAccessCheck\<close> share: what it moves from the request to the granted rights.\<close>

lemma owner_step:
  assumes "descriptor_at m sd Ow as" "token_at m T gs rs"
  defines "W \<equiv> owner_rights T gs rs Ow"
  obtains own where
    "(if D AND (WRITE_DAC OR READ_CONTROL OR MAXIMUM_ALLOWED) \<noteq> 0 then SepTokenIsOwner m self T sd else Some False) = Some own"
    "(if \<not> own then P else if D AND MAXIMUM_ALLOWED \<noteq> 0 then P OR (WRITE_DAC OR READ_CONTROL)
      else P OR (D AND (WRITE_DAC OR READ_CONTROL))) = P OR owned_rights D W"
    "(if own then D AND NOT (WRITE_DAC OR READ_CONTROL) else D) = D AND NOT W"
proof -
  let ?S = "WRITE_DAC OR READ_CONTROL :: ACCESS_MASK"
  let ?w = "D AND (WRITE_DAC OR READ_CONTROL OR MAXIMUM_ALLOWED) \<noteq> 0"
  define own where "own \<longleftrightarrow> ?w \<and> token_owns T gs rs Ow"
  have owner: "(if ?w then SepTokenIsOwner m self T sd else Some False) = Some own"
    using SepTokenIsOwner_ok [OF assms(1,2)] by (simp add: own_def)
  have W: "W = (if token_owns T gs rs Ow then ?S else 0)" by (simp add: W_def owner_rights_def)
  have disjoint: "\<not> bit D b" if "\<not> ?w" "b \<in> {17, 18, 25}" for b using that by (auto simp: and_eq_0_bits)
  have S: "W = ?S" if own using that by (simp add: own_def W)
  have none: "\<not> (bit D b \<and> bit W b)" "\<not> bit D 25 \<or> W = 0" if "\<not> own" for b
    using that disjoint [of b] disjoint [of 25] by (auto simp: own_def W)
  have 1: "(if \<not> own then P else if D AND MAXIMUM_ALLOWED \<noteq> 0 then P OR ?S else P OR (D AND ?S)) = P OR owned_rights D W"
    using S none and_eq_0_bits [of D W] by (cases own) (auto simp: owned_rights_def right_mask)
  have "D AND NOT W = D" if "\<not> own" using none(1) [OF that] by (intro and_not_id) blast
  with S have 2: "(if own then D AND NOT ?S else D) = D AND NOT W" by (cases own) simp_all
  from owner 1 2 show ?thesis by (rule that)
qed

lemma access_check_owner:
  assumes "descriptor_at m sd Ow as" "token_at m (effective_token c) gs rs" "may_impersonate c"
  defines "W \<equiv> owner_rights (effective_token c) gs rs Ow"
  shows "SeAccessCheck pool m self sd c D P gm UserMode =
     (if D AND NOT W = 0
      then Some \<lparr>Allowed = P OR owned_rights D W \<noteq> 0,
                 AccessStatus = (if P OR owned_rights D W = 0 then STATUS_ACCESS_DENIED else STATUS_SUCCESS),
                 GrantedAccess = Some (P OR owned_rights D W), ResultPrivileges = None\<rparr>
      else do {
        (ret, Privileges, Granted, Statuses) \<leftarrow> SepAccessCheckWorker pool m self sd (ClientToken c) (PrimaryToken c) 0
          (D AND NOT W) [] (P OR owned_rights D W) gm UserMode False True [0] [STATUS_SUCCESS];
        Some \<lparr>Allowed = ret, AccessStatus = hd Statuses, GrantedAccess = Some (hd Granted), ResultPrivileges = Privileges\<rparr>
      })"
proof -
  obtain own where own:
    "(if D AND (WRITE_DAC OR READ_CONTROL OR MAXIMUM_ALLOWED) \<noteq> 0 then SepTokenIsOwner m self (effective_token c) sd
      else Some False) = Some own"
    "(if \<not> own then P else if D AND MAXIMUM_ALLOWED \<noteq> 0 then P OR (WRITE_DAC OR READ_CONTROL)
      else P OR (D AND (WRITE_DAC OR READ_CONTROL))) = P OR owned_rights D W"
    "(if own then D AND NOT (WRITE_DAC OR READ_CONTROL) else D) = D AND NOT W"
    unfolding W_def by (rule owner_step [OF assms(1,2), of D self P])
  show ?thesis
    unfolding SeAccessCheck_def Let_def effective_token_def [symmetric]
    using impersonation_ok [OF assms(3)] descriptor_parts(3) [OF assms(1)]
    by (simp only: own Option.bind_lunit KPROCESSOR_MODE.distinct if_False)
qed

lemma access_check_regular:
  fixes R :: ACCESS_MASK
  assumes obj: "descriptor_at m sd Ow as" "as \<noteq> []" "token_at m (effective_token c) gs rs" "plain_mapping gm" "\<forall>n. pool n"
    and c: "may_impersonate c" and D: "D \<noteq> 0" "\<not> bit D 25" and P: "\<forall>k \<ge> 28. \<not> bit P k"
  defines "W \<equiv> owner_rights (effective_token c) gs rs Ow"
  defines "R \<equiv> RtlMapGenericMask (D AND NOT W) gm"
  shows "\<exists>ps. SeAccessCheck pool m self sd c D P gm UserMode = Some
     (if rights_allowed gm (effective_token c) gs rs as R
      then \<lparr>Allowed = True, AccessStatus = STATUS_SUCCESS, GrantedAccess = Some (P OR (D AND W) OR R), ResultPrivileges = ps\<rparr>
      else if bit R 24 \<longrightarrow> privilege_enabled (effective_token c) SeSecurityPrivilege
      then \<lparr>Allowed = False, AccessStatus = STATUS_ACCESS_DENIED, GrantedAccess = Some 0, ResultPrivileges = ps\<rparr>
      else \<lparr>Allowed = False, AccessStatus = STATUS_PRIVILEGE_NOT_HELD, GrantedAccess = Some (P OR (D AND W)),
            ResultPrivileges = ps\<rparr>)"
proof -
  note check = access_check_owner [OF obj(1,3) c, of pool self D P gm, folded W_def]
  have Y: "owned_rights D W = D AND W" using D(2) by (simp add: owned_rights_def)
  show ?thesis
  proof (cases "D AND NOT W = 0")
    case True
    then have "\<not> (bit D b \<and> bit (NOT W) b)" for b unfolding and_eq_0_bits by blast
    then have "D = D AND W" by (intro bit_word_eqI) (auto simp: bit_not_iff bit_and_iff)
    then have "P OR (D AND W) \<noteq> 0" using D(1) by (auto simp: eq_0_bits bit_or_iff)
    moreover have "R = 0" using map_plain(2) [OF obj(4), of 0] by (simp add: R_def True)
    ultimately show ?thesis using True by (simp add: check Y rights_allowed_def)
  next
    case False
    let ?P = "P OR (D AND W)"
    have "\<forall>k \<ge> 28. \<not> bit ?P k" using P by (auto simp: W_def owner_rights_def bit_or_iff bit_and_iff)
    then have P': "?P = (if ?P \<noteq> 0 then RtlMapGenericMask ?P gm else ?P)" using map_plain(2) [OF obj(4)] by simp
    have "\<not> bit R 25" using map_plain(1) [OF obj(4)] D(2) by (simp add: R_def bit_and_iff)
    from worker_regular [OF obj effective_token_def False meta_eq_to_obj_eq [OF R_def] this P', of self 0 STATUS_SUCCESS]
    obtain ps where w: "SepAccessCheckWorker pool m self sd (ClientToken c) (PrimaryToken c) 0 (D AND NOT W) [] ?P gm UserMode
        False True [0] [STATUS_SUCCESS] =
      Some (if rights_allowed gm (effective_token c) gs rs as R then (True, ps, [?P OR R], [STATUS_SUCCESS])
        else if bit R 24 \<longrightarrow> privilege_enabled (effective_token c) SeSecurityPrivilege then (False, ps, [0], [STATUS_ACCESS_DENIED])
        else (False, ps, [?P], [STATUS_PRIVILEGE_NOT_HELD]))" by blast
    show ?thesis unfolding check Y w if_not_P [OF False] Option.bind_lunit by (rule exI [of _ ps]) (simp add: or.assoc)
  qed
qed

lemma access_check_maximum:
  assumes obj: "descriptor_at m sd Ow as" "as \<noteq> []" "token_at m (effective_token c) gs rs" "plain_mapping gm" "\<forall>n. pool n"
    and c: "may_impersonate c" and P: "\<forall>k \<ge> 28. \<not> bit P k"
  defines "G \<equiv> P OR owner_rights (effective_token c) gs rs Ow OR
    GrantedAccessRights (maximum_passes gm (effective_token c) gs rs as)"
  shows "SeAccessCheck pool m self sd c MAXIMUM_ALLOWED P gm UserMode = Some
     \<lparr>Allowed = G \<noteq> 0, AccessStatus = (if G \<noteq> 0 then STATUS_SUCCESS else STATUS_ACCESS_DENIED),
      GrantedAccess = Some G, ResultPrivileges = Some None\<rparr>"
proof -
  let ?T = "effective_token c" and ?D = "MAXIMUM_ALLOWED :: ACCESS_MASK"
  let ?W = "owner_rights ?T gs rs Ow"
  have W: "?D AND NOT ?W = ?D" by (rule bit_word_eqI) (auto simp: owner_rights_def bit_and_iff bit_not_iff)
  have Y: "owned_rights ?D ?W = ?W" by (simp add: owned_rights_def)
  have "\<forall>k \<ge> 28. \<not> bit (P OR ?W) k" "\<forall>k \<ge> 28. \<not> bit ?D k" using P by (auto simp: owner_rights_def bit_or_iff)
  note map = this [THEN map_plain(2) [OF obj(4)]]
  have pol: "SePrivilegePolicyCheck pool ?D (P OR ?W) None ?T True UserMode = (STATUS_SUCCESS, ?D, P OR ?W, Some None)"
    by (simp add: SePrivilegePolicyCheck_def Let_def)
  obtain d n x where d: "RtlGetDaclSecurityDescriptor m sd = Some (STATUS_SUCCESS, Some True, Some d, x)" "d \<noteq> 0"
    "acl_entries m d as n" using descriptor_parts(2) [OF obj(1)] by blast
  note e = acl_entries_facts [OF d(3)]
  have "(of_nat (length as) :: USHORT) \<noteq> 0" using e(2) obj(2) by (metis length_0_conv unat_0)
  moreover have "?D AND NOT (?D OR X) = 0" for X by (rule bit_word_eqI) (auto simp: bit_and_iff bit_or_iff bit_not_iff)
  ultimately have dacl: "check_dacl m self sd ?T 0 gm False [] ?D ?D (P OR ?W) M Wr Gl Sl = Some
     \<lparr>ExitStatus = (if G \<noteq> 0 then STATUS_SUCCESS else STATUS_ACCESS_DENIED), ExitGranted = G,
      GrantedAccessList = Gl, AccessStatusList = Sl\<rparr>" for M Wr Gl Sl
    using obj(4) d(1,2) e(1) check_maximum_ok [OF d(3) obj(3), where gm = gm and self = self and R = ?D and P = "P OR ?W"]
    by (auto simp: check_dacl_def plain_mapping_def Let_def G_def or.assoc)
  show ?thesis
    unfolding access_check_owner [OF obj(1,3) c] W Y SepAccessCheckWorker_def Let_def effective_token_def [symmetric]
      map if_cancel pol by (simp add: dacl)
qed

end
