(* ===== verification/SeChecks.thy ===== *)
theory SeChecks
  imports SeAccessSpec
begin

text \<open>
  The properties of the access check: the decisions of \<open>SeAccessCheck\<close>, how a request for specific
  rights and a request for the maximum relate, and the soundness of \<open>SeFastTraverseCheck\<close>.
\<close>

unbundle bit_operations_syntax

section \<open>The fast check\<close>

text \<open>What the fast check answers on the entries of a DACL.\<close>

fun fast_decision :: "UCHAR list \<Rightarrow> ACCESS_MASK \<Rightarrow> UCHAR list list \<Rightarrow> bool" where
  "fast_decision world D [] = False"
| "fast_decision world D (a # as) =
     (if bit (a ! 1) 3 then fast_decision world D as
      else if a ! 0 = 0 \<and> ace_mask a AND D \<noteq> 0 \<and> ace_sid a = world then True
      else if a ! 0 = 1 \<and> ace_mask a AND D \<noteq> 0 then False
      else fast_decision world D as)"

text \<open>An entry the fast check reads like the full one: no object type, no generic rights.\<close>

definition plain_ace :: "UCHAR list \<Rightarrow> bool" where
  "plain_ace a \<longleftrightarrow> a ! 0 \<noteq> 5 \<and> a ! 0 \<noteq> 6 \<and> (\<forall>k \<ge> 28. \<not> bit (ace_mask a) k)"

section \<open>An object in memory\<close>

text \<open>
  An object of the administrators for the examples: a self-relative descriptor at 16, the SIDs of its
  owner, of the users and of the world at 36, 52 and 68, and the DACL at 80.
\<close>

definition World :: ISID where
  "World = \<lparr>SidRevision = 1, SidAuthority = [0, 0, 0, 0, 0, 1], SidSubs = [0]\<rparr>"

definition sample_acl :: "UCHAR list list \<Rightarrow> ACL" where
  "sample_acl as = \<lparr>AclRevisionOf = 2, AclSbz1 = 0, AclSbz2 = 0, Aces = as, FreeBytes = []\<rparr>"

definition sample_mem :: "UCHAR list list \<Rightarrow> mem" where
  "sample_mem as = block 16 ([1, 0, 4, 0x80] @ bytes_ULONG 20 @ bytes_ULONG 20 @ bytes_ULONG 0 @ bytes_ULONG 64 @
     sid_bytes Admins @ sid_bytes Users @ sid_bytes World @ acl_bytes (sample_acl as))"

definition sample_token :: "ULONG \<Rightarrow> TOKEN" where
  "sample_token flags = \<lparr>UserAndGroups = [\<lparr>SidPtr = 52, SidAttributes = 0\<rparr>, \<lparr>SidPtr = 68, SidAttributes = 4\<rparr>],
     RestrictedSids = [\<lparr>SidPtr = 68, SidAttributes = 4\<rparr>], TokenPrivileges = [], TokenFlags = flags, TokenType = TokenImpersonation,
     TokenLevel = SecurityImpersonation\<rparr>"

definition sample_context :: "ULONG \<Rightarrow> SECURITY_SUBJECT_CONTEXT" where
  "sample_context flags = \<lparr>ClientToken = None, ImpersonationLevel = SecurityAnonymous, PrimaryToken = sample_token flags\<rparr>"

definition sample_mapping :: GENERIC_MAPPING where
  "sample_mapping = \<lparr>GenericRead = 1, GenericWrite = 2, GenericExecute = 4, GenericAll = 7\<rparr>"

definition deny_allow :: "UCHAR list list" where
  "deny_allow = [known_ace 1 0 2 Users, known_ace 0 0 3 Users]"

section \<open>The loop of the fast check\<close>

lemma fast_traverse_ok:
  assumes "holds m q (concat as)" "\<forall>a \<in> set as. \<exists>r. wf_ace r a" "\<forall>a \<in> set as. length a < 65536" "sid_at m w V"
  shows "fast_traverse_from m w D (length as) q = Some (fast_decision (sid_bytes V) D as)"
  using assms(1-3)
proof (induction as arbitrary: q)
  case (Cons a as)
  have a: "holds m q a" "holds m (q + length a) (concat as)" using Cons.prems(1) by (simp_all add: holds_append)
  obtain r where wf: "wf_ace r a" using Cons.prems(2) by auto
  have size: "AceSize m q = Some (of_nat (length a))" "unat (of_nat (length a) :: USHORT) = length a"
    using AceSize_ok [OF a(1) wf_ace_sized [OF wf]] unat_of_nat_USHORT [of "length a"] Cons.prems(3) by auto
  have rest: "fast_traverse_from m w D (length as) (q + length a) = Some (fast_decision (sid_bytes V) D as)"
    using Cons.IH [OF a(2)] Cons.prems(2,3) by simp
  note head = ace_head [OF a(1) wf]
  show ?case
  proof (cases "a ! 0 \<in> {0, 1}")
    case True
    then have k: "a ! 0 \<in> {0, 1, 5, 6}" "ace_sid_offset a = 8" by (auto simp: ace_sid_offset_def)
    note s = ace_sid_ok [OF a(1) wf k(1), unfolded k(2)]
    from s(2) obtain S where S: "sid_at m (q + 8) S" "sid_bytes S = ace_sid a" by blast
    have "RtlEqualSid m w (q + 8) = Some (ace_sid a = sid_bytes V)"
      using RtlEqualSid_ok [OF assms(4) S(1)] sid_bytes_inject [of S V] S assms(4) by (auto simp: sid_at_def)
    then show ?thesis using True head ace_reads(3) [OF a(1) s(3)] size rest
      by (auto simp: bit_flag_UCHAR)
  qed (use head size rest in \<open>auto simp: bit_flag_UCHAR\<close>)
qed simp

lemma plain_mask:
  assumes "plain_ace a"
  shows "mapped_mask gm a = ace_mask a"
proof -
  have "ace_mask a AND push_bit 28 (mask 4) = 0"
    using assms by (auto simp: and_eq_0_bits bit_push_bit_iff plain_ace_def)
  moreover have "push_bit 28 (mask 4) = (GENERIC_ACCESS :: ACCESS_MASK)" by (simp add: mask_numeral)
  ultimately show ?thesis by (simp add: mapped_mask_def)
qed

lemma fast_decision_grants:
  assumes "fast_decision world (2 ^ b) as" "b < 32" "\<forall>a \<in> set as. plain_ace a" "token_has False False 0 gs world"
  shows "decide (rules gm gs False as) b = Some Grant"
  using assms(1,3)
proof (induction as)
  case (Cons a as)
  have mask: "ace_mask a AND 2 ^ b \<noteq> 0 \<longleftrightarrow> bit (ace_mask a) b" by (simp add: and_exp_eq_0_iff_not_bit)
  have a: "plain_ace a" "mapped_mask gm a = ace_mask a" using Cons.prems(2) plain_mask by auto
  then show ?case using Cons mask assms(4)
    by (auto simp: ace_rule_def ace_verdict_def plain_ace_def split: if_splits)
qed simp

lemma fast_check_ok:
  assumes "descriptor_at m sd Ow as" "as \<noteq> []" "sid_at m w S"
  shows "SeFastTraverseCheck m w sd flags D = Some (flags AND TOKEN_IS_RESTRICTED = 0 \<and> fast_decision (sid_bytes S) D as)"
proof -
  obtain d n where d: "SepGetDaclFromDescriptor m sd = Some d" "d \<noteq> 0" "acl_entries m d as n"
    using descriptor_parts(2) [OF assms(1)] by blast
  note e = acl_entries_facts [OF d(3)]
  from d(3) obtain A where A: "acl_at m d A" "Aces A = as" by (auto simp: acl_entries_def)
  have "length a < 65536" if "a \<in> set as" for a
    using A that member_le_sum_list [of "length a" "map length as"] by (simp add: acl_at_def acl_size_def length_concat)
  then have "fast_traverse_from m w D (length as) (d + 8) = Some (fast_decision (sid_bytes S) D as)"
    using acl_header(4) [OF A(1)] A(2) e(4) by (intro fast_traverse_ok [OF _ _ _ assms(3)]) auto
  moreover have "(of_nat (length as) :: USHORT) \<noteq> 0" using e(2) assms(2) by (metis length_0_conv unat_0)
  ultimately show ?thesis using d(1,2) e(1,2) descriptor_parts(3) [OF assms(1)] by (simp add: SeFastTraverseCheck_def)
qed

section \<open>The object of the examples\<close>

lemma wf_World: "wf_SID World" "length (sid_bytes World) = 12"
  by (simp_all add: wf_SID_def World_def sid_bytes_def)

lemma sample_holds:
  "holds (sample_mem as) 16 [1, 0, 4, 0x80]" "holds (sample_mem as) 20 (bytes_ULONG 20)" "holds (sample_mem as) 32 (bytes_ULONG 64)"
  "holds (sample_mem as) 36 (sid_bytes Admins)" "holds (sample_mem as) 52 (sid_bytes Users)"
  "holds (sample_mem as) 68 (sid_bytes World)" "holds (sample_mem as) 80 (acl_bytes (sample_acl as))"
  "holds (sample_mem as) 24 (bytes_ULONG 20)"
proof -
  have "holds (sample_mem as) 16 ([1, 0, 4, 0x80] @ bytes_ULONG 20 @ bytes_ULONG 20 @ bytes_ULONG 0 @ bytes_ULONG 64 @
     sid_bytes Admins @ sid_bytes Users @ sid_bytes World @ acl_bytes (sample_acl as))" (is "holds ?m 16 ?bs")
    unfolding sample_mem_def block_def by (rule holds_put)
  then show "holds ?m 16 [1, 0, 4, 0x80]" "holds ?m 20 (bytes_ULONG 20)" "holds ?m 32 (bytes_ULONG 64)"
    "holds ?m 36 (sid_bytes Admins)" "holds ?m 52 (sid_bytes Users)" "holds ?m 68 (sid_bytes World)"
    "holds ?m 80 (acl_bytes (sample_acl as))" "holds ?m 24 (bytes_ULONG 20)"
    unfolding holds_append by (simp_all add: length_example wf_World(2))
qed

lemma sample_descriptor:
  assumes "wf_acl (sample_acl as)" "acl_size (sample_acl as) < 65536"
  shows "descriptor_at (sample_mem as) 16 Admins as"
proof -
  note h = sample_holds [of as]
  have "load_USHORT (sample_mem as) 18 = Some 0x8004"
    using h(1) by (simp add: holds_Cons load_USHORT_def)
  moreover have "load_ULONG (sample_mem as) 20 = Some 20" "load_ULONG (sample_mem as) 32 = Some 64"
    using h(2,3) by (simp_all add: load_ULONG_holds)
  moreover have "sample_mem as 16 = Some 1" using h(1) by (simp add: holds_Cons)
  moreover have "sid_at (sample_mem as) 36 Admins" using h(4) by (simp add: sid_at_def wf_example)
  moreover have "acl_entries (sample_mem as) 80 as (acl_size (sample_acl as))"
    unfolding acl_entries_def
  proof (intro exI [of _ "sample_acl as"] conjI)
    show "acl_at (sample_mem as) 80 (sample_acl as)"
      using h(7) assms by (auto simp: acl_at_def wf_acl_def intro: wf_ace_sized)
  qed (use assms in \<open>simp_all add: sample_acl_def\<close>)
  ultimately show ?thesis by (auto simp: descriptor_at_def bit_numeral_word_iff)
qed

lemma sample_token_at: "token_at (sample_mem as) (sample_token flags) [(Users, 0), (World, 4)] [(World, 4)]"
  using sample_holds(5,6) [of as] wf_World
  by (simp add: token_at_def group_list_at_def sample_token_def sid_at_def wf_example)

lemma sample_context_ok: "may_impersonate (sample_context flags)" "effective_token (sample_context flags) = sample_token flags"
  by (simp_all add: may_impersonate_def sample_context_def effective_token_def)

lemma sample_mapping_ok: "plain_mapping sample_mapping"
proof -
  have "k < 25" if "bit (w :: ULONG) k" "w \<in> {1, 2, 4, 7}" for w k
  proof -
    have "w = take_bit 25 w" using that(2) by (auto simp: take_bit_eq_mod)
    with that(1) show ?thesis by (metis bit_take_bit_iff)
  qed
  then show ?thesis by (force simp: plain_mapping_def sample_mapping_def)
qed

section \<open>Properties\<close>

lemma no_generic_bits: "\<forall>k \<ge> 28. \<not> bit (0 :: ACCESS_MASK) k" "\<forall>k \<ge> 24. \<not> bit (D :: ACCESS_MASK) k \<Longrightarrow> \<forall>k \<ge> 28. \<not> bit (D AND X) k"
  by (simp_all add: bit_and_iff)

lemma specific_rights_allowed:
  assumes "plain_mapping gm" "\<forall>k \<ge> 24. \<not> bit D k" "\<not> privilege_enabled T SeTakeOwnershipPrivilege"
  shows "rights_allowed gm T gs rs as (RtlMapGenericMask (D AND NOT W) gm) \<longleftrightarrow>
     (\<forall>b. bit D b \<and> \<not> bit W b \<longrightarrow> dacl_grants gm T gs rs as b)"
proof -
  have "RtlMapGenericMask (D AND NOT W) gm = D AND NOT W"
    using map_plain(2) [OF assms(1)] no_generic_bits(2) [OF assms(2)] by blast
  then show ?thesis using assms(2,3) bit_imp_le_length [of D]
    by (auto simp: rights_allowed_def by_privilege_def bit_and_iff bit_not_iff)
qed

lemma access_check_allowed:
  assumes "descriptor_at m sd Ow as" "as \<noteq> []" "token_at m (effective_token c) gs rs" "plain_mapping gm" "\<forall>n. pool n"
    and "may_impersonate c" and "D \<noteq> 0" "\<not> bit D 25"
  shows "\<exists>r. SeAccessCheck pool m self sd c D 0 gm UserMode = Some r \<and>
     Allowed r = rights_allowed gm (effective_token c) gs rs as
       (RtlMapGenericMask (D AND NOT (owner_rights (effective_token c) gs rs Ow)) gm)"
  using access_check_regular [OF assms no_generic_bits(1), of self]
  by (elim exE) (simp split del: if_split, simp)

text \<open>A request for one right that no privilege gives.\<close>

lemma access_check_single:
  assumes "descriptor_at m sd Ow as" "as \<noteq> []" "token_at m (effective_token c) gs rs" "plain_mapping gm" "\<forall>n. pool n"
    and "may_impersonate c" and "b < 19"
  shows "\<exists>r. SeAccessCheck pool m self sd c (2 ^ b) 0 gm UserMode = Some r \<and>
     Allowed r = (bit (owner_rights (effective_token c) gs rs Ow) b \<or> dacl_grants gm (effective_token c) gs rs as b)"
proof -
  let ?D = "2 ^ b :: ACCESS_MASK" and ?W = "owner_rights (effective_token c) gs rs Ow"
  have D: "bit ?D k \<longleftrightarrow> k = b" for k using assms(7) by (auto simp: bit_exp_iff)
  then have "?D \<noteq> 0" "\<not> bit ?D 25" using assms(7) by (auto simp: eq_0_bits)
  from access_check_allowed [OF assms(1-6) this, of self] obtain r where
    r: "SeAccessCheck pool m self sd c ?D 0 gm UserMode = Some r"
      "Allowed r = rights_allowed gm (effective_token c) gs rs as (RtlMapGenericMask (?D AND NOT ?W) gm)" by blast
  moreover have "RtlMapGenericMask (?D AND NOT ?W) gm = ?D AND NOT ?W"
    using assms(7) by (intro map_plain(2) [OF assms(4)]) (auto simp: D bit_and_iff)
  ultimately show ?thesis using assms(7)
    by (auto simp: rights_allowed_def by_privilege_def D bit_and_iff bit_not_iff)
qed

text \<open>
  C2. For an object with owner and non-empty DACL, a generic mapping that is not empty and
  has no bits above bit 24, a sufficient impersonation level and pool allocations that
  succeed, previously granted rights without generic ones, and a user-mode request other
  than 0 and without MAXIMUM_ALLOWED, SeAccessCheck returns, and grants exactly when every
  requested right the owner does not have anyway is given by a privilege or granted by the
  first entry of the DACL that decides it, for a restricted token under its restricting SIDs
  too; the granted mask and each of the two failure statuses are as stated.
\<close>

theorem SeAccessCheck_correct:
  assumes "descriptor_at m sd Ow as" "as \<noteq> []" "token_at m (effective_token c) gs rs" "plain_mapping gm" "\<forall>n. pool n"
    and "may_impersonate c" and "D \<noteq> 0" "\<not> bit D 25" and "\<forall>k \<ge> 28. \<not> bit P k"
    and "W = owner_rights (effective_token c) gs rs Ow" and "R = RtlMapGenericMask (D AND NOT W) gm"
  shows "\<exists>ps. SeAccessCheck pool m self sd c D P gm UserMode = Some
     (if rights_allowed gm (effective_token c) gs rs as R
      then \<lparr>Allowed = True, AccessStatus = STATUS_SUCCESS, GrantedAccess = Some (P OR (D AND W) OR R), ResultPrivileges = ps\<rparr>
      else if bit R 24 \<longrightarrow> privilege_enabled (effective_token c) SeSecurityPrivilege
      then \<lparr>Allowed = False, AccessStatus = STATUS_ACCESS_DENIED, GrantedAccess = Some 0, ResultPrivileges = ps\<rparr>
      else \<lparr>Allowed = False, AccessStatus = STATUS_PRIVILEGE_NOT_HELD, GrantedAccess = Some (P OR (D AND W)),
            ResultPrivileges = ps\<rparr>)"
  unfolding assms(10,11) by (rule access_check_regular) (fact assms)+

text \<open>
  C12. For an object with owner and non-empty DACL, a token that is not restricted and has
  not SeTakeOwnershipPrivilege enabled, a generic mapping that is not empty and has no bits
  above bit 24, a sufficient impersonation level and pool allocations that succeed: the mask
  SeAccessCheck reports for MAXIMUM_ALLOWED contains a non-empty set of specific and
  standard rights exactly when a user-mode request for that set is allowed.
\<close>

theorem SeAccessCheck_maximum_consistent:
  assumes "descriptor_at m sd Ow as" "as \<noteq> []" "token_at m (effective_token c) gs rs" "plain_mapping gm" "\<forall>n. pool n"
    and "may_impersonate c" and "D \<noteq> 0" "\<forall>k \<ge> 24. \<not> bit D k"
    and "\<not> privilege_enabled (effective_token c) SeTakeOwnershipPrivilege" "\<not> SeTokenIsRestricted (effective_token c)"
  shows "\<exists>r s g. SeAccessCheck pool m self sd c D 0 gm UserMode = Some r \<and>
     SeAccessCheck pool m self sd c MAXIMUM_ALLOWED 0 gm UserMode = Some s \<and> GrantedAccess s = Some g \<and>
     (Allowed r \<longleftrightarrow> RtlAreAllAccessesGranted g D)"
proof -
  let ?T = "effective_token c"
  let ?W = "owner_rights ?T gs rs Ow" and ?G = "GrantedAccessRights (maximum_passes gm ?T gs rs as)"
  have "\<not> bit D 25" using assms(8) by simp
  from access_check_allowed [OF assms(1-7) this, of self] obtain r where
    r: "SeAccessCheck pool m self sd c D 0 gm UserMode = Some r"
      "Allowed r = rights_allowed gm ?T gs rs as (RtlMapGenericMask (D AND NOT ?W) gm)" by blast
  have "bit (?W OR ?G) b \<longleftrightarrow> bit ?W b \<or> b < 32 \<and> dacl_grants gm ?T gs rs as b" for b
    using assms(10) by (auto simp: bit_or_iff maximum_passes_bits maximum_grants_def dacl_grants_def)
  then have "Allowed r \<longleftrightarrow> RtlAreAllAccessesGranted (?W OR ?G) D"
    using specific_rights_allowed [OF assms(4,8,9), of gs rs as ?W] bit_imp_le_length [of D]
    by (auto simp: r(2) RtlAreAllAccessesGranted_bits)
  with r(1) access_check_maximum [OF assms(1-6) no_generic_bits(1), of self] show ?thesis by simp
qed

text \<open>
  C27. For a restricted token whose restricting SIDs are not granted a right with a number
  below 17 that its other SIDs are granted, an object with owner and non-empty DACL, a
  generic mapping that is not empty and has no bits above bit 24, a sufficient impersonation
  level and pool allocations that succeed: a request for that right is denied, but a request
  for MAXIMUM_ALLOWED succeeds and reports the right as granted.
\<close>

theorem SeAccessCheck_maximum_ignores_restriction:
  assumes "descriptor_at m sd Ow as" "as \<noteq> []" "token_at m (effective_token c) gs rs" "plain_mapping gm" "\<forall>n. pool n"
    and "may_impersonate c" and "b < 17"
    and "SeTokenIsRestricted (effective_token c)" "decide (rules gm gs False as) b = Some Grant"
    and "decide (rules gm rs True as) b \<noteq> Some Grant"
  shows "\<exists>r s g. SeAccessCheck pool m self sd c (2 ^ b) 0 gm UserMode = Some r \<and> \<not> Allowed r \<and>
     SeAccessCheck pool m self sd c MAXIMUM_ALLOWED 0 gm UserMode = Some s \<and> Allowed s \<and>
     GrantedAccess s = Some g \<and> bit g b"
proof -
  let ?T = "effective_token c"
  let ?W = "owner_rights ?T gs rs Ow" and ?G = "GrantedAccessRights (maximum_passes gm ?T gs rs as)"
  have "b < 19" using assms(7) by simp
  from access_check_single [OF assms(1-6) this, of self] obtain r where
    r: "SeAccessCheck pool m self sd c (2 ^ b) 0 gm UserMode = Some r"
      "Allowed r = (bit ?W b \<or> dacl_grants gm ?T gs rs as b)" by blast
  have "\<not> bit ?W b" using assms(7) by (simp add: owner_rights_def)
  then have "\<not> Allowed r" using assms(8,10) by (simp add: r(2) dacl_grants_def)
  moreover have "bit (?W OR ?G) b"
    using assms(7,9) by (simp add: bit_or_iff maximum_passes_bits maximum_grants_def)
  moreover have "?W OR ?G \<noteq> 0" using calculation(2) by (metis bit_0_eq bot_apply bot_bool_def)
  ultimately show ?thesis using r(1) access_check_maximum [OF assms(1-6) no_generic_bits(1), of self] by simp
qed

text \<open>
  C18. When SeFastTraverseCheck allows one right with a number below 19 on an object with
  owner and non-empty DACL whose entries have no object types and no generic rights,
  SeAccessCheck allows it too, for every unrestricted token that has the world SID, a
  generic mapping that is not empty and has no bits above bit 24, a sufficient impersonation
  level and pool allocations that succeed.
\<close>

theorem SeFastTraverseCheck_sound:
  assumes "SeFastTraverseCheck m w sd flags (2 ^ b) = Some True" "b < 19"
    and "descriptor_at m sd Ow as" "as \<noteq> []" "\<forall>a \<in> set as. plain_ace a" "sid_at m w S"
    and "token_at m (effective_token c) gs rs" "\<not> SeTokenIsRestricted (effective_token c)"
    and "token_has False False 0 gs (sid_bytes S)" "plain_mapping gm" "\<forall>n. pool n" "may_impersonate c"
  shows "\<exists>r. SeAccessCheck pool m self sd c (2 ^ b) 0 gm UserMode = Some r \<and> Allowed r"
proof -
  have "fast_decision (sid_bytes S) (2 ^ b) as" using assms(1) fast_check_ok [OF assms(3,4,6)] by simp
  with fast_decision_grants [OF _ _ assms(5,9), of b gm] have "dacl_grants gm (effective_token c) gs rs as b"
    using assms(2,8) by (simp add: dacl_grants_def)
  with access_check_single [OF assms(3,4,7,10,11,12,2), of self] show ?thesis by blast
qed

section \<open>Examples\<close>

lemma sample_facts:
  "wf_acl (sample_acl deny_allow)" "acl_size (sample_acl deny_allow) < 65536"
  "wf_acl (sample_acl [known_ace 0 0 32 World])" "acl_size (sample_acl [known_ace 0 0 32 World]) < 65536"
proof -
  have "wf_ace 2 (known_ace T F M Users)" "wf_ace 2 (known_ace T F M World)" if "T \<le> 3" for T F M
    using wf_known_ace [OF wf_example(1) _ that] wf_known_ace [OF wf_World(1) _ that] by (simp_all add: Users_def World_def)
  then show "wf_acl (sample_acl deny_allow)" "acl_size (sample_acl deny_allow) < 65536"
    "wf_acl (sample_acl [known_ace 0 0 32 World])" "acl_size (sample_acl [known_ace 0 0 32 World]) < 65536"
    by (simp_all add: wf_acl_def sample_acl_def deny_allow_def acl_size_def length_example wf_World)
qed

lemma sample_decisions:
  "rules sample_mapping [(Users, 0), (World, 4)] False deny_allow = [(Refuse, 2), (Grant, 3)]"
  "rules sample_mapping [(World, 4)] True deny_allow = []"
  "rules sample_mapping [(Users, 0), (World, 4)] False [known_ace 0 0 32 World] = [(Grant, 32)]"
  "owner_rights (sample_token f) [(Users, 0), (World, 4)] [(World, 4)] Admins = 0"
  by (simp_all add: deny_allow_def ace_rule_def ace_verdict_def ace_sid_def ace_sid_offset_def ace_mask_def mapped_mask_def
    known_ace_def sid_bytes_def Users_def World_def Admins_def bytes_ULONG_def bytes_USHORT_def group_counts_def owner_rights_def token_owns_def
    bit_numeral_word_iff)

lemmas sample_object =
  sample_descriptor [OF sample_facts(1,2)] sample_descriptor [OF sample_facts(3,4)] sample_token_at sample_mapping_ok
  sample_context_ok

theorem SeAccessCheck_correct_witness:
  "(\<exists>ps. SeAccessCheck (\<lambda>n. True) (sample_mem deny_allow) 0 16 (sample_context 0) 1 0 sample_mapping UserMode =
     Some \<lparr>Allowed = True, AccessStatus = STATUS_SUCCESS, GrantedAccess = Some 1, ResultPrivileges = ps\<rparr>) \<and>
   (\<exists>ps. SeAccessCheck (\<lambda>n. True) (sample_mem deny_allow) 0 16 (sample_context 0) 2 0 sample_mapping UserMode =
     Some \<lparr>Allowed = False, AccessStatus = STATUS_ACCESS_DENIED, GrantedAccess = Some 0, ResultPrivileges = ps\<rparr>)"
proof -
  let ?gs = "[(Users, 0), (World, 4)]" and ?rs = "[(World, 4)]" and ?T = "sample_token 0"
  have m: "D = RtlMapGenericMask (D AND NOT 0) sample_mapping" if "D \<in> {1, 2}" for D
    using that by (auto simp: RtlMapGenericMask_def)
  have bits: "bit (1 :: ULONG) b \<longleftrightarrow> b = 0" "bit (2 :: ULONG) b \<longleftrightarrow> b = 1" for b by (auto simp: bit_1_iff bit_2_iff)
  have check: "\<exists>ps. SeAccessCheck (\<lambda>n. True) (sample_mem deny_allow) 0 16 (sample_context 0) D 0 sample_mapping UserMode =
     Some (if rights_allowed sample_mapping ?T ?gs ?rs deny_allow D
      then \<lparr>Allowed = True, AccessStatus = STATUS_SUCCESS, GrantedAccess = Some (0 OR (D AND 0) OR D), ResultPrivileges = ps\<rparr>
      else if bit D 24 \<longrightarrow> privilege_enabled ?T SeSecurityPrivilege
      then \<lparr>Allowed = False, AccessStatus = STATUS_ACCESS_DENIED, GrantedAccess = Some 0, ResultPrivileges = ps\<rparr>
      else \<lparr>Allowed = False, AccessStatus = STATUS_PRIVILEGE_NOT_HELD, GrantedAccess = Some (0 OR (D AND 0)),
            ResultPrivileges = ps\<rparr>)" if D: "D \<in> {1, 2}" for D
    using D m [OF D] sample_object
    by (intro SeAccessCheck_correct [of "sample_mem deny_allow" 16 Admins deny_allow "sample_context 0" ?gs ?rs
          sample_mapping "\<lambda>n. True" D 0 0 D 0, unfolded sample_object(6)])
      (auto simp: deny_allow_def sample_decisions(4) bits)
  have r: "rights_allowed sample_mapping ?T ?gs ?rs deny_allow 1" "\<not> rights_allowed sample_mapping ?T ?gs ?rs deny_allow 2"
    by (auto simp: rights_allowed_def by_privilege_def dacl_grants_def sample_decisions bits SeTokenIsRestricted_def sample_token_def)
  from check [of 1] check [of 2] r show ?thesis by (simp add: bits)
qed

theorem SeAccessCheck_maximum_consistent_witness:
  "\<exists>r s g. SeAccessCheck (\<lambda>n. True) (sample_mem deny_allow) 0 16 (sample_context 0) 1 0 sample_mapping UserMode = Some r \<and>
     SeAccessCheck (\<lambda>n. True) (sample_mem deny_allow) 0 16 (sample_context 0) MAXIMUM_ALLOWED 0 sample_mapping UserMode = Some s \<and>
     GrantedAccess s = Some g \<and> (Allowed r \<longleftrightarrow> RtlAreAllAccessesGranted g 1)"
  using sample_object
  by (intro SeAccessCheck_maximum_consistent [of "sample_mem deny_allow" 16 Admins deny_allow "sample_context 0"
        "[(Users, 0), (World, 4)]" "[(World, 4)]"])
    (auto simp: deny_allow_def bit_1_iff privilege_enabled_def SeTokenIsRestricted_def sample_token_def)

theorem SeAccessCheck_maximum_ignores_restriction_witness:
  "\<exists>r s g. SeAccessCheck (\<lambda>n. True) (sample_mem deny_allow) 0 16 (sample_context 0x10) (2 ^ 0) 0 sample_mapping UserMode = Some r \<and>
     \<not> Allowed r \<and>
     SeAccessCheck (\<lambda>n. True) (sample_mem deny_allow) 0 16 (sample_context 0x10) MAXIMUM_ALLOWED 0 sample_mapping UserMode = Some s \<and>
     Allowed s \<and> GrantedAccess s = Some g \<and> bit g 0"
proof -
  have b: "decide [(Refuse, 2), (Grant, 3)] 0 = Some Grant" by (simp add: bit_numeral_word_iff)
  show ?thesis
    using sample_object b
    by (intro SeAccessCheck_maximum_ignores_restriction [of "sample_mem deny_allow" 16 Admins deny_allow "sample_context 0x10"
          "[(Users, 0), (World, 4)]" "[(World, 4)]"])
      (simp_all add: deny_allow_def [symmetric] sample_decisions SeTokenIsRestricted_def sample_token_def, simp add: deny_allow_def)
qed

theorem SeFastTraverseCheck_sound_witness:
  "SeFastTraverseCheck (sample_mem [known_ace 0 0 32 World]) 68 16 0 (2 ^ 5) = Some True \<and>
   (\<exists>r. SeAccessCheck (\<lambda>n. True) (sample_mem [known_ace 0 0 32 World]) 0 16 (sample_context 0) (2 ^ 5) 0 sample_mapping UserMode =
     Some r \<and> Allowed r)"
proof -
  let ?as = "[known_ace 0 0 32 World]"
  have parts: "known_ace 0 0 32 World ! 0 = 0" "known_ace 0 0 32 World ! 1 = 0" "ace_mask (known_ace 0 0 32 World) = 32"
    "ace_sid (known_ace 0 0 32 World) = sid_bytes World"
    by (simp_all add: ace_mask_def ace_sid_def ace_sid_offset_def known_ace_def sid_bytes_def World_def bytes_ULONG_def bytes_USHORT_def)
  have sid: "sid_at (sample_mem ?as) 68 World" using sample_holds(6) wf_World by (simp add: sid_at_def)
  have fast: "SeFastTraverseCheck (sample_mem ?as) 68 16 0 (2 ^ 5) = Some True"
    using fast_check_ok [OF sample_object(2) _ sid, of 0 "2 ^ 5"] parts by simp
  have 32: "\<not> bit (32 :: ULONG) k" if "28 \<le> k" for k using bit_exp_iff [of 5 k, where 'a = "32 word"] that by auto
  have plain: "plain_ace (known_ace 0 0 32 World)" by (simp add: plain_ace_def parts 32)
  have member: "token_has False False 0 [(Users, 0), (World, 4)] (sid_bytes World)"
    by (simp add: group_counts_def sid_bytes_def Users_def World_def bit_numeral_word_iff)
  have "\<exists>r. SeAccessCheck (\<lambda>n. True) (sample_mem ?as) 0 16 (sample_context 0) (2 ^ 5) 0 sample_mapping UserMode = Some r \<and> Allowed r"
    using sample_object(3-6) member
    by (intro SeFastTraverseCheck_sound [OF fast _ sample_object(2) _ _ sid, where gs = "[(Users, 0), (World, 4)]" and rs = "[(World, 4)]"])
      (simp_all add: plain SeTokenIsRestricted_def sample_token_def)
  with fast show ?thesis by blast
qed

end
