(* ===== verification/RtlSdForms.thy ===== *)
theory RtlSdForms
  imports RtlSd SeChecks
begin

text \<open>
  The two forms of a security descriptor: what a descriptor stands for, and that the conversions of
  \<^verbatim>\<open>sdk/lib/rtl/sd.c\<close> between the absolute and the self-relative form keep it.
\<close>

unbundle bit_operations_syntax

section \<open>What a descriptor stands for\<close>

text \<open>The flags, and the owner, group and lists wherever they are; \<open>None\<close> is a part that is missing.\<close>

record sd_view =
  ViewSbz1 :: UCHAR
  ViewControl :: USHORT
  ViewOwner :: "ISID option"
  ViewGroup :: "ISID option"
  ViewDacl :: "ACL option"
  ViewSacl :: "ACL option"

fun sid_part_at :: "mem \<Rightarrow> nat \<Rightarrow> ISID option \<Rightarrow> bool" where
  "sid_part_at m q None = (q = 0)"
| "sid_part_at m q (Some S) = sid_at m q S"

text \<open>A list whose size is a multiple of 4, so that rounding its size up does not change it.\<close>

fun acl_part_at :: "mem \<Rightarrow> nat \<Rightarrow> ACL option \<Rightarrow> bool" where
  "acl_part_at m q None = (q = 0)"
| "acl_part_at m q (Some A) = (q \<noteq> 0 \<and> acl_at m q A \<and> 4 dvd acl_size A)"

fun sid_part_bytes :: "ISID option \<Rightarrow> UCHAR list" where
  "sid_part_bytes None = []"
| "sid_part_bytes (Some S) = sid_bytes S"

fun acl_part_bytes :: "ACL option \<Rightarrow> UCHAR list" where
  "acl_part_bytes None = []"
| "acl_part_bytes (Some A) = acl_bytes A"

definition owner_of :: "nat \<Rightarrow> SECURITY_DESCRIPTOR \<Rightarrow> nat" where
  "owner_of p s = sd_address p (SdControl s) (SdOwner s)"

definition group_of :: "nat \<Rightarrow> SECURITY_DESCRIPTOR \<Rightarrow> nat" where
  "group_of p s = sd_address p (SdControl s) (SdGroup s)"

definition dacl_of :: "nat \<Rightarrow> SECURITY_DESCRIPTOR \<Rightarrow> nat" where
  "dacl_of p s = (if bit (SdControl s) 2 then sd_address p (SdControl s) (SdDacl s) else 0)"

definition sacl_of :: "nat \<Rightarrow> SECURITY_DESCRIPTOR \<Rightarrow> nat" where
  "sacl_of p s = (if bit (SdControl s) 4 then sd_address p (SdControl s) (SdSacl s) else 0)"

definition shows_view :: "mem \<Rightarrow> nat \<Rightarrow> SECURITY_DESCRIPTOR \<Rightarrow> sd_view \<Rightarrow> bool" where
  "shows_view m p s v \<longleftrightarrow> sd_at m p s \<and> SdRevision s = 1 \<and> SdSbz1 s = ViewSbz1 v \<and> SdControl s = ViewControl v \<and>
     sid_part_at m (owner_of p s) (ViewOwner v) \<and> sid_part_at m (group_of p s) (ViewGroup v) \<and>
     acl_part_at m (dacl_of p s) (ViewDacl v) \<and> acl_part_at m (sacl_of p s) (ViewSacl v)"

definition view_size :: "sd_view \<Rightarrow> nat" where
  "view_size v = 20 + length (sid_part_bytes (ViewOwner v)) + length (sid_part_bytes (ViewGroup v)) +
     length (acl_part_bytes (ViewSacl v)) + length (acl_part_bytes (ViewDacl v))"

text \<open>A block of memory and the parts of a descriptor have no byte in common.\<close>

definition apart :: "nat \<Rightarrow> nat \<Rightarrow> nat \<Rightarrow> nat \<Rightarrow> bool" where
  "apart p n q k \<longleftrightarrow> k = 0 \<or> p + n \<le> q \<or> q + k \<le> p"

definition members_apart :: "nat \<Rightarrow> nat \<Rightarrow> nat \<Rightarrow> SECURITY_DESCRIPTOR \<Rightarrow> sd_view \<Rightarrow> bool" where
  "members_apart a n p s v \<longleftrightarrow>
     apart a n (owner_of p s) (length (sid_part_bytes (ViewOwner v))) \<and>
     apart a n (group_of p s) (length (sid_part_bytes (ViewGroup v))) \<and>
     apart a n (dacl_of p s) (length (acl_part_bytes (ViewDacl v))) \<and>
     apart a n (sacl_of p s) (length (acl_part_bytes (ViewSacl v)))"

definition parts_apart :: "nat \<Rightarrow> nat \<Rightarrow> nat \<Rightarrow> SECURITY_DESCRIPTOR \<Rightarrow> sd_view \<Rightarrow> bool" where
  "parts_apart a n p s v \<longleftrightarrow> apart a n p 20 \<and> members_apart a n p s v"

definition part_offset :: "UCHAR list \<Rightarrow> nat \<Rightarrow> ULONG" where
  "part_offset part n = (if part = [] then 0 else of_nat n)"

definition relative_sd :: "sd_view \<Rightarrow> SECURITY_DESCRIPTOR" where
  "relative_sd v =
     (let sa = acl_part_bytes (ViewSacl v); da = acl_part_bytes (ViewDacl v); ow = sid_part_bytes (ViewOwner v);
          gr = sid_part_bytes (ViewGroup v)
      in \<lparr>SdRevision = 1, SdSbz1 = ViewSbz1 v, SdControl = ViewControl v OR 0x8000,
          SdOwner = part_offset ow (20 + length sa + length da), SdGroup = part_offset gr (20 + length sa + length da + length ow),
          SdSacl = part_offset sa 20, SdDacl = part_offset da (20 + length sa)\<rparr>)"

definition relative_bytes :: "sd_view \<Rightarrow> UCHAR list" where
  "relative_bytes v = sd_bytes (relative_sd v) @ acl_part_bytes (ViewSacl v) @ acl_part_bytes (ViewDacl v) @
     sid_part_bytes (ViewOwner v) @ sid_part_bytes (ViewGroup v)"

text \<open>The absolute descriptor that takes the place of a self-relative one.\<close>

definition absolute_in_place :: "nat \<Rightarrow> SECURITY_DESCRIPTOR \<Rightarrow> SECURITY_DESCRIPTOR" where
  "absolute_in_place p s = s\<lparr>SdControl := with_flag 0x8000 False (SdControl s), SdOwner := of_nat (owner_of p s),
     SdGroup := of_nat (group_of p s), SdSacl := of_nat (sacl_of p s), SdDacl := of_nat (dacl_of p s)\<rparr>"

text \<open>The SIDs of a token lie outside a buffer.\<close>

definition token_apart :: "nat \<Rightarrow> nat \<Rightarrow> TOKEN \<Rightarrow> bool" where
  "token_apart q n T \<longleftrightarrow> (\<forall>x \<in> set (UserAndGroups T) \<union> set (RestrictedSids T). apart q n (SidPtr x) 68)"

text \<open>
  An absolute descriptor at 200 with the owner, group and list of \<^const>\<open>sample_mem\<close>, and a buffer of 108 bytes at 300.
\<close>

definition absolute_sd :: SECURITY_DESCRIPTOR where
  "absolute_sd = \<lparr>SdRevision = 1, SdSbz1 = 0, SdControl = 4, SdOwner = 36, SdGroup = 36, SdSacl = 0, SdDacl = 80\<rparr>"

definition absolute_view :: sd_view where
  "absolute_view = \<lparr>ViewSbz1 = 0, ViewControl = 4, ViewOwner = Some Admins, ViewGroup = Some Admins,
     ViewDacl = Some (sample_acl deny_allow), ViewSacl = None\<rparr>"

definition absolute_mem :: mem where
  "absolute_mem = put (put (sample_mem deny_allow) 200 (sd_bytes absolute_sd)) 300 (replicate 108 0)"

section \<open>Parts and their sizes\<close>

lemma or_and_not: "((x :: ULONG) OR y) AND NOT y = x AND NOT y"
  by (rule bit_word_eqI) (auto simp: bit_and_iff bit_or_iff bit_not_iff)

lemma round_up_id:
  assumes "4 dvd unat n"
  shows "ROUND_UP n 4 = n"
proof -
  have "unat (take_bit 2 n) = 0" using assms by (simp only: unsigned_take_bit_eq) (simp add: take_bit_eq_mod)
  then have 0: "n AND 3 = 0" by (simp add: unat_eq_zero take_bit_eq_mask mask_eq_exp_minus_1)
  then have "n AND NOT 3 = n" by (intro and_not_id) (simp add: and_eq_0_bits)
  moreover have "n + 3 = n OR 3" using 0 by (intro disjunctive_add) (simp add: and_eq_0_bits)
  moreover have "n + 4 - 1 = n + 3" by simp
  ultimately show ?thesis using or_and_not [of n 3] unfolding ROUND_UP_def by (simp only:) simp
qed

lemma sid_part_ok:
  assumes "sid_part_at m q so"
  shows "holds m q (sid_part_bytes so)" "4 dvd length (sid_part_bytes so)" "length (sid_part_bytes so) \<le> 68"
    "sid_part_size m q = Some (of_nat (length (sid_part_bytes so)))" "q = 0 \<longleftrightarrow> sid_part_bytes so = []"
proof -
  have "holds m q (sid_part_bytes so) \<and> 4 dvd length (sid_part_bytes so) \<and> length (sid_part_bytes so) \<le> 68 \<and>
    sid_part_size m q = Some (of_nat (length (sid_part_bytes so))) \<and> (q = 0 \<longleftrightarrow> sid_part_bytes so = [])"
  proof (cases so)
    case None
    then show ?thesis using assms by (simp add: sid_part_size_def)
  next
    case (Some S)
    then have S: "sid_at m q S" using assms by simp
    have l: "length (sid_bytes S) = 8 + 4 * length (SidSubs S)"
      using S by (intro length_sid_bytes) (simp add: sid_at_def wf_SID_def)
    then have "4 dvd length (sid_bytes S)" by simp
    moreover from this have "ROUND_UP (of_nat (length (sid_bytes S))) 4 = of_nat (length (sid_bytes S))"
      by (intro round_up_id) (simp add: unat_sid_length [OF S])
    ultimately show ?thesis
      using Some S RtlLengthSid_ok [OF S] sid_length [OF S] l by (auto simp: sid_part_size_def sid_at_def)
  qed
  then show "holds m q (sid_part_bytes so)" "4 dvd length (sid_part_bytes so)" "length (sid_part_bytes so) \<le> 68"
    "sid_part_size m q = Some (of_nat (length (sid_part_bytes so)))" "q = 0 \<longleftrightarrow> sid_part_bytes so = []" by blast+
qed

lemma length_acl_bytes: "length (acl_bytes A) = acl_size A"
  by (simp add: acl_bytes_def acl_size_def)

lemma acl_part_ok:
  assumes "acl_part_at m q ao"
  shows "holds m q (acl_part_bytes ao)" "4 dvd length (acl_part_bytes ao)" "length (acl_part_bytes ao) < 65536"
    "acl_part_size m q = Some (of_nat (length (acl_part_bytes ao)))" "q = 0 \<longleftrightarrow> acl_part_bytes ao = []"
proof -
  have "holds m q (acl_part_bytes ao) \<and> 4 dvd length (acl_part_bytes ao) \<and> length (acl_part_bytes ao) < 65536 \<and>
    acl_part_size m q = Some (of_nat (length (acl_part_bytes ao))) \<and> (q = 0 \<longleftrightarrow> acl_part_bytes ao = [])"
  proof (cases ao)
    case None
    then show ?thesis using assms by (simp add: acl_part_size_def)
  next
    case (Some A)
    then have A: "q \<noteq> 0" "acl_at m q A" "4 dvd acl_size A" using assms by simp_all
    have n: "acl_size A < 65536" using A(2) by (simp add: acl_at_def)
    then have u: "ucast (of_nat (acl_size A) :: USHORT) = (of_nat (acl_size A) :: ULONG)"
      by (simp add: word_unat_eq_iff unsigned_ucast_eq unat_of_nat take_bit_nat_eq_self)
    have "ROUND_UP (of_nat (acl_size A)) 4 = of_nat (acl_size A)"
      using A(3) n by (intro round_up_id) (simp add: unat_of_nat)
    moreover have "acl_bytes A \<noteq> []" by (simp add: acl_bytes_def)
    ultimately show ?thesis using Some A n u acl_header(2) [OF A(2)]
      by (simp add: acl_part_size_def length_acl_bytes acl_at_def)
  qed
  then show "holds m q (acl_part_bytes ao)" "4 dvd length (acl_part_bytes ao)" "length (acl_part_bytes ao) < 65536"
    "acl_part_size m q = Some (of_nat (length (acl_part_bytes ao)))" "q = 0 \<longleftrightarrow> acl_part_bytes ao = []" by blast+
qed

text \<open>A part lies in the memory as it was when something is written elsewhere.\<close>

lemma part_moves:
  assumes "holds m' q (sid_part_bytes so)" "sid_part_at m q0 so" "q = 0 \<longleftrightarrow> q0 = 0"
  shows "sid_part_at m' q so"
  using assms by (cases so) (auto simp: sid_at_def)

lemma acl_part_moves:
  assumes "holds m' q (acl_part_bytes ao)" "acl_part_at m q0 ao" "q = 0 \<longleftrightarrow> q0 = 0"
  shows "acl_part_at m' q ao"
  using assms by (cases ao) (auto simp: acl_at_def)

lemma view_query:
  assumes "shows_view m p s v"
  shows "RtlpQuerySecurityDescriptor m p = Some
     \<lparr>QueryOwner = owner_of p s, QueryOwnerSize = of_nat (length (sid_part_bytes (ViewOwner v))),
      QueryGroup = group_of p s, QueryGroupSize = of_nat (length (sid_part_bytes (ViewGroup v))),
      QueryDacl = dacl_of p s, QueryDaclSize = of_nat (length (acl_part_bytes (ViewDacl v))),
      QuerySacl = sacl_of p s, QuerySaclSize = of_nat (length (acl_part_bytes (ViewSacl v)))\<rparr>"
proof -
  have sd: "sd_at m p s" using assms by (simp add: shows_view_def)
  note parts = sd_parts [OF sd, folded owner_of_def group_of_def dacl_of_def sacl_of_def]
  have "sid_part_at m (owner_of p s) (ViewOwner v)" "sid_part_at m (group_of p s) (ViewGroup v)"
    "acl_part_at m (dacl_of p s) (ViewDacl v)" "acl_part_at m (sacl_of p s) (ViewSacl v)"
    using assms by (simp_all add: shows_view_def)
  then show ?thesis unfolding RtlpQuerySecurityDescriptor_def parts
    by (simp add: sid_part_ok(4) acl_part_ok(4))
qed

lemma view_size_bound: "shows_view m p s v \<Longrightarrow> view_size v < 2 ^ 18"
  using sid_part_ok(3) [of m "owner_of p s" "ViewOwner v"] sid_part_ok(3) [of m "group_of p s" "ViewGroup v"]
    acl_part_ok(3) [of m "dacl_of p s" "ViewDacl v"] acl_part_ok(3) [of m "sacl_of p s" "ViewSacl v"]
  by (simp add: shows_view_def view_size_def)

section \<open>The self-relative form\<close>

lemma length_relative_bytes: "length (relative_bytes v) = view_size v"
  by (simp add: relative_bytes_def view_size_def)

text \<open>One part: \<open>bs\<close> is what is in the buffer so far, with the member \<open>f\<close> and the place \<open>zs\<close> of the part.\<close>

lemma copy_part_ok:
  assumes part: "holds m q part" "apart p (length bs) q (length part)" and buf: "mapped m p (length bs)" "length bs < 2 ^ 32"
    and bs: "bs = h1 @ f @ h2 @ d @ zs @ rest" "length f = 4" "length h1 + length h2 = 16" "length zs = length part"
    and f: "f = bytes_ULONG 0"
  shows "copy_part (put m p bs) p (length h1) (p + (20 + length d)) q (of_nat (length part)) =
     Some (put m p (h1 @ bytes_ULONG (part_offset part (20 + length d)) @ h2 @ d @ part @ rest), p + (20 + length d) + length part)"
proof (cases "part = []")
  case True
  then show ?thesis using bs(1,4) f by (simp add: copy_part_def part_offset_def)
next
  case False
  let ?c = "p + (20 + length d)" let ?m1 = "put m p ((h1 @ f @ h2 @ d) @ part @ rest)"
  have len: "length (h1 @ f @ h2 @ d) = 20 + length d" using bs(2,3) by simp
  have n: "unat (of_nat (length part) :: ULONG) = length part"
    using buf(2) bs(1,4) by (intro unat_of_nat_small) simp
  then have "(of_nat (length part) :: ULONG) \<noteq> 0" using False by (metis length_0_conv unat_0)
  moreover have "holds (put m p bs) q part" using part False by (subst holds_put_other) (auto simp: apart_def)
  then have "memcpy (put m p bs) ?c q (length part) = Some (put (put m p bs) ?c part)"
    using buf(1) bs by (intro memcpy_ok mapped_put mapped_mono [OF buf(1)]) simp_all
  moreover have "put (put m p bs) ?c part = ?m1"
    using put_segment [of part zs m p "h1 @ f @ h2 @ d" rest, unfolded len] bs(1,4) by simp
  moreover have "store_ULONG ?m1 (p + length h1) (of_nat (?c - p)) = Some (put ?m1 (p + length h1) (bytes_ULONG (of_nat (?c - p))))"
    using buf(1) bs by (intro store_ULONG_put mapped_put mapped_mono [OF buf(1)]) simp_all
  moreover have "put ?m1 (p + length h1) (bytes_ULONG (of_nat (?c - p))) =
      put m p (h1 @ bytes_ULONG (part_offset part (20 + length d)) @ h2 @ d @ part @ rest)"
    using put_segment [of "bytes_ULONG (of_nat (?c - p))" f m p h1 "h2 @ d @ part @ rest"] bs(2) False by (simp add: part_offset_def)
  ultimately show ?thesis by (simp add: copy_part_def RtlCopyMemory_def n)
qed

text \<open>The four parts in the order of the code, for a buffer that holds the first four bytes \<open>H\<close> and zeros.\<close>

lemma copy_parts_ok:
  fixes m :: mem and p :: nat and sa da ow gr H :: "UCHAR list"
  defines "n \<equiv> 20 + length sa + length da + length ow + length gr" and "z \<equiv> \<lambda>xs. replicate (length xs) (0 :: UCHAR)"
    and "Z \<equiv> bytes_ULONG 0"
  assumes parts: "holds m qs sa" "holds m qd da" "holds m qo ow" "holds m qg gr"
    and ap: "apart p n qs (length sa)" "apart p n qd (length da)" "apart p n qo (length ow)" "apart p n qg (length gr)"
    and buf: "mapped m p n" "n < 2 ^ 32" "length H = 4"
  shows "do {
      (m, Current) \<leftarrow> copy_part (put m p (H @ Z @ Z @ Z @ Z @ z sa @ z da @ z ow @ z gr)) p 12 (p + 20) qs (of_nat (length sa));
      (m, Current) \<leftarrow> copy_part m p 16 Current qd (of_nat (length da));
      (m, Current) \<leftarrow> copy_part m p 4 Current qo (of_nat (length ow));
      (m, Current) \<leftarrow> copy_part m p 8 Current qg (of_nat (length gr));
      finish m
    } = finish (put m p (H @ bytes_ULONG (part_offset ow (20 + length sa + length da)) @
      bytes_ULONG (part_offset gr (20 + length sa + length da + length ow)) @ bytes_ULONG (part_offset sa 20) @
      bytes_ULONG (part_offset da (20 + length sa)) @ sa @ da @ ow @ gr))"
proof -
  let ?S = "bytes_ULONG (part_offset sa 20)" let ?D = "bytes_ULONG (part_offset da (20 + length sa))"
  let ?O = "bytes_ULONG (part_offset ow (20 + length sa + length da))"
  let ?G = "bytes_ULONG (part_offset gr (20 + length sa + length da + length ow))"
  have Z: "length Z = 4" "length (z xs) = length xs" for xs by (simp_all add: Z_def z_def)
  have 1: "copy_part (put m p (H @ Z @ Z @ Z @ Z @ z sa @ z da @ z ow @ z gr)) p 12 (p + 20) qs (of_nat (length sa)) =
      Some (put m p (H @ Z @ Z @ ?S @ Z @ sa @ z da @ z ow @ z gr), p + 20 + length sa)"
    using copy_part_ok [of m qs sa p "H @ Z @ Z @ Z @ Z @ z sa @ z da @ z ow @ z gr" "H @ Z @ Z" Z Z "[]" "z sa" "z da @ z ow @ z gr"]
      parts(1) ap(1) buf Z by (simp add: n_def Z_def add.assoc)
  have 2: "copy_part (put m p (H @ Z @ Z @ ?S @ Z @ sa @ z da @ z ow @ z gr)) p 16 (p + 20 + length sa) qd (of_nat (length da)) =
      Some (put m p (H @ Z @ Z @ ?S @ ?D @ sa @ da @ z ow @ z gr), p + 20 + length sa + length da)"
    using copy_part_ok [of m qd da p "H @ Z @ Z @ ?S @ Z @ sa @ z da @ z ow @ z gr" "H @ Z @ Z @ ?S" Z "[]" sa "z da" "z ow @ z gr"]
      parts(2) ap(2) buf Z by (simp add: n_def Z_def add.assoc)
  have 3: "copy_part (put m p (H @ Z @ Z @ ?S @ ?D @ sa @ da @ z ow @ z gr)) p 4 (p + 20 + length sa + length da) qo (of_nat (length ow)) =
      Some (put m p (H @ ?O @ Z @ ?S @ ?D @ sa @ da @ ow @ z gr), p + 20 + length sa + length da + length ow)"
    using copy_part_ok [of m qo ow p "H @ Z @ Z @ ?S @ ?D @ sa @ da @ z ow @ z gr" H Z "Z @ ?S @ ?D" "sa @ da" "z ow" "z gr"]
      parts(3) ap(3) buf Z by (simp add: n_def Z_def add.assoc)
  have 4: "copy_part (put m p (H @ ?O @ Z @ ?S @ ?D @ sa @ da @ ow @ z gr)) p 8 (p + 20 + length sa + length da + length ow) qg
      (of_nat (length gr)) = Some (put m p (H @ ?O @ ?G @ ?S @ ?D @ sa @ da @ ow @ gr), p + n)"
    using copy_part_ok [of m qg gr p "H @ ?O @ Z @ ?S @ ?D @ sa @ da @ ow @ z gr" "H @ ?O" Z "?S @ ?D" "sa @ da @ ow" "z gr" "[]"]
      parts(4) ap(4) buf Z by (simp add: n_def Z_def add.assoc)
  show ?thesis by (simp only: 1 2 3 4 Option.bind_lunit prod.case)
qed

lemma make_self_relative:
  assumes v: "shows_view m p s v" and buf: "mapped m q (view_size v)" "parts_apart q (view_size v) p s v" "view_size v \<le> unat len"
  shows "RtlMakeSelfRelativeSD m p q len = Some (STATUS_SUCCESS, len, put m q (relative_bytes v))"
proof -
  let ?sa = "acl_part_bytes (ViewSacl v)" let ?da = "acl_part_bytes (ViewDacl v)"
  let ?ow = "sid_part_bytes (ViewOwner v)" let ?gr = "sid_part_bytes (ViewGroup v)"
  let ?r = "relative_sd v" let ?H = "[1, ViewSbz1 v] @ bytes_USHORT (ViewControl v)" let ?Z = "bytes_ULONG 0"
  let ?z = "\<lambda>xs :: UCHAR list. replicate (length xs) (0 :: UCHAR)"
  let ?n = "20 + length ?sa + length ?da + length ?ow + length ?gr"
  have n: "view_size v = ?n" by (simp add: view_size_def)
  have small: "?n < 2 ^ 32" using view_size_bound [OF v] by (simp add: n)
  have total: "20 + of_nat (length ?ow) + of_nat (length ?gr) + of_nat (length ?sa) + of_nat (length ?da) = (of_nat ?n :: ULONG)"
    by simp
  have un: "unat (of_nat ?n :: ULONG) = ?n" using small by (intro unat_of_nat_small) simp
  have zero: "RtlZeroMemory m q ?n = Some (put m q (replicate ?n 0))" using RtlZeroMemory_ok [OF buf(1)] by (simp add: n)
  have zs: "replicate ?n 0 = replicate 4 (0 :: UCHAR) @ ?Z @ ?Z @ ?Z @ ?Z @ ?z ?sa @ ?z ?da @ ?z ?ow @ ?z ?gr"
    by (simp add: replicate_add bytes_ULONG_def eval_nat_numeral)
  have s: "sd_at m p s" "SdRevision s = 1" "SdSbz1 s = ViewSbz1 v" "SdControl s = ViewControl v" using v by (simp_all add: shows_view_def)
  have "holds m p ?H" using s unfolding sd_at_def sd_bytes_def by (simp add: holds_append holds_Cons)
  then have "holds (put m q (replicate ?n 0)) p ?H"
    using buf(2) by (subst holds_put_other) (auto simp: parts_apart_def members_apart_def apart_def n)
  then have "memcpy (put m q (replicate ?n 0)) q p (length ?H) = Some (put (put m q (replicate ?n 0)) q ?H)"
    using buf(1) by (intro memcpy_ok mapped_put mapped_mono [OF buf(1)]) (simp_all add: n)
  moreover have "put (put m q (replicate ?n 0)) q ?H = put m q (?H @ ?Z @ ?Z @ ?Z @ ?Z @ ?z ?sa @ ?z ?da @ ?z ?ow @ ?z ?gr)"
    unfolding zs using put_segment [of ?H "replicate 4 0" m q "[]"] by simp
  ultimately have head: "RtlCopyMemory (put m q (replicate ?n 0)) q p 4 =
      Some (put m q (?H @ ?Z @ ?Z @ ?Z @ ?Z @ ?z ?sa @ ?z ?da @ ?z ?ow @ ?z ?gr))"
    by (simp add: RtlCopyMemory_def)
  have parts: "sid_part_at m (owner_of p s) (ViewOwner v)" "sid_part_at m (group_of p s) (ViewGroup v)"
    "acl_part_at m (dacl_of p s) (ViewDacl v)" "acl_part_at m (sacl_of p s) (ViewSacl v)"
    using v by (simp_all add: shows_view_def)
  note copy = copy_parts_ok [OF acl_part_ok(1) [OF parts(4)] acl_part_ok(1) [OF parts(3)] sid_part_ok(1) [OF parts(1)]
      sid_part_ok(1) [OF parts(2)], of q ?H]
  let ?tail = "bytes_ULONG (SdOwner ?r) @ bytes_ULONG (SdGroup ?r) @ bytes_ULONG (SdSacl ?r) @ bytes_ULONG (SdDacl ?r) @ ?sa @ ?da @ ?ow @ ?gr"
  let ?m = "put m q ([1, ViewSbz1 v] @ bytes_USHORT (ViewControl v) @ ?tail)"
  have "load_USHORT ?m (q + 2) = Some (ViewControl v)"
    unfolding load_USHORT_holds using holds_put [of m q "[1, ViewSbz1 v] @ bytes_USHORT (ViewControl v) @ ?tail"]
    unfolding holds_append by simp
  moreover have "store_USHORT ?m (q + 2) (ViewControl v OR 0x8000) = Some (put ?m (q + 2) (bytes_USHORT (ViewControl v OR 0x8000)))"
    using buf(1) by (intro store_USHORT_put mapped_put mapped_mono [OF buf(1)]) (simp_all add: n)
  moreover have "put ?m (q + 2) (bytes_USHORT (ViewControl v OR 0x8000)) = put m q (relative_bytes v)"
    using put_segment [of "bytes_USHORT (ViewControl v OR 0x8000)" "bytes_USHORT (ViewControl v)" m q "[1, ViewSbz1 v]" ?tail]
    by (simp add: relative_bytes_def sd_bytes_def relative_sd_def Let_def)
  ultimately have control: "set_control ?m q (\<lambda>c. c OR 0x8000) = Some (put m q (relative_bytes v))" by (simp add: set_control_def)
  have ap: "apart q ?n (sacl_of p s) (length ?sa)" "apart q ?n (dacl_of p s) (length ?da)"
    "apart q ?n (owner_of p s) (length ?ow)" "apart q ?n (group_of p s) (length ?gr)"
    using buf(2) by (simp_all add: parts_apart_def members_apart_def n)
  have map: "mapped m q ?n" "length ?H = 4" using buf(1) by (simp_all add: n)
  have copied: "put m q (?H @ bytes_ULONG (part_offset ?ow (20 + length ?sa + length ?da)) @
      bytes_ULONG (part_offset ?gr (20 + length ?sa + length ?da + length ?ow)) @ bytes_ULONG (part_offset ?sa 20) @
      bytes_ULONG (part_offset ?da (20 + length ?sa)) @ ?sa @ ?da @ ?ow @ ?gr) = ?m"
    by (simp add: relative_sd_def Let_def)
  have "\<not> len < of_nat ?n" using buf(3) unfolding word_less_nat_alt un n by simp
  then show ?thesis
    unfolding RtlMakeSelfRelativeSD_def view_query [OF v] Option.bind_lunit Let_def sd_query.simps total un zero head
      copy [OF ap map(1) small map(2)] copied
    by (simp only: control Option.bind_lunit if_False)
qed

section \<open>What the self-relative form stands for\<close>

lemma part_address:
  assumes "n < 2 ^ 32" "0 < n" "bit c 15"
  shows "sd_address q c (part_offset part n) = (if part = [] then 0 else q + n)"
proof -
  have "unat (of_nat n :: ULONG) = n" using assms(1) by (intro unat_of_nat_small) simp
  moreover from this have "(of_nat n :: ULONG) \<noteq> 0" using assms(2) by auto
  ultimately show ?thesis using assms(3) by (simp add: sd_address_def part_offset_def)
qed

lemma relative_holds:
  "holds (put m q (relative_bytes v)) q (sd_bytes (relative_sd v))"
  "holds (put m q (relative_bytes v)) (q + 20) (acl_part_bytes (ViewSacl v))"
  "holds (put m q (relative_bytes v)) (q + (20 + length (acl_part_bytes (ViewSacl v)))) (acl_part_bytes (ViewDacl v))"
  "holds (put m q (relative_bytes v)) (q + (20 + length (acl_part_bytes (ViewSacl v)) + length (acl_part_bytes (ViewDacl v))))
     (sid_part_bytes (ViewOwner v))"
  "holds (put m q (relative_bytes v)) (q + (20 + length (acl_part_bytes (ViewSacl v)) + length (acl_part_bytes (ViewDacl v)) +
     length (sid_part_bytes (ViewOwner v)))) (sid_part_bytes (ViewGroup v))"
  using holds_put [of m q "relative_bytes v"] unfolding relative_bytes_def holds_append by (simp_all add: add.assoc)

lemma relative_addresses:
  assumes "shows_view m p s v"
  defines "sa \<equiv> acl_part_bytes (ViewSacl v)" and "da \<equiv> acl_part_bytes (ViewDacl v)" and "ow \<equiv> sid_part_bytes (ViewOwner v)"
    and "gr \<equiv> sid_part_bytes (ViewGroup v)"
  shows "owner_of q (relative_sd v) = (if ow = [] then 0 else q + (20 + length sa + length da))"
    "group_of q (relative_sd v) = (if gr = [] then 0 else q + (20 + length sa + length da + length ow))"
    "sacl_of q (relative_sd v) = (if sa = [] then 0 else q + 20)"
    "dacl_of q (relative_sd v) = (if da = [] then 0 else q + (20 + length sa))"
proof -
  have n: "20 + length sa + length da + length ow < 2 ^ 32"
    using view_size_bound [OF assms(1)] by (simp add: view_size_def sa_def da_def ow_def)
  have c: "SdControl (relative_sd v) = with_flag 0x8000 True (ViewControl v)" by (simp add: relative_sd_def Let_def or_flag)
  have b: "bit (with_flag 0x8000 True (ViewControl v)) 15" by (simp add: bit_control)
  note addr = part_address [OF _ _ b]
  have present: "sa \<noteq> [] \<Longrightarrow> bit (ViewControl v) 4" "da \<noteq> [] \<Longrightarrow> bit (ViewControl v) 2"
    using assms(1) acl_part_ok(5) [of m "sacl_of p s" "ViewSacl v"] acl_part_ok(5) [of m "dacl_of p s" "ViewDacl v"]
    by (auto simp: shows_view_def sacl_of_def dacl_of_def sa_def da_def split: if_splits)
  have f: "SdOwner (relative_sd v) = part_offset ow (20 + length sa + length da)"
    "SdGroup (relative_sd v) = part_offset gr (20 + length sa + length da + length ow)"
    "SdSacl (relative_sd v) = part_offset sa 20" "SdDacl (relative_sd v) = part_offset da (20 + length sa)"
    by (simp_all add: relative_sd_def Let_def sa_def da_def ow_def gr_def)
  show "owner_of q (relative_sd v) = (if ow = [] then 0 else q + (20 + length sa + length da))"
    "group_of q (relative_sd v) = (if gr = [] then 0 else q + (20 + length sa + length da + length ow))"
    unfolding owner_of_def group_of_def c f using n by (simp_all add: addr)
  show "sacl_of q (relative_sd v) = (if sa = [] then 0 else q + 20)"
    "dacl_of q (relative_sd v) = (if da = [] then 0 else q + (20 + length sa))"
    unfolding sacl_of_def dacl_of_def c f using n present by (auto simp: addr bit_control)
qed

lemma relative_view:
  assumes v: "shows_view m p s v"
  shows "shows_view (put m q (relative_bytes v)) q (relative_sd v) (v\<lparr>ViewControl := ViewControl v OR 0x8000\<rparr>)"
proof -
  note h = relative_holds [of m q v] and a = relative_addresses [OF v, of q]
  have p: "sid_part_at m (owner_of p s) (ViewOwner v)" "sid_part_at m (group_of p s) (ViewGroup v)"
    "acl_part_at m (dacl_of p s) (ViewDacl v)" "acl_part_at m (sacl_of p s) (ViewSacl v)"
    using v by (simp_all add: shows_view_def)
  have "sid_part_at (put m q (relative_bytes v)) (owner_of q (relative_sd v)) (ViewOwner v)"
    by (rule part_moves [OF _ p(1)]) (use h(4) sid_part_ok(5) [OF p(1)] in \<open>auto simp: a(1)\<close>)
  moreover have "sid_part_at (put m q (relative_bytes v)) (group_of q (relative_sd v)) (ViewGroup v)"
    by (rule part_moves [OF _ p(2)]) (use h(5) sid_part_ok(5) [OF p(2)] in \<open>auto simp: a(2)\<close>)
  moreover have "acl_part_at (put m q (relative_bytes v)) (dacl_of q (relative_sd v)) (ViewDacl v)"
    by (rule acl_part_moves [OF _ p(3)]) (use h(3) acl_part_ok(5) [OF p(3)] in \<open>auto simp: a(4)\<close>)
  moreover have "acl_part_at (put m q (relative_bytes v)) (sacl_of q (relative_sd v)) (ViewSacl v)"
    by (rule acl_part_moves [OF _ p(4)]) (use h(2) acl_part_ok(5) [OF p(4)] in \<open>auto simp: a(3)\<close>)
  ultimately show ?thesis using h(1) by (simp add: shows_view_def sd_at_def relative_sd_def Let_def)
qed

lemma apart_holds:
  assumes "holds m a xs" "same_outside q n m m'" "apart q n a (length xs)"
  shows "holds m' a xs"
  using assms by (auto simp: holds_def same_outside_def apart_def)

lemma members_kept:
  assumes "shows_view m p s v" "same_outside q n m m'" "members_apart q n p s v"
  shows "sid_part_at m' (owner_of p s) (ViewOwner v)" "sid_part_at m' (group_of p s) (ViewGroup v)"
    "acl_part_at m' (dacl_of p s) (ViewDacl v)" "acl_part_at m' (sacl_of p s) (ViewSacl v)"
proof -
  have v: "sid_part_at m (owner_of p s) (ViewOwner v)" "sid_part_at m (group_of p s) (ViewGroup v)"
    "acl_part_at m (dacl_of p s) (ViewDacl v)" "acl_part_at m (sacl_of p s) (ViewSacl v)"
    using assms(1) by (simp_all add: shows_view_def)
  note keep = apart_holds [OF _ assms(2)]
  show "sid_part_at m' (owner_of p s) (ViewOwner v)" "sid_part_at m' (group_of p s) (ViewGroup v)"
    using assms(3) part_moves [OF keep [OF sid_part_ok(1) [OF v(1)]] v(1)] part_moves [OF keep [OF sid_part_ok(1) [OF v(2)]] v(2)]
    by (simp_all add: members_apart_def)
  show "acl_part_at m' (dacl_of p s) (ViewDacl v)" "acl_part_at m' (sacl_of p s) (ViewSacl v)"
    using assms(3) acl_part_moves [OF keep [OF acl_part_ok(1) [OF v(3)]] v(3)]
      acl_part_moves [OF keep [OF acl_part_ok(1) [OF v(4)]] v(4)]
    by (simp_all add: members_apart_def)
qed

lemma view_put:
  assumes "shows_view m p s v" "parts_apart q (length bs) p s v"
  shows "shows_view (put m q bs) p s v"
proof -
  have out: "same_outside q (length bs) m (put m q bs)" by (auto simp: same_outside_def put_other)
  have "sd_at m p s" "apart q (length bs) p (length (sd_bytes s))" "members_apart q (length bs) p s v"
    using assms by (simp_all add: shows_view_def parts_apart_def)
  then show ?thesis using assms(1) apart_holds [OF _ out] members_kept [OF assms(1) out] by (simp add: shows_view_def sd_at_def)
qed

section \<open>The conversion in place\<close>

lemma in_place_addresses:
  assumes "owner_of p s < 2 ^ 32" "group_of p s < 2 ^ 32" "dacl_of p s < 2 ^ 32" "sacl_of p s < 2 ^ 32"
  shows "owner_of p (absolute_in_place p s) = owner_of p s" "group_of p (absolute_in_place p s) = group_of p s"
    "dacl_of p (absolute_in_place p s) = dacl_of p s" "sacl_of p (absolute_in_place p s) = sacl_of p s"
proof -
  let ?c = "with_flag 0x8000 False (SdControl s)"
  have b: "\<not> bit ?c 15" "bit ?c 2 = bit (SdControl s) 2" "bit ?c 4 = bit (SdControl s) 4" by (simp_all add: bit_control)
  have "sd_address p ?c (of_nat a) = a" if "a < 2 ^ 32" for a
  proof -
    have "unat (of_nat a :: ULONG) = a" using that by (intro unat_of_nat_small) simp
    then show ?thesis using b(1) by (auto simp: sd_address_def)
  qed
  note this [OF assms(1)] this [OF assms(2)] this [OF assms(3)] this [OF assms(4)]
  then show "owner_of p (absolute_in_place p s) = owner_of p s" "group_of p (absolute_in_place p s) = group_of p s"
    "dacl_of p (absolute_in_place p s) = dacl_of p s" "sacl_of p (absolute_in_place p s) = sacl_of p s"
    by (simp_all add: absolute_in_place_def owner_of_def [of p "_\<lparr>SdControl := _\<rparr>"] b) (auto simp: owner_of_def group_of_def dacl_of_def sacl_of_def b)
qed

lemma to_absolute_in_place:
  assumes v: "shows_view m p s v" "bit (ViewControl v) 15" "p \<noteq> 0" "members_apart p 20 p s v"
    and "owner_of p s < 2 ^ 32" "group_of p s < 2 ^ 32" "dacl_of p s < 2 ^ 32" "sacl_of p s < 2 ^ 32"
  shows "\<exists>m'. RtlSelfRelativeToAbsoluteSD2 m p True = Some (STATUS_SUCCESS, m') \<and> same_outside p 20 m m' \<and>
     shows_view m' p (absolute_in_place p s) (v\<lparr>ViewControl := with_flag 0x8000 False (ViewControl v)\<rparr>)"
proof -
  let ?c = "with_flag 0x8000 False (SdControl s)" let ?s1 = "s\<lparr>SdControl := ?c\<rparr>"
  let ?s2 = "?s1\<lparr>SdOwner := of_nat (owner_of p s)\<rparr>" let ?s3 = "?s2\<lparr>SdGroup := of_nat (group_of p s)\<rparr>"
  let ?s4 = "?s3\<lparr>SdSacl := of_nat (sacl_of p s)\<rparr>" let ?s5 = "?s4\<lparr>SdDacl := of_nat (dacl_of p s)\<rparr>"
  have sd: "sd_at m p s" "SdRevision s = 1" "SdControl s = ViewControl v" "SdSbz1 s = ViewSbz1 v"
    using v(1) by (simp_all add: shows_view_def)
  obtain m1 where 1: "set_control m p (\<lambda>c. c AND NOT SE_SELF_RELATIVE) = Some m1" "sd_at m1 p ?s1" "same_outside p 20 m m1"
    using sd_set_control [OF sd(1), of "\<lambda>c. c AND NOT SE_SELF_RELATIVE"] by (auto simp: with_flag_def)
  obtain m2 where 2: "store_ULONG m1 (p + 4) (of_nat (owner_of p s)) = Some m2" "sd_at m2 p ?s2" "same_outside p 20 m1 m2"
    using sd_store_member [OF 1(2), of 4 ?s2 "of_nat (owner_of p s)"] by auto
  obtain m3 where 3: "store_ULONG m2 (p + 8) (of_nat (group_of p s)) = Some m3" "sd_at m3 p ?s3" "same_outside p 20 m2 m3"
    using sd_store_member [OF 2(2), of 8 ?s3 "of_nat (group_of p s)"] by auto
  obtain m4 where 4: "store_ULONG m3 (p + 12) (of_nat (sacl_of p s)) = Some m4" "sd_at m4 p ?s4" "same_outside p 20 m3 m4"
    using sd_store_member [OF 3(2), of 12 ?s4 "of_nat (sacl_of p s)"] by auto
  obtain m5 where 5: "store_ULONG m4 (p + 16) (of_nat (dacl_of p s)) = Some m5" "sd_at m5 p ?s5" "same_outside p 20 m4 m5"
    using sd_store_member [OF 4(2), of 16 ?s5 "of_nat (dacl_of p s)"] by auto
  have out: "same_outside p 20 m m5" using 1(3) 2(3) 3(3) 4(3) 5(3) by (auto simp: same_outside_def)
  have "SdControl s AND SE_SELF_RELATIVE \<noteq> 0" using v(2) sd(3) and_exp_eq_0_iff_not_bit [of "SdControl s" 15] by simp
  then have "RtlSelfRelativeToAbsoluteSD2 m p True = Some (STATUS_SUCCESS, m5)"
    unfolding RtlSelfRelativeToAbsoluteSD2_def view_query [OF v(1)] sd_reads(3) [OF sd(1)]
    using v(3) 1(1) 2(1) 3(1) 4(1) 5(1) by simp
  moreover have "absolute_in_place p s = ?s5" by (simp add: absolute_in_place_def)
  then have "sd_at m5 p (absolute_in_place p s)" using 5(2) by simp
  then have "shows_view m5 p (absolute_in_place p s) (v\<lparr>ViewControl := with_flag 0x8000 False (ViewControl v)\<rparr>)"
    unfolding shows_view_def in_place_addresses [OF assms(5-8)] using members_kept [OF v(1) out v(4)] sd
    by (simp add: absolute_in_place_def)
  ultimately show ?thesis using out by blast
qed

lemma relative_members:
  assumes "shows_view m p s v" "q + view_size v \<le> 2 ^ 32"
  shows "members_apart q 20 q (relative_sd v) v" "owner_of q (relative_sd v) < 2 ^ 32" "group_of q (relative_sd v) < 2 ^ 32"
    "dacl_of q (relative_sd v) < 2 ^ 32" "sacl_of q (relative_sd v) < 2 ^ 32"
proof -
  note a = relative_addresses [OF assms(1), of q]
  show "members_apart q 20 q (relative_sd v) v" by (simp add: members_apart_def a apart_def)
  show "owner_of q (relative_sd v) < 2 ^ 32" using assms(2) by (cases "sid_part_bytes (ViewOwner v)") (simp_all add: a view_size_def)
  show "group_of q (relative_sd v) < 2 ^ 32" using assms(2) by (cases "sid_part_bytes (ViewGroup v)") (simp_all add: a view_size_def)
  show "dacl_of q (relative_sd v) < 2 ^ 32" using assms(2) by (cases "acl_part_bytes (ViewDacl v)") (simp_all add: a view_size_def)
  show "sacl_of q (relative_sd v) < 2 ^ 32" using assms(2) by (cases "acl_part_bytes (ViewSacl v)") (simp_all add: a view_size_def)
qed

text \<open>The objects of the access check in these terms.\<close>

lemma view_descriptor:
  assumes "shows_view m p s v" "p \<noteq> 0" "ViewOwner v = Some Ow" "ViewDacl v = Some A" "wf_acl A"
  shows "descriptor_at m p Ow (Aces A)"
proof -
  have s: "sd_at m p s" "SdRevision s = 1" and o: "sid_at m (owner_of p s) Ow"
    and d: "dacl_of p s \<noteq> 0" "acl_at m (dacl_of p s) A"
    using assms by (auto simp: shows_view_def)
  have "owner_of p s \<noteq> 0" using o by (simp add: sid_at_def)
  then have ow: "SdOwner s \<noteq> 0" "owner_of p s = (if bit (SdControl s) 15 then p else 0) + unat (SdOwner s)"
    by (auto simp: owner_of_def sd_address_def split: if_splits)
  from d(1) have da: "bit (SdControl s) 2" "SdDacl s \<noteq> 0" "dacl_of p s = (if bit (SdControl s) 15 then p else 0) + unat (SdDacl s)"
    by (auto simp: dacl_of_def sd_address_def split: if_splits)
  have "acl_entries m (dacl_of p s) (Aces A) (acl_size A)" using d(2) assms(5) by (auto simp: acl_entries_def)
  then show ?thesis
    unfolding descriptor_at_def using assms(2) sd_reads [OF s(1)] s(2) o ow da by auto
qed

lemma token_put:
  assumes "token_at m T gs rs" "token_apart q (length bs) T"
  shows "token_at (put m q bs) T gs rs"
proof -
  have "group_list_at (put m q bs) xs ys"
    if "group_list_at m xs ys" "set xs \<subseteq> set (UserAndGroups T) \<union> set (RestrictedSids T)" for xs ys
    using that(1) unfolding group_list_at_def
  proof (rule list.rel_mono_strong)
    fix x y assume "x \<in> set xs" and *: "sid_at m (SidPtr x) (fst y) \<and> SidAttributes x = snd y"
    then have "apart q (length bs) (SidPtr x) 68" using assms(2) that(2) by (auto simp: token_apart_def)
    with * sid_length [of m "SidPtr x" "fst y"] show "sid_at (put m q bs) (SidPtr x) (fst y) \<and> SidAttributes x = snd y"
      by (auto simp: apart_def intro: sid_at_put)
  qed
  then show ?thesis using assms(1) by (simp add: token_at_def)
qed

text \<open>The copy of a descriptor needs the bytes of its parts behind it, also in the absolute form.\<close>

lemma copy_descriptor_faults:
  assumes "shows_view m p s v" "alloc m (view_size v) = Some (q, m')" "\<not> mapped m' p (view_size v)"
  shows "RtlCopySecurityDescriptor alloc m p = None"
proof -
  have "unat (of_nat (view_size v) :: ULONG) = view_size v" using view_size_bound [OF assms(1)] by (intro unat_of_nat_small) simp
  moreover have "20 + of_nat (length (sid_part_bytes (ViewOwner v))) + of_nat (length (sid_part_bytes (ViewGroup v))) +
      of_nat (length (acl_part_bytes (ViewDacl v))) + of_nat (length (acl_part_bytes (ViewSacl v))) =
      (of_nat (view_size v) :: ULONG)" by (simp add: view_size_def)
  moreover have "RtlCopyMemory m' q p (view_size v) = None"
    using memcpy_mapped [of m' q p "view_size v"] assms(3) by (auto simp: RtlCopyMemory_def intro: option.exhaust)
  ultimately show ?thesis
    unfolding RtlCopySecurityDescriptor_def view_query [OF assms(1)] Let_def by (simp add: assms(2))
qed

section \<open>Properties\<close>

text \<open>
  C9. For a descriptor in either form whose lists have sizes divisible by 4 and whose parts
  lie outside the target buffer, which is mapped memory of the size needed,
  RtlMakeSelfRelativeSD returns. With a buffer that is too small it returns
  STATUS_BUFFER_TOO_SMALL with the size that is needed and changes nothing; otherwise the
  buffer holds a self-relative descriptor with the same flags, owner, group and lists, the
  source still stands for the same, and no byte outside the buffer is changed.
\<close>

theorem RtlMakeSelfRelativeSD_correct:
  assumes "shows_view m p s v" "mapped m q (view_size v)" "parts_apart q (view_size v) p s v"
  shows "if unat len < view_size v then RtlMakeSelfRelativeSD m p q len = Some (STATUS_BUFFER_TOO_SMALL, of_nat (view_size v), m)
     else \<exists>m' r. RtlMakeSelfRelativeSD m p q len = Some (STATUS_SUCCESS, len, m') \<and>
       shows_view m' q r (v\<lparr>ViewControl := ViewControl v OR SE_SELF_RELATIVE\<rparr>) \<and> shows_view m' p s v \<and>
       same_outside q (view_size v) m m'"
proof (cases "unat len < view_size v")
  case True
  have "unat (of_nat (view_size v) :: ULONG) = view_size v" using view_size_bound [OF assms(1)] by (intro unat_of_nat_small) simp
  with True have "len < of_nat (view_size v)" by (simp add: word_less_nat_alt)
  moreover have "of_nat (view_size v) = (20 + of_nat (length (sid_part_bytes (ViewOwner v))) +
      of_nat (length (sid_part_bytes (ViewGroup v))) + of_nat (length (acl_part_bytes (ViewSacl v))) +
      of_nat (length (acl_part_bytes (ViewDacl v))) :: ULONG)" by (simp add: view_size_def)
  ultimately show ?thesis
    using True by (simp add: RtlMakeSelfRelativeSD_def view_query [OF assms(1)])
next
  case False
  moreover have "shows_view (put m q (relative_bytes v)) p s v"
    by (rule view_put [OF assms(1)]) (simp add: length_relative_bytes assms(3))
  moreover have "same_outside q (view_size v) m (put m q (relative_bytes v))"
    by (auto simp: same_outside_def put_other length_relative_bytes)
  ultimately show ?thesis
    using make_self_relative [OF assms, of len] relative_view [OF assms(1), of q] by auto
qed

text \<open>
  C16. An absolute descriptor with lists of sizes divisible by 4 that
  RtlAbsoluteToSelfRelativeSD writes to a mapped buffer that is large enough, lies outside
  the parts and below 2^32, and RtlSelfRelativeToAbsoluteSD2 converts back in place is again
  an absolute descriptor with the same flags, owner, group and lists; the source and
  everything outside the buffer are unchanged.
\<close>

theorem SecurityDescriptor_forms_round_trip:
  assumes "shows_view m p s v" "\<not> bit (ViewControl v) 15" "mapped m q (view_size v)" "parts_apart q (view_size v) p s v"
    and "view_size v \<le> unat len" "q \<noteq> 0" "q + view_size v \<le> 2 ^ 32"
  shows "\<exists>m1 m2 a. RtlAbsoluteToSelfRelativeSD m p q len = Some (STATUS_SUCCESS, len, m1) \<and>
     RtlSelfRelativeToAbsoluteSD2 m1 q True = Some (STATUS_SUCCESS, m2) \<and>
     shows_view m2 q a v \<and> shows_view m2 p s v \<and> same_outside q (view_size v) m m2"
proof -
  let ?m = "put m q (relative_bytes v)" let ?r = "relative_sd v" let ?v = "v\<lparr>ViewControl := ViewControl v OR 0x8000\<rparr>"
  have "SdControl s = ViewControl v" "sd_at m p s" using assms(1) by (simp_all add: shows_view_def)
  then have "RtlAbsoluteToSelfRelativeSD m p q len = Some (STATUS_SUCCESS, len, ?m)"
    using make_self_relative [OF assms(1,3,4,5)] sd_reads(3) [of m p s] assms(2) and_exp_eq_0_iff_not_bit [of "ViewControl v" 15]
    by (simp add: RtlAbsoluteToSelfRelativeSD_def)
  moreover obtain m2 where m2: "RtlSelfRelativeToAbsoluteSD2 ?m q True = Some (STATUS_SUCCESS, m2)" "same_outside q 20 ?m m2"
    "shows_view m2 q (absolute_in_place q ?r) (?v\<lparr>ViewControl := with_flag 0x8000 False (ViewControl ?v)\<rparr>)"
    using to_absolute_in_place [OF relative_view [OF assms(1)] _ assms(6) _ relative_members(2-5) [OF assms(1,7)]]
      relative_members(1) [OF assms(1,7)] by (auto simp: bit_or_iff bit_numeral_word_iff members_apart_def)
  moreover have "?v\<lparr>ViewControl := with_flag 0x8000 False (ViewControl ?v)\<rparr> = v"
  proof -
    have "with_flag 0x8000 False (ViewControl v OR 0x8000) = ViewControl v"
      using assms(2) by (intro bit_word_eqI) (auto simp: bit_control or_flag)
    then show ?thesis by simp
  qed
  moreover have "20 \<le> view_size v" by (simp add: view_size_def)
  then have out: "same_outside q (view_size v) m m2"
    using m2(2) by (auto simp: same_outside_def put_other length_relative_bytes)
  moreover have "shows_view m2 p s v"
    using assms(1,4) apart_holds [OF _ out, of p "sd_bytes s"] members_kept [OF assms(1) out]
    by (simp add: shows_view_def parts_apart_def sd_at_def)
  ultimately show ?thesis by auto
qed

text \<open>
  C11. SeAccessCheck on the self-relative copy that RtlMakeSelfRelativeSD makes of a
  descriptor gives the same answer, status and granted access as on the descriptor itself,
  for a descriptor with an owner and a well-formed non-empty DACL and lists of sizes
  divisible by 4, a mapped buffer that is large enough and outside the parts, a token whose
  SIDs lie outside the buffer, a generic mapping that is not empty and has no bits above bit
  24, a sufficient impersonation level and pool allocations that succeed, and a user-mode
  request other than 0 and without MAXIMUM_ALLOWED.
\<close>

theorem SeAccessCheck_self_relative:
  assumes "shows_view m p s v" "p \<noteq> 0" "q \<noteq> 0" "mapped m q (view_size v)" "parts_apart q (view_size v) p s v" "view_size v \<le> unat len"
    and "ViewOwner v = Some Ow" "ViewDacl v = Some A" "wf_acl A" "Aces A \<noteq> []"
    and "token_at m (effective_token c) gs rs" "token_apart q (view_size v) (effective_token c)"
    and "plain_mapping gm" "\<forall>n. pool n" "may_impersonate c" "D \<noteq> 0" "\<not> bit D 25"
  shows "\<exists>m' r r'. RtlMakeSelfRelativeSD m p q len = Some (STATUS_SUCCESS, len, m') \<and>
     SeAccessCheck pool m self p c D 0 gm UserMode = Some r \<and> SeAccessCheck pool m' self q c D 0 gm UserMode = Some r' \<and>
     Allowed r' = Allowed r \<and> AccessStatus r' = AccessStatus r \<and> GrantedAccess r' = GrantedAccess r"
proof -
  let ?m = "put m q (relative_bytes v)" let ?v = "v\<lparr>ViewControl := ViewControl v OR 0x8000\<rparr>"
  have old: "descriptor_at m p Ow (Aces A)" by (rule view_descriptor [OF assms(1,2,7,8,9)])
  have new: "descriptor_at ?m q Ow (Aces A)"
    by (rule view_descriptor [OF relative_view [OF assms(1)] assms(3)]) (simp_all add: assms(7-9))
  have "token_at ?m (effective_token c) gs rs"
    by (rule token_put [OF assms(11)]) (simp add: length_relative_bytes assms(12))
  note check = access_check_regular [OF old assms(10,11,13-17) no_generic_bits(1), of self]
    access_check_regular [OF new assms(10) this assms(13-17) no_generic_bits(1), of self]
  then show ?thesis using make_self_relative [OF assms(1,4,5,6)] by (elim exE) (simp split: if_splits)
qed

section \<open>Examples\<close>

lemma absolute_sizes: "acl_size (sample_acl deny_allow) = 56" "length (sid_bytes Admins) = 16" "view_size absolute_view = 108"
  by (simp_all add: view_size_def absolute_view_def length_acl_bytes acl_size_def sample_acl_def deny_allow_def length_example)

lemma absolute_addresses:
  "owner_of p absolute_sd = 36" "group_of p absolute_sd = 36" "dacl_of p absolute_sd = 80" "sacl_of p absolute_sd = 0"
  by (simp_all add: owner_of_def group_of_def dacl_of_def sacl_of_def sd_address_def absolute_sd_def bit_numeral_word_iff)

lemma absolute_apart: "parts_apart 300 108 200 absolute_sd absolute_view"
  by (simp add: parts_apart_def members_apart_def absolute_addresses apart_def absolute_view_def absolute_sizes length_acl_bytes)

lemma absolute_shows: "shows_view absolute_mem 200 absolute_sd absolute_view"
proof -
  let ?m = "put (sample_mem deny_allow) 200 (sd_bytes absolute_sd)"
  note h = sample_holds [of deny_allow]
  have "sid_at ?m 36 Admins" using h(4) by (intro sid_at_put) (simp_all add: sid_at_def wf_example absolute_sizes)
  moreover have "acl_at ?m 80 (sample_acl deny_allow)"
    using h(7) sample_facts(1,2)
    by (auto simp: acl_at_def wf_acl_def holds_put_other length_acl_bytes absolute_sizes intro: wf_ace_sized)
  moreover have "sd_at ?m 200 absolute_sd" by (simp add: sd_at_def holds_put)
  ultimately have "shows_view ?m 200 absolute_sd absolute_view"
    by (simp add: shows_view_def absolute_addresses absolute_view_def absolute_sizes) (simp add: absolute_sd_def)
  then show ?thesis unfolding absolute_mem_def by (rule view_put) (simp add: absolute_apart)
qed

lemma absolute_buffer: "mapped absolute_mem 300 108"
  using holds_mapped [OF holds_put, of _ 300 "replicate 108 0"] by (simp add: absolute_mem_def)

lemma absolute_token:
  "token_at absolute_mem (sample_token f) [(Users, 0), (World, 4)] [(World, 4)]" "token_apart 300 108 (sample_token f)"
proof -
  have a: "token_apart 200 20 (sample_token f)" and b: "token_apart 300 108 (sample_token f)"
    by (simp_all add: token_apart_def sample_token_def apart_def)
  show "token_at absolute_mem (sample_token f) [(Users, 0), (World, 4)] [(World, 4)]"
    unfolding absolute_mem_def by (intro token_put) (simp_all add: a b sample_token_at)
  show "token_apart 300 108 (sample_token f)" by (rule b)
qed

lemmas absolute_object = absolute_shows absolute_buffer absolute_apart

lemma RtlCopySecurityDescriptor_absolute:
  assumes "alloc absolute_mem 108 = Some (q, m')" "m' 220 = None"
  shows "RtlCopySecurityDescriptor alloc absolute_mem 200 = None"
proof (rule copy_descriptor_faults [OF absolute_shows])
  show "alloc absolute_mem (view_size absolute_view) = Some (q, m')" using assms(1) by (simp add: absolute_sizes)
  show "\<not> mapped m' 200 (view_size absolute_view)"
    using assms(2) by (auto simp: absolute_sizes mapped_def intro: exI [of _ 20])
qed

theorem RtlMakeSelfRelativeSD_correct_witness:
  "RtlMakeSelfRelativeSD absolute_mem 200 300 107 = Some (STATUS_BUFFER_TOO_SMALL, 108, absolute_mem) \<and>
   (\<exists>m' r. RtlMakeSelfRelativeSD absolute_mem 200 300 108 = Some (STATUS_SUCCESS, 108, m') \<and>
      shows_view m' 300 r (absolute_view\<lparr>ViewControl := 4 OR SE_SELF_RELATIVE\<rparr>))"
  using RtlMakeSelfRelativeSD_correct [of absolute_mem 200 absolute_sd absolute_view 300 107]
    RtlMakeSelfRelativeSD_correct [of absolute_mem 200 absolute_sd absolute_view 300 108] absolute_object
  by (auto simp: absolute_sizes(3)) (auto simp: absolute_view_def)

theorem SecurityDescriptor_forms_round_trip_witness:
  "\<exists>m1 m2 a. RtlAbsoluteToSelfRelativeSD absolute_mem 200 300 108 = Some (STATUS_SUCCESS, 108, m1) \<and>
     RtlSelfRelativeToAbsoluteSD2 m1 300 True = Some (STATUS_SUCCESS, m2) \<and> shows_view m2 300 a absolute_view"
proof -
  have "\<not> bit (ViewControl absolute_view) 15" by (simp add: absolute_view_def bit_numeral_word_iff)
  with SecurityDescriptor_forms_round_trip [OF absolute_shows this, of 300 108] absolute_object show ?thesis
    by (simp add: absolute_sizes) blast
qed

theorem SeAccessCheck_self_relative_witness:
  "\<exists>m' r r'. RtlMakeSelfRelativeSD absolute_mem 200 300 108 = Some (STATUS_SUCCESS, 108, m') \<and>
     SeAccessCheck (\<lambda>n. True) absolute_mem 0 200 (sample_context 0) 1 0 sample_mapping UserMode = Some r \<and>
     SeAccessCheck (\<lambda>n. True) m' 0 300 (sample_context 0) 1 0 sample_mapping UserMode = Some r' \<and>
     Allowed r' = Allowed r \<and> AccessStatus r' = AccessStatus r \<and> GrantedAccess r' = GrantedAccess r"
  using absolute_object absolute_token sample_facts(1) sample_mapping_ok sample_context_ok
  by (intro SeAccessCheck_self_relative [of _ _ absolute_sd absolute_view _ _ Admins "sample_acl deny_allow" _
        "[(Users, 0), (World, 4)]" "[(World, 4)]"])
    (simp_all add: absolute_sizes bit_1_iff, simp_all add: absolute_view_def sample_acl_def deny_allow_def)

end
