(* ===== verification/SeSyscalls.thy ===== *)
theory SeSyscalls
  imports SeChecks
begin

text \<open>
  The system calls of \<^verbatim>\<open>ntoskrnl/se/accesschk.c\<close> that let user mode perform an access check:
  \<open>NtAccessCheck\<close>, \<open>NtAccessCheckByType\<close> and \<open>NtAccessCheckByTypeResultList\<close>, which share \<open>SepAccessCheck\<close>.

  The probes of the caller's pointers, the object manager, the capture of the security descriptor
  and of a SID are parameters of the model; the security descriptor and the SID are addresses in the
  memory of the kernel.  Every release of a captured object only undoes its capture and is left out.
\<close>

unbundle bit_operations_syntax

section \<open>The environment of a call\<close>

text \<open>
  \<open>ProbeArguments\<close> and \<open>ProbeResults\<close>: the exception the probes of the arguments and of the two result
  arrays raise; \<open>OpenToken\<close>: \<^verbatim>\<open>ObReferenceObjectByHandle\<close> on the handle of the token; \<open>ProbeTypes\<close>,
  \<open>ProbeGuid\<close>: the probes of the list of object types; \<open>Pool\<close>: whether the pool has that many bytes;
  \<open>CaptureDescriptor\<close>, \<open>CaptureSid\<close>: \<^verbatim>\<open>SeCaptureSecurityDescriptor\<close> and \<^verbatim>\<open>SepCaptureSid\<close>; \<open>ProcessToken\<close>: the
  primary token of the caller.
\<close>

record syscall_env =
  ProbeArguments :: "NTSTATUS option"
  ProbeResults :: "NTSTATUS option"
  OpenToken :: "NTSTATUS \<times> TOKEN"
  ProbeTypes :: "nat \<Rightarrow> NTSTATUS option"
  ProbeGuid :: "nat \<Rightarrow> NTSTATUS option"
  Pool :: "nat \<Rightarrow> bool"
  CaptureDescriptor :: "NTSTATUS \<times> nat"
  CaptureSid :: "nat \<Rightarrow> NTSTATUS \<times> nat"
  ProcessToken :: TOKEN

text \<open>
  The status that is returned, what was stored in the buffer for the privilege set and in its length
  (\<open>None\<close>: nothing), and the two result arrays.
\<close>

record syscall_result =
  ReturnStatus :: NTSTATUS
  PrivilegeSetOut :: "PRIVILEGE_SET option"
  PrivilegeLengthOut :: "ULONG option"
  GrantedOut :: "ACCESS_MASK list"
  StatusOut :: "NTSTATUS list"

section \<open>The shared function\<close>

definition SepGetPrivilegeSetLength :: "PRIVILEGE_SET option \<Rightarrow> ULONG" where
  "SepGetPrivilegeSetLength PrivilegeSet = (case PrivilegeSet of
     None \<Rightarrow> 0
   | Some s \<Rightarrow> if length (Privilege s) = 0 then 20 - 12 else 20 + (of_nat (length (Privilege s)) - 1) * 12)"

text \<open>The two ways to report one answer: to every object of the list, or to the single object.\<close>

fun fill_results :: "nat \<Rightarrow> nat \<Rightarrow> ACCESS_MASK \<Rightarrow> NTSTATUS \<Rightarrow> ACCESS_MASK list \<times> NTSTATUS list \<Rightarrow> (ACCESS_MASK list \<times> NTSTATUS list) option" where
  "fill_results 0 i Access Status out = Some out"
| "fill_results (Suc left) i Access Status (Granted, Statuses) = do {
     Statuses \<leftarrow> array_set Statuses i Status;
     Granted \<leftarrow> array_set Granted i Access;
     fill_results left (i + 1) Access Status (Granted, Statuses)
   }"

definition report_all ::
    "bool \<Rightarrow> ULONG \<Rightarrow> ACCESS_MASK \<Rightarrow> NTSTATUS \<Rightarrow> ACCESS_MASK list \<times> NTSTATUS list \<Rightarrow> (ACCESS_MASK list \<times> NTSTATUS list) option" where
  "report_all UseResultList ObjectTypeListLength Access Status out =
     fill_results (if UseResultList then unat ObjectTypeListLength else 1) 0 Access Status out"

text \<open>
  The part behind the captures: the owner test and the worker.  The source passes the address of the
  member \<open>PrimaryToken\<close> where the worker expects the token itself; with a client token the worker does
  not look at that argument, so the model passes the token.
\<close>

definition check_captured ::
    "syscall_env \<Rightarrow> mem \<Rightarrow> nat \<Rightarrow> nat \<Rightarrow> TOKEN \<Rightarrow> nat \<Rightarrow> ACCESS_MASK \<Rightarrow> GENERIC_MAPPING \<Rightarrow> OBJECT_TYPE_LIST_INTERNAL list \<Rightarrow>
     ULONG \<Rightarrow> bool \<Rightarrow> ACCESS_MASK \<Rightarrow> ACCESS_MASK list \<times> NTSTATUS list \<Rightarrow> (ACCESS_MASK list \<times> NTSTATUS list) option" where
  "check_captured env m self SecurityDescriptor Token PrincipalSelfSid DesiredAccess GenericMapping ObjectTypeList
       ObjectTypeListLength UseResultList PreviouslyGrantedAccess out = do {
     Owner \<leftarrow> (if DesiredAccess AND (WRITE_DAC OR READ_CONTROL OR MAXIMUM_ALLOWED) \<noteq> 0
              then SepTokenIsOwner m self Token SecurityDescriptor else Some False);
     let PreviouslyGrantedAccess =
           (if \<not> Owner then PreviouslyGrantedAccess
            else if DesiredAccess AND MAXIMUM_ALLOWED \<noteq> 0 then PreviouslyGrantedAccess OR (WRITE_DAC OR READ_CONTROL)
            else PreviouslyGrantedAccess OR (DesiredAccess AND (WRITE_DAC OR READ_CONTROL)));
     let DesiredAccess = (if Owner then DesiredAccess AND NOT (WRITE_DAC OR READ_CONTROL) else DesiredAccess);
     if DesiredAccess = 0 then report_all UseResultList ObjectTypeListLength PreviouslyGrantedAccess STATUS_SUCCESS out
     else do {
       (ret, Privileges, Granted, Statuses) \<leftarrow>
         SepAccessCheckWorker (Pool env) m self SecurityDescriptor (Some Token) (ProcessToken env) PrincipalSelfSid DesiredAccess
           ObjectTypeList PreviouslyGrantedAccess GenericMapping UserMode UseResultList False (fst out) (snd out);
       Some (Granted, Statuses)
     }
   }"

text \<open>The part behind the privilege check, with the privileges that were used.\<close>

definition check_privileged ::
    "syscall_env \<Rightarrow> mem \<Rightarrow> nat \<Rightarrow> TOKEN \<Rightarrow> nat \<Rightarrow> ACCESS_MASK \<Rightarrow> GENERIC_MAPPING \<Rightarrow> ULONG \<Rightarrow> OBJECT_TYPE_LIST_INTERNAL list \<Rightarrow>
     ULONG \<Rightarrow> bool \<Rightarrow> ACCESS_MASK \<Rightarrow> PRIVILEGE_SET option \<Rightarrow> ACCESS_MASK list \<times> NTSTATUS list \<Rightarrow> syscall_result option" where
  "check_privileged env m self Token PrincipalSelfSid DesiredAccess GenericMapping CapturedPrivilegeSetLength ObjectTypeList
       ObjectTypeListLength UseResultList PreviouslyGrantedAccess Privileges out =
     (let leave = (\<lambda>Status Set Length out. Some \<lparr>ReturnStatus = Status, PrivilegeSetOut = Set, PrivilegeLengthOut = Length,
                     GrantedOut = fst out, StatusOut = snd out\<rparr>);
          Required = (case Privileges of Some s \<Rightarrow> SepGetPrivilegeSetLength (Some s) | None \<Rightarrow> 20);
          Set = (case Privileges of Some s \<Rightarrow> Some s | None \<Rightarrow> Some \<lparr>PsControl = 0, Privilege = []\<rparr>);
          (Status, Descriptor) = CaptureDescriptor env
      in if CapturedPrivilegeSetLength < Required then leave STATUS_BUFFER_TOO_SMALL None (Some Required) out
         else if \<not> NT_SUCCESS Status then leave Status Set None out
         else if Descriptor = 0 then leave STATUS_INVALID_SECURITY_DESCR Set None out
         else do {
           Owner \<leftarrow> SepGetOwnerFromDescriptor m Descriptor;
           Valid \<leftarrow> (if Owner = 0 then Some False
                    else do { Group \<leftarrow> SepGetGroupFromDescriptor m Descriptor; Some (Group \<noteq> 0) });
           let (SidStatus, CapturedSid) = (if PrincipalSelfSid \<noteq> 0 then CaptureSid env PrincipalSelfSid else (STATUS_SUCCESS, 0));
           if \<not> Valid then leave STATUS_INVALID_SECURITY_DESCR Set None out
           else if \<not> NT_SUCCESS SidStatus then leave SidStatus Set None out
           else do {
             out \<leftarrow> check_captured env m self Descriptor Token CapturedSid DesiredAccess GenericMapping ObjectTypeList
               ObjectTypeListLength UseResultList PreviouslyGrantedAccess out;
             leave STATUS_SUCCESS Set None out
           }
         })"

definition SepAccessCheck ::
    "syscall_env \<Rightarrow> KPROCESSOR_MODE \<Rightarrow> mem \<Rightarrow> nat \<Rightarrow> nat \<Rightarrow> ACCESS_MASK \<Rightarrow> GENERIC_MAPPING \<Rightarrow> ULONG \<Rightarrow> OBJECT_TYPE_LIST list option \<Rightarrow>
     ULONG \<Rightarrow> bool \<Rightarrow> ACCESS_MASK list \<times> NTSTATUS list \<Rightarrow> syscall_result option" where
  "SepAccessCheck env PreviousMode m self PrincipalSelfSid DesiredAccess GenericMapping PrivilegeSetLength ObjectTypeList
       ObjectTypeListLength UseResultList out =
     (let leave = (\<lambda>Status out. Some \<lparr>ReturnStatus = Status, PrivilegeSetOut = None, PrivilegeLengthOut = None,
                     GrantedOut = fst out, StatusOut = snd out\<rparr>);
          (OpenStatus, Token) = OpenToken env
      in if PreviousMode = KernelMode then do {
           out \<leftarrow> report_all False 1
             (if DesiredAccess AND MAXIMUM_ALLOWED \<noteq> 0
              then GenericAll GenericMapping OR (DesiredAccess AND NOT MAXIMUM_ALLOWED) else DesiredAccess) STATUS_SUCCESS out;
           leave STATUS_SUCCESS out
         }
         else case ProbeArguments env of Some e \<Rightarrow> leave e out
         | None \<Rightarrow>
           if UseResultList \<and> ObjectTypeListLength = 0 then leave STATUS_INVALID_PARAMETER out
           else case ProbeResults env of Some e \<Rightarrow> leave e out
           | None \<Rightarrow>
             if DesiredAccess AND GENERIC_ACCESS \<noteq> 0 then leave STATUS_GENERIC_NOT_MAPPED out
             else if \<not> NT_SUCCESS OpenStatus then leave OpenStatus out
             else if TokenType Token \<noteq> TokenImpersonation then leave STATUS_NO_IMPERSONATION_TOKEN out
             else if level_number (TokenLevel Token) < level_number SecurityIdentification
             then leave STATUS_BAD_IMPERSONATION_LEVEL out
             else do {
               (Status, CapturedTypes) \<leftarrow> SeCaptureObjectTypeList (ProbeTypes env) (ProbeGuid env) (Pool env) m ObjectTypeList
                 ObjectTypeListLength PreviousMode;
               if \<not> NT_SUCCESS Status then leave Status out
               else
                 let (Status, DesiredAccess, PreviouslyGrantedAccess, Privileges) =
                       SePrivilegePolicyCheck (Pool env) DesiredAccess 0 None Token True PreviousMode
                 in if \<not> NT_SUCCESS Status then do {
                      out \<leftarrow> report_all UseResultList ObjectTypeListLength 0 Status out;
                      leave STATUS_SUCCESS out
                    }
                    else check_privileged env m self Token PrincipalSelfSid DesiredAccess GenericMapping PrivilegeSetLength
                           CapturedTypes ObjectTypeListLength UseResultList PreviouslyGrantedAccess
                           (case Privileges of Some p \<Rightarrow> p | None \<Rightarrow> None) out
             })"

section \<open>The system calls\<close>

definition NtAccessCheck ::
    "syscall_env \<Rightarrow> KPROCESSOR_MODE \<Rightarrow> mem \<Rightarrow> nat \<Rightarrow> ACCESS_MASK \<Rightarrow> GENERIC_MAPPING \<Rightarrow> ULONG \<Rightarrow>
     ACCESS_MASK list \<times> NTSTATUS list \<Rightarrow> syscall_result option" where
  "NtAccessCheck env PreviousMode m self DesiredAccess GenericMapping PrivilegeSetLength out =
     SepAccessCheck env PreviousMode m self 0 DesiredAccess GenericMapping PrivilegeSetLength None 0 False out"

definition NtAccessCheckByType ::
    "syscall_env \<Rightarrow> KPROCESSOR_MODE \<Rightarrow> mem \<Rightarrow> nat \<Rightarrow> nat \<Rightarrow> ACCESS_MASK \<Rightarrow> OBJECT_TYPE_LIST list option \<Rightarrow> ULONG \<Rightarrow> GENERIC_MAPPING \<Rightarrow>
     ULONG \<Rightarrow> ACCESS_MASK list \<times> NTSTATUS list \<Rightarrow> syscall_result option" where
  "NtAccessCheckByType env PreviousMode m self PrincipalSelfSid DesiredAccess ObjectTypeList ObjectTypeListLength GenericMapping
       PrivilegeSetLength out =
     SepAccessCheck env PreviousMode m self PrincipalSelfSid DesiredAccess GenericMapping PrivilegeSetLength ObjectTypeList
       ObjectTypeListLength False out"

definition NtAccessCheckByTypeResultList ::
    "syscall_env \<Rightarrow> KPROCESSOR_MODE \<Rightarrow> mem \<Rightarrow> nat \<Rightarrow> nat \<Rightarrow> ACCESS_MASK \<Rightarrow> OBJECT_TYPE_LIST list option \<Rightarrow> ULONG \<Rightarrow> GENERIC_MAPPING \<Rightarrow>
     ULONG \<Rightarrow> ACCESS_MASK list \<times> NTSTATUS list \<Rightarrow> syscall_result option" where
  "NtAccessCheckByTypeResultList env PreviousMode m self PrincipalSelfSid DesiredAccess ObjectTypeList ObjectTypeListLength
       GenericMapping PrivilegeSetLength out =
     SepAccessCheck env PreviousMode m self PrincipalSelfSid DesiredAccess GenericMapping PrivilegeSetLength ObjectTypeList
       ObjectTypeListLength True out"

section \<open>Calls that reach the check\<close>

text \<open>Nothing in the environment fails: the probes, the handle, the token and the descriptor.\<close>

definition ready :: "syscall_env \<Rightarrow> TOKEN \<Rightarrow> nat \<Rightarrow> bool" where
  "ready env T sd \<longleftrightarrow> ProbeArguments env = None \<and> ProbeResults env = None \<and> OpenToken env = (STATUS_SUCCESS, T) \<and>
     TokenType T = TokenImpersonation \<and> TokenLevel T \<noteq> SecurityAnonymous \<and> CaptureDescriptor env = (STATUS_SUCCESS, sd)"

text \<open>The rights that are neither generic nor given by a privilege.\<close>

definition plain_request :: "ACCESS_MASK \<Rightarrow> bool" where
  "plain_request D \<longleftrightarrow> D \<noteq> 0 \<and> \<not> bit D 19 \<and> \<not> bit D 24 \<and> D AND GENERIC_ACCESS = 0"

definition client_context :: "syscall_env \<Rightarrow> TOKEN \<Rightarrow> SECURITY_SUBJECT_CONTEXT" where
  "client_context env T = \<lparr>ClientToken = Some T, ImpersonationLevel = TokenLevel T, PrimaryToken = ProcessToken env\<rparr>"

abbreviation (input) no_privileges :: PRIVILEGE_SET where
  "no_privileges \<equiv> \<lparr>PsControl = 0, Privilege = []\<rparr>"

text \<open>Everything succeeds; \<open>open_mem\<close> holds a descriptor at 16 with an owner, a group and no DACL.\<close>

definition sample_env :: syscall_env where
  "sample_env = \<lparr>ProbeArguments = None, ProbeResults = None, OpenToken = (STATUS_SUCCESS, sample_token 0), ProbeTypes = (\<lambda>n. None),
     ProbeGuid = (\<lambda>p. None), Pool = (\<lambda>n. True), CaptureDescriptor = (STATUS_SUCCESS, 16), CaptureSid = (\<lambda>p. (STATUS_SUCCESS, p)),
     ProcessToken = sample_token 0\<rparr>"

definition open_mem :: mem where
  "open_mem = block 16 ([1, 0, 0, 0x80] @ bytes_ULONG 20 @ bytes_ULONG 20 @ replicate 8 0)"

lemma policy_plain:
  assumes "\<not> bit R 19" "\<not> bit R 24"
  shows "SePrivilegePolicyCheck pool R P None T want UserMode = (STATUS_SUCCESS, R, P, if want then Some None else None)"
  using assms by (simp add: SePrivilegePolicyCheck_def right_mask Let_def)

text \<open>Without a result list the arrays pass through the check of the DACL.\<close>

lemma check_maximum_arrays:
  "map_option (\<lambda>e. e\<lparr>GrantedAccessList := G, AccessStatusList := S\<rparr>) (check_maximum m self Dacl T ps gm False L R P M W [] []) =
     check_maximum m self Dacl T ps gm False L R P M W G S"
  unfolding check_maximum_def Let_def split_def
  by (simp add: map_option_bind o_def if_distrib [where f = "map_option f" for f] cong: if_cong)

lemma check_dacl_arrays:
  "map_option (\<lambda>e. e\<lparr>GrantedAccessList := G, AccessStatusList := S\<rparr>) (check_dacl m self sd T ps gm False L D R P M W [] []) =
     check_dacl m self sd T ps gm False L D R P M W G S"
  unfolding check_dacl_def check_maximum_arrays [symmetric, of m self _ T ps gm L R P M W G S] Let_def split_def
  by (simp add: map_option_bind o_def if_distrib [where f = "map_option f" for f] cong: if_cong)

text \<open>For a plain request the worker does the same work whether or not its caller wants the privileges.\<close>

lemma worker_plain:
  assumes "R \<noteq> 0" "\<not> bit R 19" "\<not> bit R 24" "RtlMapGenericMask R gm = R" "RtlMapGenericMask P gm = P"
  obtains e :: "worker_exit option" where "\<And>want g s. SepAccessCheckWorker pool m self sd (Some T) pt ps R [] P gm UserMode False want [g] [s] =
     map_option (\<lambda>e. (NT_SUCCESS (ExitStatus e), if want then Some None else None, [ExitGranted e], [ExitStatus e])) e"
proof -
  let ?M = "if R AND MAXIMUM_ALLOWED \<noteq> 0 then NOT MAXIMUM_ALLOWED else R OR P"
  let ?W = "if R AND MAXIMUM_ALLOWED \<noteq> 0 then (R OR P) AND NOT MAXIMUM_ALLOWED else R OR P"
  have "SepAccessCheckWorker pool m self sd (Some T) pt ps R [] P gm UserMode False want [g] [s] =
     map_option (\<lambda>e. (NT_SUCCESS (ExitStatus e), if want then Some None else None, [ExitGranted e], [ExitStatus e]))
       (check_dacl m self sd T ps gm False [] R R P ?M ?W [] [])" for want g s
    unfolding SepAccessCheckWorker_def Let_def assms(4,5) option.case if_cancel policy_plain [OF assms(2,3)] prod.case
      check_dacl_arrays [symmetric, of m self sd T ps gm "[]" R R P _ _ "[g]" "[s]"]
    using assms(1) by (simp add: map_option_case split: option.split)
  then show ?thesis by (rule that)
qed

lemma owner_present:
  assumes "descriptor_at m sd Ow as"
  shows "\<exists>p. SepGetOwnerFromDescriptor m sd = Some p \<and> p \<noteq> 0" and "sd \<noteq> 0"
proof -
  obtain c ow where d: "load_USHORT m (sd + 2) = Some c" "load_ULONG m (sd + 4) = Some ow" "ow \<noteq> 0"
    using assms by (auto simp: descriptor_at_def)
  then show "\<exists>p. SepGetOwnerFromDescriptor m sd = Some p \<and> p \<noteq> 0"
    by (simp add: SepGetOwnerFromDescriptor_def descriptor_part_def unat_gt_0)
  show "sd \<noteq> 0" by (rule descriptor_parts(3) [OF assms])
qed

lemma check_captured_owner:
  assumes "descriptor_at m sd Ow as" "token_at m T gs rs"
  defines "W \<equiv> owner_rights T gs rs Ow"
  shows "check_captured env m self sd T ps D gm L n u P out =
     (if D AND NOT W = 0 then report_all u n (P OR owned_rights D W) STATUS_SUCCESS out
      else map_option (\<lambda>(ret, Privileges, Granted, Statuses). (Granted, Statuses))
        (SepAccessCheckWorker (Pool env) m self sd (Some T) (ProcessToken env) ps (D AND NOT W) L (P OR owned_rights D W) gm
           UserMode u False (fst out) (snd out)))"
proof -
  obtain own where own:
    "(if D AND (WRITE_DAC OR READ_CONTROL OR MAXIMUM_ALLOWED) \<noteq> 0 then SepTokenIsOwner m self T sd
      else Some False) = Some own"
    "(if \<not> own then P else if D AND MAXIMUM_ALLOWED \<noteq> 0 then P OR (WRITE_DAC OR READ_CONTROL)
      else P OR (D AND (WRITE_DAC OR READ_CONTROL))) = P OR owned_rights D W"
    "(if own then D AND NOT (WRITE_DAC OR READ_CONTROL) else D) = D AND NOT W"
    unfolding W_def by (rule owner_step [OF assms(1,2), of D self P])
  show ?thesis
    unfolding check_captured_def Let_def own Option.bind_lunit map_option_case split_def
    by (simp split: option.split)
qed

text \<open>A plain request that nothing in the environment stops reaches the check with no rights granted so far.\<close>

lemma SepAccessCheck_ready:
  assumes "ready env T sd" "plain_request D" "20 \<le> len" "sd \<noteq> 0"
    and "SepGetOwnerFromDescriptor m sd = Some p" "p \<noteq> 0" "SepGetGroupFromDescriptor m sd = Some g" "g \<noteq> 0" "\<not> (u \<and> n = 0)"
    and "SeCaptureObjectTypeList (ProbeTypes env) (ProbeGuid env) (Pool env) m types n UserMode = Some (STATUS_SUCCESS, L)"
  shows "SepAccessCheck env UserMode m self 0 D gm len types n u out =
     map_option (\<lambda>(Granted, Statuses). \<lparr>ReturnStatus = STATUS_SUCCESS, PrivilegeSetOut = Some no_privileges,
         PrivilegeLengthOut = None, GrantedOut = Granted, StatusOut = Statuses\<rparr>)
       (check_captured env m self sd T 0 D gm L n u 0 out)"
proof -
  have l: "\<not> level_number (TokenLevel T) < level_number SecurityIdentification"
    using assms(1) by (cases "TokenLevel T") (auto simp: ready_def)
  have d: "\<not> bit D 19" "\<not> bit D 24" "D AND GENERIC_ACCESS = 0" using assms(2) by (auto simp: plain_request_def)
  have "check_privileged env m self T 0 D gm len L n u 0 None out =
     map_option (\<lambda>(Granted, Statuses). \<lparr>ReturnStatus = STATUS_SUCCESS, PrivilegeSetOut = Some no_privileges,
         PrivilegeLengthOut = None, GrantedOut = Granted, StatusOut = Statuses\<rparr>)
       (check_captured env m self sd T 0 D gm L n u 0 out)"
    using assms(1,3-8)
    by (simp add: check_privileged_def ready_def map_option_case not_less [symmetric] split_def split: option.split)
  then show ?thesis
    using assms(1,9,10) d(3) l by (auto simp: SepAccessCheck_def ready_def policy_plain [OF d(1,2)] Let_def simp del: level_number.simps)
qed

lemma generic_mask_bits: "bit (0xF0000000 :: ULONG) b \<longleftrightarrow> 28 \<le> b \<and> b < 32"
  using bit_generic_mask [of b] by simp

lemma map_no_generic:
  assumes "a AND GENERIC_ACCESS = 0"
  shows "RtlMapGenericMask a gm = a"
proof -
  have "\<not> bit a b" if "28 \<le> b" "b < 32" for b using assms that by (auto simp: and_eq_0_bits generic_mask_bits)
  moreover have "a AND NOT GENERIC_ACCESS = a" by (rule and_not_id) (use assms in \<open>auto simp: and_eq_0_bits\<close>)
  ultimately show ?thesis by (simp add: RtlMapGenericMask_def generic_bits)
qed

section \<open>The environment of the examples\<close>

lemma sample_ready: "ready sample_env (sample_token 0) 16"
  by (simp add: ready_def sample_env_def sample_token_def)

lemma sample_request: "plain_request 1" "plain_request 2"
  by (simp_all add: plain_request_def bit_1_iff bit_2_iff)

lemma sample_group: "SepGetGroupFromDescriptor (sample_mem as) 16 = Some 36"
proof -
  have "load_USHORT (sample_mem as) 18 = Some 0x8004" "load_ULONG (sample_mem as) 24 = Some 20"
    using sample_holds(1,8) [of as] by (simp_all add: holds_Cons load_USHORT_def load_ULONG_holds)
  then show ?thesis by (simp add: SepGetGroupFromDescriptor_def descriptor_part_def)
qed

lemma open_parts:
  "SepGetOwnerFromDescriptor open_mem 16 = Some 36" "SepGetGroupFromDescriptor open_mem 16 = Some 36"
  "RtlGetDaclSecurityDescriptor open_mem 16 = Some (STATUS_SUCCESS, Some False, None, None)"
  "\<exists>g. load_bytes open_mem 16 16 = Some g"
proof -
  have h: "holds open_mem 16 ([1, 0, 0, 0x80] @ bytes_ULONG 20 @ bytes_ULONG 20 @ replicate 8 0)"
    unfolding open_mem_def block_def by (rule holds_put)
  then have "holds open_mem 16 [1, 0, 0, 0x80]" "holds open_mem 20 (bytes_ULONG 20)" "holds open_mem 24 (bytes_ULONG 20)"
    unfolding holds_append by simp_all
  then have "open_mem 16 = Some 1" "load_USHORT open_mem 18 = Some 0x8000" "load_ULONG open_mem 20 = Some 20"
    "load_ULONG open_mem 24 = Some 20"
    by (simp_all add: holds_Cons load_USHORT_def load_ULONG_holds)
  then show "SepGetOwnerFromDescriptor open_mem 16 = Some 36" "SepGetGroupFromDescriptor open_mem 16 = Some 36"
    "RtlGetDaclSecurityDescriptor open_mem 16 = Some (STATUS_SUCCESS, Some False, None, None)"
    by (simp_all add: SepGetOwnerFromDescriptor_def SepGetGroupFromDescriptor_def RtlGetDaclSecurityDescriptor_def descriptor_part_def)
  from h have "holds open_mem 16 ([1, 0, 0, 0x80] @ bytes_ULONG 20 @ bytes_ULONG 20 @ replicate 4 0)"
    unfolding holds_append by (simp add: eval_nat_numeral holds_Cons)
  from load_bytes_ok [OF this] show "\<exists>g. load_bytes open_mem 16 16 = Some g" by simp
qed

section \<open>Properties\<close>

text \<open>
  C14. For a request of rights that are neither generic nor given by a privilege, when the
  probes, the token and the captured descriptor are in order, NtAccessCheck stores exactly
  the granted mask and the status that SeAccessCheck gives for the same token and
  descriptor, returns STATUS_SUCCESS and reports no privileges.
\<close>

theorem NtAccessCheck_agrees:
  assumes "ready env T sd" "plain_request D" "20 \<le> len" "descriptor_at m sd Ow as" "token_at m T gs rs"
    and "SepGetGroupFromDescriptor m sd = Some p" "p \<noteq> 0" "may_impersonate (client_context env T)"
  shows "NtAccessCheck env UserMode m self D gm len ([g], [s]) =
     map_option (\<lambda>r. \<lparr>ReturnStatus = STATUS_SUCCESS, PrivilegeSetOut = Some no_privileges, PrivilegeLengthOut = None,
         GrantedOut = [the (GrantedAccess r)], StatusOut = [AccessStatus r]\<rparr>)
       (SeAccessCheck (Pool env) m self sd (client_context env T) D 0 gm UserMode)"
proof -
  let ?W = "owner_rights T gs rs Ow"
  let ?R = "D AND NOT ?W" and ?P = "owned_rights D ?W"
  have T: "effective_token (client_context env T) = T" by (simp add: effective_token_def client_context_def)
  have D: "D \<noteq> 0" "\<not> bit D 19" "\<not> bit D 24" "D AND GENERIC_ACCESS = 0" using assms(2) by (auto simp: plain_request_def)
  have W: "bit ?W b \<Longrightarrow> b = 17 \<or> b = 18" for b by (auto simp: owner_rights_def bit_or_iff split: if_splits)
  from owner_present(1) [OF assms(4)] obtain q where q: "SepGetOwnerFromDescriptor m sd = Some q" "q \<noteq> 0" by blast
  have sys: "NtAccessCheck env UserMode m self D gm len ([g], [s]) =
     map_option (\<lambda>(Granted, Statuses). \<lparr>ReturnStatus = STATUS_SUCCESS, PrivilegeSetOut = Some no_privileges,
         PrivilegeLengthOut = None, GrantedOut = Granted, StatusOut = Statuses\<rparr>)
       (check_captured env m self sd T 0 D gm [] 0 False 0 ([g], [s]))"
    unfolding NtAccessCheck_def
    by (rule SepAccessCheck_ready [OF assms(1-3) owner_present(2) [OF assms(4)] q assms(6,7)]) (simp_all add: SeCaptureObjectTypeList_def)
  note both = sys check_captured_owner [OF assms(4,5)]
    access_check_owner [OF assms(4) _ assms(8), unfolded T, OF assms(5)]
  show ?thesis
  proof (cases "?R = 0")
    case True
    obtain b where b: "bit D b" using D(1) by (auto simp: eq_0_bits)
    with True have "bit ?W b" using bit_imp_le_length [OF b] by (auto simp: eq_0_bits bit_and_iff bit_not_iff)
    with b have "bit ?P b" by (simp add: owned_rights_def bit_and_iff)
    then have "?P \<noteq> 0" by (auto simp: eq_0_bits)
    with True show ?thesis by (simp add: both report_all_def)
  next
    case False
    have "?R AND GENERIC_ACCESS = 0" "?P AND GENERIC_ACCESS = 0"
      using D(4) W by (auto simp: and_eq_0_bits bit_and_iff owned_rights_def generic_mask_bits dest!: W)
    note maps = map_no_generic [OF this(1)] map_no_generic [OF this(2)]
    have "\<not> bit ?R 19" "\<not> bit ?R 24" using D(2,3) by (simp_all add: bit_and_iff)
    from worker_plain [OF False this maps, of "Pool env" m self sd T "ProcessToken env" 0] obtain e :: "worker_exit option" where
      e: "\<And>want g s. SepAccessCheckWorker (Pool env) m self sd (Some T) (ProcessToken env) 0 ?R [] ?P gm UserMode False want [g] [s] =
        map_option (\<lambda>e. (NT_SUCCESS (ExitStatus e), if want then Some None else None, [ExitGranted e], [ExitStatus e])) e"
      by blast
    have c: "ClientToken (client_context env T) = Some T" "PrimaryToken (client_context env T) = ProcessToken env"
      by (simp_all add: client_context_def)
    show ?thesis using False unfolding both c by (cases e) (simp_all add: e)
  qed
qed

text \<open>
  C31. When SepAccessCheck returns anything but STATUS_SUCCESS it has stored nothing in the
  two result arrays of the caller.
\<close>

theorem SepAccessCheck_failure_keeps_results:
  assumes "SepAccessCheck env mode m self ps D gm len types n u out = Some r" "ReturnStatus r \<noteq> STATUS_SUCCESS"
  shows "GrantedOut r = fst out \<and> StatusOut r = snd out"
proof -
  have *: "GrantedOut r = fst out \<and> StatusOut r = snd out"
    if "check_privileged env m self T ps D gm len L n u P privs out = Some r" for T D L P privs
    using that assms(2) unfolding check_privileged_def Let_def split_def
    by (auto simp: bind_eq_Some_conv split: if_split_asm)
  show ?thesis
    using assms unfolding SepAccessCheck_def Let_def split_def
    by (auto simp: bind_eq_Some_conv simp del: level_number.simps split: if_split_asm option.split_asm dest: *)
qed

text \<open>
  C39. For an object without a DACL NtAccessCheckByTypeResultList returns STATUS_SUCCESS for
  a request of rights that are neither generic, nor given by a privilege or to the owner,
  but stores nothing in the two result arrays.
\<close>

theorem NtAccessCheckByTypeResultList_unwritten:
  assumes "ready env T sd" "plain_request D" "\<not> bit D 17" "\<not> bit D 18" "\<not> bit D 25" "20 \<le> len" "sd \<noteq> 0"
    and "SepGetOwnerFromDescriptor m sd = Some p" "p \<noteq> 0" "SepGetGroupFromDescriptor m sd = Some g" "g \<noteq> 0"
    and "RtlGetDaclSecurityDescriptor m sd = Some (STATUS_SUCCESS, Some False, None, None)" "plain_mapping gm" "n \<noteq> 0"
    and "SeCaptureObjectTypeList (ProbeTypes env) (ProbeGuid env) (Pool env) m types n UserMode = Some (STATUS_SUCCESS, L)"
  shows "NtAccessCheckByTypeResultList env UserMode m self 0 D types n gm len out =
     Some \<lparr>ReturnStatus = STATUS_SUCCESS, PrivilegeSetOut = Some no_privileges, PrivilegeLengthOut = None,
           GrantedOut = fst out, StatusOut = snd out\<rparr>"
proof -
  have D: "D \<noteq> 0" "\<not> bit D 19" "\<not> bit D 24" "D AND GENERIC_ACCESS = 0" using assms(2) by (auto simp: plain_request_def)
  have w: "D AND (WRITE_DAC OR READ_CONTROL OR MAXIMUM_ALLOWED) = 0" using assms(3-5) by (auto simp: and_eq_0_bits)
  have gm: "\<not> (GenericRead gm = 0 \<and> GenericWrite gm = 0 \<and> GenericExecute gm = 0 \<and> GenericAll gm = 0)"
    using assms(13) by (auto simp: plain_mapping_def)
  have "SepAccessCheckWorker (Pool env) m self sd (Some T) (ProcessToken env) 0 D L 0 gm UserMode True False (fst out) (snd out) =
     Some (True, None, out)"
    using D(1) gm unfolding SepAccessCheckWorker_def Let_def map_no_generic [OF D(4)] option.case policy_plain [OF D(2,3)] prod.case
      check_dacl_def assms(12)
    by (simp add: assms(5) right_mask)
  then have "check_captured env m self sd T 0 D gm L n True 0 out = Some out"
    using D(1) unfolding check_captured_def Let_def w by simp
  then show ?thesis
    unfolding NtAccessCheckByTypeResultList_def
    by (subst SepAccessCheck_ready [OF assms(1,2,6-11) _ assms(15)]) (use assms(14) in \<open>simp_all add: split_def\<close>)
qed

section \<open>Examples\<close>

theorem NtAccessCheck_agrees_witness:
  "NtAccessCheck sample_env UserMode (sample_mem deny_allow) 0 1 sample_mapping 20 ([0], [STATUS_SUCCESS]) =
     map_option (\<lambda>r. \<lparr>ReturnStatus = STATUS_SUCCESS, PrivilegeSetOut = Some no_privileges, PrivilegeLengthOut = None,
         GrantedOut = [the (GrantedAccess r)], StatusOut = [AccessStatus r]\<rparr>)
       (SeAccessCheck (Pool sample_env) (sample_mem deny_allow) 0 16 (client_context sample_env (sample_token 0)) 1 0
          sample_mapping UserMode)"
  by (rule NtAccessCheck_agrees [OF sample_ready sample_request(1) _ sample_object(1) sample_token_at sample_group])
    (simp_all add: may_impersonate_def client_context_def sample_token_def)

theorem SepAccessCheck_failure_keeps_results_witness:
  "\<exists>r. SepAccessCheck sample_env UserMode (sample_mem deny_allow) 0 0 0x80000000 sample_mapping 20 None 0 False ([5], [STATUS_SUCCESS]) =
     Some r \<and> ReturnStatus r = STATUS_GENERIC_NOT_MAPPED \<and> GrantedOut r = [5] \<and> StatusOut r = [STATUS_SUCCESS]"
proof -
  obtain r where r: "SepAccessCheck sample_env UserMode (sample_mem deny_allow) 0 0 0x80000000 sample_mapping 20 None 0 False
      ([5], [STATUS_SUCCESS]) = Some r" "ReturnStatus r = STATUS_GENERIC_NOT_MAPPED"
    by (simp add: SepAccessCheck_def sample_env_def)
  from SepAccessCheck_failure_keeps_results [OF r(1)] r show ?thesis by simp
qed

theorem NtAccessCheckByTypeResultList_unwritten_witness:
  "NtAccessCheckByTypeResultList sample_env UserMode open_mem 0 0 1 (Some [\<lparr>UserLevel = 0, ObjectType = 16\<rparr>]) 1 sample_mapping 20
     ([5], [STATUS_ACCESS_DENIED]) =
   Some \<lparr>ReturnStatus = STATUS_SUCCESS, PrivilegeSetOut = Some no_privileges, PrivilegeLengthOut = None,
         GrantedOut = [5], StatusOut = [STATUS_ACCESS_DENIED]\<rparr>"
proof -
  from open_parts(4) obtain g where "load_bytes open_mem 16 16 = Some g" by blast
  then have "\<exists>L. SeCaptureObjectTypeList (ProbeTypes sample_env) (ProbeGuid sample_env) (Pool sample_env) open_mem
      (Some [\<lparr>UserLevel = 0, ObjectType = 16\<rparr>]) 1 UserMode = Some (STATUS_SUCCESS, L)"
    by (simp add: SeCaptureObjectTypeList_def SepValidateObjectTypeList_def sample_env_def array_get_def)
  then obtain L where L: "SeCaptureObjectTypeList (ProbeTypes sample_env) (ProbeGuid sample_env) (Pool sample_env) open_mem
      (Some [\<lparr>UserLevel = 0, ObjectType = 16\<rparr>]) 1 UserMode = Some (STATUS_SUCCESS, L)" by blast
  show ?thesis
    using NtAccessCheckByTypeResultList_unwritten [OF sample_ready sample_request(1) _ _ _ _ _ open_parts(1) _ open_parts(2) _
        open_parts(3) sample_mapping_ok _ L, of 20 0 "([5], [STATUS_ACCESS_DENIED])"]
    by (simp add: bit_1_iff)
qed

end
