(* ===== verification/RtlUtf8.thy ===== *)
theory RtlUtf8
  imports RtlPrelude
begin

text \<open>
  Conversion between UTF-16 and UTF-8, \<^verbatim>\<open>sdk/lib/rtl/utf8.c\<close>.

  The source buffer is the list of its units.  Code units, code points, sizes and counters are words of
  the width they have in the code.  In the first conversion the index counts 16-bit units, fewer than
  \<open>2 ^ 31\<close>, and the loop is a recursion over the rest of the list.  In the second the index is a 32-bit
  word that may wrap around, so the loop is a partial function; reading outside the buffer and not
  returning are \<open>None\<close>.  A null destination asks for the size only.
\<close>

unbundle bit_operations_syntax

section \<open>UTF-16 to UTF-8\<close>

text \<open>Decoding at one position: the code point, the status and the units that are left.\<close>

definition decode_utf16 :: "NTSTATUS \<Rightarrow> WCHAR \<Rightarrow> WCHAR list \<Rightarrow> ULONG \<times> NTSTATUS \<times> WCHAR list" where
  "decode_utf16 status u us =
     (let ch = ucast u in
      if ch \<ge> 0xdc00 \<and> ch \<le> 0xdfff then (0xfffd, STATUS_SOME_NOT_MAPPED, us)
      else if ch \<ge> 0xd800 \<and> ch \<le> 0xdbff
      then (case us of
              v # vs \<Rightarrow>
                let ch = push_bit 10 (ch - 0xd800) in
                if v \<ge> 0xdc00 \<and> v \<le> 0xdfff
                then ((ch OR (ucast v - 0xdc00)) + 0x010000, status, vs)
                else (0xfffd, STATUS_SOME_NOT_MAPPED, us)
            | [] \<Rightarrow> (0xfffd, STATUS_SOME_NOT_MAPPED, us))
      else (ch, status, us))"

text \<open>The bytes \<^verbatim>\<open>utf8_ch[0 .. utf8_ch_len - 1]\<close>; the assertion excludes larger code points.\<close>

definition encode_utf8 :: "ULONG \<Rightarrow> UCHAR list" where
  "encode_utf8 ch =
     (if ch < 0x80 then [ucast (ch AND 0x7f)]
      else if ch < 0x800
      then [ucast (0xc0 OR (drop_bit 6 ch AND 0x1f)),
            ucast (0x80 OR (drop_bit 0 ch AND 0x3f))]
      else if ch < 0x10000
      then [ucast (0xe0 OR (drop_bit 12 ch AND 0x0f)),
            ucast (0x80 OR (drop_bit 6 ch AND 0x3f)),
            ucast (0x80 OR (drop_bit 0 ch AND 0x3f))]
      else [ucast (0xf0 OR (drop_bit 18 ch AND 0x07)),
            ucast (0x80 OR (drop_bit 12 ch AND 0x3f)),
            ucast (0x80 OR (drop_bit 6 ch AND 0x3f)),
            ucast (0x80 OR (drop_bit 0 ch AND 0x3f))])"

text \<open>The loop; \<open>out\<close> are the bytes stored so far, \<open>dest\<close> tells whether there is a destination.\<close>

function utf8_loop ::
    "bool \<Rightarrow> NTSTATUS \<Rightarrow> ULONG \<Rightarrow> ULONG \<Rightarrow> UCHAR list \<Rightarrow> WCHAR list \<Rightarrow> NTSTATUS \<times> ULONG \<times> UCHAR list" where
  "utf8_loop dest status utf8_bytes_max written out [] = (status, written, out)"
| "utf8_loop dest status utf8_bytes_max written out (u # us) =
     (case decode_utf16 status u us of (ch, status, us) \<Rightarrow>
        let utf8_ch = encode_utf8 ch;
            utf8_ch_len = of_nat (length utf8_ch)
        in if \<not> dest then utf8_loop dest status utf8_bytes_max (written + utf8_ch_len) out us
           else if utf8_bytes_max \<ge> utf8_ch_len
           then utf8_loop dest status (utf8_bytes_max - utf8_ch_len) (written + utf8_ch_len) (out @ utf8_ch) us
           else utf8_loop dest STATUS_BUFFER_TOO_SMALL 0 written out us)"
  by pat_completeness auto
termination
  by (relation "measure (\<lambda>(_, _, _, _, _, us). length us)")
    (auto dest!: sym [of _ "decode_utf16 _ _ _"] simp: decode_utf16_def Let_def split: list.splits if_splits)

text \<open>
  The result: the status, the number of bytes written (\<open>None\<close> when the output parameter was not
  set), and the bytes stored in the destination.
\<close>

definition RtlUnicodeToUTF8N ::
    "bool \<Rightarrow> ULONG \<Rightarrow> bool \<Rightarrow> WCHAR list option \<Rightarrow> ULONG \<Rightarrow> NTSTATUS \<times> ULONG option \<times> UCHAR list" where
  "RtlUnicodeToUTF8N utf8_dest utf8_bytes_max utf8_bytes_written uni_src uni_bytes =
     (case uni_src of
        None \<Rightarrow> (STATUS_INVALID_PARAMETER_4, None, [])
      | Some src \<Rightarrow>
          if \<not> utf8_bytes_written then (STATUS_INVALID_PARAMETER, None, [])
          else if utf8_dest \<and> uni_bytes mod 2 \<noteq> 0 then (STATUS_INVALID_PARAMETER_5, None, [])
          else case utf8_loop utf8_dest STATUS_SUCCESS utf8_bytes_max 0 []
                      (take (unat (uni_bytes div 2)) src) of
                 (status, written, out) \<Rightarrow> (status, Some written, out))"

section \<open>UTF-8 to UTF-16\<close>

definition lead_byte :: "NTSTATUS \<Rightarrow> UCHAR \<Rightarrow> ULONG \<times> nat \<times> NTSTATUS" where
  "lead_byte status b =
     (let ch = ucast b in
      if ch \<ge> 0xf5 then (0xfffd, 0, STATUS_SOME_NOT_MAPPED)
      else if ch \<ge> 0xf0 then (ch AND 0x07, 3, status)
      else if ch \<ge> 0xe0 then (ch AND 0x0f, 2, status)
      else if ch \<ge> 0xc2 then (ch AND 0x1f, 1, status)
      else if ch \<ge> 0x80 then (0xfffd, 0, STATUS_SOME_NOT_MAPPED)
      else (ch, 0, status))"

text \<open>
  The loop over the trail bytes, from the index \<open>i\<close> of the lead byte: \<open>None\<close> for the code point when a byte is
  no trail byte, and the index of the last byte that belongs to it.
\<close>

fun read_trail :: "UCHAR list \<Rightarrow> nat \<Rightarrow> ULONG \<Rightarrow> ULONG \<Rightarrow> (ULONG option \<times> ULONG) option" where
  "read_trail utf8_src 0 ch i = Some (Some ch, i)"
| "read_trail utf8_src (Suc j) ch i = do {
     b \<leftarrow> array_get utf8_src (unat (i + 1));
     if b AND 0xc0 = 0x80 then read_trail utf8_src j (push_bit 6 ch OR (ucast (b AND 0x3f))) (i + 1)
     else Some (None, i)
   }"

definition decode_utf8 ::
    "UCHAR list \<Rightarrow> ULONG \<Rightarrow> NTSTATUS \<Rightarrow> ULONG \<Rightarrow> (ULONG \<times> nat \<times> NTSTATUS \<times> ULONG) option" where
  "decode_utf8 utf8_src utf8_bytes status i = do {
     b \<leftarrow> array_get utf8_src (unat i);
     case lead_byte status b of (ch, utf8_trail_bytes, status) \<Rightarrow>
       if i + of_nat utf8_trail_bytes < utf8_bytes
       then do {
         (r, i) \<leftarrow> read_trail utf8_src utf8_trail_bytes ch i;
         Some (case r of
                 Some ch \<Rightarrow> (ch, utf8_trail_bytes, status, i)
               | None \<Rightarrow> (0xfffd, 0, STATUS_SOME_NOT_MAPPED, i))
       }
       else Some (0xfffd, 0, STATUS_SOME_NOT_MAPPED, utf8_bytes)
   }"

definition encode_utf16 :: "NTSTATUS \<Rightarrow> nat \<Rightarrow> ULONG \<Rightarrow> WCHAR list \<times> NTSTATUS" where
  "encode_utf16 status utf8_trail_bytes ch =
     (if ch > 0x10ffff \<or> (ch \<ge> 0xd800 \<and> ch \<le> 0xdfff) \<or>
         (utf8_trail_bytes = 2 \<and> ch < 0x00800) \<or> (utf8_trail_bytes = 3 \<and> ch < 0x10000)
      then (replicate utf8_trail_bytes 0xfffd, STATUS_SOME_NOT_MAPPED)
      else if ch \<ge> 0x10000
      then let ch = ch - 0x010000
           in ([ucast (0xd800 + (drop_bit 10 ch AND 0x3ff)), ucast (0xdc00 + (drop_bit 0 ch AND 0x3ff))], status)
      else ([ucast ch], status))"

text \<open>The inner loop that stores the units of one code point, one by one.\<close>

fun store_units :: "NTSTATUS \<Rightarrow> ULONG \<Rightarrow> ULONG \<Rightarrow> WCHAR list \<Rightarrow> WCHAR list \<Rightarrow> NTSTATUS \<times> ULONG \<times> ULONG \<times> WCHAR list" where
  "store_units status uni_bytes_max written out [] = (status, uni_bytes_max, written, out)"
| "store_units status uni_bytes_max written out (w # ws) =
     (if uni_bytes_max \<ge> 2
      then store_units status (uni_bytes_max - 2) (written + 1) (out @ [w]) ws
      else store_units STATUS_BUFFER_TOO_SMALL 0 written out ws)"

text \<open>The loop over the source, at index \<open>i\<close>.  The index is 32 bits wide and may wrap around.\<close>

partial_function (option) utf16_loop ::
    "UCHAR list \<Rightarrow> ULONG \<Rightarrow> bool \<Rightarrow> NTSTATUS \<Rightarrow> ULONG \<Rightarrow> ULONG \<Rightarrow> WCHAR list \<Rightarrow> ULONG \<Rightarrow>
     (NTSTATUS \<times> ULONG \<times> WCHAR list) option" where
  "utf16_loop utf8_src utf8_bytes dest status uni_bytes_max written out i =
     (if i < utf8_bytes
      then do {
        (ch, utf8_trail_bytes, status, i) \<leftarrow> decode_utf8 utf8_src utf8_bytes status i;
        case encode_utf16 status utf8_trail_bytes ch of (utf16_ch, status) \<Rightarrow>
          if \<not> dest
          then utf16_loop utf8_src utf8_bytes dest status uni_bytes_max (written + of_nat (length utf16_ch)) out (i + 1)
          else case store_units status uni_bytes_max written out utf16_ch of
                 (status, uni_bytes_max, written, out) \<Rightarrow>
                   utf16_loop utf8_src utf8_bytes dest status uni_bytes_max written out (i + 1)
      }
      else Some (status, written, out))"

definition RtlUTF8ToUnicodeN ::
    "bool \<Rightarrow> ULONG \<Rightarrow> bool \<Rightarrow> UCHAR list option \<Rightarrow> ULONG \<Rightarrow> (NTSTATUS \<times> ULONG option \<times> WCHAR list) option" where
  "RtlUTF8ToUnicodeN uni_dest uni_bytes_max uni_bytes_written utf8_src utf8_bytes =
     (case utf8_src of
        None \<Rightarrow> Some (STATUS_INVALID_PARAMETER_4, None, [])
      | Some src \<Rightarrow>
          if \<not> uni_bytes_written then Some (STATUS_INVALID_PARAMETER, None, [])
          else do {
            (status, written, out) \<leftarrow> utf16_loop src utf8_bytes uni_dest STATUS_SUCCESS uni_bytes_max 0 [] 0;
            Some (status, Some (written * 2), out)
          })"

section \<open>The encoding forms of the Unicode standard\<close>

definition scalar :: "nat \<Rightarrow> bool" where
  "scalar c \<longleftrightarrow> c < 0x110000 \<and> \<not> (0xD800 \<le> c \<and> c \<le> 0xDFFF)"

definition utf16 :: "nat \<Rightarrow> WCHAR list" where
  "utf16 c =
     (if c < 0x10000 then [of_nat c]
      else [of_nat (0xD800 + (c - 0x10000) div 1024), of_nat (0xDC00 + (c - 0x10000) mod 1024)])"

definition utf8 :: "nat \<Rightarrow> UCHAR list" where
  "utf8 c =
     (if c < 0x80 then [of_nat c]
      else if c < 0x800 then [of_nat (0xC0 + c div 64), of_nat (0x80 + c mod 64)]
      else if c < 0x10000
      then [of_nat (0xE0 + c div 64 div 64), of_nat (0x80 + c div 64 mod 64), of_nat (0x80 + c mod 64)]
      else [of_nat (0xF0 + c div 64 div 64 div 64), of_nat (0x80 + c div 64 div 64 mod 64),
            of_nat (0x80 + c div 64 mod 64), of_nat (0x80 + c mod 64)])"

text \<open>
  The code points of a sequence of UTF-16 units, \<open>None\<close> for a surrogate that is not part of a pair;
  the replacement character stands for it.
\<close>

fun code_points :: "WCHAR list \<Rightarrow> nat option list" where
  "code_points [] = []"
| "code_points (u # us) =
     (if 0xD800 \<le> unat u \<and> unat u \<le> 0xDBFF
      then (case us of
              v # vs \<Rightarrow>
                if 0xDC00 \<le> unat v \<and> unat v \<le> 0xDFFF
                then Some (0x10000 + (unat u - 0xD800) * 1024 + (unat v - 0xDC00)) # code_points vs
                else None # code_points us
            | [] \<Rightarrow> [None])
      else if 0xDC00 \<le> unat u \<and> unat u \<le> 0xDFFF then None # code_points us
      else Some (unat u) # code_points us)"

definition replaced :: "nat option \<Rightarrow> nat" where
  "replaced x = (case x of None \<Rightarrow> 0xFFFD | Some c \<Rightarrow> c)"

text \<open>
  The code points of a sequence of bytes.  \<open>None\<close> stands for what is not well-formed: a byte that begins no
  form, a lead byte with the trail bytes that follow it when there are not enough of them, every trail
  byte of a form with the right number of them that is not the form of a scalar value, and a form that
  the end of the source cuts off, with everything up to the end.
\<close>

definition trail_count :: "UCHAR \<Rightarrow> nat option" where
  "trail_count b =
     (if unat b < 0x80 then Some 0
      else if 0xC2 \<le> unat b \<and> unat b \<le> 0xDF then Some 1
      else if 0xE0 \<le> unat b \<and> unat b \<le> 0xEF then Some 2
      else if 0xF0 \<le> unat b \<and> unat b \<le> 0xF4 then Some 3
      else None)"

definition is_trail :: "UCHAR \<Rightarrow> bool" where
  "is_trail b \<longleftrightarrow> unat b div 64 = 2"

definition lead_value :: "nat \<Rightarrow> UCHAR \<Rightarrow> nat" where
  "lead_value t b = (if t = 0 then unat b else unat b mod 2 ^ (6 - t))"

abbreviation trail_value :: "nat \<Rightarrow> UCHAR list \<Rightarrow> nat" where
  "trail_value \<equiv> foldl (\<lambda>v x. v * 64 + unat x mod 64)"

definition scalar_of :: "UCHAR \<Rightarrow> UCHAR list \<Rightarrow> nat option" where
  "scalar_of b bs =
     (let c = trail_value (lead_value (length bs) b) bs in if scalar c \<and> utf8 c = b # bs then Some c else None)"

function utf8_points :: "UCHAR list \<Rightarrow> nat option list" where
  "utf8_points [] = []"
| "utf8_points (b # bs) =
     (case trail_count b of
        None \<Rightarrow> None # utf8_points bs
      | Some t \<Rightarrow>
          if length bs < t then [None]
          else let k = length (takeWhile is_trail (take t bs)) in
               if k < t then None # utf8_points (drop k bs)
               else (case scalar_of b (take t bs) of Some c \<Rightarrow> [Some c] | None \<Rightarrow> replicate t None) @
                    utf8_points (drop t bs))"
  by pat_completeness auto
termination by (relation "measure length") auto

text \<open>The longest prefix of a sequence of code points whose UTF-8 form has at most \<open>m\<close> bytes.\<close>

fun fitting :: "nat \<Rightarrow> nat list \<Rightarrow> nat list" where
  "fitting m [] = []"
| "fitting m (c # cs) = (if length (utf8 c) \<le> m then c # fitting (m - length (utf8 c)) cs else [])"

abbreviation utf8s :: "nat list \<Rightarrow> UCHAR list" where
  "utf8s cs \<equiv> concat (map utf8 cs)"

abbreviation utf16s :: "nat list \<Rightarrow> WCHAR list" where
  "utf16s cs \<equiv> concat (map utf16 cs)"

text \<open>Decoding at the head of a list of bytes: the code point, the number of trail bytes, the status and the rest.\<close>

fun trail_list :: "nat \<Rightarrow> ULONG \<Rightarrow> UCHAR list \<Rightarrow> ULONG option \<times> UCHAR list" where
  "trail_list (Suc j) ch (b # bs) =
     (if b AND 0xc0 = 0x80
      then trail_list j (push_bit 6 ch OR (ucast (b AND 0x3f))) bs
      else (None, b # bs))"
| "trail_list j ch bs = (Some ch, bs)"

definition decode_list :: "NTSTATUS \<Rightarrow> UCHAR \<Rightarrow> UCHAR list \<Rightarrow> ULONG \<times> nat \<times> NTSTATUS \<times> UCHAR list" where
  "decode_list status b bs =
     (case lead_byte status b of (ch, t, status) \<Rightarrow>
        if t \<le> length bs
        then (case trail_list t ch bs of
                (Some ch, bs) \<Rightarrow> (ch, t, status, bs)
              | (None, bs) \<Rightarrow> (0xfffd, 0, STATUS_SOME_NOT_MAPPED, bs))
        else (0xfffd, 0, STATUS_SOME_NOT_MAPPED, []))"

text \<open>
  The loop at index \<open>i\<close> produces the UTF-16 form of \<open>cs\<close>: it counts the units without a destination, and
  stores with one as many of them as there is room for.
\<close>

definition utf16_runs :: "UCHAR list \<Rightarrow> ULONG \<Rightarrow> ULONG \<Rightarrow> nat list \<Rightarrow> bool \<Rightarrow> bool" where
  "utf16_runs src n i cs bad \<longleftrightarrow>
     (bad \<longrightarrow> cs \<noteq> []) \<and>
     (\<forall>s m w out.
        utf16_loop src n False s m w out i =
          Some (if bad then STATUS_SOME_NOT_MAPPED else s, w + of_nat (length (utf16s cs)), out) \<and>
        utf16_loop src n True s m w out i =
          Some (if unat m div 2 < length (utf16s cs) then STATUS_BUFFER_TOO_SMALL
           else if bad then STATUS_SOME_NOT_MAPPED else s,
           w + of_nat (length (take (unat m div 2) (utf16s cs))), out @ take (unat m div 2) (utf16s cs)))"

section \<open>Bit operations as arithmetic\<close>

lemma decode_utf16_shorter: "decode_utf16 status u us = (ch, s, vs) \<Longrightarrow> length vs \<le> length us"
  by (auto simp: decode_utf16_def Let_def split: list.splits if_splits)

lemma or_add_nat: "(y :: nat) < 2 ^ k \<Longrightarrow> a * 2 ^ k OR y = a * 2 ^ k + y"
proof -
  assume y: "y < 2 ^ k"
  have "\<not> bit y i" if "k \<le> i" for i
    using y that by (metis bit_take_bit_iff linorder_not_less take_bit_nat_eq_self)
  then show ?thesis
    by (intro disjunctive_add [symmetric]) (auto simp: bit_push_bit_iff_nat simp flip: push_bit_eq_mult)
qed

lemma unat_or_add:
  "unat (B :: 'a::len word) < 2 ^ k \<Longrightarrow> unat A = a * 2 ^ k \<Longrightarrow> unat (A OR B) = a * 2 ^ k + unat B"
  by (simp add: unsigned_or_eq or_add_nat)

lemma unat_field: "unat (drop_bit k (ch :: ULONG) AND mask n) = unat ch div 2 ^ k mod 2 ^ n"
  by (simp only: unat_and_mask unsigned_drop_bit_eq) (simp add: drop_bit_eq_div take_bit_nat_eq_self)

lemma ucast_byte: "unat (w :: ULONG) = x \<Longrightarrow> x < 256 \<Longrightarrow> ucast w = (of_nat x :: UCHAR)"
  by (auto simp: word_unat_eq_iff unsigned_ucast_eq unsigned_take_bit_eq take_bit_nat_eq_self unat_of_nat)

lemma byte_field:
  assumes "unat A = a * 2 ^ n" "a * 2 ^ n + 2 ^ n \<le> 256"
  shows "ucast (A OR (drop_bit k (ch :: ULONG) AND mask n)) = (of_nat (a * 2 ^ n + unat ch div 2 ^ k mod 2 ^ n) :: UCHAR)"
proof -
  have lt: "unat ch div 2 ^ k mod 2 ^ n < 2 ^ n" by simp
  have "unat (A OR (drop_bit k ch AND mask n)) = a * 2 ^ n + unat ch div 2 ^ k mod 2 ^ n"
    using unat_or_add [of "drop_bit k ch AND mask n" n A a] assms(1) lt by (simp add: unat_field)
  moreover have "a * 2 ^ n + unat ch div 2 ^ k mod 2 ^ n < 256" using lt assms(2) by linarith
  ultimately show ?thesis by (rule ucast_byte)
qed

lemma byte_fields:
  "ucast (0xc0 OR (drop_bit k ch AND 0x1f) :: ULONG) = (of_nat (0xC0 + unat ch div 2 ^ k mod 32) :: UCHAR)"
  "ucast (0x80 OR (drop_bit k ch AND 0x3f) :: ULONG) = (of_nat (0x80 + unat ch div 2 ^ k mod 64) :: UCHAR)"
  "ucast (0xe0 OR (drop_bit k ch AND 0x0f) :: ULONG) = (of_nat (0xE0 + unat ch div 2 ^ k mod 16) :: UCHAR)"
  "ucast (0xf0 OR (drop_bit k ch AND 0x07) :: ULONG) = (of_nat (0xF0 + unat ch div 2 ^ k mod 8) :: UCHAR)"
  using byte_field [of "0xc0" 6 5 k ch] byte_field [of "0x80" 2 6 k ch]
    byte_field [of "0xe0" 14 4 k ch] byte_field [of "0xf0" 30 3 k ch]
  by (simp_all add: mask_numeral)

lemma encode_utf8_ref:
  assumes "c < 0x110000"
  shows "encode_utf8 (of_nat c) = utf8 c"
proof -
  have u: "unat (of_nat c :: ULONG) = c" using assms by (intro unat_of_nat_small) simp
  have lt: "(of_nat c :: ULONG) < of_nat n \<longleftrightarrow> c < n" if "n \<le> 0x10000" for n
    using that u by (simp add: word_less_nat_alt unat_of_nat)
  have ascii: "ucast (of_nat c AND 0x7f :: ULONG) = (of_nat c :: UCHAR)" if "c < 0x80"
    using that u unat_and_mask [of "of_nat c :: ULONG" 7] by (intro ucast_byte) (simp_all add: mask_numeral)
  show ?thesis
    unfolding encode_utf8_def utf8_def byte_fields u
    using lt [of "0x80"] lt [of "0x800"] lt [of "0x10000"] ascii assms
    by (simp add: div_mult2_eq [symmetric] less_mult_imp_div_less)
qed

lemma ulong_of_unat: "unat (w :: ULONG) = n \<Longrightarrow> w = of_nat n"
  by (auto simp: word_unat_eq_iff unat_of_nat)

lemma decode_single:
  assumes "c < 0x10000" "\<not> (0xD800 \<le> c \<and> c \<le> 0xDFFF)"
  shows "decode_utf16 s (of_nat c) us = (of_nat c, s, us)"
proof -
  have u: "unat (ucast (of_nat c :: WCHAR) :: ULONG) = c" using assms(1) by (simp add: unat_ucast_USHORT unat_of_nat_USHORT)
  have "ucast (of_nat c :: WCHAR) = (of_nat c :: ULONG)" by (rule ulong_of_unat) (rule u)
  with u assms show ?thesis by (auto simp: decode_utf16_def Let_def word_le_nat_alt)
qed

lemma decode_pair:
  assumes "h < 1024" "l < 1024"
  shows "decode_utf16 s (of_nat (0xD800 + h)) (of_nat (0xDC00 + l) # us) = (of_nat (0x10000 + h * 1024 + l), s, us)"
proof -
  let ?h = "ucast (of_nat (0xD800 + h) :: WCHAR) :: ULONG" and ?l = "ucast (of_nat (0xDC00 + l) :: WCHAR) :: ULONG"
  have u: "unat ?h = 0xD800 + h" "unat ?l = 0xDC00 + l" "unat (of_nat (0xDC00 + l) :: WCHAR) = 0xDC00 + l"
    using assms by (simp_all only: unat_ucast_USHORT) (simp_all only: unat_of_nat_USHORT)
  have d: "unat (?h - 0xd800) = h" "unat (?l - 0xdc00) = l" using u by (simp_all add: unat_sub word_le_nat_alt)
  have "unat (push_bit 10 (?h - 0xd800)) = h * 2 ^ 10"
    unfolding unsigned_push_bit_eq d(1) using assms(1) by (simp add: push_bit_eq_mult take_bit_nat_eq_self)
  then have "unat (push_bit 10 (?h - 0xd800) OR (?l - 0xdc00)) = h * 2 ^ 10 + l"
    using unat_or_add [of "?l - 0xdc00" 10] d(2) assms(2) by simp
  then have "unat ((push_bit 10 (?h - 0xd800) OR (?l - 0xdc00)) + 0x010000) = h * 1024 + l + 0x10000"
    using assms by (subst unat_add_small) simp_all
  then have v: "(push_bit 10 (?h - 0xd800) OR (?l - 0xdc00)) + 0x010000 = of_nat (0x10000 + h * 1024 + l)"
    by (intro ulong_of_unat) simp
  have cond: "\<not> (0xdc00 \<le> ?h \<and> ?h \<le> 0xdfff)" "0xd800 \<le> ?h \<and> ?h \<le> 0xdbff"
    "0xdc00 \<le> (of_nat (0xDC00 + l) :: WCHAR) \<and> (of_nat (0xDC00 + l) :: WCHAR) \<le> 0xdfff"
    using assms u by (simp_all only: word_le_nat_alt) simp_all
  show ?thesis
    unfolding decode_utf16_def Let_def list.case v if_not_P [OF cond(1)] if_P [OF cond(2)] if_P [OF cond(3)] ..
qed

lemma utf16_decode:
  assumes "scalar c"
  obtains u us where "utf16 c = u # us" "\<And>s rest. decode_utf16 s u (us @ rest) = (of_nat c, s, rest)"
proof (cases "c < 0x10000")
  case True
  then show ?thesis using that [of "of_nat c" "[]"] decode_single [of c] assms by (simp add: utf16_def scalar_def)
next
  case False
  let ?d = "c - 0x10000"
  have "?d div 1024 < 1024" "?d mod 1024 < 1024" using assms False by (auto simp: scalar_def less_mult_imp_div_less)
  from decode_pair [OF this] have "decode_utf16 s (of_nat (0xD800 + ?d div 1024)) (of_nat (0xDC00 + ?d mod 1024) # rest) =
      (of_nat (0x10000 + (?d div 1024 * 1024 + ?d mod 1024)), s, rest)" for s rest by (simp add: add.assoc)
  moreover have "0x10000 + (?d div 1024 * 1024 + ?d mod 1024) = c" using False by (simp only: div_mult_mod_eq)
  ultimately show ?thesis using False that [of "of_nat (0xD800 + ?d div 1024)" "[of_nat (0xDC00 + ?d mod 1024)]"]
    by (simp add: utf16_def del: of_nat_add)
qed

lemma length_utf8: "0 < length (utf8 c)" "length (utf8 c) \<le> 4"
  by (simp_all add: utf8_def)

lemma trail_step:
  assumes "r < 64" "unat ch < 2 ^ 20"
  shows "trail_list (Suc j) ch (of_nat (0x80 + r) # bs) = trail_list j (of_nat (unat ch * 64 + r)) bs"
proof -
  let ?b = "of_nat (0x80 + r) :: UCHAR"
  have u: "unat ?b = 0x80 + r" using assms(1) by (intro unat_of_nat_small) simp
  have m: "(0x80 + r) mod 64 = r" "(0x80 + r) div 64 = 2"
    using assms(1) mod_mult_self1 [of r 2 64] div_mult_self1 [of 64 r 2] by (simp_all add: add.commute)
  have "unat (?b AND mask 6) = r" unfolding unat_and_mask u using m(1) by simp
  then have low: "unat (?b AND 0x3f) = r" by (simp add: mask_numeral)
  have "unat (?b AND NOT (mask 6)) = 0x80" unfolding unat_and_not_mask u using m(2) by simp
  moreover have "NOT (mask 6) = (0xc0 :: UCHAR)" by code_simp
  ultimately have "unat (?b AND 0xc0) = 0x80" by metis
  then have hi: "?b AND 0xc0 = 0x80" by (simp add: word_unat_eq_iff)
  have lt: "unat (ucast (?b AND 0x3f) :: ULONG) = r" using low assms(1) by (simp add: unsigned_ucast_eq take_bit_nat_eq_self)
  have "unat (push_bit 6 ch) = unat ch * 2 ^ 6"
    unfolding unsigned_push_bit_eq using assms(2) by (simp add: push_bit_eq_mult take_bit_nat_eq_self)
  from unat_or_add [OF _ this, of "ucast (?b AND 0x3f)"] lt assms(1)
  have "push_bit 6 ch OR ucast (?b AND 0x3f) = (of_nat (unat ch * 64 + r) :: ULONG)"
    by (intro ulong_of_unat) simp
  with hi show ?thesis by simp
qed

lemma lead_field:
  assumes "x < 2 ^ n" "a * 2 ^ n + x < 256" "n < 8"
  shows "unat (ucast (of_nat (a * 2 ^ n + x) :: UCHAR) :: ULONG) = a * 2 ^ n + x"
    and "ucast (of_nat (a * 2 ^ n + x) :: UCHAR) AND mask n = (of_nat x :: ULONG)"
proof -
  let ?b = "of_nat (a * 2 ^ n + x) :: UCHAR"
  have "unat ?b = a * 2 ^ n + x" using assms(2) by (intro unat_of_nat_small) simp
  then show u: "unat (ucast ?b :: ULONG) = a * 2 ^ n + x" by (simp only: unat_ucast_UCHAR)
  have "(a * 2 ^ n + x) mod 2 ^ n = x" using assms(1) by simp
  then show "ucast ?b AND mask n = (of_nat x :: ULONG)"
    by (intro ulong_of_unat) (simp only: unat_and_mask u)
qed

lemma lead_bytes:
  "c < 0x80 \<Longrightarrow> lead_byte s (of_nat c) = (of_nat c, 0, s)"
  "2 \<le> x \<Longrightarrow> x < 32 \<Longrightarrow> lead_byte s (of_nat (0xC0 + x)) = (of_nat x, 1, s)"
  "x < 16 \<Longrightarrow> lead_byte s (of_nat (0xE0 + x)) = (of_nat x, 2, s)"
  "x < 5 \<Longrightarrow> lead_byte s (of_nat (0xF0 + x)) = (of_nat x, 3, s)"
proof -
  show "lead_byte s (of_nat c) = (of_nat c, 0, s)" if "c < 0x80"
    using that lead_field(1) [of c 7 0] ulong_of_unat [OF lead_field(1) [of c 7 0]]
    by (simp add: lead_byte_def Let_def word_le_nat_alt)
  show "lead_byte s (of_nat (0xC0 + x)) = (of_nat x, 1, s)" if "2 \<le> x" "x < 32"
    using that lead_field [of x 5 6] by (simp add: lead_byte_def Let_def word_le_nat_alt mask_numeral)
  show "lead_byte s (of_nat (0xE0 + x)) = (of_nat x, 2, s)" if "x < 16"
    using that lead_field [of x 4 14] by (simp add: lead_byte_def Let_def word_le_nat_alt mask_numeral)
  show "lead_byte s (of_nat (0xF0 + x)) = (of_nat x, 3, s)" if "x < 5"
    using that lead_field [of x 3 30] by (simp add: lead_byte_def Let_def word_le_nat_alt mask_numeral)
qed

text \<open>Reading \<open>n\<close> trail bytes of a number adds its \<open>n\<close> low groups of six bits.\<close>

lemma trail_read:
  assumes "c < 2 ^ 26"
  shows "trail_list (Suc j) (of_nat (c div 64)) (of_nat (0x80 + c mod 64) # bs) = trail_list j (of_nat c) bs"
proof -
  have "c div 64 < 2 ^ 20" using assms by (simp add: less_mult_imp_div_less)
  moreover from this have "unat (of_nat (c div 64) :: ULONG) = c div 64" by (intro unat_of_nat_small) simp
  ultimately show ?thesis using trail_step [of "c mod 64" "of_nat (c div 64)"] by (simp del: of_nat_add)
qed

lemma utf8_decode:
  assumes "scalar c"
  obtains b bs where "utf8 c = b # bs" "\<And>s rest. decode_list s b (bs @ rest) = (of_nat c, length bs, s, rest)"
proof -
  have c: "c < 0x110000" using assms by (simp add: scalar_def)
  then have d: "c < 2 ^ 26" "c div 64 < 2 ^ 26" "c div 64 div 64 < 2 ^ 26" by (simp_all add: less_mult_imp_div_less)
  note reads = trail_read [OF d(1)] trail_read [OF d(2)] trail_read [OF d(3)]
  consider "c < 0x80" | "0x80 \<le> c" "c < 0x800" | "0x800 \<le> c" "c < 0x10000" | "0x10000 \<le> c" by linarith
  then show ?thesis
  proof cases
    case 1
    then show ?thesis using that [of "of_nat c" "[]"] by (simp add: utf8_def decode_list_def lead_bytes)
  next
    case 2
    then have "2 \<le> c div 64" "c div 64 < 32" by (simp_all add: less_mult_imp_div_less div_le_mono [of "0x80" c 64, simplified])
    with 2 show ?thesis using that [of "of_nat (0xC0 + c div 64)" "[of_nat (0x80 + c mod 64)]"]
      by (simp add: utf8_def decode_list_def lead_bytes reads numeral_2_eq_2 del: of_nat_add trail_list.simps(1))
  next
    case 3
    then have "c div 64 div 64 < 16" by (simp add: less_mult_imp_div_less)
    with 3 show ?thesis
      using that [of "of_nat (0xE0 + c div 64 div 64)" "[of_nat (0x80 + c div 64 mod 64), of_nat (0x80 + c mod 64)]"]
      by (simp add: utf8_def decode_list_def lead_bytes reads numeral_2_eq_2 del: of_nat_add trail_list.simps(1))
  next
    case 4
    then have "c div 64 div 64 div 64 < 5" using c by (simp add: less_mult_imp_div_less)
    with 4 show ?thesis
      using that [of "of_nat (0xF0 + c div 64 div 64 div 64)"
          "[of_nat (0x80 + c div 64 div 64 mod 64), of_nat (0x80 + c div 64 mod 64), of_nat (0x80 + c mod 64)]"]
      by (simp add: utf8_def decode_list_def lead_bytes reads numeral_3_eq_3 del: of_nat_add trail_list.simps(1))
  qed
qed

section \<open>UTF-16 to UTF-8, on every input\<close>

lemma decode_step:
  obtains x vs where "code_points (u # us) = x # code_points vs" "length vs < length (u # us)" "scalar (replaced x)"
    "\<And>s. decode_utf16 s u us = (of_nat (replaced x), if x = None then STATUS_SOME_NOT_MAPPED else s, vs)"
proof -
  have u: "unat u < 0x10000" using unsigned_less [of u, where ?'a = nat] by simp
  consider (pair) v vs where "us = v # vs" "0xD800 \<le> unat u" "unat u \<le> 0xDBFF" "0xDC00 \<le> unat v" "unat v \<le> 0xDFFF"
    | (lone) "0xD800 \<le> unat u" "unat u \<le> 0xDFFF"
        "\<And>v vs. us = v # vs \<Longrightarrow> unat u \<le> 0xDBFF \<Longrightarrow> \<not> (0xDC00 \<le> unat v \<and> unat v \<le> 0xDFFF)"
    | (single) "\<not> (0xD800 \<le> unat u \<and> unat u \<le> 0xDFFF)"
    by (cases us) auto
  then show ?thesis
  proof cases
    case pair
    let ?h = "unat u - 0xD800" and ?l = "unat v - 0xDC00"
    have "decode_utf16 s u us = (of_nat (0x10000 + ?h * 1024 + ?l), s, vs)" for s
      using pair decode_pair [of ?h ?l s vs] by simp
    moreover have "scalar (0x10000 + ?h * 1024 + ?l)" using pair by (simp add: scalar_def)
    ultimately show ?thesis using pair that [of "Some (0x10000 + ?h * 1024 + ?l)" vs] by (simp add: replaced_def del: of_nat_add)
  next
    case lone
    have "0xDC00 \<le> unat u \<or> unat u \<le> 0xDBFF" by linarith
    with lone have "decode_utf16 s u us = (0xfffd, STATUS_SOME_NOT_MAPPED, us)" for s
      by (auto simp: decode_utf16_def Let_def word_le_nat_alt unat_ucast_USHORT split: list.splits)
    moreover have "code_points (u # us) = None # code_points us"
      using lone by (cases us) auto
    ultimately show ?thesis using that [of None us] by (simp add: replaced_def scalar_def)
  next
    case single
    then show ?thesis using u that [of "Some (unat u)" us] decode_single [of "unat u" _ us] by (auto simp: replaced_def scalar_def)
  qed
qed

lemma code_points_scalar: "x \<in> set (code_points us) \<Longrightarrow> scalar (replaced x)"
proof (induction us rule: length_induct)
  case (1 us)
  then show ?case
  proof (cases us)
    case (Cons u vs)
    obtain y ws where "code_points (u # vs) = y # code_points ws" "length ws < length (u # vs)" "scalar (replaced y)"
      by (rule decode_step [of u vs])
    with 1 Cons show ?thesis by auto
  qed simp
qed

text \<open>Induction along the decoding of a sequence of units.\<close>

lemma decode_induct [case_names Nil step]:
  assumes "P []"
    and "\<And>u us x vs. code_points (u # us) = x # code_points vs \<Longrightarrow>
      (\<And>s. decode_utf16 s u us = (of_nat (replaced x), if x = None then STATUS_SOME_NOT_MAPPED else s, vs)) \<Longrightarrow>
      encode_utf8 (of_nat (replaced x)) = utf8 (replaced x) \<Longrightarrow> P vs \<Longrightarrow> P (u # us)"
  shows "P us"
proof (induction us rule: length_induct)
  case (1 us)
  show ?case
  proof (cases us)
    case (Cons u vs)
    obtain x ws where x: "code_points (u # vs) = x # code_points ws" "length ws < length (u # vs)" "scalar (replaced x)"
      "\<And>s. decode_utf16 s u vs = (of_nat (replaced x), if x = None then STATUS_SOME_NOT_MAPPED else s, ws)"
      by (rule decode_step [of u vs]) blast
    have "encode_utf8 (of_nat (replaced x)) = utf8 (replaced x)" using x(3) by (simp add: encode_utf8_ref scalar_def)
    with assms(2) [OF x(1) x(4)] 1 x(2) show ?thesis unfolding Cons by blast
  qed (simp add: assms(1))
qed

text \<open>What the loop stores in a destination, and that it only counts without one.\<close>

lemma utf8_loop_counts:
  "utf8_loop False s m w out us =
     (if None \<in> set (code_points us) then STATUS_SOME_NOT_MAPPED else s,
      w + of_nat (length (utf8s (map replaced (code_points us)))), out)"
proof (induction us arbitrary: s w rule: decode_induct)
  case (step u us x vs)
  then show ?case by (cases x) (simp_all add: Let_def add.assoc del: code_points.simps)
qed simp

lemma utf8_loop_full:
  "utf8_loop True s 0 w out us = (if us = [] then s else STATUS_BUFFER_TOO_SMALL, w, out)"
proof (induction us arbitrary: s rule: decode_induct)
  case (step u us x vs)
  have "\<not> (of_nat (length (utf8 (replaced x))) :: ULONG) \<le> 0"
    using length_utf8 [of "replaced x"] by (simp add: word_le_nat_alt unat_of_nat)
  with step show ?case by (simp add: Let_def)
qed simp

lemma utf8_loop_stores:
  fixes us defines "cs \<equiv> map replaced (code_points us)"
  shows "utf8_loop True s m w out us =
     (if fitting (unat m) cs \<noteq> cs then STATUS_BUFFER_TOO_SMALL
      else if None \<in> set (code_points us) then STATUS_SOME_NOT_MAPPED else s,
      w + of_nat (length (utf8s (fitting (unat m) cs))), out @ utf8s (fitting (unat m) cs))"
  unfolding cs_def
proof (induction us arbitrary: s m w out rule: decode_induct)
  case (step u us x vs)
  let ?b = "utf8 (replaced x)" and ?n = "of_nat (length (utf8 (replaced x))) :: ULONG"
  have n: "unat ?n = length ?b" using length_utf8 [of "replaced x"] by (intro unat_of_nat_small) simp
  have fits: "?n \<le> m \<longleftrightarrow> length ?b \<le> unat m" using n by (simp add: word_le_nat_alt)
  have rest: "unat (m - ?n) = unat m - length ?b" if "?n \<le> m" using that n by (simp add: unat_sub)
  show ?case
  proof (cases "?n \<le> m")
    case True
    with step rest fits show ?thesis by (cases x) (simp_all add: Let_def add.assoc del: code_points.simps)
  next
    case False
    with step fits show ?thesis by (simp add: Let_def utf8_loop_full del: code_points.simps)
  qed
qed simp

section \<open>UTF-8 to UTF-16\<close>

lemma ucast_unit: "unat (w :: ULONG) = x \<Longrightarrow> x < 0x10000 \<Longrightarrow> ucast w = (of_nat x :: WCHAR)"
  by (auto simp: word_unat_eq_iff unsigned_ucast_eq unsigned_take_bit_eq take_bit_nat_eq_self unat_of_nat)

lemma surrogate_unit:
  assumes "unat (A :: ULONG) = a" "a + 1024 \<le> 0x10000"
  shows "ucast (A + (drop_bit k (ch :: ULONG) AND 0x3ff)) = (of_nat (a + unat ch div 2 ^ k mod 1024) :: WCHAR)"
proof -
  have u: "unat (drop_bit k ch AND 0x3ff) = unat ch div 2 ^ k mod 1024"
    using unat_field [of k ch 10] by (simp add: mask_numeral)
  have "unat ch div 2 ^ k mod 1024 < 1024" by simp
  with assms have "a + unat ch div 2 ^ k mod 1024 < 0x10000" by linarith
  moreover from this have "unat (A + (drop_bit k ch AND 0x3ff)) = a + unat ch div 2 ^ k mod 1024"
    using assms(1) u by (subst unat_add_small) simp_all
  ultimately show ?thesis by (intro ucast_unit)
qed

text \<open>A code point is encoded when it is one and its form had no byte too many.\<close>

lemma encode_utf16_ref:
  assumes "scalar (unat ch)" "n = 2 \<Longrightarrow> 0x800 \<le> unat ch" "n = 3 \<Longrightarrow> 0x10000 \<le> unat ch"
  shows "encode_utf16 s n ch = (utf16 (unat ch), s)"
proof (cases "unat ch < 0x10000")
  case True
  then show ?thesis using assms ucast_unit [of ch]
    by (auto simp: encode_utf16_def utf16_def scalar_def word_le_nat_alt word_less_nat_alt)
next
  case False
  have "unat (ch - 0x10000) = unat ch - 0x10000" using False by (simp add: unat_sub word_le_nat_alt)
  moreover have "(unat ch - 0x10000) div 1024 < 1024"
    using assms(1) False by (auto simp: scalar_def less_mult_imp_div_less)
  ultimately show ?thesis using False assms
      surrogate_unit [of "0xd800" "0xd800" 10 "ch - 0x10000"] surrogate_unit [of "0xdc00" "0xdc00" 0 "ch - 0x10000"]
    by (auto simp: encode_utf16_def utf16_def Let_def scalar_def word_le_nat_alt word_less_nat_alt)
qed

lemma is_trail_bits: "b AND 0xc0 = 0x80 \<longleftrightarrow> is_trail b"
proof -
  have "NOT (mask 6) = (0xc0 :: UCHAR)" by code_simp
  then have "unat (b AND 0xc0) = unat b div 64 * 64" using unat_and_not_mask [of b 6] by simp
  then have "b AND 0xc0 = 0x80 \<longleftrightarrow> unat b div 64 * 64 = 128" by (simp add: word_unat_eq_iff)
  then show ?thesis by (auto simp: is_trail_def)
qed

lemma is_trail_byte:
  assumes "is_trail b"
  shows "b = of_nat (0x80 + unat b mod 64)"
proof -
  have "unat b = 0x80 + unat b mod 64" using assms div_mult_mod_eq [of "unat b" 64] by (simp add: is_trail_def)
  then show ?thesis by (metis of_nat_unat ucast_id)
qed

lemma lead_byte_spec:
  "lead_byte s b = (case trail_count b of
     None \<Rightarrow> (0xfffd, 0, STATUS_SOME_NOT_MAPPED) | Some t \<Rightarrow> (of_nat (lead_value t b), t, s))"
proof -
  have b: "unat b < 256" using unsigned_less [of b, where ?'a = nat] by simp
  have u: "unat (ucast b :: ULONG) = unat b" by (rule unat_ucast_UCHAR)
  have m: "ucast b AND mask k = (of_nat (unat b mod 2 ^ k) :: ULONG)" for k
    by (intro ulong_of_unat) (simp only: unat_and_mask u)
  have "ucast b = (of_nat (unat b) :: ULONG)" by (intro ulong_of_unat) (rule u)
  then show ?thesis
    using b u m [of 3] m [of 4] m [of 5]
    by (auto simp: lead_byte_def trail_count_def lead_value_def Let_def word_le_nat_alt mask_numeral)
qed

lemma trail_list_spec:
  assumes "n \<le> length bs" "(unat ch + 1) * 64 ^ n \<le> 2 ^ 26"
  shows "trail_list n ch bs = (let k = length (takeWhile is_trail (take n bs)) in
    if k < n then (None, drop k bs) else (Some (of_nat (trail_value (unat ch) (take n bs))), drop n bs))"
  using assms
proof (induction n arbitrary: ch bs)
  case (Suc n)
  then obtain b cs where bs: "bs = b # cs" "n \<le> length cs" by (cases bs) auto
  show ?case
  proof (cases "is_trail b")
    case True
    let ?ch = "of_nat (unat ch * 64 + unat b mod 64) :: ULONG"
    have "(unat ch + 1) * 64 * 1 \<le> (unat ch + 1) * 64 * 64 ^ n" by (intro mult_le_mono2) simp
    also have step: "(unat ch + 1) * 64 * 64 ^ n \<le> 2 ^ 26" using Suc.prems(2) by (simp only: power_Suc mult.assoc)
    finally have lt: "unat ch < 2 ^ 20" by simp
    have r: "unat b mod 64 < 64" by simp
    have "unat ch * 64 + q < 2 ^ 32" if "q < 64" for q using lt that by simp
    from this [OF r] have u: "unat ?ch = unat ch * 64 + unat b mod 64" by (intro unat_of_nat_small) simp
    have "a * 64 + q + 1 \<le> (a + 1) * 64" if "q < 64" for a q :: nat using that by simp
    from this [OF r] have "unat ?ch + 1 \<le> (unat ch + 1) * 64" unfolding u .
    then have "(unat ?ch + 1) * 64 ^ n \<le> (unat ch + 1) * 64 * 64 ^ n" by (rule mult_le_mono1)
    from this step have "(unat ?ch + 1) * 64 ^ n \<le> 2 ^ 26" by (rule le_trans)
    then have "trail_list n ?ch cs = (let k = length (takeWhile is_trail (take n cs)) in
        if k < n then (None, drop k cs) else (Some (of_nat (trail_value (unat ?ch) (take n cs))), drop n cs))"
      by (intro Suc.IH bs(2))
    moreover have "trail_list (Suc n) ch (b # cs) = trail_list n ?ch cs"
      using trail_step [OF r lt, of n cs] unfolding is_trail_byte [OF True, symmetric] .
    ultimately show ?thesis using True by (simp add: bs(1) u Let_def del: trail_list.simps of_nat_add of_nat_mult)
  next
    case False
    then show ?thesis by (simp add: bs(1) is_trail_bits)
  qed
qed simp

text \<open>The checks of the code on a complete form say that it is the form of a scalar value.\<close>

lemma trail_cases:
  assumes "trail_count b = Some (length bs)" "list_all is_trail bs"
  obtains (zero) "bs = []" "unat b < 0x80"
  | (one) m x where "bs = [of_nat (0x80 + x)]" "b = of_nat (0xC0 + m)" "2 \<le> m" "m < 32" "x < 64"
  | (two) m x y where "bs = [of_nat (0x80 + x), of_nat (0x80 + y)]" "b = of_nat (0xE0 + m)" "m < 16" "x < 64" "y < 64"
  | (three) m x y z where "bs = [of_nat (0x80 + x), of_nat (0x80 + y), of_nat (0x80 + z)]" "b = of_nat (0xF0 + m)"
      "m < 5" "x < 64" "y < 64" "z < 64"
proof -
  have b: "b = of_nat (k + (unat b - k))" if "k \<le> unat b" for k using that by simp
  have t: "x = of_nat (0x80 + unat x mod 64)" "unat x mod 64 < 64" if "x \<in> set bs" for x
    using that assms(2) is_trail_byte [of x] by (auto simp: list_all_iff)
  consider "length bs = 0" "unat b < 0x80" | "length bs = 1" "0xC2 \<le> unat b" "unat b \<le> 0xDF"
    | "length bs = 2" "0xE0 \<le> unat b" "unat b \<le> 0xEF" | "length bs = 3" "0xF0 \<le> unat b" "unat b \<le> 0xF4"
    using assms(1) by (auto simp: trail_count_def split: if_splits)
  then show ?thesis
  proof cases
    case 1
    then show ?thesis using zero by simp
  next
    case 2
    then obtain x where x: "bs = [x]" by (auto simp: length_Suc_conv)
    then show ?thesis using one [of "unat x mod 64" "unat b - 0xC0"] t [of x] b [of "0xC0"] 2 by (simp add: x)
  next
    case 3
    then obtain x y where x: "bs = [x, y]" by (auto simp: length_Suc_conv numeral_2_eq_2)
    then show ?thesis using two [of "unat x mod 64" "unat y mod 64" "unat b - 0xE0"] t [of x] t [of y] b [of "0xE0"] 3 by (simp add: x)
  next
    case 4
    then obtain x y z where x: "bs = [x, y, z]" by (auto simp: length_Suc_conv numeral_3_eq_3)
    then show ?thesis using three [of "unat x mod 64" "unat y mod 64" "unat z mod 64" "unat b - 0xF0"] t [of x] t [of y] t [of z]
      b [of "0xF0"] 4 by (simp add: x)
  qed
qed

lemma form_value:
  assumes "trail_count b = Some (length bs)" "list_all is_trail bs"
  defines "c \<equiv> trail_value (lead_value (length bs) b) bs"
  shows "c < 2 ^ 21" "length bs < 2 \<Longrightarrow> scalar c"
    "scalar_of b bs = (if scalar c \<and> (length bs = 2 \<longrightarrow> 0x800 \<le> c) \<and> (length bs = 3 \<longrightarrow> 0x10000 \<le> c) then Some c else None)"
proof -
  have u: "unat (of_nat k :: UCHAR) = k" if "k < 256" for k using that by (intro unat_of_nat_small) simp
  have md: "x < 64 \<Longrightarrow> (128 + x) mod 64 = x" "x < 32 \<Longrightarrow> (192 + x) mod 32 = x" "x < 16 \<Longrightarrow> (224 + x) mod 16 = x"
    "x < 8 \<Longrightarrow> (240 + x) mod 8 = x" for x :: nat
    by (simp_all add: mod_mult_self3 [of 2 64 x, simplified] mod_mult_self3 [of 6 32 x, simplified]
      mod_mult_self3 [of 14 16 x, simplified] mod_mult_self3 [of 30 8 x, simplified])
  have q: "(a * 64 + x) div 64 = a" "(a * 64 + x) mod 64 = x" if "x < 64" for a x :: nat using that by simp_all
  have "c < 2 ^ 21 \<and> (length bs < 2 \<longrightarrow> scalar c) \<and>
    (utf8 c = b # bs \<longleftrightarrow> (length bs = 2 \<longrightarrow> 0x800 \<le> c) \<and> (length bs = 3 \<longrightarrow> 0x10000 \<le> c))"
    using assms(1,2)
  proof (cases rule: trail_cases)
    case zero
    then show ?thesis by (simp add: c_def lead_value_def scalar_def utf8_def)
  next
    case (one m x)
    then have c: "c = m * 64 + x" using u [of "0xC0 + m"] u [of "0x80 + x"] by (simp add: c_def lead_value_def md)
    then have "c div 64 = m" "c mod 64 = x" "c < 0x800" "0x80 \<le> c" using one by simp_all
    then show ?thesis using one by (simp add: utf8_def scalar_def)
  next
    case (two m x y)
    then have c: "c = (m * 64 + x) * 64 + y"
      using u [of "0xE0 + m"] u [of "0x80 + x"] u [of "0x80 + y"] by (simp add: c_def lead_value_def md)
    then have d: "c div 64 = m * 64 + x" "c mod 64 = y" "c < 0x10000" using two q [of y "m * 64 + x"] by (simp_all only:) simp
    then have "c div 64 div 64 = m" "c div 64 mod 64 = x" using two q [of x m] by (simp_all only:)
    then show ?thesis using two d by (auto simp: utf8_def)
  next
    case (three m x y z)
    then have c: "c = ((m * 64 + x) * 64 + y) * 64 + z"
      using u [of "0xF0 + m"] u [of "0x80 + x"] u [of "0x80 + y"] u [of "0x80 + z"] by (simp add: c_def lead_value_def md)
    then have d: "c div 64 = (m * 64 + x) * 64 + y" "c mod 64 = z" "c < 2 ^ 21" using three q [of z "(m * 64 + x) * 64 + y"] by (simp_all only:) simp
    then have e: "c div 64 div 64 = m * 64 + x" "c div 64 mod 64 = y" using three q [of y "m * 64 + x"] by (simp_all only:)
    then have "c div 64 div 64 div 64 = m" "c div 64 div 64 mod 64 = x" using three q [of x m] by (simp_all only:)
    then show ?thesis using three d e by (auto simp: utf8_def)
  qed
  then show "c < 2 ^ 21" "length bs < 2 \<Longrightarrow> scalar c"
    "scalar_of b bs = (if scalar c \<and> (length bs = 2 \<longrightarrow> 0x800 \<le> c) \<and> (length bs = 3 \<longrightarrow> 0x10000 \<le> c) then Some c else None)"
    by (auto simp: scalar_of_def c_def [symmetric] Let_def)
qed

lemma utf16s_replaced: "utf16s (map replaced (replicate n None)) = replicate n 0xfffd"
  by (induction n) (simp_all add: replaced_def utf16_def)

lemma encode_form:
  assumes "trail_count b = Some (length bs)" "list_all is_trail bs"
  defines "ch \<equiv> of_nat (trail_value (lead_value (length bs) b) bs)"
    and "xs \<equiv> (case scalar_of b bs of Some c \<Rightarrow> [Some c] | None \<Rightarrow> replicate (length bs) None)"
  shows "encode_utf16 s (length bs) ch = (utf16s (map replaced xs), if None \<in> set xs then STATUS_SOME_NOT_MAPPED else s)" "xs \<noteq> []"
proof -
  let ?c = "trail_value (lead_value (length bs) b) bs" and ?n = "length bs"
  note v = form_value [OF assms(1,2)]
  have u: "unat ch = ?c" unfolding ch_def using v(1) by (intro unat_of_nat_small) simp
  have "encode_utf16 s ?n ch = (utf16s (map replaced xs), if None \<in> set xs then STATUS_SOME_NOT_MAPPED else s) \<and> xs \<noteq> []"
  proof (cases "scalar ?c \<and> (?n = 2 \<longrightarrow> 0x800 \<le> ?c) \<and> (?n = 3 \<longrightarrow> 0x10000 \<le> ?c)")
    case True
    then show ?thesis using v(3) encode_utf16_ref [of ch ?n s] u by (simp add: xs_def replaced_def)
  next
    case False
    then have "scalar_of b bs = None" using v(3) by (simp only: if_False)
    moreover have "?n \<noteq> 0" using False v(2) by auto
    moreover have "encode_utf16 s ?n ch = (replicate ?n 0xfffd, STATUS_SOME_NOT_MAPPED)"
      using False u by (auto simp: encode_utf16_def scalar_def word_le_nat_alt word_less_nat_alt)
    ultimately show ?thesis using utf16s_replaced [of ?n] by (simp add: xs_def del: map_map map_replicate)
  qed
  then show "encode_utf16 s ?n ch = (utf16s (map replaced xs), if None \<in> set xs then STATUS_SOME_NOT_MAPPED else s)" "xs \<noteq> []"
    by blast+
qed

lemma encode_replacement: "encode_utf16 s 0 0xfffd = (utf16s (map replaced [None]), s)"
  by (simp add: encode_utf16_def replaced_def utf16_def)

lemma lead_value_bound: "trail_count b = Some t \<Longrightarrow> (lead_value t b + 1) * 64 ^ t \<le> 2 ^ 26 \<and> lead_value t b < 128"
proof -
  assume t: "trail_count b = Some t"
  have "unat b mod 32 < 32" "unat b mod 16 < 16" "unat b mod 8 < 8" by simp_all
  then show ?thesis using t by (auto simp: trail_count_def lead_value_def split: if_splits)
qed

lemma decode_list_step:
  obtains xs rest ch n bad where "utf8_points (b # bs) = xs @ utf8_points rest" "xs \<noteq> []" "length rest \<le> length bs"
    "\<And>s. decode_list s b bs = (ch, n, if bad then STATUS_SOME_NOT_MAPPED else s, rest)"
    "\<And>s. encode_utf16 s n ch = (utf16s (map replaced xs), if \<not> bad \<and> None \<in> set xs then STATUS_SOME_NOT_MAPPED else s)"
    "bad \<Longrightarrow> None \<in> set xs"
proof (cases "trail_count b")
  case None
  then show ?thesis using encode_replacement by (intro that [of "[None]" bs "0xfffd" 0 True]) (simp_all add: decode_list_def lead_byte_spec)
next
  case (Some t)
  let ?k = "length (takeWhile is_trail (take t bs))" and ?ch = "of_nat (lead_value t b) :: ULONG"
  consider "length bs < t" | "t \<le> length bs" "?k < t" | "t \<le> length bs" "\<not> ?k < t" by linarith
  then show ?thesis
  proof cases
    case 1
    then show ?thesis using Some encode_replacement
      by (intro that [of "[None]" "[]" "0xfffd" 0 True]) (simp_all add: decode_list_def lead_byte_spec)
  next
    case 2
    have u: "unat ?ch = lead_value t b" using lead_value_bound [OF Some] by (intro unat_of_nat_small) simp
    then have "trail_list t ?ch bs = (None, drop ?k bs)"
      using trail_list_spec [of t bs ?ch] lead_value_bound [OF Some] 2 by (simp add: Let_def)
    then show ?thesis using Some 2 encode_replacement
      by (intro that [of "[None]" "drop ?k bs" "0xfffd" 0 True]) (simp_all add: decode_list_def lead_byte_spec Let_def)
  next
    case 3
    have u: "unat ?ch = lead_value t b" using lead_value_bound [OF Some] by (intro unat_of_nat_small) simp
    let ?bs = "take t bs" let ?c = "of_nat (trail_value (lead_value t b) ?bs) :: ULONG"
    have l: "length ?bs = t" using 3(1) by simp
    have "takeWhile is_trail ?bs = ?bs" using 3 l by (metis length_takeWhile_le linorder_not_less takeWhile_eq_take take_all_iff)
    then have all: "list_all is_trail ?bs" by (simp add: takeWhile_eq_all_conv list_all_iff)
    have "trail_list t ?ch bs = (Some ?c, drop t bs)"
      using trail_list_spec [of t bs ?ch] lead_value_bound [OF Some] 3 u by (simp add: Let_def)
    then have d: "decode_list s b bs = (?c, t, s, drop t bs)" for s using Some 3(1) by (simp add: decode_list_def lead_byte_spec)
    let ?xs = "case scalar_of b ?bs of Some c \<Rightarrow> [Some c] | None \<Rightarrow> replicate t None"
    have "trail_count b = Some (length ?bs)" using Some l by simp
    note e = encode_form [OF this all, unfolded l]
    show ?thesis
      using Some 3 d e by (intro that [of ?xs "drop t bs" ?c t False]) (simp_all add: Let_def)
  qed
qed

text \<open>The index of the code and the rest of the bytes.\<close>

lemma read_trail_list:
  assumes "\<And>k. k < length l \<Longrightarrow> array_get src k = Some (l ! k)" "unat i < length l" "t \<le> length (drop (Suc (unat i)) l)" "length l < 2 ^ 32"
  shows "\<exists>i'. read_trail src t ch i = Some (fst (trail_list t ch (drop (Suc (unat i)) l)), i') \<and>
    snd (trail_list t ch (drop (Suc (unat i)) l)) = drop (Suc (unat i')) l \<and> unat i' < length l"
  using assms(2,3)
proof (induction t arbitrary: ch i)
  case (Suc t)
  have lt: "Suc (unat i) < length l" using Suc.prems(2) by simp
  then have i: "unat (i + 1) = Suc (unat i)" using assms(4) by (subst unat_add_small) simp_all
  have l: "drop (Suc (unat i)) l = l ! Suc (unat i) # drop (Suc (Suc (unat i))) l" using lt by (simp add: Cons_nth_drop_Suc)
  have get: "array_get src (unat (i + 1)) = Some (l ! Suc (unat i))" using assms(1) [OF lt] i by simp
  show ?case
  proof (cases "l ! Suc (unat i) AND 0xc0 = 0x80")
    case True
    let ?ch = "push_bit 6 ch OR ucast (l ! Suc (unat i) AND 0x3f)"
    from Suc.IH [of "i + 1" ?ch] lt Suc.prems(2) i
    show ?thesis using True get by (simp add: l)
  next
    case False
    then show ?thesis using get lt Suc.prems(1) by (simp add: l)
  qed
qed simp

lemma decode_index:
  assumes n: "unat n \<le> length src" and l: "l = take (unat n) src" "drop (unat i) l = b # bs" and i: "i < n"
    and safe: "\<And>t. trail_count b = Some t \<Longrightarrow> unat i + t < 2 ^ 32 \<and> (t \<le> length bs \<or> unat n < 2 ^ 32 - 1)"
  obtains i' where "\<And>s. decode_utf8 src n s i = Some (case decode_list s b bs of (ch, t, s, rest) \<Rightarrow> (ch, t, s, i'))"
    "\<And>s ch t s' rest. decode_list s b bs = (ch, t, s', rest) \<Longrightarrow> drop (unat (i' + 1)) l = rest"
proof -
  have n32: "unat n < 2 ^ 32" using unsigned_less [of n, where ?'a = nat] by simp
  have len: "length l = unat n" using n l(1) by simp
  have lt: "unat i < length l" using i len by (simp add: word_less_nat_alt)
  have get: "array_get src k = Some (l ! k)" if "k < length l" for k using that l(1) n by simp
  have b: "l ! unat i = b" "drop (Suc (unat i)) l = bs" "length bs = unat n - Suc (unat i)"
    using Cons_nth_drop_Suc [OF lt] l(2) len by auto
  obtain ch0 t bad where lead: "\<And>s. lead_byte s b = (ch0, t, if bad then STATUS_SOME_NOT_MAPPED else s)"
    and t: "unat i + t < 2 ^ 32" "t \<le> length bs \<or> unat n < 2 ^ 32 - 1"
  proof (cases "trail_count b")
    case None
    then show ?thesis using that [of "0xfffd" 0 True] lt len n32 by (simp add: lead_byte_spec)
  next
    case (Some t)
    then show ?thesis using that [of "of_nat (lead_value t b)" t False] safe by (simp add: lead_byte_spec)
  qed
  have it: "unat (i + of_nat t) = unat i + t"
  proof -
    have "unat (of_nat t :: ULONG) = t" using t(1) by (intro unat_of_nat_small) simp
    then show ?thesis using t(1) by (subst unat_add_small) simp_all
  qed
  then have test: "i + of_nat t < n \<longleftrightarrow> t \<le> length bs" using b(3) lt len by (simp add: word_less_nat_alt) linarith
  have next_i: "unat (j + 1) = Suc (unat j)" if "unat j < 2 ^ 32 - 1" for j :: ULONG
    using that by (subst unat_add_small) simp_all
  show ?thesis
  proof (cases "t \<le> length bs")
    case True
    obtain i' where i': "read_trail src t ch0 i = Some (fst (trail_list t ch0 bs), i')"
      "snd (trail_list t ch0 bs) = drop (Suc (unat i')) l" "unat i' < length l"
      using read_trail_list [OF get lt, of t ch0] True n32 len unfolding b(2) by auto
    have "unat (i' + 1) = Suc (unat i')" using i'(3) len n32 by (intro next_i) linarith
    then show ?thesis using True test lead i' get [OF lt] b(1)
      by (intro that [of i']) (auto simp: decode_utf8_def decode_list_def split: option.splits prod.splits)
  next
    case False
    then have "unat (n + 1) = Suc (unat n)" using t(2) by (intro next_i) simp
    then show ?thesis using False test lead get [OF lt] b(1) len
      by (intro that [of n]) (auto simp: decode_utf8_def decode_list_def)
  qed
qed

lemma store_units_takes:
  obtains m' where "store_units s m w out ws =
      (if unat m div 2 < length ws then STATUS_BUFFER_TOO_SMALL else s, m',
       w + of_nat (length (take (unat m div 2) ws)), out @ take (unat m div 2) ws)"
    "unat m' div 2 = unat m div 2 - length ws"
proof (induction ws arbitrary: s m w out thesis)
  case (Cons x ws)
  show ?case
  proof (cases "2 \<le> m")
    case True
    then have "2 \<le> unat m" "unat (m - 2) = unat m - 2" by (simp_all add: unat_sub word_le_nat_alt)
    then have k: "unat m div 2 = Suc (unat (m - 2) div 2)" by (simp add: div_if)
    obtain m' where "store_units s (m - 2) (w + 1) (out @ [x]) ws =
      (if unat (m - 2) div 2 < length ws then STATUS_BUFFER_TOO_SMALL else s, m',
       w + 1 + of_nat (length (take (unat (m - 2) div 2) ws)), out @ [x] @ take (unat (m - 2) div 2) ws)"
      "unat m' div 2 = unat (m - 2) div 2 - length ws"
      by (rule Cons.IH [of s "m - 2" "w + 1" "out @ [x]"]) simp
    then show ?thesis using True Cons.prems [of m'] k by (simp add: add.assoc)
  next
    case False
    then have k: "unat m div 2 = 0" by (simp add: word_le_nat_alt)
    obtain m' where "store_units STATUS_BUFFER_TOO_SMALL 0 w out ws = (STATUS_BUFFER_TOO_SMALL, m', w, out)"
      "unat m' div 2 = 0"
      by (rule Cons.IH [of STATUS_BUFFER_TOO_SMALL 0 w out]) simp
    then show ?thesis using False Cons.prems [of m'] k by simp
  qed
qed simp

text \<open>A form that the end cuts off moves the index to the end of the source; if that has \<open>2 ^ 32 - 1\<close> bytes, the next index is 0.\<close>

lemma decode_utf8_restarts:
  assumes "array_get src (unat i) = Some b" "trail_count b = Some t" "\<not> i + of_nat t < n" "n = 0xFFFFFFFF"
  shows "decode_utf8 src n s i = Some (0xfffd, 0, STATUS_SOME_NOT_MAPPED, n) \<and> n + 1 = 0"
  using assms by (simp add: decode_utf8_def lead_byte_spec)

lemma utf16s_empty: "utf16s cs = [] \<longleftrightarrow> cs = []"
  by (cases cs) (simp_all add: utf16_def)

lemma utf16_runs_end:
  assumes "unat n \<le> length src" "drop (unat i) (take (unat n) src) = []"
  shows "utf16_runs src n i [] False"
proof -
  have "\<not> i < n" using assms by (simp add: word_less_nat_alt)
  then show ?thesis by (simp add: utf16_runs_def utf16_loop.simps [of src n])
qed

lemma utf16_runs_step:
  assumes "i < n" and d: "\<And>s. decode_utf8 src n s i = Some (ch, k, if bad1 then STATUS_SOME_NOT_MAPPED else s, i')"
    and e: "\<And>s. encode_utf16 s k ch = (utf16s cs1, if bad2 then STATUS_SOME_NOT_MAPPED else s)"
    and runs: "utf16_runs src n (i' + 1) cs bad" and ne: "cs1 \<noteq> []"
  shows "utf16_runs src n i (cs1 @ cs) (bad1 \<or> bad2 \<or> bad)"
  unfolding utf16_runs_def
proof (intro allI conjI impI)
  fix s :: NTSTATUS and m w :: ULONG and out :: "WCHAR list"
  let ?s = "if bad1 \<or> bad2 then STATUS_SOME_NOT_MAPPED else s" and ?k = "unat m div 2"
  have e': "encode_utf16 (if bad1 then STATUS_SOME_NOT_MAPPED else s) k ch = (utf16s cs1, ?s)" by (simp add: e)
  note loop = utf16_loop.simps [of src n _ s m w out i]
  show "utf16_loop src n False s m w out i = Some (if bad1 \<or> bad2 \<or> bad then STATUS_SOME_NOT_MAPPED else s,
      w + of_nat (length (utf16s (cs1 @ cs))), out)"
    using runs assms(1) by (simp add: loop d e' utf16_runs_def)
  have bad: "bad \<Longrightarrow> 0 < length (utf16s cs)" using runs utf16s_empty [of cs] by (auto simp: utf16_runs_def)
  obtain m' where m': "store_units ?s m w out (utf16s cs1) =
      (if ?k < length (utf16s cs1) then STATUS_BUFFER_TOO_SMALL else ?s, m',
       w + of_nat (length (take ?k (utf16s cs1))), out @ take ?k (utf16s cs1))"
    "unat m' div 2 = ?k - length (utf16s cs1)"
    by (rule store_units_takes)
  show "utf16_loop src n True s m w out i =
      Some (if ?k < length (utf16s (cs1 @ cs)) then STATUS_BUFFER_TOO_SMALL
       else if bad1 \<or> bad2 \<or> bad then STATUS_SOME_NOT_MAPPED else s,
       w + of_nat (length (take ?k (utf16s (cs1 @ cs)))), out @ take ?k (utf16s (cs1 @ cs)))"
  proof (cases "?k < length (utf16s cs1)")
    case True
    with runs m' bad assms(1) show ?thesis by (simp add: loop d e' utf16_runs_def)
  next
    case False
    then have "unat m div 2 - length (utf16s cs1) < length (utf16s cs) \<longleftrightarrow> ?k < length (utf16s (cs1 @ cs))"
      by simp linarith
    with False runs m' assms(1) show ?thesis by (simp add: loop d e' utf16_runs_def add.assoc)
  qed
qed (use ne in simp)

text \<open>On every source that the index can count past the end of, the loop produces its code points.\<close>

lemma utf16_runs_points:
  assumes n: "unat n \<le> length src" "unat n < 2 ^ 32 - 2"
  defines "points i \<equiv> utf8_points (drop (unat i) (take (unat n) src))"
  shows "utf16_runs src n i (map replaced (points i)) (None \<in> set (points i))"
proof (induction "length (drop (unat i) (take (unat n) src))" arbitrary: i rule: less_induct)
  case less
  let ?l = "take (unat n) src"
  show ?case
  proof (cases "drop (unat i) ?l")
    case Nil
    then show ?thesis using utf16_runs_end [OF n(1) Nil] by (simp add: points_def)
  next
    case (Cons b bs)
    have i: "i < n" using Cons n(1) by (cases "i < n") (auto simp: word_less_nat_alt)
    have safe: "unat i + t < 2 ^ 32 \<and> (t \<le> length bs \<or> unat n < 2 ^ 32 - 1)" if "trail_count b = Some t" for t
      using that i n(2) by (auto simp: trail_count_def word_less_nat_alt split: if_splits)
    obtain i' where i': "\<And>s. decode_utf8 src n s i = Some (case decode_list s b bs of (ch, t, s, rest) \<Rightarrow> (ch, t, s, i'))"
        "\<And>s ch t s' rest. decode_list s b bs = (ch, t, s', rest) \<Longrightarrow> drop (unat (i' + 1)) ?l = rest"
      by (rule decode_index [OF n(1) refl Cons i safe]) (assumption, rule that)
    obtain xs rest ch k bad where step: "utf8_points (b # bs) = xs @ utf8_points rest" "xs \<noteq> []" "length rest \<le> length bs"
      "\<And>s. decode_list s b bs = (ch, k, if bad then STATUS_SOME_NOT_MAPPED else s, rest)"
      "\<And>s. encode_utf16 s k ch = (utf16s (map replaced xs), if \<not> bad \<and> None \<in> set xs then STATUS_SOME_NOT_MAPPED else s)"
      "bad \<Longrightarrow> None \<in> set xs" by (rule decode_list_step [of b bs]) blast
    have rest: "drop (unat (i' + 1)) ?l = rest" by (rule i'(2) [OF step(4)])
    have "utf16_runs src n (i' + 1) (map replaced (points (i' + 1))) (None \<in> set (points (i' + 1)))"
      using Cons rest step(3) by (intro less) simp
    moreover have "decode_utf8 src n s i = Some (ch, k, if bad then STATUS_SOME_NOT_MAPPED else s, i')" for s
      by (simp add: i'(1) step(4))
    ultimately have "utf16_runs src n i (map replaced xs @ map replaced (points (i' + 1)))
        (bad \<or> (\<not> bad \<and> None \<in> set xs) \<or> None \<in> set (points (i' + 1)))"
      using step(2) by (intro utf16_runs_step [OF i _ step(5)]) simp_all
    moreover have "points i = xs @ points (i' + 1)" using step(1) by (simp add: points_def Cons rest)
    ultimately show ?thesis using step(6) by (cases bad) simp_all
  qed
qed

text \<open>On a well-formed source the index does not get past the end, so its length does not matter.\<close>

lemma trail_count_utf8:
  assumes "scalar c" "utf8 c = b # bs"
  shows "trail_count b = Some (length bs)"
proof -
  have u: "unat (of_nat k :: UCHAR) = k" if "k < 256" for k using that by (intro unat_of_nat_small) simp
  have c: "c < 0x110000" using assms(1) by (simp add: scalar_def)
  consider "c < 0x80" | "0x80 \<le> c" "c < 0x800" | "0x800 \<le> c" "c < 0x10000" | "0x10000 \<le> c" by linarith
  then show ?thesis
  proof cases
    case 1
    then show ?thesis using assms(2) u [of c] by (auto simp: utf8_def trail_count_def)
  next
    case 2
    then have x: "2 \<le> c div 64" "c div 64 < 32" by (simp_all add: less_mult_imp_div_less div_le_mono [of "0x80" c 64, simplified])
    have "b = of_nat (0xC0 + c div 64)" "length bs = 1" using 2 assms(2) by (auto simp: utf8_def simp del: of_nat_add)
    then show ?thesis using x u [of "0xC0 + c div 64"] by (simp add: trail_count_def del: of_nat_add)
  next
    case 3
    then have x: "c div 64 div 64 < 16" by (simp add: less_mult_imp_div_less)
    have "b = of_nat (0xE0 + c div 64 div 64)" "length bs = 2" using 3 assms(2) by (auto simp: utf8_def simp del: of_nat_add)
    then show ?thesis using x u [of "0xE0 + c div 64 div 64"] by (simp add: trail_count_def del: of_nat_add)
  next
    case 4
    then have x: "c div 64 div 64 div 64 < 5" using c by (simp add: less_mult_imp_div_less)
    have "b = of_nat (0xF0 + c div 64 div 64 div 64)" "length bs = 3" using 4 assms(2) by (auto simp: utf8_def simp del: of_nat_add)
    then show ?thesis using x u [of "0xF0 + c div 64 div 64 div 64"] by (simp add: trail_count_def del: of_nat_add)
  qed
qed

lemma utf16_runs_utf8s:
  assumes n: "unat n \<le> length src"
  shows "list_all scalar cs \<Longrightarrow> drop (unat i) (take (unat n) src) = utf8s cs \<Longrightarrow> utf16_runs src n i cs False"
proof (induction cs arbitrary: i)
  case Nil
  then show ?case using utf16_runs_end [OF n] by simp
next
  case (Cons c cs)
  let ?l = "take (unat n) src"
  have sc: "scalar c" using Cons.prems(1) by simp
  obtain b bs where b: "utf8 c = b # bs" "\<And>s rest. decode_list s b (bs @ rest) = (of_nat c, length bs, s, rest)"
    by (rule utf8_decode [OF sc]) blast
  have drop: "drop (unat i) ?l = b # (bs @ utf8s cs)" using Cons.prems(2) b(1) by simp
  have len: "length (drop (unat i) ?l) = unat n - unat i" using n by simp
  have i: "i < n" using drop len by (simp add: word_less_nat_alt)
  have n32: "unat n < 2 ^ 32" using unsigned_less [of n, where ?'a = nat] by simp
  have "Suc (length bs + length (utf8s cs)) = unat n - unat i" using len unfolding drop by simp
  then have "unat i + length bs < 2 ^ 32" using n32 by linarith
  then have safe: "unat i + t < 2 ^ 32 \<and> (t \<le> length (bs @ utf8s cs) \<or> unat n < 2 ^ 32 - 1)" if "trail_count b = Some t" for t
    using that trail_count_utf8 [OF sc b(1)] by simp
  obtain i' where i': "\<And>s. decode_utf8 src n s i = Some (case decode_list s b (bs @ utf8s cs) of (ch, t, s, rest) \<Rightarrow> (ch, t, s, i'))"
      "\<And>s ch t s' rest. decode_list s b (bs @ utf8s cs) = (ch, t, s', rest) \<Longrightarrow> drop (unat (i' + 1)) ?l = rest"
    by (rule decode_index [OF n refl drop i safe]) (assumption, rule that)
  have u: "unat (of_nat c :: ULONG) = c" using sc by (intro unat_of_nat_small) (simp add: scalar_def)
  have "length bs = 2 \<Longrightarrow> 0x800 \<le> c" "length bs = 3 \<Longrightarrow> 0x10000 \<le> c"
    using b(1) by (auto simp: utf8_def split: if_splits)
  then have e: "encode_utf16 s (length bs) (of_nat c) = (utf16s [c], if False then STATUS_SOME_NOT_MAPPED else s)" for s
    using encode_utf16_ref [of "of_nat c" "length bs" s] sc u by simp
  have r: "utf16_runs src n (i' + 1) cs False" using Cons.IH [of "i' + 1"] Cons.prems(1) i'(2) [OF b(2)] by simp
  have d: "decode_utf8 src n s i = Some (of_nat c, length bs, if False then STATUS_SOME_NOT_MAPPED else s, i')" for s
    by (simp add: i'(1) b(2))
  show ?case using utf16_runs_step [OF i d e r] by simp
qed

lemma code_points_utf16s: "list_all scalar cs \<Longrightarrow> code_points (utf16s cs) = map Some cs"
proof (induction cs)
  case (Cons c cs)
  show ?case
  proof (cases "c < 0x10000")
    case True
    with Cons show ?thesis by (auto simp: utf16_def scalar_def unat_of_nat_USHORT)
  next
    case False
    define h l where hl: "h = (c - 0x10000) div 1024" "l = (c - 0x10000) mod 1024"
    have d: "h < 1024" "l < 1024" "h * 1024 + l = c - 0x10000"
      unfolding hl using Cons.prems False by (auto simp: scalar_def less_mult_imp_div_less)
    then have "unat (of_nat (0xD800 + h) :: WCHAR) = 0xD800 + h" "unat (of_nat (0xDC00 + l) :: WCHAR) = 0xDC00 + l"
      by (intro unat_of_nat_USHORT, linarith)+
    with d False Cons show ?thesis by (simp add: utf16_def [of c] del: of_nat_add flip: hl)
  qed
qed simp

lemma fitting_all: "length (utf8s cs) \<le> m \<Longrightarrow> fitting m cs = cs"
  by (induction cs arbitrary: m) auto

lemma fitting_bound: "length (utf8s (fitting m cs)) \<le> m"
proof (induction m cs rule: fitting.induct)
  case (2 m c cs)
  then show ?case by (cases "length (utf8 c) \<le> m") auto
qed simp

lemma fitting_set: "set (fitting m cs) \<subseteq> set cs"
  by (induction m cs rule: fitting.induct) auto

lemma half_of_double:
  assumes "2 * k < 2 ^ 32"
  shows "unat ((of_nat (2 * k) :: ULONG) div 2) = k" "(of_nat (2 * k) :: ULONG) mod 2 = 0"
proof -
  have "unat (of_nat (2 * k) :: ULONG) = 2 * k" by (rule unat_of_nat_small) (use assms in simp)
  then show "unat ((of_nat (2 * k) :: ULONG) div 2) = k" "(of_nat (2 * k) :: ULONG) mod 2 = 0"
    by (simp_all add: unat_div word_unat_eq_iff unat_mod del: of_nat_mult)
qed

section \<open>The conversions\<close>

text \<open>
  C19. On every source, well-formed or not, RtlUnicodeToUTF8N stores the UTF-8 form of the
  longest prefix of the code points of the source that fits the destination, unpaired
  surrogates replaced by U+FFFD. It returns STATUS_BUFFER_TOO_SMALL exactly when something
  did not fit, else STATUS_SOME_NOT_MAPPED exactly when there was an unpaired surrogate, and
  without a destination it returns the number of bytes of the whole result.
\<close>

theorem RtlUnicodeToUTF8N_correct:
  fixes src :: "WCHAR list" and uni_bytes utf8_bytes_max :: ULONG
  assumes "uni_bytes mod 2 = 0" and "us = take (unat (uni_bytes div 2)) src"
    and "cs = map replaced (code_points us)" and "stored = fitting (unat utf8_bytes_max) cs"
    and "decoded = (if None \<in> set (code_points us) then STATUS_SOME_NOT_MAPPED else STATUS_SUCCESS)"
  shows "RtlUnicodeToUTF8N False utf8_bytes_max True (Some src) uni_bytes =
           (decoded, Some (of_nat (length (utf8s cs))), []) \<and>
         RtlUnicodeToUTF8N True utf8_bytes_max True (Some src) uni_bytes =
           (if stored = cs then decoded else STATUS_BUFFER_TOO_SMALL,
            Some (of_nat (length (utf8s stored))), utf8s stored)"
  using assms by (simp add: RtlUnicodeToUTF8N_def utf8_loop_stores utf8_loop_counts)

text \<open>A surrogate without partner between two characters, and room for the first two.\<close>

theorem RtlUnicodeToUTF8N_correct_witness:
  "RtlUnicodeToUTF8N False 5 True (Some [0xE9, 0xD800, 0x41]) 6 = (STATUS_SOME_NOT_MAPPED, Some 6, []) \<and>
   RtlUnicodeToUTF8N True 5 True (Some [0xE9, 0xD800, 0x41]) 6 =
     (STATUS_BUFFER_TOO_SMALL, Some 5, [0xC3, 0xA9, 0xEF, 0xBF, 0xBD])"
proof -
  let ?us = "[0xE9, 0xD800, 0x41] :: WCHAR list"
  have us: "?us = take (unat (6 div 2 :: ULONG)) ?us" and even: "(6 :: ULONG) mod 2 = 0" by code_simp+
  have cs: "[0xE9, 0xFFFD, 0x41] = map replaced (code_points ?us)" and bad: "None \<in> set (code_points ?us)"
    by (simp_all add: replaced_def)
  have all: "[0xE9, 0xFFFD] = fitting (unat (5 :: ULONG)) [0xE9, 0xFFFD, 0x41]" by (simp add: utf8_def)
  from bad RtlUnicodeToUTF8N_correct [OF even us cs all refl] show ?thesis by (simp add: utf8_def)
qed

text \<open>
  C28. Whatever the arguments are, the bytes RtlUnicodeToUTF8N stores are well-formed UTF-8
  (the forms of a sequence of Unicode scalar values, none of them cut) and are no more than
  the destination has.
\<close>

theorem RtlUnicodeToUTF8N_well_formed:
  "\<exists>cs. list_all scalar cs \<and>
     snd (snd (RtlUnicodeToUTF8N utf8_dest utf8_bytes_max utf8_bytes_written uni_src uni_bytes)) = utf8s cs \<and>
     length (utf8s cs) \<le> unat utf8_bytes_max"
proof -
  have "list_all scalar (fitting m (map replaced (code_points us)))" for m us
    using fitting_set [of m "map replaced (code_points us)"] code_points_scalar [of _ us] by (auto simp: list_all_iff)
  then have "\<exists>cs. list_all scalar cs \<and> snd (snd (utf8_loop True STATUS_SUCCESS utf8_bytes_max 0 [] us)) = utf8s cs \<and>
      length (utf8s cs) \<le> unat utf8_bytes_max" for us
    by (intro exI [of _ "fitting (unat utf8_bytes_max) (map replaced (code_points us))"])
      (simp add: utf8_loop_stores fitting_bound)
  moreover have "\<exists>cs. list_all scalar cs \<and> [] = utf8s cs \<and> length (utf8s cs) \<le> unat utf8_bytes_max"
    by (intro exI [of _ "[]"]) simp
  ultimately show ?thesis
    by (cases utf8_dest) (simp_all add: RtlUnicodeToUTF8N_def utf8_loop_counts case_prod_unfold split: option.split)
qed

text \<open>
  C30. For every source of at most 2^32 - 3 bytes, well-formed or not, RtlUTF8ToUnicodeN
  returns. Its result is the UTF-16 form of the code points of the source, which are defined
  on the bytes: a valid sequence gives its scalar value; an invalid lead byte or a sequence
  broken by a byte that is no trail byte gives one U+FFFD; a complete sequence that is
  overlong, a surrogate or too large gives one for each trail byte; and a sequence the
  source is too short for gives one and ends the conversion. Without a destination it
  returns the size of the whole result (modulo 2^32); with one it stores exactly the units
  there is room for, never more, and returns STATUS_BUFFER_TOO_SMALL exactly when some did
  not fit, else STATUS_SOME_NOT_MAPPED exactly when a code point was replaced.
\<close>

theorem RtlUTF8ToUnicodeN_correct:
  assumes "unat utf8_bytes \<le> length src" "unat utf8_bytes < 2 ^ 32 - 2"
    and "points = utf8_points (take (unat utf8_bytes) src)" and "units = utf16s (map replaced points)"
    and "decoded = (if None \<in> set points then STATUS_SOME_NOT_MAPPED else STATUS_SUCCESS)"
  shows "RtlUTF8ToUnicodeN False uni_bytes_max True (Some src) utf8_bytes =
           Some (decoded, Some (of_nat (2 * length units)), []) \<and>
         RtlUTF8ToUnicodeN True uni_bytes_max True (Some src) utf8_bytes =
           Some (if length units \<le> unat uni_bytes_max div 2 then decoded else STATUS_BUFFER_TOO_SMALL,
                 Some (of_nat (2 * length (take (unat uni_bytes_max div 2) units))), take (unat uni_bytes_max div 2) units)"
proof -
  have "utf16_runs src utf8_bytes 0 (map replaced points) (None \<in> set points)"
    using utf16_runs_points [OF assms(1,2), of 0] by (simp add: assms(3))
  moreover have "n * 2 = (2 * n :: ULONG)" for n by simp
  ultimately show ?thesis
    unfolding assms(4,5) by (simp add: RtlUTF8ToUnicodeN_def utf16_runs_def not_less [symmetric])
qed

text \<open>A lead byte without trail byte before a letter, an overlong form of two trail bytes, and a form that is cut off.\<close>

theorem RtlUTF8ToUnicodeN_correct_witness:
  "RtlUTF8ToUnicodeN True 8 True (Some [0xC3, 0x41, 0xE0, 0x80, 0x80, 0xF0, 0x9F]) 7 =
     Some (STATUS_BUFFER_TOO_SMALL, Some 8, [0xFFFD, 0x41, 0xFFFD, 0xFFFD]) \<and>
   RtlUTF8ToUnicodeN True 10 True (Some [0xC3, 0x41, 0xE0, 0x80, 0x80, 0xF0, 0x9F]) 7 =
     Some (STATUS_SOME_NOT_MAPPED, Some 10, [0xFFFD, 0x41, 0xFFFD, 0xFFFD, 0xFFFD])"
proof -
  let ?src = "[0xC3, 0x41, 0xE0, 0x80, 0x80, 0xF0, 0x9F] :: UCHAR list"
  have pts: "[None, Some 0x41, None, None, None] = utf8_points (take (unat (7 :: ULONG)) ?src)"
    by (simp add: trail_count_def is_trail_def scalar_of_def lead_value_def utf8_def scalar_def Let_def)
      (simp add: numeral_2_eq_2)
  have units: "[0xFFFD, 0x41, 0xFFFD, 0xFFFD, 0xFFFD] = utf16s (map replaced [None, Some 0x41, None, None, None])"
    by (simp add: replaced_def utf16_def)
  note t = RtlUTF8ToUnicodeN_correct [OF _ _ pts units refl]
  from t [of 8] t [of 10] show ?thesis by simp
qed

text \<open>
  C5. For every sequence of Unicode scalar values and sufficient buffers, RtlUnicodeToUTF8N
  succeeds on its UTF-16 form with exactly its UTF-8 form (as the Unicode standard defines
  both), and RtlUTF8ToUnicodeN maps these bytes back to the UTF-16 units, both with the
  right number of bytes written.
\<close>

theorem utf8_round_trip:
  assumes "list_all scalar cs" and "us = utf16s cs" and "bs = utf8s cs"
    and "length bs \<le> unat utf8_bytes_max" and "2 * length us \<le> unat uni_bytes_max"
  shows "RtlUnicodeToUTF8N True utf8_bytes_max True (Some us) (of_nat (2 * length us)) =
           (STATUS_SUCCESS, Some (of_nat (length bs)), bs) \<and>
         RtlUTF8ToUnicodeN True uni_bytes_max True (Some bs) (of_nat (length bs)) =
           Some (STATUS_SUCCESS, Some (of_nat (2 * length us)), us)"
proof
  have b: "unat m < 2 ^ 32" for m :: ULONG using unsigned_less [of m, where ?'a = nat] by simp
  have n: "2 * length us < 2 ^ 32" "length bs < 2 ^ 32" using assms(4,5) b le_less_trans by blast+
  have "None \<notin> set (code_points us)" "map replaced (code_points us) = cs"
    using assms(1,2) by (simp_all add: code_points_utf16s replaced_def comp_def)
  then show "RtlUnicodeToUTF8N True utf8_bytes_max True (Some us) (of_nat (2 * length us)) =
      (STATUS_SUCCESS, Some (of_nat (length bs)), bs)"
    using half_of_double [OF n(1)] assms(3,4)
    by (simp add: RtlUnicodeToUTF8N_def utf8_loop_stores fitting_all del: of_nat_mult)
  have "unat (of_nat (length bs) :: ULONG) = length bs" using n(2) by (intro unat_of_nat_small) simp
  then have "utf16_runs bs (of_nat (length bs)) 0 cs False"
    using utf16_runs_utf8s [of "of_nat (length bs)" bs cs 0] assms(1,3) by simp
  moreover have "length us \<le> unat uni_bytes_max div 2" using assms(5) by linarith
  ultimately show "RtlUTF8ToUnicodeN True uni_bytes_max True (Some bs) (of_nat (length bs)) =
      Some (STATUS_SUCCESS, Some (of_nat (2 * length us)), us)"
    using assms(2) by (simp add: RtlUTF8ToUnicodeN_def utf16_runs_def mult.commute)
qed

text \<open>A character of each length: Latin letters, the euro sign, and one beyond the first plane.\<close>

theorem utf8_round_trip_witness:
  "RtlUnicodeToUTF8N True 16 True (Some [0x41, 0xE9, 0x20AC, 0xD83D, 0xDE00]) 10 =
     (STATUS_SUCCESS, Some 10, [0x41, 0xC3, 0xA9, 0xE2, 0x82, 0xAC, 0xF0, 0x9F, 0x98, 0x80]) \<and>
   RtlUTF8ToUnicodeN True 10 True (Some [0x41, 0xC3, 0xA9, 0xE2, 0x82, 0xAC, 0xF0, 0x9F, 0x98, 0x80]) 10 =
     Some (STATUS_SUCCESS, Some 10, [0x41, 0xE9, 0x20AC, 0xD83D, 0xDE00])"
proof -
  let ?cs = "[0x41, 0xE9, 0x20AC, 0x1F600]"
  have sc: "list_all scalar ?cs" by (simp add: scalar_def)
  have us: "[0x41, 0xE9, 0x20AC, 0xD83D, 0xDE00] = utf16s ?cs" by (simp add: utf16_def)
  have bs: "[0x41, 0xC3, 0xA9, 0xE2, 0x82, 0xAC, 0xF0, 0x9F, 0x98, 0x80] = utf8s ?cs" by (simp add: utf8_def)
  from utf8_round_trip [OF sc us bs, of 16 10] show ?thesis by simp
qed

end
