(* ===== verification/RtlUnicode.thy ===== *)
theory RtlUnicode
  imports RtlPrelude
begin

text \<open>
  Counted Unicode strings and the conversion of integers, \<^verbatim>\<open>sdk/lib/rtl/unicode.c\<close>, and the case
  mapping of one character, \<^verbatim>\<open>sdk/lib/rtl/nls.c\<close>.

  A string is the record of the C structure; its buffer is the list of its units, and a null buffer is
  the empty list.  Lengths in bytes are even, as \<^verbatim>\<open>RtlValidateUnicodeString\<close> demands.  The case tables
  are loaded at run time and are arguments; so is the success of an allocation.
\<close>

unbundle bit_operations_syntax

section \<open>Case mapping\<close>

definition RtlpUpcaseUnicodeChar :: "(nat \<Rightarrow> USHORT) \<Rightarrow> WCHAR \<Rightarrow> WCHAR" where
  "RtlpUpcaseUnicodeChar NlsUnicodeUpcaseTable Source =
     (if Source < 0x61 then Source
      else if Source \<le> 0x7A then Source - (0x61 - 0x41)
      else let Offset = drop_bit 8 Source AND 0xFF;
               Offset = NlsUnicodeUpcaseTable (unat Offset);
               Offset = Offset + (drop_bit 4 Source AND 0xF);
               Offset = NlsUnicodeUpcaseTable (unat Offset);
               Offset = Offset + (Source AND 0xF);
               Offset = NlsUnicodeUpcaseTable (unat Offset)
           in Source + Offset)"

definition RtlUpcaseUnicodeChar :: "(nat \<Rightarrow> USHORT) \<Rightarrow> WCHAR \<Rightarrow> WCHAR" where
  "RtlUpcaseUnicodeChar NlsUnicodeUpcaseTable Source = RtlpUpcaseUnicodeChar NlsUnicodeUpcaseTable Source"

definition RtlpDowncaseUnicodeChar :: "(nat \<Rightarrow> USHORT) \<Rightarrow> WCHAR \<Rightarrow> WCHAR" where
  "RtlpDowncaseUnicodeChar NlsUnicodeLowercaseTable Source =
     (if Source < 0x41 then Source
      else if Source \<le> 0x5A then Source + (0x61 - 0x41)
      else if Source < 0x80 then Source
      else let Offset = drop_bit 8 Source;
               Offset = NlsUnicodeLowercaseTable (unat Offset);
               Offset = Offset + drop_bit 4 (Source AND 0x00F0);
               Offset = NlsUnicodeLowercaseTable (unat Offset);
               Offset = Offset + (Source AND 0x000F);
               Offset = NlsUnicodeLowercaseTable (unat Offset)
           in Source + Offset)"

section \<open>Strings\<close>

text \<open>The characters of a string; reading past the buffer is a fault.\<close>

definition us_chars :: "UNICODE_STRING \<Rightarrow> WCHAR list option" where
  "us_chars s = array_slice (UsBuffer s) 0 (unat (UsLength s) div 2)"

text \<open>The source of the initialisation is a terminated string, given without its terminator.\<close>

definition RtlInitUnicodeString :: "WCHAR list option \<Rightarrow> UNICODE_STRING" where
  "RtlInitUnicodeString SourceString =
     (case SourceString of
        Some src \<Rightarrow>
          let MaxSize = 65534 - 2; Size = 2 * length src; Size = (if Size > MaxSize then MaxSize else Size)
          in \<lparr>UsLength = of_nat Size, UsMaximumLength = of_nat Size + 2, UsBuffer = src @ [0]\<rparr>
      | None \<Rightarrow> \<lparr>UsLength = 0, UsMaximumLength = 0, UsBuffer = []\<rparr>)"

definition RtlInitUnicodeStringEx :: "UNICODE_STRING \<Rightarrow> WCHAR list option \<Rightarrow> NTSTATUS \<times> UNICODE_STRING" where
  "RtlInitUnicodeStringEx DestinationString SourceString =
     (case SourceString of
        Some src \<Rightarrow>
          let MaxSize = 65534 - 2; Size = 2 * length src
          in if Size > MaxSize then (STATUS_NAME_TOO_LONG, DestinationString)
             else (STATUS_SUCCESS, \<lparr>UsLength = of_nat Size, UsMaximumLength = of_nat Size + 2, UsBuffer = src @ [0]\<rparr>)
      | None \<Rightarrow> (STATUS_SUCCESS, \<lparr>UsLength = 0, UsMaximumLength = 0, UsBuffer = []\<rparr>))"

definition RtlValidateUnicodeString :: "ULONG \<Rightarrow> UNICODE_STRING option \<Rightarrow> NTSTATUS" where
  "RtlValidateUnicodeString Flags String =
     (if Flags \<noteq> 0 then STATUS_INVALID_PARAMETER
      else case String of
             None \<Rightarrow> STATUS_SUCCESS
           | Some s \<Rightarrow>
               if \<not> (UsBuffer s = [] \<and> (UsLength s \<noteq> 0 \<or> UsMaximumLength s \<noteq> 0)) \<and>
                  UsLength s mod 2 = 0 \<and> UsMaximumLength s mod 2 = 0 \<and> UsLength s \<le> UsMaximumLength s
               then STATUS_SUCCESS else STATUS_INVALID_PARAMETER)"

text \<open>Storing units at the end of a string, with a terminator when there is room for it.\<close>

definition append_units :: "UNICODE_STRING \<Rightarrow> WCHAR list \<Rightarrow> USHORT \<Rightarrow> UNICODE_STRING option" where
  "append_units Destination units SourceLength =
     do {
       let at = unat (UsLength Destination) div 2;
       buffer \<leftarrow> array_blit (UsBuffer Destination) at units;
       let len = UsLength Destination + SourceLength;
       buffer \<leftarrow> (if UsMaximumLength Destination > len then array_set buffer (at + unat SourceLength div 2) 0
                 else Some buffer);
       Some (Destination\<lparr>UsLength := len, UsBuffer := buffer\<rparr>)
     }"

definition RtlAppendUnicodeStringToString ::
    "UNICODE_STRING \<Rightarrow> UNICODE_STRING \<Rightarrow> (NTSTATUS \<times> UNICODE_STRING) option" where
  "RtlAppendUnicodeStringToString Destination Source =
     (let SourceLength = UsLength Source in
      if SourceLength \<noteq> 0
      then if unat SourceLength + unat (UsLength Destination) > unat (UsMaximumLength Destination)
           then Some (STATUS_BUFFER_TOO_SMALL, Destination)
           else do {
             units \<leftarrow> us_chars Source;
             Destination \<leftarrow> append_units Destination units SourceLength;
             Some (STATUS_SUCCESS, Destination)
           }
      else Some (STATUS_SUCCESS, Destination))"

definition RtlAppendUnicodeToString :: "UNICODE_STRING \<Rightarrow> WCHAR list option \<Rightarrow> (NTSTATUS \<times> UNICODE_STRING) option" where
  "RtlAppendUnicodeToString Destination Source =
     (case Source of
        None \<Rightarrow> Some (STATUS_SUCCESS, Destination)
      | Some src \<Rightarrow>
          let UnicodeSource = RtlInitUnicodeString (Some src); Length = UsLength UnicodeSource in
          if unat (UsLength Destination) + unat Length > unat (UsMaximumLength Destination)
          then Some (STATUS_BUFFER_TOO_SMALL, Destination)
          else do {
            units \<leftarrow> us_chars UnicodeSource;
            Destination \<leftarrow> append_units Destination units Length;
            Some (STATUS_SUCCESS, Destination)
          })"

definition RtlCopyUnicodeString :: "UNICODE_STRING \<Rightarrow> UNICODE_STRING option \<Rightarrow> UNICODE_STRING option" where
  "RtlCopyUnicodeString DestinationString SourceString =
     (case SourceString of
        None \<Rightarrow> Some (DestinationString\<lparr>UsLength := 0\<rparr>)
      | Some Source \<Rightarrow>
          let SourceLength = min (UsMaximumLength DestinationString) (UsLength Source) in
          do {
            units \<leftarrow> array_slice (UsBuffer Source) 0 (unat SourceLength div 2);
            buffer \<leftarrow> array_blit (UsBuffer DestinationString) 0 units;
            buffer \<leftarrow> (if SourceLength < UsMaximumLength DestinationString
                      then array_set buffer (unat SourceLength div 2) 0 else Some buffer);
            Some (DestinationString\<lparr>UsLength := SourceLength, UsBuffer := buffer\<rparr>)
          })"

definition RtlEraseUnicodeString :: "UNICODE_STRING \<Rightarrow> UNICODE_STRING option" where
  "RtlEraseUnicodeString String =
     (if UsBuffer String \<noteq> [] \<and> UsMaximumLength String \<noteq> 0
      then do {
        buffer \<leftarrow> array_blit (UsBuffer String) 0 (replicate (unat (UsMaximumLength String) div 2) 0);
        Some (String\<lparr>UsLength := 0, UsBuffer := buffer\<rparr>)
      }
      else Some String)"

text \<open>The loop of the two case conversions, with the mapping \<open>f\<close> of a character.\<close>

definition map_string ::
    "(WCHAR \<Rightarrow> WCHAR) \<Rightarrow> bool \<Rightarrow> UNICODE_STRING \<Rightarrow> UNICODE_STRING \<Rightarrow> bool \<Rightarrow> (NTSTATUS \<times> UNICODE_STRING) option" where
  "map_string f can_alloc UniDest UniSource AllocateDestinationString =
     (if AllocateDestinationString
      then let UniDest = UniDest\<lparr>UsMaximumLength := UsLength UniSource\<rparr> in
           if \<not> can_alloc then Some (STATUS_NO_MEMORY, UniDest\<lparr>UsBuffer := []\<rparr>)
           else do {
             units \<leftarrow> us_chars UniSource;
             Some (STATUS_SUCCESS, UniDest\<lparr>UsBuffer := map f units, UsLength := UsLength UniSource\<rparr>)
           }
      else if UsLength UniSource > UsMaximumLength UniDest then Some (STATUS_BUFFER_OVERFLOW, UniDest)
      else do {
        units \<leftarrow> us_chars UniSource;
        buffer \<leftarrow> array_blit (UsBuffer UniDest) 0 (map f units);
        Some (STATUS_SUCCESS, UniDest\<lparr>UsBuffer := buffer, UsLength := UsLength UniSource\<rparr>)
      })"

definition RtlUpcaseUnicodeString ::
    "(nat \<Rightarrow> USHORT) \<Rightarrow> bool \<Rightarrow> UNICODE_STRING \<Rightarrow> UNICODE_STRING \<Rightarrow> bool \<Rightarrow> (NTSTATUS \<times> UNICODE_STRING) option" where
  "RtlUpcaseUnicodeString NlsUnicodeUpcaseTable = map_string (RtlpUpcaseUnicodeChar NlsUnicodeUpcaseTable)"

definition RtlDowncaseUnicodeString ::
    "(nat \<Rightarrow> USHORT) \<Rightarrow> bool \<Rightarrow> UNICODE_STRING \<Rightarrow> UNICODE_STRING \<Rightarrow> bool \<Rightarrow> (NTSTATUS \<times> UNICODE_STRING) option" where
  "RtlDowncaseUnicodeString NlsUnicodeLowercaseTable =
     map_string (\<lambda>c. if c < 0x41 then c else if c \<le> 0x5A then c + (0x61 - 0x41)
                     else RtlpDowncaseUnicodeChar NlsUnicodeLowercaseTable c)"

text \<open>The flags of \<open>RtlDuplicateUnicodeString\<close>: 1 asks for a terminator, 2 for a buffer also of an empty string.\<close>

definition RtlDuplicateUnicodeString ::
    "bool \<Rightarrow> ULONG \<Rightarrow> UNICODE_STRING option \<Rightarrow> UNICODE_STRING option \<Rightarrow> (NTSTATUS \<times> UNICODE_STRING option) option" where
  "RtlDuplicateUnicodeString can_alloc Flags SourceString DestinationString =
     (case (SourceString, DestinationString) of
        (Some Source, Some Destination) \<Rightarrow>
          if UsLength Source > UsMaximumLength Source \<or>
             (UsLength Source = 0 \<and> UsMaximumLength Source > 0 \<and> UsBuffer Source = []) \<or> Flags = 2 \<or> Flags \<ge> 4
          then Some (STATUS_INVALID_PARAMETER, Some Destination)
          else if UsLength Source = 0 \<and> Flags \<noteq> (1 OR 2)
          then Some (STATUS_SUCCESS, Some \<lparr>UsLength = 0, UsMaximumLength = 0, UsBuffer = []\<rparr>)
          else let DestMaxLength = unat (UsLength Source) + (if Flags AND 1 \<noteq> 0 then 2 else 0) in
               if \<not> can_alloc then Some (STATUS_NO_MEMORY, Some (Destination\<lparr>UsBuffer := []\<rparr>))
               else do {
                 units \<leftarrow> us_chars Source;
                 Some (STATUS_SUCCESS, Some \<lparr>UsLength = UsLength Source, UsMaximumLength = of_nat DestMaxLength,
                                             UsBuffer = units @ (if Flags AND 1 \<noteq> 0 then [0] else [])\<rparr>)
               }
      | _ \<Rightarrow> Some (STATUS_INVALID_PARAMETER, DestinationString))"

section \<open>Comparison\<close>

text \<open>The loop of a comparison: the difference of the first two characters that differ, or 0.\<close>

fun compare_units :: "(WCHAR \<Rightarrow> WCHAR) \<Rightarrow> WCHAR list \<Rightarrow> WCHAR list \<Rightarrow> int" where
  "compare_units f (c # cs) (d # ds) =
     (let ret = uint (f c) - uint (f d) in if ret \<noteq> 0 then ret else compare_units f cs ds)"
| "compare_units f _ _ = 0"

definition fold_case :: "(nat \<Rightarrow> USHORT) \<Rightarrow> bool \<Rightarrow> WCHAR \<Rightarrow> WCHAR" where
  "fold_case NlsUnicodeUpcaseTable CaseInsensitive c =
     (if CaseInsensitive then RtlpUpcaseUnicodeChar NlsUnicodeUpcaseTable c else c)"

definition RtlCompareUnicodeString ::
    "(nat \<Rightarrow> USHORT) \<Rightarrow> UNICODE_STRING \<Rightarrow> UNICODE_STRING \<Rightarrow> bool \<Rightarrow> int option" where
  "RtlCompareUnicodeString NlsUnicodeUpcaseTable s1 s2 CaseInsensitive =
     do {
       p1 \<leftarrow> us_chars s1;
       p2 \<leftarrow> us_chars s2;
       let ret = compare_units (fold_case NlsUnicodeUpcaseTable CaseInsensitive) p1 p2;
       Some (if ret = 0 then uint (UsLength s1) - uint (UsLength s2) else ret)
     }"

definition RtlEqualUnicodeString ::
    "(nat \<Rightarrow> USHORT) \<Rightarrow> UNICODE_STRING \<Rightarrow> UNICODE_STRING \<Rightarrow> bool \<Rightarrow> bool option" where
  "RtlEqualUnicodeString NlsUnicodeUpcaseTable s1 s2 CaseInsensitive =
     (if UsLength s1 \<noteq> UsLength s2 then Some False
      else do {
        ret \<leftarrow> RtlCompareUnicodeString NlsUnicodeUpcaseTable s1 s2 CaseInsensitive;
        Some (ret = 0)
      })"

text \<open>Strings given by their characters; the difference of the \<open>SIZE_T\<close> lengths is converted to \<open>LONG\<close>.\<close>

definition RtlCompareUnicodeStrings :: "(nat \<Rightarrow> USHORT) \<Rightarrow> WCHAR list \<Rightarrow> WCHAR list \<Rightarrow> bool \<Rightarrow> int" where
  "RtlCompareUnicodeStrings NlsUnicodeUpcaseTable String1 String2 CaseInSensitive =
     (let Result = compare_units (fold_case NlsUnicodeUpcaseTable CaseInSensitive) String1 String2 in
      if Result \<noteq> 0 then Result
      else signed_take_bit 31 (int (length String1) - int (length String2)))"

fun same_units :: "(WCHAR \<Rightarrow> WCHAR) \<Rightarrow> WCHAR list \<Rightarrow> WCHAR list \<Rightarrow> bool" where
  "same_units f (c # cs) (d # ds) = (if f c \<noteq> f d then False else same_units f cs ds)"
| "same_units f _ _ = True"

definition RtlPrefixUnicodeString ::
    "(nat \<Rightarrow> USHORT) \<Rightarrow> UNICODE_STRING \<Rightarrow> UNICODE_STRING \<Rightarrow> bool \<Rightarrow> bool option" where
  "RtlPrefixUnicodeString NlsUnicodeUpcaseTable String1 String2 CaseInsensitive =
     (if UsLength String2 < UsLength String1 then Some False
      else if UsBuffer String1 \<noteq> [] \<and> UsBuffer String2 \<noteq> []
      then do {
        pc1 \<leftarrow> us_chars String1;
        pc2 \<leftarrow> us_chars String2;
        Some (same_units (fold_case NlsUnicodeUpcaseTable CaseInsensitive) pc1 pc2)
      }
      else Some False)"

text \<open>The hash of a string: the result is the status and the value that is stored, if any.\<close>

fun hash_units :: "bool \<Rightarrow> ULONG \<Rightarrow> WCHAR list \<Rightarrow> ULONG" where
  "hash_units CaseInSensitive HashValue [] = HashValue"
| "hash_units CaseInSensitive HashValue (c # cs) =
     hash_units CaseInSensitive
       (65599 * HashValue +
        ucast (if CaseInSensitive \<and> c \<ge> 0x61 \<and> c \<le> 0x7A then c - 0x61 + 0x41 else c)) cs"

definition RtlHashUnicodeString ::
    "UNICODE_STRING option \<Rightarrow> bool \<Rightarrow> ULONG \<Rightarrow> bool \<Rightarrow> (NTSTATUS \<times> ULONG option) option" where
  "RtlHashUnicodeString String CaseInSensitive HashAlgorithm HashValue =
     (case String of
        Some s \<Rightarrow>
          if HashValue \<and> (HashAlgorithm = 0 \<or> HashAlgorithm = 1)
          then do {
            units \<leftarrow> us_chars s;
            Some (STATUS_SUCCESS, Some (hash_units CaseInSensitive 0 units))
          }
          else Some (STATUS_INVALID_PARAMETER, None)
      | None \<Rightarrow> Some (STATUS_INVALID_PARAMETER, None))"

section \<open>Searching\<close>

fun RtlpIsCharInUnicodeString :: "(nat \<Rightarrow> USHORT) \<Rightarrow> WCHAR \<Rightarrow> WCHAR list \<Rightarrow> bool \<Rightarrow> bool" where
  "RtlpIsCharInUnicodeString NlsUnicodeUpcaseTable Chr [] CaseInSensitive = False"
| "RtlpIsCharInUnicodeString NlsUnicodeUpcaseTable Chr (OtherChar # match) CaseInSensitive =
     (if fold_case NlsUnicodeUpcaseTable CaseInSensitive Chr = fold_case NlsUnicodeUpcaseTable CaseInSensitive OtherChar
      then True else RtlpIsCharInUnicodeString NlsUnicodeUpcaseTable Chr match CaseInSensitive)"

text \<open>The two search loops give the index at which they stop.\<close>

fun find_forward :: "(WCHAR \<Rightarrow> bool) \<Rightarrow> nat \<Rightarrow> WCHAR list \<Rightarrow> nat option" where
  "find_forward P i [] = None"
| "find_forward P i (c # cs) = (if P c then Some i else find_forward P (Suc i) cs)"

fun find_backward :: "(WCHAR \<Rightarrow> bool) \<Rightarrow> nat \<Rightarrow> WCHAR list \<Rightarrow> nat option" where
  "find_backward P 0 cs = None"
| "find_backward P (Suc i) cs = (if P (cs ! i) then Some i else find_backward P i cs)"

text \<open>Flags: 1 from the end, 2 characters outside the set, 4 without case.\<close>

definition RtlFindCharInUnicodeString ::
    "(nat \<Rightarrow> USHORT) \<Rightarrow> ULONG \<Rightarrow> UNICODE_STRING \<Rightarrow> UNICODE_STRING \<Rightarrow> bool \<Rightarrow> (NTSTATUS \<times> USHORT option) option" where
  "RtlFindCharInUnicodeString NlsUnicodeUpcaseTable Flags SearchString MatchString Position =
     (let WantToFind = (Flags AND 2 = 0); CaseInSensitive = (Flags AND 4 \<noteq> 0) in
      if \<not> Position then Some (STATUS_INVALID_PARAMETER, None)
      else if Flags AND NOT (1 OR 2 OR 4) \<noteq> 0 then Some (STATUS_INVALID_PARAMETER, Some 0)
      else do {
        search \<leftarrow> us_chars SearchString;
        match \<leftarrow> us_chars MatchString;
        let P = (\<lambda>c. RtlpIsCharInUnicodeString NlsUnicodeUpcaseTable c match CaseInSensitive = WantToFind);
        Some (if Flags AND 1 \<noteq> 0
              then (case find_backward P (length search) search of
                      Some i \<Rightarrow> (STATUS_SUCCESS, Some (of_nat (i * 2)))
                    | None \<Rightarrow> (STATUS_NOT_FOUND, Some 0))
              else (case find_forward P 0 search of
                      Some i \<Rightarrow> (STATUS_SUCCESS, Some (of_nat ((i + 1) * 2)))
                    | None \<Rightarrow> (STATUS_NOT_FOUND, Some 0)))
      })"

section \<open>Integers\<close>

text \<open>
  \<open>RtlIntegerToUnicode\<close> collects the digits, the last one first, in an array of 33 units, and then copies
  them in reverse.  The do-while loop of \<open>RtlIntegerToChar\<close> and \<open>RtlLargeIntegerToChar\<close> stores them from the
  end of an array with room for \<open>room\<close> digits.
\<close>

function temp_loop :: "ULONG \<Rightarrow> ULONG \<Rightarrow> WCHAR list \<Rightarrow> WCHAR list option" where
  "temp_loop Radix v temp =
     (if v \<noteq> 0 \<or> temp = []
      then if length temp < 33
           then let i = v mod Radix in
                temp_loop Radix (v div Radix) (temp @ [if i < 10 then ucast (i + 0x30) else ucast (i + 0x61 - 10)])
           else None
      else Some temp)"
  by pat_completeness auto
termination
  by (relation "measure (\<lambda>(_, _, temp). 33 - length temp)") auto

definition RtlIntegerToUnicode ::
    "ULONG \<Rightarrow> ULONG \<Rightarrow> ULONG \<Rightarrow> WCHAR list \<Rightarrow> (NTSTATUS \<times> WCHAR list) option" where
  "RtlIntegerToUnicode Value Base Length String =
     (let Radix = (if Base = 0 then 10 else Base) in
      if Radix \<noteq> 2 \<and> Radix \<noteq> 8 \<and> Radix \<noteq> 10 \<and> Radix \<noteq> 16 then Some (STATUS_INVALID_PARAMETER, String)
      else do {
        temp \<leftarrow> temp_loop Radix Value [];
        if of_nat (2 * length temp) \<ge> Length then Some (STATUS_BUFFER_TOO_SMALL, String)
        else do {
          String \<leftarrow> array_blit String 0 (rev temp @ [0]);
          Some (STATUS_SUCCESS, String)
        }
      })"

function digit_loop :: "nat \<Rightarrow> nat \<Rightarrow> nat \<Rightarrow> UCHAR list \<Rightarrow> UCHAR list option" where
  "digit_loop room base value digits =
     (if length digits < room
      then let digit = value mod base;
               digits = (if digit < 10 then 0x30 + of_nat digit else 0x41 + of_nat digit - 10) # digits
           in if value div base \<noteq> 0 then digit_loop room base (value div base) digits else Some digits
      else None)"
  by pat_completeness auto
termination
  by (relation "measure (\<lambda>(room, _, _, digits). room - length digits)") auto

text \<open>A null destination is \<open>None\<close>.\<close>

definition RtlIntegerToChar ::
    "ULONG \<Rightarrow> ULONG \<Rightarrow> ULONG \<Rightarrow> UCHAR list option \<Rightarrow> (NTSTATUS \<times> UCHAR list option) option" where
  "RtlIntegerToChar value base len str =
     (let base = (if base = 0 then 10 else base) in
      if base \<noteq> 2 \<and> base \<noteq> 8 \<and> base \<noteq> 10 \<and> base \<noteq> 16 then Some (STATUS_INVALID_PARAMETER, str)
      else do {
        digits \<leftarrow> digit_loop 32 (unat base) (unat value) [];
        if length digits > unat len then Some (STATUS_BUFFER_OVERFLOW, str)
        else case str of
               None \<Rightarrow> Some (STATUS_ACCESS_VIOLATION, str)
             | Some s \<Rightarrow> do {
                 s \<leftarrow> array_blit s 0 (if length digits = unat len then digits else digits @ [0]);
                 Some (STATUS_SUCCESS, Some s)
               }
      })"

text \<open>The copy of \<open>RtlLargeIntegerToChar\<close> catches the fault of a bad destination; that is not a case here.\<close>

definition RtlLargeIntegerToChar ::
    "ULONGLONG \<Rightarrow> ULONG \<Rightarrow> ULONG \<Rightarrow> UCHAR list \<Rightarrow> (NTSTATUS \<times> UCHAR list) option" where
  "RtlLargeIntegerToChar Value Base Length String =
     (let Base = (if Base = 0 then 10 else Base) in
      if Base \<noteq> 2 \<and> Base \<noteq> 8 \<and> Base \<noteq> 10 \<and> Base \<noteq> 16 then Some (STATUS_INVALID_PARAMETER, String)
      else do {
        digits \<leftarrow> digit_loop 64 (unat Base) (unat Value) [];
        if length digits > unat Length then Some (STATUS_BUFFER_OVERFLOW, String)
        else do {
          String \<leftarrow> array_blit String 0 (if length digits < unat Length then digits @ [0] else digits);
          Some (STATUS_SUCCESS, String)
        }
      })"

text \<open>
  The parser: white space, a sign, the prefix that selects the base when none is given, and the digits.
  Characters are their codes, as the comparisons of the code see them.
\<close>

definition digit_value :: "int \<Rightarrow> int" where
  "digit_value ch =
     (if ch \<ge> 0x30 \<and> ch \<le> 0x39 then ch - 0x30
      else if ch \<ge> 0x41 \<and> ch \<le> 0x5A then ch - 0x41 + 10
      else if ch \<ge> 0x61 \<and> ch \<le> 0x7A then ch - 0x61 + 10
      else -1)"

fun parse_digits :: "ULONG \<Rightarrow> ULONG \<Rightarrow> int list \<Rightarrow> ULONG" where
  "parse_digits base RunningTotal [] = RunningTotal"
| "parse_digits base RunningTotal (ch # chs) =
     (let digit = digit_value ch in
      if digit < 0 \<or> digit \<ge> uint base then RunningTotal
      else parse_digits base (RunningTotal * base + of_int digit) chs)"

fun parse_sign :: "int list \<Rightarrow> bool \<times> int list" where
  "parse_sign (ch # chs) = (if ch = 0x2B then (False, chs) else if ch = 0x2D then (True, chs) else (False, ch # chs))"
| "parse_sign [] = (False, [])"

fun auto_base :: "int list \<Rightarrow> ULONG \<times> int list" where
  "auto_base (z # p # chs) =
     (if z = 0x30
      then if p = 0x62 then (2, chs) else if p = 0x6F then (8, chs) else if p = 0x78 then (16, chs)
           else (10, z # p # chs)
      else (10, z # p # chs))"
| "auto_base chs = (10, chs)"

definition parse_integer :: "int list \<Rightarrow> ULONG \<Rightarrow> bool \<Rightarrow> NTSTATUS \<times> ULONG option" where
  "parse_integer chs base value =
     (case parse_sign chs of (bMinus, chs) \<Rightarrow>
        let (base', chs) = (if base = 0 then auto_base chs else (base, chs)) in
        if base' \<noteq> 2 \<and> base' \<noteq> 8 \<and> base' \<noteq> 10 \<and> base' \<noteq> 16 then (STATUS_INVALID_PARAMETER, None)
        else if \<not> value then (STATUS_ACCESS_VIOLATION, None)
        else let RunningTotal = parse_digits base' 0 chs
             in (STATUS_SUCCESS, Some (if bMinus then 0 - RunningTotal else RunningTotal)))"

definition RtlUnicodeStringToInteger ::
    "UNICODE_STRING \<Rightarrow> ULONG \<Rightarrow> bool \<Rightarrow> (NTSTATUS \<times> ULONG option) option" where
  "RtlUnicodeStringToInteger str base value =
     do {
       units \<leftarrow> us_chars str;
       Some (parse_integer (dropWhile (\<lambda>ch. ch \<le> 0x20) (map uint units)) base value)
     }"

text \<open>\<open>str\<close> is the string without its terminator; \<open>CHAR\<close> is signed.\<close>

definition RtlCharToInteger :: "UCHAR list \<Rightarrow> ULONG \<Rightarrow> bool \<Rightarrow> NTSTATUS \<times> ULONG option" where
  "RtlCharToInteger str base value =
     parse_integer (dropWhile (\<lambda>ch. ch \<le> 0x20) (map sint str)) base value"

section \<open>Reference definitions\<close>

text \<open>The characters a string has, and the strings whose fields agree with their buffer.\<close>

definition us_text :: "UNICODE_STRING \<Rightarrow> WCHAR list" where
  "us_text s = take (unat (UsLength s) div 2) (UsBuffer s)"

definition valid_string :: "UNICODE_STRING \<Rightarrow> bool" where
  "valid_string s \<longleftrightarrow>
     RtlValidateUnicodeString 0 (Some s) = STATUS_SUCCESS \<and> 2 * length (UsBuffer s) = unat (UsMaximumLength s)"

text \<open>The digits of a number, the first one first.\<close>

fun digits_of :: "nat \<Rightarrow> nat \<Rightarrow> nat list" where
  "digits_of r n = (if r < 2 \<or> n < r then [n] else digits_of r (n div r) @ [n mod r])"

declare temp_loop.simps [simp del] digit_loop.simps [simp del] digits_of.simps [simp del]

text \<open>A character that denotes a digit, in either case.\<close>

definition digit_char :: "nat \<Rightarrow> int \<Rightarrow> bool" where
  "digit_char d ch \<longleftrightarrow> d < 16 \<and> (if d < 10 then ch = 0x30 + int d else ch = 0x41 + int d - 10 \<or> ch = 0x61 + int d - 10)"

section \<open>Integers\<close>

lemma digits_of_less: "2 \<le> r \<Longrightarrow> list_all (\<lambda>d. d < r) (digits_of r n)"
proof (induction r n rule: digits_of.induct)
  case (1 r n)
  then show ?case by (subst digits_of.simps) auto
qed

lemma digits_of_nonempty: "digits_of r n \<noteq> []"
  by (subst digits_of.simps) simp

lemma length_digits_of: "2 \<le> r \<Longrightarrow> n < 2 ^ Suc k \<Longrightarrow> length (digits_of r n) \<le> Suc k"
proof (induction k arbitrary: n)
  case 0
  then show ?case by (subst digits_of.simps) simp
next
  case (Suc k)
  show ?case
  proof (cases "n < r")
    case True
    then show ?thesis by (subst digits_of.simps) simp
  next
    case False
    have "n div r \<le> n div 2" using Suc.prems(1) by (intro div_le_mono2) simp_all
    also have "n div 2 < 2 ^ Suc k" using Suc.prems(2) by (simp add: less_mult_imp_div_less)
    finally show ?thesis using Suc.IH [of "n div r"] Suc.prems(1) False by (subst digits_of.simps) simp
  qed
qed

lemma digits_of_value: "2 \<le> r \<Longrightarrow> foldl (\<lambda>t d. t * r + d) 0 (digits_of r n) = n"
proof (induction r n rule: digits_of.induct)
  case (1 r n)
  then show ?case by (subst digits_of.simps) auto
qed

text \<open>Both printing loops produce the digits.\<close>

lemma digit_loop_digits:
  "2 \<le> base \<Longrightarrow> length acc + length (digits_of base v) \<le> room \<Longrightarrow>
   digit_loop room base v acc =
     Some (map (\<lambda>d. if d < 10 then 0x30 + of_nat d else 0x41 + of_nat d - 10) (digits_of base v) @ acc)"
proof (induction base v arbitrary: acc rule: digits_of.induct)
  case (1 base v)
  show ?case
  proof (cases "v < base")
    case True
    then have d: "digits_of base v = [v]" by (subst digits_of.simps) simp
    with 1 True show ?thesis by (subst digit_loop.simps) (simp add: Let_def d)
  next
    case False
    then have d: "digits_of base v = digits_of base (v div base) @ [v mod base]" using 1 by (subst digits_of.simps) simp
    have "v div base \<noteq> 0" using False 1 by (simp add: div_eq_0_iff)
    with 1 False d show ?thesis by (subst digit_loop.simps) (simp add: Let_def)
  qed
qed

lemma temp_loop_digits:
  assumes "2 \<le> unat Radix"
  shows "length temp + length (digits_of (unat Radix) (unat v)) \<le> 33 \<Longrightarrow> v \<noteq> 0 \<or> temp = [] \<Longrightarrow>
    temp_loop Radix v temp =
      Some (temp @ rev (map (\<lambda>d. ucast (if of_nat d < (10 :: ULONG) then of_nat d + 0x30 else of_nat d + 0x61 - 10 :: ULONG))
                         (digits_of (unat Radix) (unat v))))"
proof (induction "unat v" arbitrary: v temp rule: less_induct)
  case less
  have u: "of_nat (unat v mod unat Radix) = v mod Radix" "unat (v div Radix) = unat v div unat Radix"
    by (simp_all add: unat_div flip: unat_mod)
  show ?case
  proof (cases "unat v < unat Radix")
    case True
    then have d: "digits_of (unat Radix) (unat v) = [unat v]" by (subst digits_of.simps) simp
    have z: "v div Radix = 0" "v mod Radix = v" using True by (simp_all add: word_unat_eq_iff unat_div unat_mod)
    show ?thesis using less.prems d z
      by (subst temp_loop.simps) (simp add: Let_def temp_loop.simps [of Radix 0])
  next
    case False
    then have d: "digits_of (unat Radix) (unat v) = digits_of (unat Radix) (unat v div unat Radix) @ [unat v mod unat Radix]"
      using assms by (subst digits_of.simps) simp
    have "unat v div unat Radix \<noteq> 0" using False assms by (simp add: div_eq_0_iff)
    then have nz: "v div Radix \<noteq> 0" using u(2) by (auto simp: word_unat_eq_iff)
    have "unat (v div Radix) < unat v" unfolding u(2) using assms False by (intro div_less_dividend) auto
    from less.hyps [OF this] less.prems nz d u show ?thesis
      by (subst temp_loop.simps) (simp add: Let_def)
  qed
qed

lemma digit_char_value: "digit_char d ch \<Longrightarrow> digit_value ch = int d \<and> 0x30 \<le> ch \<and> (d < 10 \<longrightarrow> ch \<le> 0x39)"
  by (auto simp: digit_char_def digit_value_def split: if_splits)

lemma parse_digits_value:
  "list_all2 digit_char ds chs \<Longrightarrow> list_all (\<lambda>d. d < unat base) ds \<Longrightarrow>
   parse_digits base (of_nat t) chs = of_nat (foldl (\<lambda>t d. t * unat base + d) t ds)"
proof (induction ds chs arbitrary: t rule: list_all2_induct)
  case (Cons d ds ch chs)
  then have v: "digit_value ch = int d" by (simp add: digit_char_value)
  have "d < unat base" using Cons.prems by simp
  then have lt: "(uint base \<le> int d) = False" by (simp only: uint_nat of_nat_le_iff not_le simp_thms)
  have "of_nat t * base + of_int (int d) = of_nat (t * unat base + d)" by simp
  then have "parse_digits base (of_nat t) (ch # chs) = parse_digits base (of_nat (t * unat base + d)) chs"
    by (simp only: parse_digits.simps Let_def v lt) simp
  then show ?case using Cons.IH [of "t * unat base + d"] Cons.prems by simp
qed simp

lemma parse_integer_digits:
  assumes "list_all2 digit_char ds chs" "ds \<noteq> []" "base \<in> {0, 2, 8, 10, 16}"
    and r: "r = (if base = 0 then 10 else unat base)" and "list_all (\<lambda>d. d < r) ds"
  shows "parse_integer (dropWhile (\<lambda>ch. ch \<le> 0x20) chs) base True =
    (STATUS_SUCCESS, Some (of_nat (foldl (\<lambda>t d. t * r + d) 0 ds)))"
proof -
  obtain d ds' ch chs' where ds: "ds = d # ds'" "chs = ch # chs'" "digit_char d ch" "list_all2 digit_char ds' chs'"
    using assms(1,2) by (cases ds; cases chs) auto
  have drop: "dropWhile (\<lambda>ch. ch \<le> 0x20) chs = chs" and sign: "parse_sign chs = (False, chs)"
    using digit_char_value [OF ds(3)] ds(2) by auto
  have "auto_base chs = (10, chs)" if zero: "base = 0"
  proof (cases chs')
    case (Cons p rest)
    then obtain e where "digit_char e p" "e < 10" using ds(1,4) assms(5) r zero by (cases ds') auto
    then have "p \<le> 0x39" using digit_char_value by blast
    then show ?thesis using Cons ds(2) by simp
  qed (simp add: ds(2))
  then have b: "(if base = 0 then auto_base chs else (base, chs)) = (if base = 0 then 10 else base, chs)" by simp
  have "parse_digits (if base = 0 then 10 else base) (of_nat 0) chs = of_nat (foldl (\<lambda>t d. t * r + d) 0 ds)"
    using parse_digits_value [OF assms(1), of "if base = 0 then 10 else base" 0] assms(5) r by (auto split: if_splits)
  then show ?thesis unfolding drop parse_integer_def sign using assms(3) by (auto simp: Let_def b split: if_splits)
qed

lemma codes_digit_char:
  assumes "d < 16"
  shows "digit_char d (uint (ucast (if of_nat d < (10 :: ULONG) then of_nat d + 0x30 else of_nat d + 0x61 - 10 :: ULONG) :: WCHAR))"
    and "digit_char d (sint ((if d < 10 then 0x30 + of_nat d else 0x41 + of_nat d - 10) :: UCHAR))"
proof -
  have "\<forall>d < 16. digit_char d (uint (ucast (if of_nat d < (10 :: ULONG) then of_nat d + 0x30 else of_nat d + 0x61 - 10 :: ULONG) :: WCHAR))
      \<and> digit_char d (sint ((if d < 10 then 0x30 + of_nat d else 0x41 + of_nat d - 10) :: UCHAR))"
    by code_simp
  with assms show "digit_char d (uint (ucast (if of_nat d < (10 :: ULONG) then of_nat d + 0x30 else of_nat d + 0x61 - 10 :: ULONG) :: WCHAR))"
    and "digit_char d (sint ((if d < 10 then 0x30 + of_nat d else 0x41 + of_nat d - 10) :: UCHAR))" by blast+
qed

lemma us_chars_init: "2 * length w \<le> 65532 \<Longrightarrow> us_chars (RtlInitUnicodeString (Some w)) = Some w"
proof -
  assume w: "2 * length w \<le> 65532"
  then have "unat (of_nat (2 * length w) :: USHORT) = 2 * length w" by (intro unat_of_nat_small) simp
  with w show ?thesis by (simp add: us_chars_def RtlInitUnicodeString_def Let_def array_slice_def del: of_nat_mult)
qed

lemma takeWhile_terminated: "0 \<notin> set w \<Longrightarrow> takeWhile (\<lambda>c. c \<noteq> 0) (w @ 0 # rest) = w"
  by (induction w) auto

text \<open>What the two printing functions store, in terms of the digits of the number.\<close>

lemma printed_digits:
  fixes v base :: ULONG
  assumes base: "base \<in> {0, 2, 8, 10, 16}" and r: "r = (if base = 0 then 10 else unat base)"
  defines "wide \<equiv> map (\<lambda>d. ucast (if of_nat d < (10 :: ULONG) then of_nat d + 0x30 else of_nat d + 0x61 - 10 :: ULONG)) (digits_of r (unat v)) :: WCHAR list"
    and "narrow \<equiv> map (\<lambda>d. if d < 10 then 0x30 + of_nat d else 0x41 + of_nat d - 10) (digits_of r (unat v)) :: UCHAR list"
  shows "temp_loop (if base = 0 then 10 else base) v [] = Some (rev wide)"
    and "digit_loop 32 (unat (if base = 0 then 10 else base)) (unat v) [] = Some narrow"
    and "length wide \<le> 32" "length narrow \<le> 32"
    and "list_all2 digit_char (digits_of r (unat v)) (map uint wide)"
    and "list_all2 digit_char (digits_of r (unat v)) (map sint narrow)"
proof -
  have r2: "2 \<le> r" "r \<le> 16" "unat (if base = 0 then 10 else base) = r" using base r by auto
  have len: "length (digits_of r (unat v)) \<le> 32"
    using length_digits_of [OF r2(1), of "unat v" 31] unsigned_less [of v, where ?'a = nat] by simp
  then show "length wide \<le> 32" "length narrow \<le> 32" by (simp_all add: wide_def narrow_def)
  show "temp_loop (if base = 0 then 10 else base) v [] = Some (rev wide)"
    using temp_loop_digits [of "if base = 0 then 10 else base" "[]" v] r2 len by (simp add: wide_def)
  show "digit_loop 32 (unat (if base = 0 then 10 else base)) (unat v) [] = Some narrow"
    unfolding r2(3) narrow_def using digit_loop_digits [OF r2(1), of "[]" "unat v" 32] len by simp
  have d: "d < 16" if "d \<in> set (digits_of r (unat v))" for d
    using that digits_of_less [OF r2(1), of "unat v"] r2(2) by (auto simp: list_all_iff)
  show "list_all2 digit_char (digits_of r (unat v)) (map uint wide)"
    unfolding wide_def list_all2_conv_all_nth using d codes_digit_char(1) by simp
  show "list_all2 digit_char (digits_of r (unat v)) (map sint narrow)"
    unfolding narrow_def list_all2_conv_all_nth using d codes_digit_char(2) by simp
qed

lemma digit_char_nonzero: "list_all2 digit_char ds (map f cs) \<Longrightarrow> f 0 = 0 \<Longrightarrow> 0 \<notin> set cs"
proof
  assume l: "list_all2 digit_char ds (map f cs)" and z: "f 0 = 0" "0 \<in> set cs"
  then obtain i where "i < length cs" "cs ! i = 0" by (auto simp: in_set_conv_nth)
  with l z(1) have "digit_char (ds ! i) 0" by (auto simp: list_all2_conv_all_nth)
  then show False using digit_char_value by fastforce
qed

text \<open>
  C32. For every 32-bit number and every base (2, 8, 10, 16, or 0 for the default)
  RtlIntegerToUnicode and RtlIntegerToChar succeed within 33 characters, and
  RtlUnicodeStringToInteger and RtlCharToInteger read the number back from the text.
\<close>

theorem RtlInteger_round_trip:
  fixes Value Base Length :: ULONG
  assumes "Base \<in> {0, 2, 8, 10, 16}" and "66 \<le> Length" "33 \<le> length String" and "33 \<le> length Buffer"
  shows "(\<exists>out. RtlIntegerToUnicode Value Base Length String = Some (STATUS_SUCCESS, out) \<and>
           RtlUnicodeStringToInteger (RtlInitUnicodeString (Some (takeWhile (\<lambda>c. c \<noteq> 0) out))) Base True =
             Some (STATUS_SUCCESS, Some Value)) \<and>
         (\<exists>out. RtlIntegerToChar Value Base 33 (Some Buffer) = Some (STATUS_SUCCESS, Some out) \<and>
           RtlCharToInteger (takeWhile (\<lambda>c. c \<noteq> 0) out) Base True = (STATUS_SUCCESS, Some Value))"
proof -
  define r where "r = (if Base = 0 then 10 else unat Base)"
  note printed = printed_digits [OF assms(1) r_def, of Value]
  let ?ds = "digits_of r (unat Value)"
  have r2: "2 \<le> r" using assms(1) by (auto simp: r_def)
  have parse: "parse_integer (dropWhile (\<lambda>ch. ch \<le> 0x20) chs) Base True = (STATUS_SUCCESS, Some Value)"
    if "list_all2 digit_char ?ds chs" for chs
    using parse_integer_digits [OF that digits_of_nonempty assms(1) r_def] digits_of_less [OF r2]
    by (simp add: digits_of_value [OF r2])
  have base: "\<not> ((if Base = 0 then 10 else Base) \<noteq> 2 \<and> (if Base = 0 then 10 else Base) \<noteq> 8 \<and>
      (if Base = 0 then 10 else Base) \<noteq> 10 \<and> (if Base = 0 then 10 else Base) \<noteq> 16)" using assms(1) by auto
  let ?w = "map (\<lambda>d. ucast (if of_nat d < (10 :: ULONG) then of_nat d + 0x30 else of_nat d + 0x61 - 10 :: ULONG)) ?ds :: WCHAR list"
    and ?n = "map (\<lambda>d. if d < 10 then 0x30 + of_nat d else 0x41 + of_nat d - 10) ?ds :: UCHAR list"
  have "unat (of_nat (2 * length ?w) :: ULONG) = 2 * length ?w" using printed(3) by (intro unat_of_nat_small) simp
  then have fits: "\<not> Length \<le> of_nat (2 * length (rev ?w))"
    using assms(2) printed(3) by (simp add: word_le_nat_alt del: of_nat_mult)
  have u1: "RtlIntegerToUnicode Value Base Length String = Some (STATUS_SUCCESS, ?w @ 0 # drop (Suc (length ?w)) String)"
    unfolding RtlIntegerToUnicode_def Let_def if_not_P [OF base] printed(1)
    using fits assms(3) printed(3) by (simp add: array_blit_def)
  have u2: "takeWhile (\<lambda>c. c \<noteq> 0) (?w @ 0 # drop (Suc (length ?w)) String) = ?w"
    using digit_char_nonzero [OF printed(5)] by (intro takeWhile_terminated) simp
  have u3: "RtlUnicodeStringToInteger (RtlInitUnicodeString (Some ?w)) Base True = Some (STATUS_SUCCESS, Some Value)"
    using printed(3) parse [OF printed(5)] by (simp add: RtlUnicodeStringToInteger_def us_chars_init)
  have c1: "RtlIntegerToChar Value Base 33 (Some Buffer) = Some (STATUS_SUCCESS, Some (?n @ 0 # drop (Suc (length ?n)) Buffer))"
    unfolding RtlIntegerToChar_def Let_def if_not_P [OF base] printed(2)
    using assms(4) printed(4) by (simp add: array_blit_def)
  have c2: "takeWhile (\<lambda>c. c \<noteq> 0) (?n @ 0 # drop (Suc (length ?n)) Buffer) = ?n"
    using digit_char_nonzero [OF printed(6)] by (intro takeWhile_terminated) simp
  have c3: "RtlCharToInteger ?n Base True = (STATUS_SUCCESS, Some Value)"
    using parse [OF printed(6)] by (simp add: RtlCharToInteger_def)
  show ?thesis
    by (intro conjI exI [of _ "?w @ 0 # drop (Suc (length ?w)) String"] exI [of _ "?n @ 0 # drop (Suc (length ?n)) Buffer"])
      (simp_all only: u1 u2 u3 c1 c2 c3)
qed

theorem RtlInteger_round_trip_witness:
  "(\<exists>out. RtlIntegerToUnicode 48879 16 66 (replicate 33 0) = Some (STATUS_SUCCESS, out) \<and>
     RtlUnicodeStringToInteger (RtlInitUnicodeString (Some (takeWhile (\<lambda>c. c \<noteq> 0) out))) 16 True =
       Some (STATUS_SUCCESS, Some 48879)) \<and>
   (\<exists>out. RtlIntegerToChar 48879 16 33 (Some (replicate 33 0)) = Some (STATUS_SUCCESS, Some out) \<and>
     RtlCharToInteger (takeWhile (\<lambda>c. c \<noteq> 0) out) 16 True = (STATUS_SUCCESS, Some 48879))"
  by (rule RtlInteger_round_trip) simp_all

lemma RtlLargeIntegerToChar_digits:
  assumes "Base \<in> {2, 8, 10, 16}" and ds: "ds = digits_of (unat Base) (unat Value)"
    and "length ds < unat Length" "Suc (length ds) \<le> length String"
  shows "RtlLargeIntegerToChar Value Base Length String =
    Some (STATUS_SUCCESS, map (\<lambda>d. if d < 10 then 0x30 + of_nat d else 0x41 + of_nat d - 10) ds @ 0 # drop (Suc (length ds)) String)"
proof -
  have b: "2 \<le> unat Base" using assms(1) by auto
  have "length ds \<le> 64"
    unfolding ds using length_digits_of [OF b, of "unat Value" 63] unsigned_less [of Value, where ?'a = nat] by simp
  then show ?thesis using assms digit_loop_digits [OF b, of "[]" "unat Value" 64]
    by (auto simp: RtlLargeIntegerToChar_def Let_def array_blit_def)
qed

section \<open>Strings\<close>

lemma even_word: "(w :: USHORT) mod 2 = 0 \<Longrightarrow> 2 * (unat w div 2) = unat w"
proof -
  assume "w mod 2 = 0"
  then have "unat (w mod 2) = unat (0 :: USHORT)" by (rule arg_cong)
  then have "unat w mod 2 = 0" by (simp only: unat_mod) simp
  then show ?thesis by presburger
qed

lemma valid_stringD:
  assumes "valid_string s"
  shows "us_chars s = Some (us_text s)" "unat (UsLength s) = 2 * length (us_text s)"
    "length (us_text s) \<le> length (UsBuffer s)" "unat (UsMaximumLength s) = 2 * length (UsBuffer s)"
    "take (length (us_text s)) (UsBuffer s) = us_text s"
proof -
  have e: "UsLength s mod 2 = 0" "UsLength s \<le> UsMaximumLength s" and b: "2 * length (UsBuffer s) = unat (UsMaximumLength s)"
    using assms by (auto simp: valid_string_def RtlValidateUnicodeString_def split: if_splits)
  have "unat (UsLength s) div 2 \<le> length (UsBuffer s)" using e(2) b by (simp add: word_le_nat_alt)
  moreover have "2 * (unat (UsLength s) div 2) = unat (UsLength s)" by (rule even_word [OF e(1)])
  ultimately show "us_chars s = Some (us_text s)" "unat (UsLength s) = 2 * length (us_text s)"
    "length (us_text s) \<le> length (UsBuffer s)" "unat (UsMaximumLength s) = 2 * length (UsBuffer s)"
    "take (length (us_text s)) (UsBuffer s) = us_text s"
    using b by (auto simp: us_chars_def us_text_def array_slice_def min_def)
qed

text \<open>Conversely, a string is valid when its fields are those of a text and a buffer.\<close>

lemma valid_stringI:
  assumes "unat (UsLength s) = 2 * n" "n \<le> length (UsBuffer s)" "unat (UsMaximumLength s) = 2 * length (UsBuffer s)"
  shows "valid_string s" "us_text s = take n (UsBuffer s)"
proof -
  have z: "w = 0" if "unat w = 0" for w :: USHORT using that by (simp add: word_unat_eq_iff)
  have m: "w mod 2 = 0" if "unat w = 2 * k" for w :: USHORT and k
    using that by (intro z) (simp add: unat_mod)
  show "valid_string s"
    using assms m [OF assms(1)] m [OF assms(3)] z
    by (auto simp: valid_string_def RtlValidateUnicodeString_def word_le_nat_alt)
  show "us_text s = take n (UsBuffer s)" using assms(1) by (simp add: us_text_def)
qed

lemma append_units_text:
  assumes d: "valid_string d" and u: "unat len = 2 * length units" and fits: "length (us_text d) + length units \<le> length (UsBuffer d)"
  obtains d' where "append_units d units len = Some d'" "valid_string d'" "us_text d' = us_text d @ units"
    "UsMaximumLength d' = UsMaximumLength d"
    "length (us_text d') = length (UsBuffer d') \<or> UsBuffer d' ! length (us_text d') = 0"
proof -
  note d' = valid_stringD [OF d]
  let ?n = "length (us_text d)" and ?k = "length units"
  let ?b = "us_text d @ units @ drop (?n + ?k) (UsBuffer d)"
  have "2 * (?n + ?k) < 65536" using fits d'(4) unsigned_less [of "UsMaximumLength d", where ?'a = nat] by simp
  then have len: "unat (UsLength d + len) = 2 * (?n + ?k)" using d'(2) u by (subst unat_add_small) simp_all
  have blit: "array_blit (UsBuffer d) (unat (UsLength d) div 2) units = Some ?b"
    using fits d'(2,5) by (simp add: array_blit_def)
  have room: "UsLength d + len < UsMaximumLength d \<longleftrightarrow> ?n + ?k < length (UsBuffer d)"
    unfolding word_less_nat_alt len d'(4) by auto
  define b' where "b' = (if ?n + ?k < length (UsBuffer d) then ?b[?n + ?k := 0] else ?b)"
  have set: "(if UsLength d + len < UsMaximumLength d
      then array_set ?b (unat (UsLength d) div 2 + unat len div 2) 0 else Some ?b) = Some b'"
    unfolding room b'_def using d'(2) u fits by simp
  define d2 where "d2 = d\<lparr>UsLength := UsLength d + len, UsBuffer := b'\<rparr>"
  have b': "length b' = length (UsBuffer d)" "take (?n + ?k) b' = us_text d @ units"
    "?n + ?k = length (UsBuffer d) \<or> b' ! (?n + ?k) = 0"
    using fits by (auto simp: b'_def)
  have valid: "valid_string d2" "us_text d2 = take (?n + ?k) (UsBuffer d2)"
    using valid_stringI [of d2 "?n + ?k"] len fits d'(4) b'(1) by (simp_all add: d2_def)
  have "append_units d units len = Some d2" using blit set by (simp add: append_units_def Let_def d2_def)
  then show ?thesis using that [of d2] valid b' by (simp add: d2_def)
qed

text \<open>
  For valid strings RtlAppendUnicodeStringToString fails with STATUS_BUFFER_TOO_SMALL,
  changing nothing, exactly when the texts do not fit the buffer; otherwise the destination
  is a valid string with the same buffer size whose text is the concatenation, terminated
  when there is room, and nothing is stored outside the buffer.
\<close>

theorem RtlAppendUnicodeStringToString_correct:
  assumes "valid_string Destination" and "valid_string Source"
  shows "if length (us_text Destination) + length (us_text Source) \<le> length (UsBuffer Destination)
         then \<exists>d. RtlAppendUnicodeStringToString Destination Source = Some (STATUS_SUCCESS, d) \<and> valid_string d \<and>
           us_text d = us_text Destination @ us_text Source \<and> UsMaximumLength d = UsMaximumLength Destination \<and>
           (us_text Source = [] \<and> d = Destination \<or>
            length (us_text d) = length (UsBuffer d) \<or> UsBuffer d ! length (us_text d) = 0)
         else RtlAppendUnicodeStringToString Destination Source = Some (STATUS_BUFFER_TOO_SMALL, Destination)"
proof -
  note d = valid_stringD [OF assms(1)] and s = valid_stringD [OF assms(2)]
  have z: "UsLength Source = 0 \<longleftrightarrow> us_text Source = []" using s(2) by (auto simp: word_unat_eq_iff)
  show ?thesis
  proof (cases "us_text Source = []")
    case True
    then show ?thesis using z assms d(3) by (simp add: RtlAppendUnicodeStringToString_def Let_def)
  next
    case False
    show ?thesis
    proof (cases "length (us_text Destination) + length (us_text Source) \<le> length (UsBuffer Destination)")
      case True
      obtain d' where d': "append_units Destination (us_text Source) (UsLength Source) = Some d'" "valid_string d'"
        "us_text d' = us_text Destination @ us_text Source" "UsMaximumLength d' = UsMaximumLength Destination"
        "length (us_text d') = length (UsBuffer d') \<or> UsBuffer d' ! length (us_text d') = 0"
        by (rule append_units_text [OF assms(1) s(2) True])
      then have "RtlAppendUnicodeStringToString Destination Source = Some (STATUS_SUCCESS, d')"
        using True False z s(1,2) d(2,4) by (simp add: RtlAppendUnicodeStringToString_def Let_def)
      with d' True show ?thesis by auto
    next
      case no: False
      then show ?thesis using False z s(2) d(2,4) by (simp add: RtlAppendUnicodeStringToString_def Let_def)
    qed
  qed
qed

theorem RtlAppendUnicodeStringToString_correct_witness:
  "\<exists>d. RtlAppendUnicodeStringToString \<lparr>UsLength = 4, UsMaximumLength = 10, UsBuffer = [0x43, 0x3A, 1, 2, 3]\<rparr>
     \<lparr>UsLength = 4, UsMaximumLength = 4, UsBuffer = [0x5C, 0x41]\<rparr> = Some (STATUS_SUCCESS, d) \<and>
     us_text d = [0x43, 0x3A, 0x5C, 0x41]"
proof -
  let ?d = "\<lparr>UsLength = 4, UsMaximumLength = 10, UsBuffer = [0x43, 0x3A, 1, 2, 3]\<rparr>"
    and ?s = "\<lparr>UsLength = 4, UsMaximumLength = 4, UsBuffer = [0x5C, 0x41]\<rparr>"
  have v: "valid_string ?d" "valid_string ?s" by (simp_all add: valid_string_def RtlValidateUnicodeString_def)
  have t: "us_text ?d = [0x43, 0x3A]" "us_text ?s = [0x5C, 0x41]" by (simp_all add: us_text_def)
  show ?thesis using RtlAppendUnicodeStringToString_correct [OF v] by (auto simp: t)
qed

lemma RtlAppendUnicodeToString_init:
  assumes "w \<noteq> []"
  shows "RtlAppendUnicodeToString Destination (Some w) =
    RtlAppendUnicodeStringToString Destination (RtlInitUnicodeString (Some w))"
proof -
  define k where "k = (if 2 * length w > 65532 then 65532 else 2 * length w)"
  then have k: "k < 65536" "k \<noteq> 0" using assms by (auto split: if_splits)
  then have "unat (of_nat k :: USHORT) = k" by (intro unat_of_nat_small) simp
  moreover have "UsLength (RtlInitUnicodeString (Some w)) = of_nat k" by (simp add: RtlInitUnicodeString_def Let_def k_def)
  ultimately have "UsLength (RtlInitUnicodeString (Some w)) \<noteq> 0" using k(2) by (metis unat_0)
  then show ?thesis by (simp add: RtlAppendUnicodeToString_def RtlAppendUnicodeStringToString_def Let_def add.commute)
qed

lemma take_of_prefix: "take (length xs) ys = xs \<Longrightarrow> take (length (take m xs)) ys = take m xs"
proof -
  assume a: "take (length xs) ys = xs"
  have "take (length (take m xs)) ys = take m (take (length xs) ys)" by (simp only: length_take take_take min.commute)
  then show ?thesis by (simp only: a)
qed

lemma RtlCopyUnicodeString_text:
  assumes "valid_string d" "valid_string s"
  obtains d' where "RtlCopyUnicodeString d (Some s) = Some d'" "valid_string d'"
    "us_text d' = take (length (UsBuffer d)) (us_text s)" "UsMaximumLength d' = UsMaximumLength d"
proof -
  note d = valid_stringD [OF assms(1)] and s = valid_stringD [OF assms(2)]
  let ?len = "min (UsMaximumLength d) (UsLength s)" and ?t = "take (length (UsBuffer d)) (us_text s)"
  let ?b = "?t @ drop (length ?t) (UsBuffer d)"
  have len: "unat ?len = 2 * length ?t" using d(4) s(2) by (simp add: min_def word_le_nat_alt)
  have slice: "array_slice (UsBuffer s) 0 (unat ?len div 2) = Some ?t"
    unfolding len array_slice_def using take_of_prefix [OF s(5)] s(3) by simp
  define b' where "b' = (if length ?t < length (UsBuffer d) then ?b[length ?t := 0] else ?b)"
  have room: "?len < UsMaximumLength d \<longleftrightarrow> length ?t < length (UsBuffer d)"
    unfolding word_less_nat_alt len d(4) by auto
  define d2 where "d2 = d\<lparr>UsLength := ?len, UsBuffer := b'\<rparr>"
  have b': "length b' = length (UsBuffer d)" "take (length ?t) b' = ?t" by (auto simp: b'_def)
  have "RtlCopyUnicodeString d (Some s) = Some d2"
    using slice len by (simp add: RtlCopyUnicodeString_def Let_def array_blit_def room b'_def d2_def)
  moreover have "valid_string d2" "us_text d2 = ?t"
    using valid_stringI [of d2 "length ?t"] len d(4) b' by (simp_all add: d2_def)
  ultimately show ?thesis using that [of d2] by (simp add: d2_def)
qed

text \<open>Case conversion maps the text; a new buffer has exactly its size.\<close>

lemma map_string_allocated:
  assumes "valid_string s"
  shows "map_string f True d s True =
    Some (STATUS_SUCCESS, d\<lparr>UsLength := UsLength s, UsMaximumLength := UsLength s, UsBuffer := map f (us_text s)\<rparr>)"
  using valid_stringD [OF assms] by (simp add: map_string_def)

lemma map_string_text:
  assumes "valid_string s" "map_string f True d s True = Some (st, d')"
  shows "st = STATUS_SUCCESS" "valid_string d'" "us_text d' = map f (us_text s)"
proof -
  note s = valid_stringD [OF assms(1)]
  have d': "d' = d\<lparr>UsLength := UsLength s, UsMaximumLength := UsLength s, UsBuffer := map f (us_text s)\<rparr>"
    and "st = STATUS_SUCCESS" using assms(2) map_string_allocated [OF assms(1)] by simp_all
  then show "st = STATUS_SUCCESS" by simp
  show "valid_string d'" "us_text d' = map f (us_text s)"
    using valid_stringI [of d' "length (us_text s)"] s(2) by (simp_all add: d')
qed

section \<open>Comparison\<close>

lemma compare_units_order:
  "(if compare_units f xs ys = 0 then 2 * int (length xs) - 2 * int (length ys) else compare_units f xs ys) = r \<Longrightarrow>
   (r = 0 \<longleftrightarrow> map f xs = map f ys) \<and> (r < 0 \<longleftrightarrow> (map f xs, map f ys) \<in> lexord {(c, d). c < d})"
proof (induction f xs ys rule: compare_units.induct)
  case (1 f c cs d ds)
  have u: "uint (f c) - uint (f d) = 0 \<longleftrightarrow> f c = f d" "uint (f c) - uint (f d) < 0 \<longleftrightarrow> f c < f d"
    by (auto simp: word_less_def word_uint_eq_iff)
  show ?case
  proof (cases "f c = f d")
    case True
    then have eq: "compare_units f (c # cs) (d # ds) = compare_units f cs ds" by (simp add: Let_def)
    have "(if compare_units f cs ds = 0 then 2 * int (length cs) - 2 * int (length ds) else compare_units f cs ds) = r"
      using 1(2) unfolding eq by (auto split: if_splits)
    with 1(1) [OF refl] u True show ?thesis by simp
  next
    case False
    then show ?thesis using 1(2) u by (auto simp: Let_def)
  qed
qed (auto simp: neq_Nil_conv)

text \<open>
  On valid strings the sign of RtlCompareUnicodeString is the lexicographic order of the
  texts (upcased for a comparison without case), a proper prefix being smaller, and 0 is
  equality.
\<close>

theorem RtlCompareUnicodeString_order:
  assumes "valid_string s1" and "valid_string s2" and "f = fold_case NlsUnicodeUpcaseTable CaseInsensitive"
  shows "\<exists>r. RtlCompareUnicodeString NlsUnicodeUpcaseTable s1 s2 CaseInsensitive = Some r \<and>
    (r = 0 \<longleftrightarrow> map f (us_text s1) = map f (us_text s2)) \<and>
    (r < 0 \<longleftrightarrow> (map f (us_text s1), map f (us_text s2)) \<in> lexord {(c, d). c < d})"
proof -
  note s1 = valid_stringD [OF assms(1)] and s2 = valid_stringD [OF assms(2)]
  have "uint (UsLength s) = 2 * int (length (us_text s))" if "unat (UsLength s) = 2 * length (us_text s)" for s
    using that by (simp only: uint_nat of_nat_mult of_nat_numeral)
  then have "RtlCompareUnicodeString NlsUnicodeUpcaseTable s1 s2 CaseInsensitive =
      Some (if compare_units f (us_text s1) (us_text s2) = 0
            then 2 * int (length (us_text s1)) - 2 * int (length (us_text s2)) else compare_units f (us_text s1) (us_text s2))"
    using s1(1,2) s2(1,2) by (simp add: RtlCompareUnicodeString_def Let_def assms(3))
  then show ?thesis using compare_units_order [of f "us_text s1" "us_text s2"] by blast
qed

theorem RtlCompareUnicodeString_order_witness:
  "\<exists>r < 0. RtlCompareUnicodeString (\<lambda>_. 0) \<lparr>UsLength = 4, UsMaximumLength = 4, UsBuffer = [0x61, 0x62]\<rparr>
     \<lparr>UsLength = 2, UsMaximumLength = 2, UsBuffer = [0x42]\<rparr> True = Some r"
proof -
  let ?s1 = "\<lparr>UsLength = 4, UsMaximumLength = 4, UsBuffer = [0x61, 0x62]\<rparr>"
    and ?s2 = "\<lparr>UsLength = 2, UsMaximumLength = 2, UsBuffer = [0x42]\<rparr>"
  have v: "valid_string ?s1" "valid_string ?s2" by (simp_all add: valid_string_def RtlValidateUnicodeString_def)
  have "(map (fold_case (\<lambda>_. 0) True) (us_text ?s1), map (fold_case (\<lambda>_. 0) True) (us_text ?s2)) \<in> lexord {(c, d). c < d}"
    by (simp add: us_text_def fold_case_def RtlpUpcaseUnicodeChar_def)
  with RtlCompareUnicodeString_order [OF v refl, of "\<lambda>_. 0" True] show ?thesis by blast
qed

lemma RtlEqualUnicodeString_iff:
  assumes "valid_string s1" "valid_string s2"
  shows "RtlEqualUnicodeString tbl s1 s2 ci =
    Some (map (fold_case tbl ci) (us_text s1) = map (fold_case tbl ci) (us_text s2))"
proof -
  note s1 = valid_stringD [OF assms(1)] and s2 = valid_stringD [OF assms(2)]
  have u: "uint (UsLength s) = 2 * int (length (us_text s))" if "unat (UsLength s) = 2 * length (us_text s)" for s
    using that by (simp only: uint_nat of_nat_mult of_nat_numeral)
  have l: "UsLength s1 = UsLength s2 \<longleftrightarrow> length (us_text s1) = length (us_text s2)"
    using s1(2) s2(2) by (simp add: word_unat_eq_iff)
  show ?thesis
  proof (cases "length (us_text s1) = length (us_text s2)")
    case True
    then show ?thesis using s1(1) s2(1) l u [OF s1(2)] u [OF s2(2)] compare_units_order [OF refl, of "fold_case tbl ci" "us_text s1" "us_text s2"]
      by (auto simp: RtlEqualUnicodeString_def RtlCompareUnicodeString_def Let_def)
  next
    case False
    then show ?thesis using l by (auto simp: RtlEqualUnicodeString_def dest: map_eq_imp_length_eq)
  qed
qed

text \<open>Comparing without case is comparing the upcased strings.\<close>

lemma RtlEqualUnicodeString_upcased:
  assumes "valid_string s1" "valid_string s2"
    and "RtlUpcaseUnicodeString tbl True d1 s1 True = Some (st1, u1)" "RtlUpcaseUnicodeString tbl True d2 s2 True = Some (st2, u2)"
  shows "RtlEqualUnicodeString tbl s1 s2 True = RtlEqualUnicodeString tbl u1 u2 False"
proof -
  note u = map_string_text [OF assms(1) assms(3) [unfolded RtlUpcaseUnicodeString_def]]
    map_string_text [OF assms(2) assms(4) [unfolded RtlUpcaseUnicodeString_def]]
  have "fold_case tbl True = RtlpUpcaseUnicodeChar tbl" "fold_case tbl False = id" by (auto simp: fold_case_def)
  with u assms(1,2) show ?thesis by (simp add: RtlEqualUnicodeString_iff)
qed

lemma same_units_iff: "length xs \<le> length ys \<Longrightarrow> same_units f xs ys \<longleftrightarrow> map f xs = map f (take (length xs) ys)"
  by (induction f xs ys rule: same_units.induct) auto

lemma RtlPrefixUnicodeString_iff:
  assumes "valid_string s1" "valid_string s2" "UsBuffer s1 \<noteq> []" "UsBuffer s2 \<noteq> []"
  shows "RtlPrefixUnicodeString tbl s1 s2 ci = Some (length (us_text s1) \<le> length (us_text s2) \<and>
    map (fold_case tbl ci) (us_text s1) = map (fold_case tbl ci) (take (length (us_text s1)) (us_text s2)))"
  using valid_stringD [OF assms(1)] valid_stringD [OF assms(2)] assms(3,4)
  by (auto simp: RtlPrefixUnicodeString_def same_units_iff word_less_nat_alt not_less)

text \<open>
  The hash without case folds only the letters a to z, so that two strings which are equal without case
  can have different hashes.
\<close>

lemma RtlHashUnicodeString_case:
  fixes e_acute E_acute :: UNICODE_STRING
  defines "e_acute \<equiv> \<lparr>UsLength = 2, UsMaximumLength = 2, UsBuffer = [0xE9]\<rparr>"
    and "E_acute \<equiv> \<lparr>UsLength = 2, UsMaximumLength = 2, UsBuffer = [0xC9]\<rparr>"
    and "tbl \<equiv> (\<lambda>i. if i = 0 then 256 else if i = 270 then 512 else if i = 521 then 0xFFE0 else 0) :: nat \<Rightarrow> USHORT"
  shows "RtlEqualUnicodeString tbl e_acute E_acute True = Some True"
    and "RtlHashUnicodeString (Some e_acute) True 0 True \<noteq> RtlHashUnicodeString (Some E_acute) True 0 True"
proof -
  show "RtlEqualUnicodeString tbl e_acute E_acute True = Some True"
    unfolding e_acute_def E_acute_def tbl_def by code_simp
  show "RtlHashUnicodeString (Some e_acute) True 0 True \<noteq> RtlHashUnicodeString (Some E_acute) True 0 True"
    unfolding e_acute_def E_acute_def by code_simp
qed

lemma RtlHashUnicodeString_text:
  assumes "valid_string s1" "valid_string s2" "us_text s1 = us_text s2"
  shows "RtlHashUnicodeString (Some s1) ci alg out = RtlHashUnicodeString (Some s2) ci alg out"
  using valid_stringD(1) [OF assms(1)] valid_stringD(1) [OF assms(2)] assms(3) by (simp add: RtlHashUnicodeString_def)

section \<open>Searching and duplicating\<close>

lemma RtlpIsCharInUnicodeString_iff:
  "RtlpIsCharInUnicodeString tbl c match ci \<longleftrightarrow> fold_case tbl ci c \<in> fold_case tbl ci ` set match"
  by (induction match) auto

lemma find_forward_Some:
  "find_forward P k cs = Some i \<Longrightarrow> k \<le> i \<and> i < k + length cs \<and> P (cs ! (i - k)) \<and> (\<forall>j < i - k. \<not> P (cs ! j))"
proof (induction P k cs rule: find_forward.induct)
  case (2 P k c cs)
  show ?case
  proof (cases "P c")
    case False
    with 2 have "Suc k \<le> i \<and> i < Suc k + length cs \<and> P (cs ! (i - Suc k)) \<and> (\<forall>j < i - Suc k. \<not> P (cs ! j))" by simp
    moreover from this have "i - k = Suc (i - Suc k)" by linarith
    ultimately show ?thesis using False by (auto simp: less_Suc_eq_0_disj)
  qed (use 2 in simp)
qed simp

lemma find_forward_None: "find_forward P k cs = None \<longleftrightarrow> (\<forall>c \<in> set cs. \<not> P c)"
  by (induction P k cs rule: find_forward.induct) auto

lemma find_backward_Some:
  "find_backward P k cs = Some i \<Longrightarrow> i < k \<and> P (cs ! i) \<and> (\<forall>j. i < j \<and> j < k \<longrightarrow> \<not> P (cs ! j))"
  by (induction P k cs rule: find_backward.induct) (auto simp: less_Suc_eq split: if_splits)

lemma find_backward_None: "find_backward P k cs = None \<longleftrightarrow> (\<forall>j < k. \<not> P (cs ! j))"
  by (induction P k cs rule: find_backward.induct) (auto simp: less_Suc_eq)

lemma RtlDuplicateUnicodeString_text:
  assumes "valid_string s" "UsLength s < 65534" "UsBuffer s \<noteq> []"
  shows "\<exists>d. RtlDuplicateUnicodeString True 3 (Some s) (Some d0) = Some (STATUS_SUCCESS, Some d) \<and>
    valid_string d \<and> us_text d = us_text s \<and> UsBuffer d = us_text s @ [0]"
proof -
  note s = valid_stringD [OF assms(1)]
  let ?d = "\<lparr>UsLength = UsLength s, UsMaximumLength = of_nat (unat (UsLength s) + 2), UsBuffer = us_text s @ [0]\<rparr>"
  have "unat (UsLength s) < 65534" using assms(2) by (simp add: word_less_nat_alt)
  then have max: "unat (of_nat (unat (UsLength s) + 2) :: USHORT) = unat (UsLength s) + 2" by (intro unat_of_nat_small) simp
  then have "valid_string ?d" "us_text ?d = us_text s"
    using valid_stringI [of ?d "length (us_text s)"] s(2) by (simp_all del: of_nat_add)
  moreover have "UsLength s \<le> UsMaximumLength s" using s(2-4) by (simp add: word_le_nat_alt)
  then have "RtlDuplicateUnicodeString True 3 (Some s) (Some d0) = Some (STATUS_SUCCESS, Some ?d)"
    using s(1) assms(3) by (simp add: RtlDuplicateUnicodeString_def Let_def not_less)
  ultimately show ?thesis by auto
qed

lemma RtlDuplicateUnicodeString_wraps:
  assumes "valid_string s" "UsLength s = 65534"
  shows "\<exists>d. RtlDuplicateUnicodeString True 1 (Some s) (Some d0) = Some (STATUS_SUCCESS, Some d) \<and> UsMaximumLength d = 0"
  using valid_stringD [OF assms(1)] assms(2)
  by (auto simp: RtlDuplicateUnicodeString_def Let_def word_le_nat_alt word_less_nat_alt)

lemma RtlEraseUnicodeString_text:
  assumes "valid_string s" "UsBuffer s \<noteq> []"
  shows "RtlEraseUnicodeString s = Some (s\<lparr>UsLength := 0, UsBuffer := replicate (length (UsBuffer s)) 0\<rparr>)"
proof -
  note s = valid_stringD [OF assms(1)]
  have "UsMaximumLength s \<noteq> 0" using s(4) assms(2) by (auto simp: word_unat_eq_iff)
  then show ?thesis using s(4) assms(2) by (simp add: RtlEraseUnicodeString_def array_blit_def)
qed

end
