(* ===== verification/FsRtlName.thy ===== *)
theory FsRtlName
  imports RtlUnicode
begin

text \<open>
  Names of files: \<^verbatim>\<open>ntoskrnl/fsrtl/name.c\<close> and the table of legal characters of
  \<^verbatim>\<open>ntoskrnl/fsrtl/fsrtlpc.c\<close>.

  The matcher keeps the set of its states in two arrays that change roles after each character.  A state
  is a number: twice the byte position in the expression, plus 3 for the position after a star that has
  taken a character.  The arrays are the lists of the entries in use, with the capacity beside them, so that
  a store past the end is a fault; a violated assertion is a fault as well.  A position in the name is
  the rest of the name.  The pool allocation is an argument; it may fail only by returning a null pointer.
\<close>

unbundle bit_operations_syntax

abbreviation (input) STAR :: WCHAR where "STAR \<equiv> 0x2A"
abbreviation (input) QM :: WCHAR where "QM \<equiv> 0x3F"
abbreviation (input) DOT :: WCHAR where "DOT \<equiv> 0x2E"
abbreviation (input) BACKSLASH :: WCHAR where "BACKSLASH \<equiv> 0x5C"
abbreviation (input) DOS_STAR :: WCHAR where "DOS_STAR \<equiv> 0x3C"
abbreviation (input) DOS_QM :: WCHAR where "DOS_QM \<equiv> 0x3E"
abbreviation (input) DOS_DOT :: WCHAR where "DOS_DOT \<equiv> 0x22"

section \<open>Wildcard characters\<close>

text \<open>The flags of the table: 1 FAT, 2 HPFS, 4 NTFS, 8 wildcard, 16 OLE.\<close>

definition LegalAnsiCharacterArray :: "UCHAR list" where
  "LegalAnsiCharacterArray =
     [0x00, 0x10, 0x10, 0x10, 0x10, 0x10, 0x10, 0x10, 0x10, 0x10, 0x10, 0x10, 0x10, 0x10, 0x10, 0x10,
      0x10, 0x10, 0x10, 0x10, 0x10, 0x10, 0x10, 0x10, 0x10, 0x10, 0x10, 0x10, 0x10, 0x10, 0x10, 0x10,
      0x17, 0x07, 0x18, 0x17, 0x17, 0x17, 0x17, 0x17, 0x17, 0x17, 0x18, 0x16, 0x16, 0x17, 0x07, 0x00,
      0x17, 0x17, 0x17, 0x17, 0x17, 0x17, 0x17, 0x17, 0x17, 0x17, 0x04, 0x16, 0x18, 0x16, 0x18, 0x18,
      0x17, 0x17, 0x17, 0x17, 0x17, 0x17, 0x17, 0x17, 0x17, 0x17, 0x17, 0x17, 0x17, 0x17, 0x17, 0x17,
      0x17, 0x17, 0x17, 0x17, 0x17, 0x17, 0x17, 0x17, 0x17, 0x17, 0x17, 0x16, 0x00, 0x16, 0x17, 0x17,
      0x17, 0x17, 0x17, 0x17, 0x17, 0x17, 0x17, 0x17, 0x17, 0x17, 0x17, 0x17, 0x17, 0x17, 0x17, 0x17,
      0x17, 0x17, 0x17, 0x17, 0x17, 0x17, 0x17, 0x17, 0x17, 0x17, 0x17, 0x17, 0x10, 0x17, 0x17, 0x17]"

definition FsRtlIsUnicodeCharacterWild :: "WCHAR \<Rightarrow> bool" where
  "FsRtlIsUnicodeCharacterWild C =
     (if C \<ge> 0x40 then False else LegalAnsiCharacterArray ! unat C AND 0x08 \<noteq> 0)"

text \<open>The loop runs from the last character to a backslash.\<close>

fun wild_loop :: "WCHAR list \<Rightarrow> bool" where
  "wild_loop [] = False"
| "wild_loop (c # cs) = (if c = BACKSLASH then False else if FsRtlIsUnicodeCharacterWild c then True else wild_loop cs)"

definition FsRtlDoesNameContainWildCards :: "WCHAR list \<Rightarrow> bool" where
  "FsRtlDoesNameContainWildCards Name = wild_loop (rev Name)"

section \<open>Paths\<close>

text \<open>\<open>SkipFirstSlash\<close> and \<open>FirstPosition\<close>, at index \<open>i\<close>.\<close>

fun dissect_loop :: "nat \<Rightarrow> nat \<Rightarrow> WCHAR list \<Rightarrow> nat \<times> nat" where
  "dissect_loop SkipFirstSlash i [] = (SkipFirstSlash, i)"
| "dissect_loop SkipFirstSlash i (c # cs) =
     (if c = BACKSLASH
      then if i = 0 then dissect_loop 1 (Suc i) cs else (SkipFirstSlash, i)
      else dissect_loop SkipFirstSlash (Suc i) cs)"

definition FsRtlDissectName :: "WCHAR list \<Rightarrow> WCHAR list \<times> WCHAR list" where
  "FsRtlDissectName Name =
     (if Name = [] then ([], [])
      else case dissect_loop 0 0 Name of (SkipFirstSlash, FirstPosition) \<Rightarrow>
             (take (FirstPosition - SkipFirstSlash) (drop SkipFirstSlash Name),
              if FirstPosition < length Name then drop (FirstPosition + 1) Name else []))"

section \<open>Equality of names\<close>

text \<open>
  \<open>UpcaseName1\<close> and \<open>UpcaseName2\<close> are the local variables, \<open>can_alloc1\<close> and \<open>can_alloc2\<close> tell whether
  their buffers can be allocated.  A status that is raised is on the left.
\<close>

fun equal_loop :: "(WCHAR \<Rightarrow> WCHAR) \<Rightarrow> WCHAR list \<Rightarrow> WCHAR list \<Rightarrow> bool" where
  "equal_loop UpcaseTable (c # cs) (d # ds) = (if UpcaseTable c \<noteq> UpcaseTable d then False else equal_loop UpcaseTable cs ds)"
| "equal_loop UpcaseTable _ _ = True"

definition FsRtlAreNamesEqual ::
    "(nat \<Rightarrow> USHORT) \<Rightarrow> bool \<Rightarrow> bool \<Rightarrow> UNICODE_STRING \<Rightarrow> UNICODE_STRING \<Rightarrow> UNICODE_STRING \<Rightarrow> UNICODE_STRING \<Rightarrow>
     bool \<Rightarrow> (WCHAR \<Rightarrow> WCHAR) option \<Rightarrow> (NTSTATUS + bool) option" where
  "FsRtlAreNamesEqual nls can_alloc1 can_alloc2 UpcaseName1 UpcaseName2 Name1 Name2 IgnoreCase UpcaseTable =
     (if UsLength Name1 \<noteq> UsLength Name2 then Some (Inr False)
      else case (IgnoreCase, UpcaseTable) of
             (True, None) \<Rightarrow> do {
               (Status1, UpcaseName1) \<leftarrow> RtlUpcaseUnicodeString nls can_alloc1 UpcaseName1 Name1 True;
               if \<not> NT_SUCCESS Status1 then Some (Inl Status1)
               else do {
                 (Status2, UpcaseName2) \<leftarrow> RtlUpcaseUnicodeString nls can_alloc2 UpcaseName2 Name2 True;
                 if \<not> NT_SUCCESS Status2 then Some (Inl Status2)
                 else do {
                   b1 \<leftarrow> us_chars UpcaseName1;
                   b2 \<leftarrow> us_chars UpcaseName2;
                   Some (Inr (b1 = b2))
                 }
               }
             }
           | (True, Some table) \<Rightarrow> do {
               b1 \<leftarrow> us_chars Name1;
               b2 \<leftarrow> us_chars Name2;
               Some (Inr (equal_loop table b1 b2))
             }
           | (False, _) \<Rightarrow> do {
               b1 \<leftarrow> us_chars Name1;
               b2 \<leftarrow> us_chars Name2;
               Some (Inr (b1 = b2))
             })"

section \<open>Matching\<close>

text \<open>A fault, the exit after a failed allocation, or a result.\<close>

datatype 'a run = Fault | NoMemory | Run 'a

fun bind_run :: "'a run \<Rightarrow> ('a \<Rightarrow> 'b run) \<Rightarrow> 'b run" where
  "bind_run Fault f = Fault"
| "bind_run NoMemory f = NoMemory"
| "bind_run (Run x) f = f x"

text \<open>The entries \<open>0 .. BackTrackingPosition - 1\<close> of the array that is written, and its capacity.\<close>

record backtracking =
  BackTracking :: "USHORT list"
  BackTrackingBufferSize :: nat
  AllocatedBuffer :: bool

definition push :: "nat \<Rightarrow> backtracking \<Rightarrow> backtracking run" where
  "push v st =
     (if length (BackTracking st) < BackTrackingBufferSize st
      then Run (st\<lparr>BackTracking := BackTracking st @ [of_nat v]\<rparr>) else Fault)"

primrec push_all :: "nat list \<Rightarrow> backtracking \<Rightarrow> backtracking run" where
  "push_all [] st = Run st"
| "push_all (v # vs) st = bind_run (push v st) (push_all vs)"

text \<open>The arrays are replaced by allocated ones when fewer than three entries are left; 16 entries are copied to each.\<close>

definition grow :: "(nat \<Rightarrow> bool) \<Rightarrow> WCHAR list \<Rightarrow> backtracking \<Rightarrow> backtracking run" where
  "grow ExAllocatePoolWithTag Expression st =
     (if length (BackTracking st) > BackTrackingBufferSize st - 3
      then if AllocatedBuffer st then Fault
           else let size = length Expression * 2 + 1 in
                if \<not> ExAllocatePoolWithTag (2 * size * 2) then NoMemory
                else if size < 16 then Fault
                else Run (st\<lparr>BackTrackingBufferSize := size, AllocatedBuffer := True\<rparr>)
      else Run st)"

text \<open>
  What one character \<open>e\<close> of the expression does with the current character of the name (none at its
  end): the states it stores and whether the loop continues with the next character of the expression.
\<close>

definition expr_char :: "(WCHAR \<Rightarrow> WCHAR) \<Rightarrow> WCHAR list \<Rightarrow> WCHAR \<Rightarrow> nat \<Rightarrow> nat list \<times> bool" where
  "expr_char upcase name e ExpressionPosition =
     (let EndOfName = (name = []);
          CompareChar = (if EndOfName then 0 else upcase (hd name)) in
      if e = CompareChar \<and> \<not> EndOfName then ([(ExpressionPosition + 2) * 2], False)
      else if e = QM \<and> \<not> EndOfName then ([(ExpressionPosition + 2) * 2], False)
      else if e = STAR then ([ExpressionPosition * 2, ExpressionPosition * 2 + 3], True)
      else if e = DOS_STAR
      then let DontSkipDot = (\<not> (\<not> EndOfName \<and> hd name = DOT \<and> DOT \<in> set (tl name))) in
           ((if EndOfName \<or> hd name \<noteq> DOT \<or> \<not> DontSkipDot then [ExpressionPosition * 2] else []) @
            [ExpressionPosition * 2 + 3], True)
      else if e = DOS_DOT
      then (if EndOfName then ([], True)
            else if hd name = DOT then ([(ExpressionPosition + 2) * 2], False) else ([], False))
      else if e = DOS_QM
      then (if EndOfName \<or> hd name = DOT then ([], True) else ([(ExpressionPosition + 2) * 2], False))
      else ([], False))"

text \<open>The expression parsing loop.\<close>

function expr_loop ::
    "(nat \<Rightarrow> bool) \<Rightarrow> (WCHAR \<Rightarrow> WCHAR) \<Rightarrow> WCHAR list \<Rightarrow> WCHAR list \<Rightarrow> nat \<Rightarrow> nat \<Rightarrow> backtracking \<Rightarrow> backtracking run" where
  "expr_loop alloc upcase Expression name Offset ExpressionPosition st =
     (if \<not> ExpressionPosition < 2 * length Expression then Run st
      else let ExpressionPosition' = ExpressionPosition + Offset in
           if ExpressionPosition' = 2 * length Expression then push (2 * length Expression * 2) st
           else if ExpressionPosition' > 2 * length Expression then Fault
           else bind_run (grow alloc Expression st) (\<lambda>st.
             case expr_char upcase name (Expression ! (ExpressionPosition' div 2)) ExpressionPosition' of
               (vs, cont) \<Rightarrow> bind_run (push_all vs st) (\<lambda>st.
                 if cont then expr_loop alloc upcase Expression name 2 ExpressionPosition' st else Run st)))"
  by pat_completeness auto
termination
  by (relation "measures [\<lambda>(_, _, E, _, _, p, _). 2 * length E - p, \<lambda>(_, _, _, _, off, _, _). if off = 0 then 1 else 0]")
    auto

text \<open>The states of the last round that are below a new one are left out.\<close>

definition skip_old :: "USHORT list \<Rightarrow> USHORT list \<Rightarrow> USHORT list" where
  "skip_old new old = foldl (\<lambda>old v. dropWhile (\<lambda>x. v > x) old) old new"

text \<open>One round, over the states of the last round.\<close>

function old_loop ::
    "(nat \<Rightarrow> bool) \<Rightarrow> (WCHAR \<Rightarrow> WCHAR) \<Rightarrow> WCHAR list \<Rightarrow> WCHAR list \<Rightarrow> USHORT list \<Rightarrow> backtracking \<Rightarrow> backtracking run" where
  "old_loop alloc upcase Expression name [] st = Run st"
| "old_loop alloc upcase Expression name (x # old) st =
     bind_run (expr_loop alloc upcase Expression name 0 ((unat x + 1) div 2) st) (\<lambda>st.
       old_loop alloc upcase Expression name (skip_old (BackTracking st) old) st)"
  by pat_completeness auto
termination
proof -
  have "length (foldl (\<lambda>old v. dropWhile (\<lambda>x. v > x) old) os vs) \<le> length os" for vs os :: "USHORT list"
  proof (induction vs arbitrary: os)
    case (Cons v vs)
    show ?case using order_trans [OF Cons length_dropWhile_le] by simp
  qed simp
  then show ?thesis
    by (relation "measure (\<lambda>(_, _, _, _, os, _). length os)") (auto simp: skip_old_def less_Suc_eq_le)
qed

text \<open>The name parsing loop.\<close>

function name_loop ::
    "(nat \<Rightarrow> bool) \<Rightarrow> (WCHAR \<Rightarrow> WCHAR) \<Rightarrow> WCHAR list \<Rightarrow> WCHAR list \<Rightarrow> USHORT list \<Rightarrow> backtracking \<Rightarrow> bool run" where
  "name_loop alloc upcase Expression name old st =
     (if name = [] \<and> old \<noteq> [] \<and> unat (last old) = 2 * length Expression * 2 then Run True
      else bind_run (old_loop alloc upcase Expression name old (st\<lparr>BackTracking := []\<rparr>)) (\<lambda>st.
        case name of
          [] \<Rightarrow> Run (BackTracking st \<noteq> [] \<and> unat (last (BackTracking st)) = 2 * length Expression * 2)
        | _ # name \<Rightarrow> name_loop alloc upcase Expression name (BackTracking st) st))"
  by pat_completeness auto
termination
  by (relation "measure (\<lambda>(_, _, _, name, _, _). length name)") auto


text \<open>The comparison with an expression that is a star and a text; the text has to be in upper case.\<close>

fun suffix_loop :: "(WCHAR \<Rightarrow> WCHAR) \<Rightarrow> WCHAR list \<Rightarrow> WCHAR list \<Rightarrow> bool run" where
  "suffix_loop UpcaseTable (e # es) (c # cs) =
     (if e \<noteq> UpcaseTable e then Fault
      else if UpcaseTable c \<noteq> e then Run False
      else suffix_loop UpcaseTable es cs)"
| "suffix_loop UpcaseTable _ _ = Run True"

definition FsRtlIsNameInExpressionPrivate ::
    "(nat \<Rightarrow> bool) \<Rightarrow> WCHAR list \<Rightarrow> WCHAR list \<Rightarrow> bool \<Rightarrow> (WCHAR \<Rightarrow> WCHAR) option \<Rightarrow> bool run" where
  "FsRtlIsNameInExpressionPrivate alloc Expression Name IgnoreCase UpcaseTable =
     (if Name = [] \<or> Expression = [] then Run (Name = [] \<and> Expression = [])
      else if length Expression = 1 \<and> hd Expression = STAR then Run True
      else if IgnoreCase \<and> UpcaseTable = None then Fault
      else let upcase = (if IgnoreCase then the UpcaseTable else (\<lambda>c. c));
               IntExpression = tl Expression in
           if hd Expression = STAR \<and> \<not> FsRtlDoesNameContainWildCards IntExpression
           then if length Name < length IntExpression then Run False
                else let NamePosition = length Name - length IntExpression in
                     if \<not> IgnoreCase then Run (IntExpression = drop NamePosition Name)
                     else suffix_loop upcase IntExpression (drop NamePosition Name)
           else case name_loop alloc upcase Expression Name [0]
                       \<lparr>BackTracking = [], BackTrackingBufferSize = 16, AllocatedBuffer = False\<rparr> of
                  NoMemory \<Rightarrow> Run False
                | result \<Rightarrow> result)"

text \<open>\<open>IntName\<close> is the local variable and \<open>can_alloc\<close> tells whether its buffer can be allocated; a status that is raised is on the left.\<close>

definition FsRtlIsNameInExpression ::
    "(nat \<Rightarrow> USHORT) \<Rightarrow> bool \<Rightarrow> (nat \<Rightarrow> bool) \<Rightarrow> UNICODE_STRING \<Rightarrow> UNICODE_STRING \<Rightarrow> UNICODE_STRING \<Rightarrow>
     bool \<Rightarrow> (WCHAR \<Rightarrow> WCHAR) option \<Rightarrow> (NTSTATUS + bool) run" where
  "FsRtlIsNameInExpression nls can_alloc alloc IntName Expression Name IgnoreCase UpcaseTable =
     (let private = (\<lambda>Name IgnoreCase.
            case (us_chars Expression, us_chars Name) of
              (Some e, Some n) \<Rightarrow>
                bind_run (FsRtlIsNameInExpressionPrivate alloc e n IgnoreCase UpcaseTable) (\<lambda>Result. Run (Inr Result))
            | _ \<Rightarrow> Fault) in
      if IgnoreCase \<and> UpcaseTable = None
      then (case RtlUpcaseUnicodeString nls can_alloc IntName Name True of
              Some (Status, IntName) \<Rightarrow> if \<not> NT_SUCCESS Status then Run (Inl Status) else private IntName False
            | None \<Rightarrow> Fault)
      else private Name IgnoreCase)"

section \<open>Reference definitions\<close>

text \<open>The path behind one leading backslash, and its cut at the first backslash.\<close>

definition relative_path :: "WCHAR list \<Rightarrow> WCHAR list" where
  "relative_path Name = (case Name of [] \<Rightarrow> [] | c # cs \<Rightarrow> if c = BACKSLASH then cs else Name)"

text \<open>
  Which names an expression matches, by recursion over both.  A star takes any text and a question mark
  any character.  The three wildcards of DOS programs: \<open>DOS_STAR\<close> takes any text that does not go
  beyond the last dot of the name, \<open>DOS_QM\<close> takes a character but skips itself before a dot and at the
  end, \<open>DOS_DOT\<close> takes a dot or nothing at the end.  A run of \<open>DOS_QM\<close> at the end of the expression takes a
  final dot of the name.
\<close>

fun matches :: "(WCHAR \<Rightarrow> WCHAR) \<Rightarrow> WCHAR list \<Rightarrow> WCHAR list \<Rightarrow> bool" where
  "matches upcase [] name = (name = [])"
| "matches upcase (e # es) [] = (e \<in> {STAR, DOS_STAR, DOS_DOT, DOS_QM} \<and> matches upcase es [])"
| "matches upcase (e # es) (c # cs) =
     (if e = STAR then matches upcase es (c # cs) \<or> matches upcase (e # es) cs
      else if e = DOS_STAR
      then matches upcase es (c # cs) \<or> matches upcase es cs \<or> (c \<noteq> DOT \<or> DOT \<in> set cs) \<and> matches upcase (e # es) cs
      else if e = QM then matches upcase es cs
      else if e = DOS_QM
      then (if c = DOT \<and> upcase c \<noteq> e then (if es = [] then cs = [] else matches upcase es (c # cs)) else matches upcase es cs)
      else if e = DOS_DOT then (c = DOT \<or> upcase c = e) \<and> matches upcase es cs
      else upcase c = e \<and> matches upcase es cs)"

text \<open>
  The states one state leads to, when no entry is left out and no space is short: \<open>chain\<close> follows the
  expression from position \<open>k\<close>, and \<open>target\<close> is the position a state stands for.
\<close>

fun chain :: "(WCHAR \<Rightarrow> WCHAR) \<Rightarrow> WCHAR list \<Rightarrow> nat \<Rightarrow> WCHAR list \<Rightarrow> nat list" where
  "chain upcase name k [] = [4 * k]"
| "chain upcase name k (e # es) =
     (case expr_char upcase name e (2 * k) of (vs, cont) \<Rightarrow> vs @ (if cont then chain upcase name (Suc k) es else []))"

definition target :: "nat \<Rightarrow> nat" where "target v = (v + 1) div 4"

text \<open>A name without the two stars, in the case the expression has.\<close>

definition plain_name :: "(WCHAR \<Rightarrow> WCHAR) \<Rightarrow> WCHAR list \<Rightarrow> bool" where
  "plain_name upcase name \<longleftrightarrow> list_all (\<lambda>c. upcase c \<noteq> STAR \<and> upcase c \<noteq> DOS_STAR) name"

text \<open>The states that occur, and the invariants of the arrays.\<close>

definition starred :: "WCHAR list \<Rightarrow> nat \<Rightarrow> bool" where
  "starred E j \<longleftrightarrow> j < length E \<and> (E ! j = STAR \<or> E ! j = DOS_STAR)"

definition state_of :: "WCHAR list \<Rightarrow> nat \<Rightarrow> bool" where
  "state_of E v \<longleftrightarrow> (\<exists>j. v = 4 * j \<and> j \<le> length E \<or> v = 4 * j + 3 \<and> starred E j)"

definition sized :: "WCHAR list \<Rightarrow> backtracking \<Rightarrow> bool" where
  "sized E st \<longleftrightarrow> BackTrackingBufferSize st = (if AllocatedBuffer st then 2 * length E + 1 else 16)"

definition roomy :: "WCHAR list \<Rightarrow> nat list \<Rightarrow> bool" where
  "roomy E bs \<longleftrightarrow> bs = [] \<or> last bs = 4 * length E \<or> length bs \<le> 2 * target (last bs)"

definition emitted :: "(WCHAR \<Rightarrow> WCHAR) \<Rightarrow> WCHAR list \<Rightarrow> WCHAR list \<Rightarrow> nat \<Rightarrow> nat list" where
  "emitted upcase E name s = (if target s < length E then chain upcase name (target s) (drop (target s) E) else [])"

definition closed_states :: "WCHAR list \<Rightarrow> nat set \<Rightarrow> bool" where
  "closed_states E S \<longleftrightarrow> (\<forall>s \<in> S. state_of E s) \<and> (\<forall>s \<in> S. target s = length E \<longrightarrow> 4 * length E \<in> S)"

declare expr_loop.simps [simp del] name_loop.simps [simp del]

section \<open>The states of a round\<close>

lemma target_simps [simp]:
  "target (4 * k) = k" "target (4 * k + 3) = Suc k" "target (Suc (Suc (Suc (4 * k)))) = Suc k" "target (4 + 4 * k) = Suc k"
  by (simp_all add: target_def)

lemma expr_char_Nil:
  "expr_char upcase [] e (2 * k) =
     (if e = STAR \<or> e = DOS_STAR then ([4 * k, 4 * k + 3], True)
      else if e = DOS_DOT \<or> e = DOS_QM then ([], True) else ([], False))"
  by (simp add: expr_char_def Let_def)

lemma expr_char_Cons:
  assumes "plain_name upcase (c # cs)"
  shows "expr_char upcase (c # cs) e (2 * k) =
     (if e = STAR then ([4 * k, 4 * k + 3], True)
      else if e = DOS_STAR then (if c \<noteq> DOT \<or> DOT \<in> set cs then [4 * k, 4 * k + 3] else [4 * k + 3], True)
      else if e = DOS_QM \<and> c = DOT \<and> upcase c \<noteq> e then ([], True)
      else if e = upcase c \<or> e = QM \<or> e = DOS_QM \<or> e = DOS_DOT \<and> c = DOT then ([4 * Suc k], False)
      else ([], False))"
  using assms by (auto simp: expr_char_def Let_def plain_name_def)

lemma expr_char_cases:
  assumes "plain_name upcase name" "expr_char upcase name e (2 * k) = (vs, cont)"
  shows "vs = [4 * Suc k] \<and> \<not> cont \<and> e \<noteq> STAR \<and> e \<noteq> DOS_STAR \<or> vs = [] \<or>
    (vs = [4 * k, 4 * k + 3] \<or> vs = [4 * k + 3]) \<and> cont \<and> (e = STAR \<or> e = DOS_STAR)"
proof (cases name)
  case Nil
  with assms(2) show ?thesis by (auto simp: expr_char_Nil split: if_splits)
next
  case (Cons c cs)
  from assms(2) [unfolded Cons expr_char_Cons [OF assms(1) [unfolded Cons]]] show ?thesis
    by (auto split: if_splits)
qed

lemma chain_ge:
  assumes plain: "plain_name upcase name"
  shows "v \<in> set (chain upcase name k es) \<Longrightarrow> 4 * k \<le> v"
proof (induction es arbitrary: k)
  case (Cons e es)
  obtain vs cont where x: "expr_char upcase name e (2 * k) = (vs, cont)" by fastforce
  show ?case using Cons.IH [of "Suc k"] Cons.prems expr_char_cases [OF plain x] x by (auto split: if_splits)
qed simp

lemma chain_sorted:
  assumes plain: "plain_name upcase name"
  shows "sorted (chain upcase name k es)"
proof (induction es arbitrary: k)
  case (Cons e es)
  obtain vs cont where x: "expr_char upcase name e (2 * k) = (vs, cont)" by fastforce
  show ?case using Cons.IH [of "Suc k"] chain_ge [OF plain, of _ "Suc k" es] expr_char_cases [OF plain x] x
    by (auto simp: sorted_append) force+
qed simp

lemma chain_state:
  assumes plain: "plain_name upcase name"
  shows "v \<in> set (chain upcase name k (drop k E)) \<Longrightarrow> k \<le> length E \<Longrightarrow> state_of E v"
proof (induction "drop k E" arbitrary: k)
  case Nil
  then show ?case by (auto simp: state_of_def)
next
  case (Cons e es)
  then have k: "k < length E" "E ! k = e" "es = drop (Suc k) E"
    by (metis drop_eq_Nil list.distinct(1) not_le, metis nth_via_drop, metis drop_Suc list.sel(3) tl_drop)
  obtain vs cont where x: "expr_char upcase name e (2 * k) = (vs, cont)" by fastforce
  have "state_of E v" if "v \<in> set vs"
    using that expr_char_cases [OF plain x] k by (auto simp: state_of_def starred_def intro: exI [of _ k] exI [of _ "Suc k"])
  then show ?case using Cons.hyps(1) [OF k(3)] Cons.prems Cons.hyps(2) k x
    by (auto simp flip: Cons.hyps(2) split: if_splits)
qed

lemma chain_final:
  assumes plain: "plain_name upcase name"
  shows "4 * j + 3 \<in> set (chain upcase name k es) \<Longrightarrow> Suc j = k + length es \<Longrightarrow> 4 * Suc j \<in> set (chain upcase name k es)"
proof (induction es arbitrary: k)
  case (Cons e es)
  obtain vs cont where x: "expr_char upcase name e (2 * k) = (vs, cont)" by fastforce
  show ?case
  proof (cases es)
    case Nil
    then show ?thesis using Cons.prems expr_char_cases [OF plain x] x by (auto split: if_splits)
  next
    case (Cons e' es')
    then have "k < j" using Cons.prems(2) \<open>Suc j = k + length (e # es)\<close> by simp
    then show ?thesis using Cons.IH [of "Suc k"] Cons.prems expr_char_cases [OF plain x] x by (auto split: if_splits)
  qed
qed (simp; presburger)

lemma target_mono: "v \<le> w \<Longrightarrow> target v \<le> target w"
  by (simp add: target_def div_le_mono)

lemma state_cases:
  assumes "state_of E v"
  obtains j where "v = 4 * j" "target v = j" "j \<le> length E"
  | j where "v = 4 * j + 3" "target v = Suc j" "starred E j"
  using assms by (auto simp: state_of_def)

lemma chain_cover:
  assumes plain: "plain_name upcase name" and st: "state_of E s" and n: "target s < length E"
  shows "k \<le> target s \<Longrightarrow> chain upcase name k (drop k E) \<noteq> [] \<Longrightarrow> s < last (chain upcase name k (drop k E)) \<Longrightarrow>
    set (chain upcase name (target s) (drop (target s) E)) \<subseteq> set (chain upcase name k (drop k E))"
proof (induction "drop k E" arbitrary: k)
  case Nil
  then show ?case using n by simp
next
  case (Cons e es)
  then have k: "k < length E" "E ! k = e" "es = drop (Suc k) E"
    by (metis drop_eq_Nil list.distinct(1) not_le, metis nth_via_drop, metis drop_Suc list.sel(3) tl_drop)
  obtain vs cont where x: "expr_char upcase name e (2 * k) = (vs, cont)" by fastforce
  then have c: "chain upcase name k (drop k E) = vs @ (if cont then chain upcase name (Suc k) (drop (Suc k) E) else [])"
    by (simp flip: Cons.hyps(2) k(3))
  show ?case
  proof (cases "target s = k")
    case False
    then have s: "Suc k \<le> target s" using Cons.prems(1) by simp
    then have "4 * k + 3 \<le> s" by (simp add: target_def)
    consider "vs = [4 * Suc k]" "\<not> cont" "e \<noteq> STAR" "e \<noteq> DOS_STAR" | "vs = []" | "last vs = 4 * k + 3" "vs \<noteq> []" "cont"
      using expr_char_cases [OF plain x] by auto
    then show ?thesis
    proof cases
      case 1
      then have "s = 4 * k + 3" using \<open>4 * k + 3 \<le> s\<close> Cons.prems(3) c by simp
      then have "starred E k" using st by (auto simp: state_of_def) presburger+
      with 1 k show ?thesis by (simp add: starred_def)
    next
      case 2
      then show ?thesis using Cons.hyps(1) [OF k(3) s] Cons.prems c by (auto split: if_splits)
    next
      case 3
      then have "chain upcase name (Suc k) (drop (Suc k) E) \<noteq> []" 
        using \<open>4 * k + 3 \<le> s\<close> Cons.prems(3) c by auto
      with 3 show ?thesis using Cons.hyps(1) [OF k(3) s] Cons.prems c by auto
    qed
  qed simp
qed

lemma drop_step: "drop k E = e # es \<Longrightarrow> k < length E \<and> E ! k = e \<and> drop (Suc k) E = es"
  by (metis drop_Suc drop_all list.distinct(1) list.sel(3) not_le nth_via_drop tl_drop)

lemma chain_accepts_end:
  shows "es \<noteq> [] \<Longrightarrow> matches upcase es [] \<longleftrightarrow> 4 * (k + length es) \<in> set (chain upcase [] k es)"
proof (induction es arbitrary: k)
  case (Cons e es)
  have "4 * (Suc k + length es) \<noteq> 4 * k + 3" "4 * (Suc k + length es) \<noteq> 4 * k" by presburger+
  then show ?case using Cons.IH [of "Suc k"] by (cases "es = []") (auto simp: expr_char_Nil)
qed simp

lemma star_empty: "matches upcase es cs \<Longrightarrow> matches upcase (STAR # es) cs"
  by (cases cs) auto

lemma chain_accepts:
  assumes plain: "plain_name upcase (c # cs)"
  shows "drop k E \<noteq> [] \<Longrightarrow> matches upcase (drop k E) (c # cs) \<longleftrightarrow>
    (\<exists>v \<in> set (chain upcase (c # cs) k (drop k E)). matches upcase (drop (target v) E) cs)"
proof (induction "drop k E" arbitrary: k)
  case (Cons e es)
  have k: "drop (Suc k) E = es" using drop_step Cons.hyps(2) [symmetric] by metis
  have e: "drop k E = e # es" using Cons.hyps(2) by simp
  have rest: "(\<exists>v \<in> set (chain upcase (c # cs) (Suc k) es). matches upcase (drop (target v) E) cs) \<longleftrightarrow>
      (if es = [] then cs = [] else matches upcase es (c # cs))"
    using Cons.hyps(1) [of "Suc k"] k by (cases es) simp_all
  have up: "upcase c \<noteq> STAR" "upcase c \<noteq> DOS_STAR" using plain by (simp_all add: plain_name_def)
  note here = expr_char_Cons [OF plain, of e k] e k rest
  consider "e = STAR" | "e = DOS_STAR" | "e = DOS_QM" "c = DOT" "upcase DOT \<noteq> DOS_QM"
    | "e \<noteq> STAR" "e \<noteq> DOS_STAR" "\<not> (e = DOS_QM \<and> c = DOT \<and> upcase c \<noteq> e)" by fastforce
  then show ?case
  proof cases
    case 1
    then show ?thesis using here star_empty [of upcase es cs] by (auto simp: bex_Un)
  next
    case 2
    then show ?thesis using here by (auto simp: bex_Un)
  next
    case 3
    then show ?thesis using here by simp
  next
    case 4
    let ?X = "e = upcase c \<or> e = QM \<or> e = DOS_QM \<or> e = DOS_DOT \<and> c = DOT"
    have "expr_char upcase (c # cs) e (2 * k) = (if ?X then [4 * Suc k] else [], False)"
      unfolding expr_char_Cons [OF plain] using 4 by simp
    moreover have "matches upcase (e # es) (c # cs) \<longleftrightarrow> ?X \<and> matches upcase es cs" using 4 by auto
    ultimately show ?thesis unfolding e using k by (cases ?X) simp_all
  qed
qed simp

lemma chain_room:
  assumes plain: "plain_name upcase name"
  shows "n \<le> 2 * k \<Longrightarrow> chain upcase name k es \<noteq> [] \<Longrightarrow>
    last (chain upcase name k es) = 4 * (k + length es) \<or>
    n + length (chain upcase name k es) \<le> 2 * target (last (chain upcase name k es))"
proof (induction es arbitrary: k n)
  case (Cons e es)
  obtain vs cont where x: "expr_char upcase name e (2 * k) = (vs, cont)" by fastforce
  show ?case using expr_char_cases [OF plain x] Cons.prems x Cons.IH [of "n + length vs" "Suc k"]
    by (auto split: if_splits)
qed simp

lemma grow_room:
  assumes "\<forall>n. alloc n" "sized E st" "length (BackTracking st) \<le> 2 * k" "k < length E"
  obtains st' where "grow alloc E st = Run st'" "sized E st'" "BackTracking st' = BackTracking st"
    "length (BackTracking st) + 3 \<le> BackTrackingBufferSize st'"
proof (cases "length (BackTracking st) > BackTrackingBufferSize st - 3")
  case True
  then have "\<not> AllocatedBuffer st" "8 \<le> length E" using assms(2-4) by (auto simp: sized_def split: if_splits)
  with True assms show ?thesis
    using that [of "st\<lparr>BackTrackingBufferSize := length E * 2 + 1, AllocatedBuffer := True\<rparr>"]
    by (simp add: grow_def sized_def Let_def)
next
  case False
  then show ?thesis using that [of st] assms by (simp add: grow_def sized_def split: if_splits)
qed

lemma push_all_room:
  "length (BackTracking st) + length vs \<le> BackTrackingBufferSize st \<Longrightarrow>
   push_all vs st = Run (st\<lparr>BackTracking := BackTracking st @ map of_nat vs\<rparr>)"
  by (induction vs arbitrary: st) (simp_all add: push_def)

lemma expr_loop_chain:
  assumes plain: "plain_name upcase name" and alloc: "\<forall>n. alloc n"
  shows "k \<le> length E \<Longrightarrow> pos + off = 2 * k \<Longrightarrow> pos < 2 * length E \<Longrightarrow> sized E st \<Longrightarrow>
    length (BackTracking st) \<le> 2 * k \<Longrightarrow> k < length E \<or> length (BackTracking st) < BackTrackingBufferSize st \<Longrightarrow>
    \<exists>st'. expr_loop alloc upcase E name off pos st = Run st' \<and> sized E st' \<and>
      BackTracking st' = BackTracking st @ map of_nat (chain upcase name k (drop k E))"
proof (induction "drop k E" arbitrary: k pos off st)
  case Nil
  then have "k = length E" by simp
  with Nil show ?case by (subst expr_loop.simps) (auto simp: push_def sized_def Let_def)
next
  case (Cons e es)
  have k: "k < length E" "E ! k = e" "drop (Suc k) E = es" using drop_step Cons.hyps(2) [symmetric] by metis+
  obtain vs cont where x: "expr_char upcase name e (2 * k) = (vs, cont)" by fastforce
  obtain st1 where g: "grow alloc E st = Run st1" "sized E st1" "BackTracking st1 = BackTracking st"
    "length (BackTracking st) + 3 \<le> BackTrackingBufferSize st1"
    using alloc Cons.prems(4,5) k(1) by (rule grow_room)
  have vs: "length vs \<le> 2" using expr_char_cases [OF plain x] by auto
  let ?st2 = "st1\<lparr>BackTracking := BackTracking st @ map of_nat vs\<rparr>"
  have p: "push_all vs st1 = Run ?st2" using push_all_room [of st1 vs] g(3,4) vs by simp
  have loop: "expr_loop alloc upcase E name off pos st = (if cont then expr_loop alloc upcase E name 2 (2 * k) ?st2 else Run ?st2)"
    using Cons.prems(2,3) k g(1) p x by (subst expr_loop.simps) (simp add: Let_def)
  have chain: "chain upcase name k (drop k E) = vs @ (if cont then chain upcase name (Suc k) (drop (Suc k) E) else [])"
    using x by (simp flip: Cons.hyps(2) add: k(3))
  show ?case
  proof (cases cont)
    case True
    have "\<exists>st'. expr_loop alloc upcase E name 2 (2 * k) ?st2 = Run st' \<and> sized E st' \<and>
        BackTracking st' = BackTracking ?st2 @ map of_nat (chain upcase name (Suc k) (drop (Suc k) E))"
      using Cons.hyps(1) [of "Suc k" "2 * k" 2 ?st2] k g(2,4) vs Cons.prems(5) by (simp add: sized_def)
    then show ?thesis using True loop chain by auto
  next
    case False
    then show ?thesis using loop chain g(2) by (simp add: sized_def)
  qed
qed

lemma sorted_last: "sorted xs \<Longrightarrow> v \<in> set xs \<Longrightarrow> v \<le> last xs"
  by (induction xs) auto

lemma state_bound: "state_of E v \<Longrightarrow> length E < 16384 \<Longrightarrow> v < 65536 \<and> v \<le> 4 * length E \<and> target v \<le> length E"
  by (auto simp: state_of_def starred_def)

lemma state_position: "state_of E v \<Longrightarrow> (v + 1) div 2 = 2 * target v"
  by (auto simp: state_of_def)

lemma dropWhile_sorted: "sorted xs \<Longrightarrow> dropWhile (\<lambda>x. x < (v :: nat)) xs = filter (\<lambda>x. v \<le> x) xs"
  by (induction xs) (auto intro!: filter_True [symmetric] intro: order_trans)

lemma skip_old_filter:
  assumes "\<forall>v \<in> set bs. v < 65536" "\<forall>s \<in> set ss. s < 65536" "sorted ss"
  shows "skip_old (map of_nat bs) (map of_nat ss) = map of_nat (filter (\<lambda>s. \<forall>v \<in> set bs. v \<le> s) ss)"
  using assms
proof (induction bs arbitrary: ss)
  case (Cons v bs)
  have "dropWhile (\<lambda>x. of_nat v > x) (map of_nat ss :: USHORT list) = map of_nat (dropWhile (\<lambda>x. x < v) ss)"
    using Cons.prems by (induction ss) (auto simp: word_less_nat_alt unat_of_nat_USHORT)
  also have "\<dots> = map of_nat (filter (\<lambda>x. v \<le> x) ss)" using Cons.prems(3) by (simp add: dropWhile_sorted)
  finally show ?case using Cons by (simp add: skip_old_def sorted_filter [where f = id, simplified])
qed (simp add: skip_old_def)

lemma expr_loop_emitted:
  assumes plain: "plain_name upcase name" and alloc: "\<forall>n. alloc n" and small: "length E < 16384"
    and s: "state_of E s" "sized E st" "BackTracking st = map of_nat bs" "roomy E bs" "\<forall>v \<in> set bs. v \<le> s"
  obtains st' where "expr_loop alloc upcase E name 0 ((unat (of_nat s :: USHORT) + 1) div 2) st = Run st'" "sized E st'"
    "BackTracking st' = map of_nat (bs @ emitted upcase E name s)" "roomy E (bs @ emitted upcase E name s)"
proof -
  have p: "(unat (of_nat s :: USHORT) + 1) div 2 = 2 * target s"
    using state_bound [OF s(1) small] state_position [OF s(1)] by (simp only: unat_of_nat_USHORT)
  show ?thesis
  proof (cases "target s < length E")
    case False
    then have "target s = length E" using state_bound [OF s(1) small] by simp
    then show ?thesis using that [of st] s(2-4) by (simp only: p) (simp add: emitted_def expr_loop.simps)
  next
    case True
    then have "s < 4 * length E" by (simp add: target_def)
    moreover have "bs \<noteq> [] \<Longrightarrow> last bs \<le> s" using s(5) by simp
    ultimately have len: "length bs \<le> 2 * target s"
      using s(4) target_mono [of "last bs" s] by (cases "bs = []") (auto simp: roomy_def)
    obtain st' where "expr_loop alloc upcase E name 0 (2 * target s) st = Run st'" "sized E st'"
      "BackTracking st' = BackTracking st @ map of_nat (chain upcase name (target s) (drop (target s) E))"
      using expr_loop_chain [OF plain alloc, of "target s" E "2 * target s" 0 st] True s(2,3) len by auto
    moreover have "roomy E (bs @ emitted upcase E name s)"
      using chain_room [OF plain len, of "drop (target s) E"] s(4) True
      by (cases "chain upcase name (target s) (drop (target s) E) = []") (auto simp: roomy_def emitted_def)
    ultimately show ?thesis using that [of st'] s(3) True by (simp only: p) (simp add: emitted_def)
  qed
qed

lemma emitted_state: "plain_name upcase name \<Longrightarrow> v \<in> set (emitted upcase E name s) \<Longrightarrow> state_of E v"
  using chain_state [of upcase name v "target s" E] by (auto simp: emitted_def split: if_splits)

lemma emitted_sorted: "plain_name upcase name \<Longrightarrow> sorted (emitted upcase E name s)"
  using chain_sorted [of upcase name] by (simp add: emitted_def)

lemma emitted_ge: "plain_name upcase name \<Longrightarrow> state_of E s \<Longrightarrow> v \<in> set (emitted upcase E name s) \<Longrightarrow> s \<le> v"
  using chain_ge [of upcase name v "target s" "drop (target s) E"] by (auto simp: emitted_def state_of_def split: if_splits)

lemma emitted_cover:
  assumes plain: "plain_name upcase name" and t: "state_of E t" "s \<le> t" and v: "v \<in> set (emitted upcase E name s)" "t < v"
  shows "set (emitted upcase E name t) \<subseteq> set (emitted upcase E name s)"
proof (cases "target t < length E")
  case True
  from v(1) have s: "target s < length E" "v \<in> set (chain upcase name (target s) (drop (target s) E))"
    by (auto simp: emitted_def split: if_splits)
  then have "v \<le> last (chain upcase name (target s) (drop (target s) E))"
    by (intro sorted_last chain_sorted [OF plain])
  moreover have "chain upcase name (target s) (drop (target s) E) \<noteq> []" using s(2) by force
  ultimately show ?thesis using chain_cover [OF plain t(1) True target_mono [OF t(2)]] v(2) s(1) True
    by (simp add: emitted_def)
qed (simp add: emitted_def)

lemma union_cover:
  assumes "F \<subseteq> set rest" "\<And>t. t \<in> set rest \<Longrightarrow> t \<notin> F \<Longrightarrow> f t \<subseteq> A \<union> f s"
  shows "A \<union> f s \<union> (\<Union>t \<in> F. f t) = A \<union> (\<Union>t \<in> set (s # rest). f t)"
proof -
  have "f t \<subseteq> A \<union> f s \<union> (\<Union>t \<in> F. f t)" if "t \<in> set rest" for t
    using assms(2) [OF that] by (cases "t \<in> F") blast+
  with assms(1) show ?thesis by (simp only: set_simps) blast
qed

lemma old_loop_pass:
  assumes plain: "plain_name upcase name" and alloc: "\<forall>n. alloc n" and small: "length E < 16384"
  shows "sorted ss \<Longrightarrow> \<forall>s \<in> set ss. state_of E s \<Longrightarrow> \<forall>v \<in> set bs. state_of E v \<Longrightarrow> sorted bs \<Longrightarrow> roomy E bs \<Longrightarrow>
    \<forall>v \<in> set bs. \<forall>s \<in> set ss. v \<le> s \<Longrightarrow> sized E st \<Longrightarrow> BackTracking st = map of_nat bs \<Longrightarrow>
    \<exists>st' bs'. old_loop alloc upcase E name (map of_nat ss) st = Run st' \<and> BackTracking st' = map of_nat bs' \<and>
      sized E st' \<and> sorted bs' \<and> set bs' = set bs \<union> (\<Union>s \<in> set ss. set (emitted upcase E name s))"
proof (induction ss arbitrary: bs st rule: length_induct)
  case (1 ss)
  show ?case
  proof (cases ss)
    case Nil
    then show ?thesis using 1 by auto
  next
    case (Cons s rest)
    let ?em = "emitted upcase E name" and ?bs = "bs @ emitted upcase E name s"
    have s: "state_of E s" "\<forall>v \<in> set bs. v \<le> s" using 1 Cons by auto
    obtain st1 where st1: "expr_loop alloc upcase E name 0 ((unat (of_nat s :: USHORT) + 1) div 2) st = Run st1"
      "sized E st1" "BackTracking st1 = map of_nat ?bs" "roomy E ?bs"
      by (rule expr_loop_emitted [OF plain alloc small s(1) _ _ _ s(2)]) (use 1 in auto)
    let ?ss = "filter (\<lambda>t. \<forall>v \<in> set ?bs. v \<le> t) rest"
    have bs: "\<forall>v \<in> set ?bs. state_of E v" using 1 emitted_state [OF plain] by auto
    have skip: "skip_old (map of_nat ?bs) (map of_nat rest) = map of_nat ?ss"
      using 1 Cons bs state_bound [OF _ small] by (intro skip_old_filter) auto
    have sorted: "sorted ?bs"
      using 1 s emitted_sorted [OF plain] emitted_ge [OF plain s(1)] by (force simp: sorted_append)
    have cover: "set (?em t) \<subseteq> set ?bs" if "t \<in> set rest" "t \<notin> set ?ss" for t
    proof -
      have "\<not> (\<forall>v \<in> set ?bs. v \<le> t)" using that by simp
      then obtain v where v: "v \<in> set ?bs" "t < v" by (meson not_le)
      have t: "state_of E t" "s \<le> t" "\<forall>v \<in> set bs. v \<le> t" using 1 Cons that(1) by auto
      then have "v \<in> set (?em s)" using v by auto
      from emitted_cover [OF plain t(1,2) this v(2)] show ?thesis by auto
    qed
    have "length ?ss < length ss" using Cons by (simp add: le_imp_less_Suc)
    moreover have "sorted ?ss" "\<forall>s \<in> set ?ss. state_of E s" "\<forall>v \<in> set ?bs. \<forall>s \<in> set ?ss. v \<le> s"
      using 1 Cons by (auto simp: sorted_filter [where f = id, simplified])
    ultimately obtain st' bs' where
      "old_loop alloc upcase E name (map of_nat ?ss) st1 = Run st'" "BackTracking st' = map of_nat bs'" "sized E st'"
      "sorted bs'" "set bs' = set ?bs \<union> (\<Union>s \<in> set ?ss. set (?em s))"
      using 1(1) [rule_format, of ?ss ?bs st1] bs sorted st1(2-4) by blast
    moreover have "set ?bs \<union> (\<Union>s \<in> set ?ss. set (?em s)) = set bs \<union> (\<Union>s \<in> set ss. set (?em s))"
      using union_cover [of "set ?ss" rest "\<lambda>t. set (?em t)" "set bs" s] cover Cons by simp
    moreover have "old_loop alloc upcase E name (map of_nat ss) st = old_loop alloc upcase E name (map of_nat ?ss) st1"
      using Cons st1 skip by simp
    ultimately show ?thesis by metis
  qed
qed

lemma pass:
  assumes plain: "plain_name upcase name" and alloc: "\<forall>n. alloc n" and small: "length E < 16384"
    and ss: "sorted ss" "closed_states E (set ss)" "sized E st"
  obtains st' bs where "old_loop alloc upcase E name (map of_nat ss) (st\<lparr>BackTracking := []\<rparr>) = Run st'"
    "BackTracking st' = map of_nat bs" "sized E st'" "sorted bs" "closed_states E (set bs)"
    "set bs = (\<Union>s \<in> set ss. set (emitted upcase E name s))"
proof -
  obtain st' bs where r: "old_loop alloc upcase E name (map of_nat ss) (st\<lparr>BackTracking := []\<rparr>) = Run st'"
    "BackTracking st' = map of_nat bs" "sized E st'" "sorted bs" "set bs = (\<Union>s \<in> set ss. set (emitted upcase E name s))"
    using old_loop_pass [OF plain alloc small ss(1), of "[]" "st\<lparr>BackTracking := []\<rparr>"] ss(2,3)
    by (auto simp: closed_states_def roomy_def sized_def)
  have "4 * length E \<in> set (emitted upcase E name s)"
    if "v \<in> set (emitted upcase E name s)" "target v = length E" for v s
  proof -
    from that(1) have s: "target s < length E" "v \<in> set (chain upcase name (target s) (drop (target s) E))"
      by (auto simp: emitted_def split: if_splits)
    from emitted_state [OF plain that(1)] show ?thesis
    proof (cases rule: state_cases)
      case (1 j)
      then show ?thesis using that by simp
    next
      case (2 j)
      then show ?thesis using chain_final [OF plain, of j "target s" "drop (target s) E"] s that(2)
        by (simp add: emitted_def)
    qed
  qed
  then have "closed_states E (set bs)" using emitted_state [OF plain] by (force simp: closed_states_def r(5))
  from that [OF r(1-4) this r(5)] show ?thesis .
qed

lemma last_state:
  assumes "sorted ss" "closed_states E (set ss)" "length E < 16384"
  shows "map of_nat ss \<noteq> ([] :: USHORT list) \<and> unat (last (map of_nat ss :: USHORT list)) = 2 * length E * 2 \<longleftrightarrow>
    4 * length E \<in> set ss"
proof (cases "ss = []")
  case False
  have b: "s < 65536 \<and> s \<le> 4 * length E" if "s \<in> set ss" for s
    using assms(2,3) state_bound that by (auto simp: closed_states_def)
  then have "unat (last (map of_nat ss :: USHORT list)) = last ss"
    using False by (simp add: last_map unat_of_nat_USHORT)
  moreover have "last ss = 4 * length E \<longleftrightarrow> 4 * length E \<in> set ss"
    using sorted_last [OF assms(1), of "4 * length E"] b False by (metis last_in_set le_antisym)
  ultimately show ?thesis using False by simp
qed simp

lemma name_loop_matches:
  assumes alloc: "\<forall>n. alloc n" and small: "length E < 16384"
  shows "plain_name upcase name \<Longrightarrow> sorted ss \<Longrightarrow> closed_states E (set ss) \<Longrightarrow> sized E st \<Longrightarrow>
    name_loop alloc upcase E name (map of_nat ss) st = Run (\<exists>s \<in> set ss. matches upcase (drop (target s) E) name)"
proof (induction name arbitrary: ss st)
  case Nil
  show ?case
  proof (cases "4 * length E \<in> set ss")
    case True
    then have "\<exists>s \<in> set ss. matches upcase (drop (target s) E) []" by (intro bexI [of _ "4 * length E"]) simp_all
    with True last_state [OF Nil(2,3) small] show ?thesis by (subst name_loop.simps) simp
  next
    case False
    have tgt: "target s < length E" if "s \<in> set ss" for s
      using that False Nil(3) state_bound [of E s] small by (auto simp: closed_states_def le_less)
    obtain st' bs where p: "old_loop alloc upcase E [] (map of_nat ss) (st\<lparr>BackTracking := []\<rparr>) = Run st'"
      "BackTracking st' = map of_nat bs" "sized E st'" "sorted bs" "closed_states E (set bs)"
      "set bs = (\<Union>s \<in> set ss. set (emitted upcase E [] s))"
      by (rule pass [OF Nil(1) alloc small Nil(2-4)])
    have "4 * length E \<in> set (emitted upcase E [] s) \<longleftrightarrow> matches upcase (drop (target s) E) []" if "s \<in> set ss" for s
      using chain_accepts_end [of "drop (target s) E" upcase "target s"] tgt [OF that] by (simp add: emitted_def)
    then have "4 * length E \<in> set bs \<longleftrightarrow> (\<exists>s \<in> set ss. matches upcase (drop (target s) E) [])"
      unfolding p(6) by blast
    moreover have "\<not> (map of_nat ss \<noteq> ([] :: USHORT list) \<and> unat (last (map of_nat ss :: USHORT list)) = 2 * length E * 2)"
      using last_state [OF Nil(2,3) small] False by simp
    ultimately show ?thesis using p(1,2) last_state [OF p(4,5) small] by (subst name_loop.simps) auto
  qed
next
  case (Cons c cs)
  obtain st' bs where p: "old_loop alloc upcase E (c # cs) (map of_nat ss) (st\<lparr>BackTracking := []\<rparr>) = Run st'"
    "BackTracking st' = map of_nat bs" "sized E st'" "sorted bs" "closed_states E (set bs)"
    "set bs = (\<Union>s \<in> set ss. set (emitted upcase E (c # cs) s))"
    by (rule pass [OF Cons(2) alloc small Cons(3-5)])
  have "plain_name upcase cs" using Cons.prems(1) by (simp add: plain_name_def)
  from Cons.IH [OF this p(4,5,3)] p(1,2)
  have "name_loop alloc upcase E (c # cs) (map of_nat ss) st = Run (\<exists>s \<in> set bs. matches upcase (drop (target s) E) cs)"
    by (subst name_loop.simps) simp
  moreover have "(\<exists>v \<in> set (emitted upcase E (c # cs) s). matches upcase (drop (target v) E) cs) \<longleftrightarrow>
      matches upcase (drop (target s) E) (c # cs)" for s
    using chain_accepts [OF Cons.prems(1), of "target s" E] by (cases "target s < length E") (simp_all add: emitted_def)
  ultimately show ?case unfolding p(6) by auto
qed

section \<open>The functions\<close>

lemma FsRtlIsUnicodeCharacterWild_iff:
  "FsRtlIsUnicodeCharacterWild C \<longleftrightarrow> C \<in> {STAR, QM, DOS_STAR, DOS_QM, DOS_DOT}"
proof (cases "C \<ge> 0x40")
  case True
  then show ?thesis by (auto simp: FsRtlIsUnicodeCharacterWild_def word_le_nat_alt)
next
  case False
  then have lt: "unat C < 64" by (simp add: word_le_nat_alt)
  have "\<forall>i < 64. (LegalAnsiCharacterArray ! i AND 0x08 \<noteq> 0) = (i \<in> {0x2A, 0x3F, 0x3C, 0x3E, 0x22})" by code_simp
  with lt have "(LegalAnsiCharacterArray ! unat C AND 0x08 \<noteq> 0) = (unat C \<in> {0x2A, 0x3F, 0x3C, 0x3E, 0x22})" by blast
  with False show ?thesis by (simp add: FsRtlIsUnicodeCharacterWild_def word_unat_eq_iff)
qed

lemma wild_loop_iff: "BACKSLASH \<notin> set cs \<Longrightarrow> wild_loop cs \<longleftrightarrow> (\<exists>c \<in> set cs. FsRtlIsUnicodeCharacterWild c)"
  by (induction cs) auto

lemma matches_plain:
  "\<forall>e \<in> set es. \<not> FsRtlIsUnicodeCharacterWild e \<Longrightarrow> matches upcase es cs \<longleftrightarrow> map upcase cs = es"
proof (induction es arbitrary: cs)
  case (Cons e es)
  then show ?case by (cases cs) (auto simp: FsRtlIsUnicodeCharacterWild_iff)
qed simp

lemma matches_suffix:
  assumes "\<forall>e \<in> set es. \<not> FsRtlIsUnicodeCharacterWild e"
  shows "matches upcase (STAR # es) cs \<longleftrightarrow>
    length es \<le> length cs \<and> map upcase (drop (length cs - length es) cs) = es"
proof (induction cs)
  case Nil
  show ?case using matches_plain [OF assms, of upcase "[]"] by auto
next
  case (Cons c cs)
  have "matches upcase es (c # cs) \<longleftrightarrow> map upcase (c # cs) = es" by (rule matches_plain [OF assms])
  then have "matches upcase (STAR # es) (c # cs) \<longleftrightarrow> map upcase (c # cs) = es \<or>
      length es \<le> length cs \<and> map upcase (drop (length cs - length es) cs) = es"
    using Cons by simp
  also have "\<dots> \<longleftrightarrow> length es \<le> length (c # cs) \<and> map upcase (drop (length (c # cs) - length es) (c # cs)) = es"
  proof (cases "length es \<le> length cs")
    case True
    then have "Suc (length cs) - length es = Suc (length cs - length es)" by simp
    moreover have "map upcase (c # cs) \<noteq> es" using True by auto
    ultimately show ?thesis using True by simp
  next
    case False
    then show ?thesis by (auto simp: Suc_le_eq not_le)
  qed
  finally show ?case .
qed

lemma suffix_loop_equal:
  "length es = length cs \<Longrightarrow> \<forall>e \<in> set es. UpcaseTable e = e \<Longrightarrow> suffix_loop UpcaseTable es cs = Run (map UpcaseTable cs = es)"
  by (induction UpcaseTable es cs rule: suffix_loop.induct) auto

lemma matches_star: "matches upcase [STAR] cs"
  by (induction cs) auto

lemma private_matches:
  assumes "\<forall>n. alloc n" and "length Expression < 16384" and "BACKSLASH \<notin> set Expression"
    and "upcase = (if IgnoreCase then table else (\<lambda>c. c))" and "IgnoreCase \<longrightarrow> (\<forall>e \<in> set Expression. table e = e)"
    and "\<forall>c \<in> set Name. \<not> FsRtlIsUnicodeCharacterWild (upcase c)"
  shows "FsRtlIsNameInExpressionPrivate alloc Expression Name IgnoreCase (if IgnoreCase then Some table else None) =
    Run (if Expression = [] \<or> Name = [] then Expression = [] \<and> Name = [] else matches upcase Expression Name)"
proof (cases "Expression = [] \<or> Name = []")
  case True
  then show ?thesis by (auto simp: FsRtlIsNameInExpressionPrivate_def)
next
  case ne: False
  then obtain e es where E: "Expression = e # es" by (cases Expression) auto
  have up: "(if IgnoreCase then the (if IgnoreCase then Some table else None) else (\<lambda>c. c)) = upcase" by (simp add: assms(4))
  consider (star) "e = STAR" "es = []" | (suffix) "e = STAR" "es \<noteq> []" "\<not> FsRtlDoesNameContainWildCards es"
    | (loop) "\<not> (e = STAR \<and> \<not> FsRtlDoesNameContainWildCards es)" "\<not> (e = STAR \<and> es = [])" by blast
  then show ?thesis
  proof cases
    case star
    then show ?thesis using ne E matches_star by (simp add: FsRtlIsNameInExpressionPrivate_def)
  next
    case suffix
    have "BACKSLASH \<notin> set (rev es)" using assms(3) E by simp
    then have wild: "\<forall>x \<in> set es. \<not> FsRtlIsUnicodeCharacterWild x"
      using suffix(3) wild_loop_iff by (auto simp: FsRtlDoesNameContainWildCards_def)
    have upc: "IgnoreCase \<Longrightarrow> \<forall>x \<in> set es. upcase x = x" "\<not> IgnoreCase \<Longrightarrow> upcase = (\<lambda>c. c)" using assms(4,5) E by auto
    have "suffix_loop upcase es (drop (length Name - length es) Name) = Run (map upcase (drop (length Name - length es) Name) = es)"
      if "length es \<le> length Name" "IgnoreCase" using that upc(1) by (intro suffix_loop_equal) auto
    then show ?thesis using ne E suffix upc(2) matches_suffix [OF wild, of upcase Name]
      by (auto simp: FsRtlIsNameInExpressionPrivate_def up Let_def not_less)
  next
    case loop
    have plain: "plain_name upcase Name" using assms(6) by (auto simp: plain_name_def list_all_iff FsRtlIsUnicodeCharacterWild_iff)
    have "closed_states Expression (set [0])" using E by (auto simp: closed_states_def state_of_def target_def)
    then have "name_loop alloc upcase Expression Name (map of_nat [0])
        \<lparr>BackTracking = [], BackTrackingBufferSize = 16, AllocatedBuffer = False\<rparr> = Run (matches upcase Expression Name)"
      using name_loop_matches [OF assms(1,2) plain, of "[0]"] by (simp add: sized_def target_def)
    then show ?thesis using ne E loop by (auto simp: FsRtlIsNameInExpressionPrivate_def up Let_def)
  qed
qed

text \<open>
  C4. For expressions of fewer than 16384 characters without backslash and names without
  wildcards the matcher never stores outside its arrays, its assertions hold (the arrays are
  replaced at most once), and it returns whether the name matches the expression, as a
  recursive definition of the five wildcards has it; leaving out the covered states does not
  change the result.
\<close>

theorem FsRtlIsNameInExpressionPrivate_correct:
  assumes "\<forall>n. alloc n" and "length Expression < 16384" and "BACKSLASH \<notin> set Expression"
    and "upcase = (if IgnoreCase then table else (\<lambda>c. c))" and "IgnoreCase \<longrightarrow> (\<forall>e \<in> set Expression. table e = e)"
    and "\<forall>c \<in> set Name. \<not> FsRtlIsUnicodeCharacterWild (upcase c)"
  shows "FsRtlIsNameInExpressionPrivate alloc Expression Name IgnoreCase (if IgnoreCase then Some table else None) =
    Run (if Expression = [] \<or> Name = [] then Expression = [] \<and> Name = [] else matches upcase Expression Name)"
  using assms by (rule private_matches)

text \<open>The expression \<open>A*.<\<close> (with \<open>DOS_STAR\<close>) and the name \<open>ab.c\<close>, with the upper case of ASCII.\<close>

theorem FsRtlIsNameInExpressionPrivate_correct_witness:
  "FsRtlIsNameInExpressionPrivate (\<lambda>_. True) [0x41, STAR, DOT, DOS_STAR] [0x61, 0x62, DOT, 0x63] True
     (Some (RtlpUpcaseUnicodeChar (\<lambda>_. 0))) = Run True"
proof -
  let ?up = "RtlpUpcaseUnicodeChar (\<lambda>_. 0)" and ?E = "[0x41, STAR, DOT, DOS_STAR]" and ?N = "[0x61, 0x62, DOT, 0x63]"
  have "\<forall>e \<in> set ?E. ?up e = e" "\<forall>c \<in> set ?N. \<not> FsRtlIsUnicodeCharacterWild (?up c)"
    by (simp_all add: RtlpUpcaseUnicodeChar_def FsRtlIsUnicodeCharacterWild_iff)
  moreover have "matches ?up ?E ?N" by (simp add: RtlpUpcaseUnicodeChar_def)
  ultimately show ?thesis
    using FsRtlIsNameInExpressionPrivate_correct [of "\<lambda>_. True" ?E ?up True ?up ?N] by simp
qed

text \<open>
  Without an upcase table FsRtlIsNameInExpression matches the expression against the name
  upcased by RtlUpcaseUnicodeString.
\<close>

theorem FsRtlIsNameInExpression_upcases:
  fixes nls :: "nat \<Rightarrow> USHORT"
  assumes "valid_string Expression" and "valid_string Name" and "\<forall>n. alloc n"
    and "length (us_text Expression) < 16384" and "BACKSLASH \<notin> set (us_text Expression)"
    and "upname = map (RtlpUpcaseUnicodeChar nls) (us_text Name)"
    and "\<forall>c \<in> set upname. \<not> FsRtlIsUnicodeCharacterWild c"
  shows "FsRtlIsNameInExpression nls True alloc IntName Expression Name True None =
    Run (Inr (if us_text Expression = [] \<or> us_text Name = [] then us_text Expression = [] \<and> us_text Name = []
              else matches (\<lambda>c. c) (us_text Expression) upname))"
proof -
  obtain u where up: "RtlUpcaseUnicodeString nls True IntName Name True = Some (STATUS_SUCCESS, u)"
    and tx: "valid_string u" "us_text u = upname"
    using map_string_allocated [OF assms(2), of "RtlpUpcaseUnicodeChar nls" IntName] map_string_text [OF assms(2)]
    unfolding RtlUpcaseUnicodeString_def assms(6) by metis
  have "FsRtlIsNameInExpressionPrivate alloc (us_text Expression) upname False None =
      Run (if us_text Expression = [] \<or> upname = [] then us_text Expression = [] \<and> upname = []
           else matches (\<lambda>c. c) (us_text Expression) upname)"
    using private_matches [of alloc "us_text Expression" "\<lambda>c. c" False "\<lambda>c. c" upname] assms by simp
  then show ?thesis
    using up valid_stringD(1) [OF assms(1)] valid_stringD(1) [OF tx(1)] tx(2) assms(6)
    by (simp add: FsRtlIsNameInExpression_def Let_def)
qed

theorem FsRtlIsNameInExpression_upcases_witness:
  "FsRtlIsNameInExpression (\<lambda>_. 0) True (\<lambda>_. True) \<lparr>UsLength = 0, UsMaximumLength = 0, UsBuffer = []\<rparr>
     \<lparr>UsLength = 6, UsMaximumLength = 6, UsBuffer = [STAR, DOT, 0x43]\<rparr>
     \<lparr>UsLength = 6, UsMaximumLength = 6, UsBuffer = [0x61, DOT, 0x63]\<rparr> True None = Run (Inr True)"
proof -
  let ?E = "\<lparr>UsLength = 6, UsMaximumLength = 6, UsBuffer = [STAR, DOT, 0x43]\<rparr>"
    and ?N = "\<lparr>UsLength = 6, UsMaximumLength = 6, UsBuffer = [0x61, DOT, 0x63]\<rparr>"
  have v: "valid_string ?E" "valid_string ?N" by (simp_all add: valid_string_def RtlValidateUnicodeString_def)
  have t: "us_text ?E = [STAR, DOT, 0x43]" "us_text ?N = [0x61, DOT, 0x63]" by (simp_all add: us_text_def)
  have up: "[0x41, DOT, 0x43] = map (RtlpUpcaseUnicodeChar (\<lambda>_. 0)) (us_text ?N)" by (simp add: t RtlpUpcaseUnicodeChar_def)
  show ?thesis using FsRtlIsNameInExpression_upcases [OF v _ _ _ up, of "\<lambda>_. True"]
    by (simp add: t FsRtlIsUnicodeCharacterWild_iff)
qed

text \<open>The comparison with twice the length of the expression fails for every entry of 16 bits.\<close>

lemma name_loop_long: "16384 \<le> length E \<Longrightarrow> name_loop alloc upcase E name old st \<noteq> Run True"
proof (induction name arbitrary: old st)
  have no: "unat v \<noteq> 2 * length E * 2" if "16384 \<le> length E" for v :: USHORT
    using that unsigned_less [of v, where ?'a = nat] by simp
  case Nil
  then show ?case using no [OF Nil]
    by (subst name_loop.simps) (cases "old_loop alloc upcase E [] old (st\<lparr>BackTracking := []\<rparr>)"; simp)
next
  case (Cons c cs)
  then show ?case
    by (subst name_loop.simps) (cases "old_loop alloc upcase E (c # cs) old (st\<lparr>BackTracking := []\<rparr>)"; simp)
qed

text \<open>
  C40. For an expression of 16384 characters or more that does not begin with a star the
  matcher never answers TRUE: twice its length in bytes does not fit the 16-bit entries it
  is compared with.
\<close>

theorem FsRtlIsNameInExpressionPrivate_long:
  assumes "16384 \<le> length Expression" and "hd Expression \<noteq> STAR"
  shows "FsRtlIsNameInExpressionPrivate alloc Expression Name IgnoreCase UpcaseTable \<noteq> Run True"
proof -
  have "Expression \<noteq> []" using assms(1) by auto
  moreover have "(case name_loop alloc upcase Expression Name old st of NoMemory \<Rightarrow> Run False | result \<Rightarrow> result) \<noteq> Run True"
    for upcase old st using name_loop_long [OF assms(1), of alloc upcase Name old st] by (auto split: run.split)
  ultimately show ?thesis using assms(2) by (simp add: FsRtlIsNameInExpressionPrivate_def Let_def)
qed

text \<open>A long expression without wildcards does not even match itself.\<close>

theorem FsRtlIsNameInExpressionPrivate_long_witness:
  "matches (\<lambda>c. c) (replicate 16384 0x41) (replicate 16384 0x41) \<and>
   FsRtlIsNameInExpressionPrivate (\<lambda>_. True) (replicate 16384 0x41) (replicate 16384 0x41) False None \<noteq> Run True"
proof
  show "matches (\<lambda>c. c) (replicate 16384 0x41) (replicate 16384 0x41)"
    by (subst matches_plain) (auto simp: FsRtlIsUnicodeCharacterWild_iff)
  show "FsRtlIsNameInExpressionPrivate (\<lambda>_. True) (replicate 16384 0x41) (replicate 16384 0x41) False None \<noteq> Run True"
    by (rule FsRtlIsNameInExpressionPrivate_long) simp_all
qed

section \<open>Paths and equality\<close>

lemma dissect_loop_part:
  "BACKSLASH \<notin> set part \<Longrightarrow> 0 < i \<Longrightarrow> dissect_loop k i (part @ BACKSLASH # rest) = (k, i + length part)"
  "BACKSLASH \<notin> set part \<Longrightarrow> 0 < i \<Longrightarrow> dissect_loop k i part = (k, i + length part)"
  by (induction part arbitrary: i) auto

lemma dissect_loop_while:
  "0 < i \<Longrightarrow> dissect_loop k i cs = (k, i + length (takeWhile (\<lambda>c. c \<noteq> BACKSLASH) cs))"
  by (induction cs arbitrary: i) auto

lemma drop_while_rest: "drop (length (takeWhile P cs)) cs = dropWhile P cs"
  by (induction cs) auto

lemma dissect_part:
  assumes "BACKSLASH \<notin> set part" "part \<noteq> []" "pre = [] \<or> pre = [BACKSLASH]"
  shows "FsRtlDissectName (pre @ part @ BACKSLASH # rest) = (part, rest)" "FsRtlDissectName (pre @ part) = (part, [])"
proof -
  obtain c cs where part: "part = c # cs" "c \<noteq> BACKSLASH" "BACKSLASH \<notin> set cs" using assms(1,2) by (cases part) auto
  show "FsRtlDissectName (pre @ part @ BACKSLASH # rest) = (part, rest)" "FsRtlDissectName (pre @ part) = (part, [])"
    using assms(3) part dissect_loop_part by (auto simp: FsRtlDissectName_def)
qed

lemma dissect_shape:
  assumes "Name \<noteq> []" and "FsRtlDissectName Name = (FirstPart, RemainingPart)"
  shows "BACKSLASH \<notin> set FirstPart \<and>
    (\<exists>pre \<in> {[], [BACKSLASH]}. Name = pre @ FirstPart @ BACKSLASH # RemainingPart \<or>
       Name = pre @ FirstPart \<and> RemainingPart = []) \<and>
    length RemainingPart < length Name"
proof -
  have split: "\<exists>part rest. BACKSLASH \<notin> set part \<and> (cs = part @ BACKSLASH # rest \<or> cs = part \<and> rest = [])" for cs :: "WCHAR list"
    using split_list_first [of BACKSLASH cs] by (cases "BACKSLASH \<in> set cs") auto
  consider (slash) cs where "Name = BACKSLASH # cs" | (plain) c cs where "Name = c # cs" "c \<noteq> BACKSLASH"
    using assms(1) by (cases Name) auto
  then show ?thesis
  proof cases
    case slash
    obtain part rest where p: "BACKSLASH \<notin> set part" "cs = part @ BACKSLASH # rest \<or> cs = part \<and> rest = []" using split by blast
    then show ?thesis using slash assms(2) dissect_loop_part [of part 1 1] by (auto simp: FsRtlDissectName_def)
  next
    case plain
    obtain part rest where p: "BACKSLASH \<notin> set part" "cs = part @ BACKSLASH # rest \<or> cs = part \<and> rest = []" using split by blast
    then show ?thesis using plain assms(2) dissect_loop_part [of part 1 0] by (auto simp: FsRtlDissectName_def)
  qed
qed

text \<open>
  C34. FsRtlDissectName leaves out one leading backslash of the path, if there is one, and
  splits the rest at its first backslash: the first part is what stands before it, the
  remaining part what follows it (nothing when there is none).
\<close>

theorem FsRtlDissectName_correct:
  "FsRtlDissectName Name =
     (takeWhile (\<lambda>c. c \<noteq> BACKSLASH) (relative_path Name), tl (dropWhile (\<lambda>c. c \<noteq> BACKSLASH) (relative_path Name)))"
proof (cases Name)
  case (Cons c cs)
  let ?n = "length (takeWhile (\<lambda>c. c \<noteq> BACKSLASH) cs)"
  have t: "take ?n cs = takeWhile (\<lambda>c. c \<noteq> BACKSLASH) cs" by (metis takeWhile_eq_take)
  have d: "(if ?n < length cs then drop (Suc ?n) cs else []) = tl (dropWhile (\<lambda>c. c \<noteq> BACKSLASH) cs)"
    unfolding drop_while_rest [symmetric] by (auto simp: drop_Suc tl_drop)
  show ?thesis using Cons t d by (auto simp: FsRtlDissectName_def relative_path_def dissect_loop_while)
qed (simp add: FsRtlDissectName_def relative_path_def)

lemma equal_loop_iff: "length b1 = length b2 \<Longrightarrow> equal_loop table b1 b2 \<longleftrightarrow> map table b1 = map table b2"
  by (induction table b1 b2 rule: equal_loop.induct) auto

lemma FsRtlAreNamesEqual_iff:
  assumes "valid_string Name1" "valid_string Name2"
    and "f = (if \<not> IgnoreCase then (\<lambda>c. c) else case UpcaseTable of Some t \<Rightarrow> t | None \<Rightarrow> RtlpUpcaseUnicodeChar nls)"
  shows "FsRtlAreNamesEqual nls True True U1 U2 Name1 Name2 IgnoreCase UpcaseTable =
    Some (Inr (map f (us_text Name1) = map f (us_text Name2)))"
proof -
  note n1 = valid_stringD [OF assms(1)] and n2 = valid_stringD [OF assms(2)]
  have l: "UsLength Name1 = UsLength Name2 \<longleftrightarrow> length (us_text Name1) = length (us_text Name2)"
    using n1(2) n2(2) by (simp add: word_unat_eq_iff)
  have up: "us_chars (d\<lparr>UsLength := l, UsMaximumLength := m, UsBuffer := map g t\<rparr>) = Some (map g t)"
    if "unat l = 2 * length t" for d l m t and g :: "WCHAR \<Rightarrow> WCHAR"
    using that by (simp add: us_chars_def array_slice_def)
  show ?thesis
  proof (cases "length (us_text Name1) = length (us_text Name2)")
    case True
    then show ?thesis
      using l n1 n2 assms equal_loop_iff [OF True] map_string_allocated [OF assms(1)] map_string_allocated [OF assms(2)]
      by (cases IgnoreCase; cases UpcaseTable) (simp_all add: FsRtlAreNamesEqual_def RtlUpcaseUnicodeString_def up)
  next
    case False
    then show ?thesis using l by (auto simp: FsRtlAreNamesEqual_def dest: map_eq_imp_length_eq)
  qed
qed

end
