(* ===== verification/NtfsLookup.thy ===== *)
theory NtfsLookup
  imports FsRtlName
begin

text \<open>
  The path loop of \<^verbatim>\<open>AddFileName\<close>, \<^verbatim>\<open>drivers/filesystems/ntfs/attrib.c\<close>, a client of
  \<^const>\<open>FsRtlDissectName\<close>.

  The lookup of one name in one directory reads the index of the directory from the disk; it is an
  argument, a function of the number of the directory and the name: the loop starts every search at
  entry 0.  \<open>None\<close> is a status that is not a success.
\<close>

function add_file_name_loop ::
    "(nat \<Rightarrow> WCHAR list \<Rightarrow> nat option) \<Rightarrow> nat \<Rightarrow> WCHAR list \<Rightarrow> WCHAR list \<Rightarrow> WCHAR list \<Rightarrow> nat \<times> WCHAR list" where
  "add_file_name_loop NtfsFindMftRecord CurrentMFTIndex FilenameNoPath Current Remaining =
     (if Current = [] then (CurrentMFTIndex, FilenameNoPath)
      else let FilenameNoPath = (if Remaining \<noteq> [] then Remaining else FilenameNoPath) in
           case NtfsFindMftRecord CurrentMFTIndex Current of
             None \<Rightarrow> (CurrentMFTIndex, FilenameNoPath)
           | Some CurrentMFTIndex \<Rightarrow>
               if Remaining = [] then (CurrentMFTIndex, Current)
               else case FsRtlDissectName Remaining of (Current, Remaining) \<Rightarrow>
                      add_file_name_loop NtfsFindMftRecord CurrentMFTIndex FilenameNoPath Current Remaining)"
  by pat_completeness auto
termination
proof (relation "measure (\<lambda>(_, _, _, _, r). length r)")
  show "((look, i, name, c, r'), look, j, name', c', r) \<in> measure (\<lambda>(_, _, _, _, r). length r)"
    if "r \<noteq> []" "(c, r') = FsRtlDissectName r" for look i name c r' j name' c' and r :: "WCHAR list"
    using dissect_shape [OF that(1) that(2) [symmetric]] by simp
qed simp

text \<open>The parent directory and the last name, which \<open>AddFileName\<close> stores in the attribute; the search starts at \<open>root\<close>.\<close>

definition AddFileName_parent ::
    "(nat \<Rightarrow> WCHAR list \<Rightarrow> nat option) \<Rightarrow> nat \<Rightarrow> WCHAR list \<Rightarrow> nat \<times> WCHAR list" where
  "AddFileName_parent NtfsFindMftRecord root FileName =
     (case FsRtlDissectName FileName of (Current, Remaining) \<Rightarrow>
        add_file_name_loop NtfsFindMftRecord root Current Current Remaining)"

text \<open>The reference: following a list of names from a directory, and the path that consists of them.\<close>

fun walk :: "(nat \<Rightarrow> WCHAR list \<Rightarrow> nat option) \<Rightarrow> nat \<Rightarrow> WCHAR list list \<Rightarrow> nat option" where
  "walk look i [] = Some i"
| "walk look i (c # cs) = (case look i c of None \<Rightarrow> None | Some j \<Rightarrow> walk look j cs)"

abbreviation path_of :: "WCHAR list list \<Rightarrow> WCHAR list" where
  "path_of cs \<equiv> concat (map (\<lambda>c. BACKSLASH # c) cs)"

definition component :: "WCHAR list \<Rightarrow> bool" where
  "component c \<longleftrightarrow> c \<noteq> [] \<and> BACKSLASH \<notin> set c"

declare add_file_name_loop.simps [simp del]

lemma dissect_path:
  assumes "component c"
  shows "FsRtlDissectName (c @ path_of cs) = (c, tl (path_of cs))" "FsRtlDissectName (BACKSLASH # c @ path_of cs) = (c, tl (path_of cs))"
proof -
  have c: "BACKSLASH \<notin> set c" "c \<noteq> []" using assms by (simp_all add: component_def)
  show "FsRtlDissectName (c @ path_of cs) = (c, tl (path_of cs))" "FsRtlDissectName (BACKSLASH # c @ path_of cs) = (c, tl (path_of cs))"
    using dissect_part [OF c, of "[]"] dissect_part [OF c, of "[BACKSLASH]"] by (cases cs; simp)+
qed

lemma add_file_name_loop_walk:
  "component c \<Longrightarrow> list_all component cs \<Longrightarrow> walk look i (butlast (c # cs)) = Some p \<Longrightarrow> look p (last (c # cs)) = None \<Longrightarrow>
   cs = [] \<longrightarrow> name = c \<Longrightarrow> add_file_name_loop look i name c (tl (path_of cs)) = (p, last (c # cs))"
proof (induction cs arbitrary: i c name)
  case Nil
  then show ?case by (subst add_file_name_loop.simps) (simp add: component_def)
next
  case (Cons d cs)
  then obtain j where j: "look i c = Some j" "walk look j (butlast (d # cs)) = Some p" by (auto split: option.splits)
  have d: "component d" "d \<noteq> []" "c \<noteq> []" using Cons.prems by (simp_all add: component_def)
  have "add_file_name_loop look i name c (tl (path_of (d # cs))) =
      add_file_name_loop look j (d @ path_of cs) d (tl (path_of cs))"
    using j(1) d dissect_path(1) [OF d(1), of cs] by (subst add_file_name_loop.simps) (simp add: Let_def)
  then show ?case using Cons.IH [of d j "d @ path_of cs"] Cons.prems j(2) d(1) by simp
qed

text \<open>
  C35. For a path of non-empty components whose directories all exist the loop of
  AddFileName ends, has looked up every component in turn, and yields the directory that the
  new file belongs to and the last component as its name.
\<close>

theorem AddFileName_finds_parent:
  assumes "cs \<noteq> []" and "list_all component cs"
    and "walk NtfsFindMftRecord root (butlast cs) = Some parent" and "NtfsFindMftRecord parent (last cs) = None"
  shows "AddFileName_parent NtfsFindMftRecord root (path_of cs) = (parent, last cs)"
proof -
  obtain c cs' where cs: "cs = c # cs'" using assms(1) by (cases cs) auto
  then have "component c" "list_all component cs'" using assms(2) by simp_all
  with add_file_name_loop_walk [of c cs' NtfsFindMftRecord root parent c] dissect_path(2) [of c cs'] cs assms(3,4)
  show ?thesis by (simp add: AddFileName_parent_def)
qed

text \<open>A new file \<open>b\<close> in the directory 7, which the root directory 5 has under the name \<open>a\<close>.\<close>

theorem AddFileName_finds_parent_witness:
  "AddFileName_parent (\<lambda>i c. if i = 5 \<and> c = [0x61] then Some 7 else None) 5 [BACKSLASH, 0x61, BACKSLASH, 0x62] = (7, [0x62])"
  using AddFileName_finds_parent [of "[[0x61], [0x62]]" "\<lambda>i c. if i = 5 \<and> c = [0x61] then Some 7 else None" 5 7]
  by (simp add: component_def)

end
