(* ===== verification/NtfsIndex.thy ===== *)
theory NtfsIndex
  imports NtfsLookup RtlBitmap
begin

text \<open>
  The search of a directory index and the lookup of a path in the NTFS driver,
  \<^verbatim>\<open>drivers/filesystems/ntfs/mft.c\<close>: \<open>CompareFileName\<close>, \<open>BrowseSubNodeIndexEntries\<close>,
  \<open>BrowseIndexEntries\<close>, \<open>NtfsFindMftRecord\<close>, \<open>NtfsLookupFileAt\<close> and \<open>NtfsFindFileAt\<close>.

  The disk is an argument: for the number of a file record it gives the record, and for the record its
  index root, its index allocation and the bitmap of the allocation, as \<open>ReadFileRecord\<close>,
  \<open>FindAttribute\<close>, \<open>ReadAttribute\<close> and \<open>FixupUpdateSequenceArray\<close> deliver them.  An index record is the
  flags of its header and the entries from the first one on.  Which allocations succeed is an argument,
  too.  The nodes of an index on a damaged disk may form a cycle, so the search is a partial function.
  \<open>None\<close> is not returning, a fault (a read outside a buffer, a division by zero), a failed assertion or
  an exception that is raised.
\<close>

unbundle bit_operations_syntax

section \<open>The volume\<close>

record INDEX_ENTRY_ATTRIBUTE =
  IndexedFile :: ULONGLONG
  EntryFlags :: USHORT
  NameLength :: UCHAR
  NameType :: UCHAR
  EntryName :: "WCHAR list"
  EntryVCN :: ULONGLONG

record index_record =
  HeaderFlags :: UCHAR
  IndexEntries :: "INDEX_ENTRY_ATTRIBUTE list"

text \<open>
  Reading the allocation at an offset fails (\<open>None\<close>), or it gives the status of the fixup and the record.
  The bitmap is given by its length in bytes and by the memory that it was read into.
\<close>

record file_record =
  IndexRoot :: "NTSTATUS \<times> index_record"
  IndexAllocation :: "NTSTATUS \<times> (ULONGLONG \<Rightarrow> (NTSTATUS \<times> index_record) option)"
  IndexBitmap :: "NTSTATUS \<times> ULONGLONG \<times> ULONG list"

datatype alloc_site = AtFileRecord | AtIndexRoot | AtBitmap | AtNode ULONGLONG | AtName | AtResult

record NTFS_VCB =
  BytesPerCluster :: ULONG
  BytesPerIndexRecord :: ULONG
  Allocates :: "alloc_site \<Rightarrow> bool"
  ReadFileRecord :: "ULONGLONG \<Rightarrow> NTSTATUS \<times> file_record"

type_synonym index_allocation = "(ULONGLONG \<Rightarrow> (NTSTATUS \<times> index_record) option) \<times> RTL_BITMAP"

definition NTFS_MFT_MASK :: ULONGLONG where "NTFS_MFT_MASK = 0x0000FFFFFFFFFFFF"

definition NTFS_FILE_FIRST_USER_FILE :: ULONGLONG where "NTFS_FILE_FIRST_USER_FILE = 16"

definition NTFS_INDEX_ENTRY_NODE :: USHORT where "NTFS_INDEX_ENTRY_NODE = 1"

definition NTFS_INDEX_ENTRY_END :: USHORT where "NTFS_INDEX_ENTRY_END = 2"

definition NTFS_FILE_NAME_DOS :: UCHAR where "NTFS_FILE_NAME_DOS = 2"

definition INDEX_NODE_LARGE :: UCHAR where "INDEX_NODE_LARGE = 1"

lemmas ntfs_constants = NTFS_MFT_MASK_def NTFS_FILE_FIRST_USER_FILE_def NTFS_INDEX_ENTRY_NODE_def
  NTFS_INDEX_ENTRY_END_def NTFS_FILE_NAME_DOS_def INDEX_NODE_LARGE_def

section \<open>The search of an index\<close>

definition CompareFileName ::
    "(nat \<Rightarrow> USHORT) \<Rightarrow> NTFS_VCB \<Rightarrow> (nat \<Rightarrow> bool) \<Rightarrow> UNICODE_STRING \<Rightarrow> INDEX_ENTRY_ATTRIBUTE \<Rightarrow> bool \<Rightarrow> bool \<Rightarrow> bool option" where
  "CompareFileName nls Vcb alloc FileName IndexEntry DirSearch CaseSensitive =
     (let Name = \<lparr>UsLength = ucast (NameLength IndexEntry) * 2,
                  UsMaximumLength = ucast (NameLength IndexEntry) * 2, UsBuffer = EntryName IndexEntry\<rparr> in
      if DirSearch
      then do {
        IntFileName \<leftarrow>
          (if CaseSensitive then Some FileName
           else do {
             (Status, IntFileName) \<leftarrow> RtlUpcaseUnicodeString nls (Allocates Vcb AtName) FileName FileName True;
             if NT_SUCCESS Status then Some IntFileName else None
           });
        case FsRtlIsNameInExpression nls (Allocates Vcb AtName) alloc Name IntFileName Name (\<not> CaseSensitive) None of
          Run (Inr Ret) \<Rightarrow> Some Ret
        | _ \<Rightarrow> None
      }
      else do {
        r \<leftarrow> RtlCompareUnicodeString nls FileName Name (\<not> CaseSensitive);
        Some (r = 0)
      })"

definition RtlCheckBit :: "RTL_BITMAP \<Rightarrow> ULONG \<Rightarrow> bool option" where
  "RtlCheckBit bm BitPosition =
     do {
       v \<leftarrow> array_get (Buffer bm) (unat (BitPosition div 32));
       Some (drop_bit (unat (BitPosition mod 32)) v AND 1 \<noteq> 0)
     }"

text \<open>\<open>BrowseSubNodeIndexEntries\<close> up to its loop.\<close>

definition read_sub_node :: "NTFS_VCB \<Rightarrow> index_allocation \<Rightarrow> ULONGLONG \<Rightarrow> (NTSTATUS + index_record) option" where
  "read_sub_node Vcb IndexAllocationContext VCN =
     (case IndexAllocationContext of (ReadAttribute, Bitmap) \<Rightarrow>
        let ClustersPerIndexRecord = BytesPerIndexRecord Vcb div BytesPerCluster Vcb in
        if BytesPerCluster Vcb = 0 \<or> ClustersPerIndexRecord = 0 then None
        else do {
          let NodeNumber = ucast (VCN div ucast ClustersPerIndexRecord);
          used \<leftarrow> RtlCheckBit Bitmap NodeNumber;
          if \<not> used then Some (Inl STATUS_DATA_ERROR)
          else if \<not> Allocates Vcb (AtNode VCN) then Some (Inl STATUS_INSUFFICIENT_RESOURCES)
          else case ReadAttribute (VCN * ucast (BytesPerCluster Vcb)) of
                 None \<Rightarrow> Some (Inl STATUS_UNSUCCESSFUL)
               | Some (Status, IndexRecord) \<Rightarrow>
                   if \<not> NT_SUCCESS Status then Some (Inl Status) else Some (Inr IndexRecord)
        })"

text \<open>
  The sub-node of an entry.  When there is none, or when the headers say that there can be none, the
  loop goes on as it does when the search of the sub-node fails.
\<close>

definition sub_node ::
    "NTFS_VCB \<Rightarrow> index_allocation option \<Rightarrow> UCHAR \<Rightarrow> INDEX_ENTRY_ATTRIBUTE \<Rightarrow> (NTSTATUS + index_record) option" where
  "sub_node Vcb IndexAllocationContext flags IndexEntry =
     (case IndexAllocationContext of
        Some ctx \<Rightarrow>
          if EntryFlags IndexEntry AND NTFS_INDEX_ENTRY_NODE \<noteq> 0 \<and> flags AND INDEX_NODE_LARGE \<noteq> 0
          then read_sub_node Vcb ctx (EntryVCN IndexEntry)
          else Some (Inl STATUS_OBJECT_PATH_NOT_FOUND)
      | None \<Rightarrow> Some (Inl STATUS_OBJECT_PATH_NOT_FOUND))"

definition file_number :: "INDEX_ENTRY_ATTRIBUTE \<Rightarrow> ULONGLONG" where
  "file_number IndexEntry = IndexedFile IndexEntry AND NTFS_MFT_MASK"

definition is_hit :: "(INDEX_ENTRY_ATTRIBUTE \<Rightarrow> bool option) \<Rightarrow> INDEX_ENTRY_ATTRIBUTE \<Rightarrow> ULONG \<Rightarrow> ULONG \<Rightarrow> bool option" where
  "is_hit compare IndexEntry StartEntry CurrentEntry =
     (if file_number IndexEntry \<ge> NTFS_FILE_FIRST_USER_FILE \<and> CurrentEntry \<ge> StartEntry \<and>
         NameType IndexEntry \<noteq> NTFS_FILE_NAME_DOS
      then compare IndexEntry else Some False)"

text \<open>
  The loops of \<open>BrowseIndexEntries\<close> and \<open>BrowseSubNodeIndexEntries\<close> are the same: the entries that are
  left, and the values of \<open>*StartEntry\<close>, \<open>*CurrentEntry\<close> and \<open>*OutMFTIndex\<close>.
\<close>

partial_function (option) browse_entries ::
    "(INDEX_ENTRY_ATTRIBUTE \<Rightarrow> bool option) \<Rightarrow> NTFS_VCB \<Rightarrow> index_allocation option \<Rightarrow> UCHAR \<Rightarrow>
     INDEX_ENTRY_ATTRIBUTE list \<Rightarrow> ULONG \<Rightarrow> ULONG \<Rightarrow> ULONGLONG \<Rightarrow> (NTSTATUS \<times> ULONG \<times> ULONG \<times> ULONGLONG) option" where
  "browse_entries compare Vcb ctx flags es StartEntry CurrentEntry OutMFTIndex =
     (case es of
        [] \<Rightarrow> Some (STATUS_OBJECT_PATH_NOT_FOUND, StartEntry, CurrentEntry, OutMFTIndex)
      | IndexEntry # es \<Rightarrow>
          do {
            node \<leftarrow> sub_node Vcb ctx flags IndexEntry;
            (Status, StartEntry, CurrentEntry, OutMFTIndex) \<leftarrow>
              (case node of
                 Inl Status \<Rightarrow> Some (Status, StartEntry, CurrentEntry, OutMFTIndex)
               | Inr IndexRecord \<Rightarrow>
                   browse_entries compare Vcb ctx (HeaderFlags IndexRecord) (IndexEntries IndexRecord)
                     StartEntry CurrentEntry OutMFTIndex);
            if NT_SUCCESS Status then Some (Status, StartEntry, CurrentEntry, OutMFTIndex)
            else if EntryFlags IndexEntry AND NTFS_INDEX_ENTRY_END \<noteq> 0
            then Some (STATUS_OBJECT_PATH_NOT_FOUND, StartEntry, CurrentEntry, OutMFTIndex)
            else do {
              hit \<leftarrow> is_hit compare IndexEntry StartEntry CurrentEntry;
              if hit then Some (STATUS_SUCCESS, CurrentEntry, CurrentEntry, file_number IndexEntry)
              else browse_entries compare Vcb ctx flags es StartEntry (CurrentEntry + 1) OutMFTIndex
            }
          })"

text \<open>
  \<open>BrowseIndexEntries\<close> up to its loop: the index allocation and its bitmap.  The count of bytes that
  \<open>ReadAttribute\<close> returns is tested as if it were a status; a count below \<open>2 ^ 31\<close> is a success, so that
  the bitmap is used whatever was read.
\<close>

definition index_context :: "NTFS_VCB \<Rightarrow> file_record \<Rightarrow> NTSTATUS + index_allocation option" where
  "index_context Vcb MftRecord =
     (case (IndexAllocation MftRecord, IndexBitmap MftRecord) of
        ((Status, ReadAttribute), (BitmapStatus, BitmapLength, BitmapPtr)) \<Rightarrow>
          if \<not> NT_SUCCESS Status then Inr None
          else if \<not> NT_SUCCESS BitmapStatus then Inl BitmapStatus
          else if \<not> Allocates Vcb AtBitmap then Inl STATUS_INSUFFICIENT_RESOURCES
          else Inr (Some (ReadAttribute, RtlInitializeBitMap BitmapPtr (ucast (BitmapLength * 8)))))"

definition BrowseIndexEntries ::
    "(INDEX_ENTRY_ATTRIBUTE \<Rightarrow> bool option) \<Rightarrow> NTFS_VCB \<Rightarrow> file_record \<Rightarrow> index_record \<Rightarrow> ULONG \<Rightarrow> ULONG \<Rightarrow> ULONGLONG \<Rightarrow>
     (NTSTATUS \<times> ULONG \<times> ULONG \<times> ULONGLONG) option" where
  "BrowseIndexEntries compare Vcb MftRecord IndexRecord StartEntry CurrentEntry OutMFTIndex =
     (case index_context Vcb MftRecord of
        Inl Status \<Rightarrow> Some (Status, StartEntry, CurrentEntry, OutMFTIndex)
      | Inr ctx \<Rightarrow>
          browse_entries compare Vcb ctx (HeaderFlags IndexRecord) (IndexEntries IndexRecord)
            StartEntry CurrentEntry OutMFTIndex)"

text \<open>The status and the values of \<open>*FirstEntry\<close> and \<open>*OutMFTIndex\<close>.\<close>

definition NtfsFindMftRecord ::
    "(nat \<Rightarrow> USHORT) \<Rightarrow> (nat \<Rightarrow> bool) \<Rightarrow> NTFS_VCB \<Rightarrow> ULONGLONG \<Rightarrow> UNICODE_STRING \<Rightarrow> ULONG \<Rightarrow> bool \<Rightarrow> bool \<Rightarrow> ULONGLONG \<Rightarrow>
     (NTSTATUS \<times> ULONG \<times> ULONGLONG) option" where
  "NtfsFindMftRecord nls alloc Vcb MFTIndex FileName FirstEntry DirSearch CaseSensitive OutMFTIndex =
     (if \<not> Allocates Vcb AtFileRecord then Some (STATUS_INSUFFICIENT_RESOURCES, FirstEntry, OutMFTIndex)
      else case ReadFileRecord Vcb MFTIndex of (Status, MftRecord) \<Rightarrow>
        if \<not> NT_SUCCESS Status then Some (Status, FirstEntry, OutMFTIndex)
        else case IndexRoot MftRecord of (Status, IndexRecord) \<Rightarrow>
          if \<not> NT_SUCCESS Status then Some (Status, FirstEntry, OutMFTIndex)
          else if \<not> Allocates Vcb AtIndexRoot then Some (STATUS_INSUFFICIENT_RESOURCES, FirstEntry, OutMFTIndex)
          else do {
            (Status, FirstEntry, CurrentEntry, OutMFTIndex) \<leftarrow>
              BrowseIndexEntries (\<lambda>e. CompareFileName nls Vcb alloc FileName e DirSearch CaseSensitive)
                Vcb MftRecord IndexRecord FirstEntry 0 OutMFTIndex;
            Some (Status, FirstEntry, OutMFTIndex)
          })"

section \<open>The lookup of a path\<close>

text \<open>The string that \<open>FsRtlDissectName\<close> makes of a part of a path.\<close>

definition name_string :: "WCHAR list \<Rightarrow> UNICODE_STRING" where
  "name_string cs = \<lparr>UsLength = of_nat (2 * length cs), UsMaximumLength = of_nat (2 * length cs), UsBuffer = cs\<rparr>"

text \<open>The loop: a failing status, or the number of the file record.  \<open>FirstEntry\<close> lives as long as the loop.\<close>

function lookup_loop ::
    "(nat \<Rightarrow> USHORT) \<Rightarrow> (nat \<Rightarrow> bool) \<Rightarrow> NTFS_VCB \<Rightarrow> bool \<Rightarrow> ULONGLONG \<Rightarrow> ULONG \<Rightarrow> WCHAR list \<Rightarrow> WCHAR list \<Rightarrow>
     (NTSTATUS + ULONGLONG) option" where
  "lookup_loop nls alloc Vcb CaseSensitive CurrentMFTIndex FirstEntry Current Remaining =
     (if Current = [] then Some (Inr CurrentMFTIndex)
      else do {
        (Status, FirstEntry, CurrentMFTIndex) \<leftarrow>
          NtfsFindMftRecord nls alloc Vcb CurrentMFTIndex (name_string Current) FirstEntry False CaseSensitive CurrentMFTIndex;
        if \<not> NT_SUCCESS Status then Some (Inl Status)
        else if Remaining = [] then Some (Inr CurrentMFTIndex)
        else case FsRtlDissectName Current of (Current, Remaining) \<Rightarrow>
               lookup_loop nls alloc Vcb CaseSensitive CurrentMFTIndex FirstEntry Current Remaining
      })"
  by pat_completeness auto
termination
proof (relation "measures [\<lambda>(_, _, _, _, _, _, c, _). length c, \<lambda>(_, _, _, _, _, _, _, r). if r = [] then 0 else 1]")
  show "((nls, alloc, V, s, j, g, c', r'), nls, alloc, V, s, i, f, c, r)
    \<in> measures [\<lambda>(_, _, _, _, _, _, c, _). length c, \<lambda>(_, _, _, _, _, _, _, r). if r = [] then 0 else 1]"
    if "c \<noteq> []" "r \<noteq> []" "(c', r') = FsRtlDissectName c" for nls alloc V s i j f g r' and c c' r :: "WCHAR list"
    using dissect_shape [OF that(1) that(3) [symmetric]] that(2) by auto
qed simp

declare lookup_loop.simps [simp del] browse_entries.simps [code]

text \<open>The end of both lookups: the file record and its number.\<close>

definition load_file_record :: "NTFS_VCB \<Rightarrow> ULONGLONG \<Rightarrow> NTSTATUS \<times> (file_record \<times> ULONGLONG) option" where
  "load_file_record Vcb CurrentMFTIndex =
     (if \<not> Allocates Vcb AtResult then (STATUS_INSUFFICIENT_RESOURCES, None)
      else case ReadFileRecord Vcb CurrentMFTIndex of (Status, FileRecord) \<Rightarrow>
        if \<not> NT_SUCCESS Status then (Status, None) else (STATUS_SUCCESS, Some (FileRecord, CurrentMFTIndex)))"

definition NtfsLookupFileAt ::
    "(nat \<Rightarrow> USHORT) \<Rightarrow> (nat \<Rightarrow> bool) \<Rightarrow> NTFS_VCB \<Rightarrow> WCHAR list \<Rightarrow> bool \<Rightarrow> ULONGLONG \<Rightarrow>
     (NTSTATUS \<times> (file_record \<times> ULONGLONG) option) option" where
  "NtfsLookupFileAt nls alloc Vcb PathName CaseSensitive CurrentMFTIndex =
     (case FsRtlDissectName PathName of (Current, Remaining) \<Rightarrow>
        do {
          r \<leftarrow> lookup_loop nls alloc Vcb CaseSensitive CurrentMFTIndex 0 Current Remaining;
          case r of
            Inl Status \<Rightarrow> Some (Status, None)
          | Inr CurrentMFTIndex \<Rightarrow> Some (load_file_record Vcb CurrentMFTIndex)
        })"

text \<open>The step of a directory listing; the first component of the result is the value of \<open>*FirstEntry\<close>.\<close>

definition NtfsFindFileAt ::
    "(nat \<Rightarrow> USHORT) \<Rightarrow> (nat \<Rightarrow> bool) \<Rightarrow> NTFS_VCB \<Rightarrow> UNICODE_STRING \<Rightarrow> ULONG \<Rightarrow> ULONGLONG \<Rightarrow> bool \<Rightarrow>
     (ULONG \<times> NTSTATUS \<times> (file_record \<times> ULONGLONG) option) option" where
  "NtfsFindFileAt nls alloc Vcb SearchPattern FirstEntry CurrentMFTIndex CaseSensitive =
     do {
       (Status, FirstEntry, CurrentMFTIndex) \<leftarrow>
         NtfsFindMftRecord nls alloc Vcb CurrentMFTIndex SearchPattern FirstEntry True CaseSensitive CurrentMFTIndex;
       Some (FirstEntry, if \<not> NT_SUCCESS Status then (Status, None) else load_file_record Vcb CurrentMFTIndex)
     }"

section \<open>The entries of an index in their order\<close>

text \<open>
  The entries that a search passes, in the order of their numbers: before each entry those of its
  sub-node, if that can be read.
\<close>

inductive in_order ::
    "NTFS_VCB \<Rightarrow> index_allocation option \<Rightarrow> UCHAR \<Rightarrow> INDEX_ENTRY_ATTRIBUTE list \<Rightarrow> INDEX_ENTRY_ATTRIBUTE list \<Rightarrow> bool"
  and node_order ::
    "NTFS_VCB \<Rightarrow> index_allocation option \<Rightarrow> UCHAR \<Rightarrow> INDEX_ENTRY_ATTRIBUTE \<Rightarrow> INDEX_ENTRY_ATTRIBUTE list \<Rightarrow> bool"
  for Vcb :: NTFS_VCB and ctx :: "index_allocation option" where
  no_entry: "in_order Vcb ctx flags [] []"
| end_entry: "node_order Vcb ctx flags e L \<Longrightarrow> EntryFlags e AND NTFS_INDEX_ENTRY_END \<noteq> 0 \<Longrightarrow>
    in_order Vcb ctx flags (e # es) L"
| next_entry: "node_order Vcb ctx flags e L \<Longrightarrow> EntryFlags e AND NTFS_INDEX_ENTRY_END = 0 \<Longrightarrow>
    in_order Vcb ctx flags es L' \<Longrightarrow> in_order Vcb ctx flags (e # es) (L @ e # L')"
| no_node: "sub_node Vcb ctx flags e = Some (Inl Status) \<Longrightarrow> node_order Vcb ctx flags e []"
| node: "sub_node Vcb ctx flags e = Some (Inr r) \<Longrightarrow> in_order Vcb ctx (HeaderFlags r) (IndexEntries r) L \<Longrightarrow>
    node_order Vcb ctx flags e L"

text \<open>A directory that can be read, and its entries.\<close>

definition entry_text :: "INDEX_ENTRY_ATTRIBUTE \<Rightarrow> WCHAR list" where
  "entry_text e = take (unat (NameLength e)) (EntryName e)"

inductive directory :: "NTFS_VCB \<Rightarrow> ULONGLONG \<Rightarrow> INDEX_ENTRY_ATTRIBUTE list \<Rightarrow> bool" for Vcb :: NTFS_VCB where
  "Allocates Vcb AtFileRecord \<Longrightarrow> Allocates Vcb AtIndexRoot \<Longrightarrow> ReadFileRecord Vcb i = (STATUS_SUCCESS, MftRecord) \<Longrightarrow>
   IndexRoot MftRecord = (STATUS_SUCCESS, root) \<Longrightarrow> index_context Vcb MftRecord = Inr ctx \<Longrightarrow>
   in_order Vcb ctx (HeaderFlags root) (IndexEntries root) L \<Longrightarrow> length L < 2 ^ 32 \<Longrightarrow>
   list_all (\<lambda>e. unat (NameLength e) \<le> length (EntryName e)) L \<Longrightarrow> directory Vcb i L"

text \<open>The entry is that of a user file under the given name, and the first such entry from a number on.\<close>

definition entry_for :: "(nat \<Rightarrow> USHORT) \<Rightarrow> bool \<Rightarrow> WCHAR list \<Rightarrow> INDEX_ENTRY_ATTRIBUTE \<Rightarrow> bool" where
  "entry_for nls CaseSensitive cs e \<longleftrightarrow>
     file_number e \<ge> 16 \<and> NameType e \<noteq> NTFS_FILE_NAME_DOS \<and>
     map (fold_case nls (\<not> CaseSensitive)) cs = map (fold_case nls (\<not> CaseSensitive)) (entry_text e)"

definition first_from :: "('a \<Rightarrow> bool) \<Rightarrow> nat \<Rightarrow> 'a list \<Rightarrow> nat option" where
  "first_from P n L = List.find (\<lambda>p. n \<le> p \<and> P (L ! p)) [0..<length L]"

section \<open>The search is a scan of the entries\<close>

fun scan ::
    "(INDEX_ENTRY_ATTRIBUTE \<Rightarrow> bool option) \<Rightarrow> INDEX_ENTRY_ATTRIBUTE list \<Rightarrow> ULONG \<Rightarrow> ULONG \<Rightarrow> ULONGLONG \<Rightarrow>
     (NTSTATUS \<times> ULONG \<times> ULONG \<times> ULONGLONG) option" where
  "scan compare [] StartEntry CurrentEntry OutMFTIndex = Some (STATUS_OBJECT_PATH_NOT_FOUND, StartEntry, CurrentEntry, OutMFTIndex)"
| "scan compare (e # L) StartEntry CurrentEntry OutMFTIndex =
     do {
       hit \<leftarrow> is_hit compare e StartEntry CurrentEntry;
       if hit then Some (STATUS_SUCCESS, CurrentEntry, CurrentEntry, file_number e)
       else scan compare L StartEntry (CurrentEntry + 1) OutMFTIndex
     }"

text \<open>
  The root directory 5 has the files \<open>x\<close> and \<open>a\<close> in a sub-node, and the directory \<open>a\<close> has the files
  \<open>a\<close> and \<open>b\<close>.  The path \<open>a, b\<close> is not found: the second search is for \<open>a\<close>, and from entry 1 on.
\<close>

definition entry :: "ULONGLONG \<Rightarrow> WCHAR \<Rightarrow> INDEX_ENTRY_ATTRIBUTE" where
  "entry i c = \<lparr>IndexedFile = i, EntryFlags = 0, NameLength = 1, NameType = 1, EntryName = [c], EntryVCN = 0\<rparr>"

definition last_entry :: "USHORT \<Rightarrow> INDEX_ENTRY_ATTRIBUTE" where
  "last_entry node = \<lparr>IndexedFile = 0, EntryFlags = NTFS_INDEX_ENTRY_END OR node, NameLength = 0, NameType = 0, EntryName = [], EntryVCN = 0\<rparr>"

definition small_dir :: "INDEX_ENTRY_ATTRIBUTE list \<Rightarrow> file_record" where
  "small_dir es = \<lparr>IndexRoot = (STATUS_SUCCESS, \<lparr>HeaderFlags = 0, IndexEntries = es @ [last_entry 0]\<rparr>),
     IndexAllocation = (STATUS_UNSUCCESSFUL, \<lambda>_. None), IndexBitmap = (STATUS_UNSUCCESSFUL, 0, [])\<rparr>"

definition large_dir :: "INDEX_ENTRY_ATTRIBUTE list \<Rightarrow> file_record" where
  "large_dir es = \<lparr>IndexRoot = (STATUS_SUCCESS, \<lparr>HeaderFlags = 1, IndexEntries = [last_entry NTFS_INDEX_ENTRY_NODE]\<rparr>),
     IndexAllocation = (STATUS_SUCCESS, \<lambda>_. Some (STATUS_SUCCESS, \<lparr>HeaderFlags = 0, IndexEntries = es @ [last_entry 0]\<rparr>)),
     IndexBitmap = (STATUS_SUCCESS, 8, [1, 0])\<rparr>"

definition sample_volume :: NTFS_VCB where
  "sample_volume = \<lparr>BytesPerCluster = 4096, BytesPerIndexRecord = 4096, Allocates = \<lambda>_. True,
     ReadFileRecord = (\<lambda>i. (STATUS_SUCCESS, if i = 5 then large_dir [entry 30 0x78, entry 20 0x61]
                                           else small_dir [entry 21 0x61, entry 22 0x62]))\<rparr>"

lemma scan_append:
  "scan compare (L @ L') s c out =
     do {
       (Status, s, c, out) \<leftarrow> scan compare L s c out;
       if NT_SUCCESS Status then Some (Status, s, c, out) else scan compare L' s c out
     }"
  by (induction L arbitrary: c) (auto split: Option.bind_splits)

lemma scan_not_found:
  "scan compare L s c out = Some (Status, s', c', out') \<Longrightarrow> \<not> NT_SUCCESS Status \<Longrightarrow> Status = STATUS_OBJECT_PATH_NOT_FOUND"
  by (induction L arbitrary: c) (auto split: Option.bind_splits if_splits)

lemma not_found_fails [simp]: "\<not> NT_SUCCESS STATUS_OBJECT_PATH_NOT_FOUND"
  by simp

lemma sub_node_fails: "sub_node Vcb ctx flags e = Some (Inl Status) \<Longrightarrow> \<not> NT_SUCCESS Status"
  by (auto simp: sub_node_def read_sub_node_def Let_def split: option.splits prod.splits if_splits Option.bind_splits)

lemma browse_in_order:
  shows "in_order Vcb ctx flags es L \<Longrightarrow> browse_entries compare Vcb ctx flags es s c out = scan compare L s c out"
    and "node_order Vcb ctx flags e L \<Longrightarrow> \<exists>node. sub_node Vcb ctx flags e = Some node \<and>
      (\<forall>s c out. case node of Inl Status \<Rightarrow> L = [] \<and> \<not> NT_SUCCESS Status
       | Inr r \<Rightarrow> browse_entries compare Vcb ctx (HeaderFlags r) (IndexEntries r) s c out = scan compare L s c out)"
proof (induction arbitrary: s c out rule: in_order_node_order.inducts)
  case (no_entry flags)
  then show ?case by (subst browse_entries.simps) simp
next
  case (end_entry flags e L es)
  then show ?case
    by (subst browse_entries.simps) (auto split: sum.splits Option.bind_splits prod.splits simp del: NT_SUCCESS_iff dest: scan_not_found)
next
  case (next_entry flags e L es L')
  then show ?case
    by (subst browse_entries.simps) (auto split: sum.splits Option.bind_splits prod.splits simp: scan_append simp del: NT_SUCCESS_iff)
next
  case (no_node flags e Status)
  then show ?case using sub_node_fails by auto
next
  case (node flags e r L)
  then show ?case by auto
qed

lemma scan_first:
  assumes "length L < 2 ^ 32" "s < 2 ^ 32" and "\<forall>e \<in> set L. compare e = Some (P e)"
  shows "k \<le> length L \<Longrightarrow> scan compare (drop k L) (of_nat s) (of_nat k) out =
    Some (case List.find (\<lambda>p. s \<le> p \<and> file_number (L ! p) \<ge> 16 \<and> NameType (L ! p) \<noteq> NTFS_FILE_NAME_DOS \<and> P (L ! p)) [k..<length L] of
            None \<Rightarrow> (STATUS_OBJECT_PATH_NOT_FOUND, of_nat s, of_nat (length L), out)
          | Some p \<Rightarrow> (STATUS_SUCCESS, of_nat p, of_nat p, file_number (L ! p)))"
proof (induction rule: inc_induct)
  case (step k)
  then have k: "drop k L = L ! k # drop (Suc k) L" "compare (L ! k) = Some (P (L ! k))" "[k..<length L] = k # [Suc k..<length L]"
    using assms(3) by (simp_all add: Cons_nth_drop_Suc upt_conv_Cons)
  have "unat (of_nat k :: ULONG) = k" "unat (of_nat s :: ULONG) = s"
    using step.hyps assms(1,2) by (simp_all add: unat_of_nat)
  then have le: "(of_nat s :: ULONG) \<le> of_nat k \<longleftrightarrow> s \<le> k" by (simp only: word_le_nat_alt)
  have "(of_nat (Suc k) :: ULONG) = of_nat k + 1" by simp
  then show ?case using step.IH k le by (simp add: is_hit_def NTFS_FILE_FIRST_USER_FILE_def del: of_nat_Suc)
qed simp

lemma compare_name:
  assumes "length cs < 32768" and "unat (NameLength e) \<le> length (EntryName e)"
  shows "CompareFileName nls Vcb alloc (name_string cs) e False CaseSensitive =
    Some (map (fold_case nls (\<not> CaseSensitive)) cs = map (fold_case nls (\<not> CaseSensitive)) (entry_text e))"
proof -
  let ?n = "ucast (NameLength e) * 2 :: USHORT"
  have len: "length (entry_text e) = unat (NameLength e)" using assms(2) by (simp add: entry_text_def)
  have "unat (x :: UCHAR) < 256" for x by (rule order_less_le_trans [OF unsigned_less]) simp
  then have n: "unat ?n = 2 * unat (NameLength e)" using order_less_trans [of "unat (NameLength e)" 256]
    by (simp add: unat_word_ariths unsigned_ucast_eq take_bit_eq_mod)
  have c: "unat (of_nat (2 * length cs) :: USHORT) = 2 * length cs" using assms(1) by (simp add: unat_of_nat del: of_nat_mult)
  have "us_chars (name_string cs) = Some cs" using c by (simp add: us_chars_def name_string_def array_slice_def del: of_nat_mult)
  moreover have "us_chars \<lparr>UsLength = ?n, UsMaximumLength = ?n, UsBuffer = EntryName e\<rparr> = Some (entry_text e)"
    using n assms(2) by (simp add: us_chars_def array_slice_def entry_text_def)
  moreover have "uint (UsLength (name_string cs)) = 2 * int (length cs)"
    using c by (simp only: name_string_def UNICODE_STRING.simps uint_nat of_nat_mult of_nat_numeral)
  moreover have "uint ?n = 2 * int (length (entry_text e))"
    using n len by (simp only: uint_nat of_nat_mult of_nat_numeral)
  ultimately show ?thesis using compare_units_order [of "fold_case nls (\<not> CaseSensitive)" cs "entry_text e"]
    by (auto simp: CompareFileName_def RtlCompareUnicodeString_def Let_def split: if_splits)
qed

lemma NtfsFindMftRecord_first:
  assumes "directory Vcb i L" and "length cs < 32768" and "s < 2 ^ 32"
  shows "NtfsFindMftRecord nls alloc Vcb i (name_string cs) (of_nat s) False CaseSensitive out =
    Some (case first_from (entry_for nls CaseSensitive cs) s L of
            None \<Rightarrow> (STATUS_OBJECT_PATH_NOT_FOUND, of_nat s, out)
          | Some p \<Rightarrow> (STATUS_SUCCESS, of_nat p, file_number (L ! p)))"
proof -
  obtain r root ctx where a: "Allocates Vcb AtFileRecord" "Allocates Vcb AtIndexRoot" "ReadFileRecord Vcb i = (STATUS_SUCCESS, r)"
      "IndexRoot r = (STATUS_SUCCESS, root)" "index_context Vcb r = Inr ctx"
    and L: "in_order Vcb ctx (HeaderFlags root) (IndexEntries root) L" "length L < 2 ^ 32"
    and names: "list_all (\<lambda>e. unat (NameLength e) \<le> length (EntryName e)) L"
    using assms(1) by (rule directory.cases) blast
  let ?cmp = "\<lambda>e. CompareFileName nls Vcb alloc (name_string cs) e False CaseSensitive"
  have cmp: "\<forall>e \<in> set L. ?cmp e = Some (map (fold_case nls (\<not> CaseSensitive)) cs = map (fold_case nls (\<not> CaseSensitive)) (entry_text e))"
    using compare_name [OF assms(2)] names by (simp add: list_all_iff)
  show ?thesis
    using a browse_in_order(1) [OF L(1), of ?cmp "of_nat s" 0 out] scan_first [OF L(2) assms(3) cmp, of 0 out]
    by (simp add: NtfsFindMftRecord_def BrowseIndexEntries_def first_from_def entry_for_def split: option.split)
qed

lemma first_from_bound: "first_from P n L = Some p \<Longrightarrow> p < length L \<and> n \<le> p \<and> P (L ! p)"
  by (auto simp: first_from_def find_Some_iff)

text \<open>
  C36. Let the first component of a path (fewer than 32768 characters) be found in a
  directory whose index can be read (the allocations succeed). For a path of one component
  NtfsLookupFileAt returns the record of the first entry, in the order of the index with its
  sub-nodes, that belongs to a user file and has the name (with or without case). For a
  longer path the other components have no influence: the first component is looked up again
  in the directory found, where the search begins with the number that the first hit had,
  and the result is that entry or STATUS_OBJECT_PATH_NOT_FOUND.
\<close>

theorem NtfsLookupFileAt_drops_path:
  assumes "component c" and "length c < 32768" and "list_all component cs"
    and "directory Vcb i L" and "first_from (entry_for nls CaseSensitive c) 0 L = Some p"
    and "cs \<noteq> [] \<longrightarrow> directory Vcb (file_number (L ! p)) L'"
  shows "NtfsLookupFileAt nls alloc Vcb (path_of (c # cs)) CaseSensitive i =
    Some (if cs = [] then load_file_record Vcb (file_number (L ! p))
          else case first_from (entry_for nls CaseSensitive c) p L' of
                 None \<Rightarrow> (STATUS_OBJECT_PATH_NOT_FOUND, None)
               | Some q \<Rightarrow> load_file_record Vcb (file_number (L' ! q)))"
proof -
  have ne: "c \<noteq> []" "tl (path_of cs) = [] \<longleftrightarrow> cs = []" using assms(1,3) by (cases cs; simp add: component_def)+
  have p: "p < 2 ^ 32" using first_from_bound [OF assms(5)] assms(4) by (auto elim!: directory.cases)
  have d: "FsRtlDissectName c = (c, [])" using dissect_path(1) [OF assms(1), of "[]"] by simp
  note find1 = NtfsFindMftRecord_first [OF assms(4,2), of 0 nls alloc CaseSensitive i]
  show ?thesis
  proof (cases "cs = []")
    case True
    then show ?thesis using find1 assms(5) ne dissect_path(2) [OF assms(1), of cs]
      by (simp add: NtfsLookupFileAt_def lookup_loop.simps)
  next
    case False
    then have "directory Vcb (file_number (L ! p)) L'" using assms(6) by blast
    note find2 = NtfsFindMftRecord_first [OF this assms(2) p, of nls alloc CaseSensitive "file_number (L ! p)"]
    show ?thesis using find1 find2 assms(5) ne d False dissect_path(2) [OF assms(1), of cs]
      by (simp add: NtfsLookupFileAt_def lookup_loop.simps split: option.split)
  qed
qed

lemma in_order_flat:
  "list_all (\<lambda>e. EntryFlags e = 0) es \<Longrightarrow> in_order Vcb ctx flags (es @ [last_entry 0]) es"
proof (induction es)
  case Nil
  have "node_order Vcb ctx flags (last_entry 0) []"
    by (rule no_node [of _ _ _ _ STATUS_OBJECT_PATH_NOT_FOUND])
      (simp add: sub_node_def last_entry_def ntfs_constants split: option.split)
  then show ?case by (auto intro!: end_entry simp: last_entry_def ntfs_constants)
next
  case (Cons e es)
  then have "node_order Vcb ctx flags e []"
    by (intro no_node [of _ _ _ _ STATUS_OBJECT_PATH_NOT_FOUND]) (simp add: sub_node_def split: option.split)
  from next_entry [OF this, of "es @ [last_entry 0]" es] show ?case using Cons by simp
qed

lemma sample_directories:
  "directory sample_volume 5 [entry 30 0x78, entry 20 0x61]" "directory sample_volume 20 [entry 21 0x61, entry 22 0x62]"
proof -
  let ?L = "[entry 30 0x78, entry 20 0x61]" and ?L' = "[entry 21 0x61, entry 22 0x62]"
  let ?r = "\<lparr>HeaderFlags = 0, IndexEntries = ?L @ [last_entry 0]\<rparr>"
  let ?ctx = "Some (\<lambda>_. Some (STATUS_SUCCESS, ?r), RtlInitializeBitMap [1, 0] 64)"
  have "in_order sample_volume ?ctx 0 (?L @ [last_entry 0]) ?L" "in_order sample_volume None 0 (?L' @ [last_entry 0]) ?L'"
    by (rule in_order_flat, simp add: entry_def)+
  moreover have "sub_node sample_volume ?ctx 1 (last_entry NTFS_INDEX_ENTRY_NODE) = Some (Inr ?r)"
    by (simp add: sub_node_def read_sub_node_def sample_volume_def last_entry_def ntfs_constants RtlCheckBit_def
        RtlInitializeBitMap_def array_get_def)
  ultimately have "in_order sample_volume ?ctx 1 [last_entry NTFS_INDEX_ENTRY_NODE] ?L"
    by (intro end_entry node) (auto simp: last_entry_def ntfs_constants)
  then show "directory sample_volume 5 ?L"
    by (intro directory.intros [of _ _ "large_dir ?L" _ ?ctx])
      (auto simp: sample_volume_def large_dir_def index_context_def entry_def)
  show "directory sample_volume 20 ?L'"
    using \<open>in_order sample_volume None 0 _ ?L'\<close>
    by (intro directory.intros [of _ _ "small_dir ?L'" _ None])
      (auto simp: sample_volume_def small_dir_def index_context_def entry_def)
qed

theorem NtfsLookupFileAt_drops_path_witness:
  "NtfsLookupFileAt (\<lambda>_. 0) (\<lambda>_. True) sample_volume [BACKSLASH, 0x61, BACKSLASH, 0x62] True 5 =
     Some (STATUS_OBJECT_PATH_NOT_FOUND, None)"
proof -
  have f: "first_from (entry_for (\<lambda>_. 0) True [0x61]) 0 [entry 30 0x78, entry 20 0x61] = Some 1"
    "first_from (entry_for (\<lambda>_. 0) True [0x61]) 1 [entry 21 0x61, entry 22 0x62] = None"
    by (simp_all add: first_from_def entry_for_def entry_def entry_text_def file_number_def ntfs_constants fold_case_def)
  have n: "file_number (entry 20 0x61) = 20" by (simp add: file_number_def entry_def ntfs_constants)
  show ?thesis
    using NtfsLookupFileAt_drops_path [of "[0x61]" "[[0x62]]" sample_volume 5 "[entry 30 0x78, entry 20 0x61]" "\<lambda>_. 0" True 1
        "[entry 21 0x61, entry 22 0x62]" "\<lambda>_. True"] sample_directories f n
    by (simp add: component_def)
qed
end
