(* ===== verification/Spec2Isabelle.thy ===== *)
theory Spec2Isabelle
  imports RtlBitmapSets RtlTime RtlRangeList RtlSdForms SeSyscalls RtlUtf8 NtfsIndex
begin

text \<open>
  \<^bold>\<open>Verified routines of a Windows NT compatible operating system\<close>

  The repository holds a kernel (\<^verbatim>\<open>src/ntoskrnl\<close>), a run-time library that kernel and user mode share
  (\<^verbatim>\<open>src/sdk/lib/rtl\<close>), a C run time (\<^verbatim>\<open>src/sdk/lib/crt\<close>), drivers and user programs.  This library models
  the routines of these parts that compute on data, from the copying of bytes up to the system calls
  that check the access to an object, and proves what they do.

  \<^bold>\<open>How the parts interact\<close>

  The C run time copies and compares bytes.  The run-time library builds security identifiers (SIDs)
  and access control lists (ACLs) as byte blocks with it, and keeps bitmaps, range lists, times and
  counted strings.  The security reference monitor reads SIDs and ACLs out of tokens and security
  descriptors to decide on access.  The file system library matches names with the upcase table of
  the strings, and the NTFS driver follows paths with its dissection of names.  The theories import
  each other in the same way.

  \<^bold>\<open>Conventions\<close>

  \<^item> A machine integer is a word of its width, so sums wrap around as in C; signed time values are
    integers with the conversion of each assignment written out.
  \<^item> An access outside an object, an unmapped address and a failed assertion are the value \<open>None\<close>.  A
    theorem with a result \<open>Some\<close> thus says that the code does not fault.
  \<^item> A status is a constructor of \<open>NTSTATUS\<close>; \<open>status_code\<close> gives its number and \<open>NT_SUCCESS\<close> its class.
  \<^item> Memory is a partial map from addresses to bytes (\<open>mem\<close> of \<open>CrtMem\<close>); structures of 32-bit code are
    read and written at their offsets.  \<open>holds m p bs\<close> says that the bytes \<open>bs\<close> are at \<open>p\<close>.
  \<^item> The pool is an argument \<open>pool n\<close> or \<open>alloc n\<close>, whether an allocation of \<open>n\<close> bytes succeeds.  Probes of
    user pointers, handles, captures, the case tables and the disk are arguments too.
  \<^item> Names follow the source.  Where one C function is several definitions, each is a loop or a block
    of it.

  \<^bold>\<open>Theories\<close>

  \<^item> \<open>RtlPrelude\<close>: machine types, status codes, bounds-checked arrays, facts on words and lists.
  \<^item> \<open>RtlBitmap\<close>, \<open>RtlBitmapRuns\<close>, \<open>RtlBitmapSets\<close>: \<^verbatim>\<open>sdk/lib/rtl/bitmap.c\<close>.  The record \<open>RTL_BITMAP\<close> has the
    word array and the size in bits.  \<open>RtlBitmapRuns\<close> shows that the searches find the runs they claim,
    \<open>RtlBitmapSets\<close> that the updates are the operations on the set of the bits.  Locales: \<open>run_scan\<close>,
    \<open>run_search\<close> (instances for clear and for set bits) and \<open>range_set\<close>.
  \<^item> \<open>RtlTime\<close>: \<^verbatim>\<open>sdk/lib/rtl/time.c\<close>.  Round trips between times and calendar fields, the seconds since
    1970 and 1980, recurring cutover dates.
  \<^item> \<open>RtlRangeList\<close>: \<^verbatim>\<open>sdk/lib/rtl/rangelist.c\<close>, as the list behind the linked list.  Invariant (sorted and
    disjoint), the covered set under every operation, the search for a free range.  Locale:
    \<open>range_container\<close>.
  \<^item> \<open>CrtMem\<close>: \<^verbatim>\<open>sdk/lib/crt/mem\<close> and \<^verbatim>\<open>sdk/lib/rtl/mem.c\<close>, with overlapping blocks and faults.
  \<^item> \<open>RtlSid\<close>: \<^verbatim>\<open>sdk/lib/rtl/sid.c\<close>, \<^verbatim>\<open>access.c\<close>, \<^verbatim>\<open>luid.c\<close>.  \<open>sid_at m p S\<close> is the abstraction of a SID in memory.
  \<^item> \<open>RtlAcl\<close>, \<open>RtlAclOps\<close>: \<^verbatim>\<open>sdk/lib/rtl/acl.c\<close>.  \<open>acl_at\<close> and \<open>acl_entries\<close> are the abstraction of an ACL to
    the list of its entries.  Locales: \<open>ace_list\<close>, \<open>growing_ace_list\<close>; the access check reads entries
    through the law of \<open>ace_list\<close>.
  \<^item> \<open>RtlUtf8\<close>: \<^verbatim>\<open>sdk/lib/rtl/utf8.c\<close>, against the definitions of the Unicode standard.
  \<^item> \<open>RtlUnicode\<close>: counted strings and integers of \<^verbatim>\<open>sdk/lib/rtl/unicode.c\<close> and the case mapping of \<^verbatim>\<open>nls.c\<close>.
  \<^item> \<open>FsRtlName\<close>: \<^verbatim>\<open>ntoskrnl/fsrtl/name.c\<close>.  The matcher with its two arrays of states is equivalent to a
    recursive definition of the wildcards.
  \<^item> \<open>NtfsLookup\<close>: the path loop of \<open>AddFileName\<close> (\<^verbatim>\<open>drivers/filesystems/ntfs/attrib.c\<close>).
  \<^item> \<open>NtfsIndex\<close>: the search of a directory index and \<open>NtfsLookupFileAt\<close> (\<^verbatim>\<open>mft.c\<close>).  The recursive search
    is a scan of the entries of the index in their order (\<open>in_order\<close>).
  \<^item> \<open>SeToken\<close>: what the access check reads of a token and a descriptor: \<open>SepSidInTokenEx\<close> and
    \<open>SepGetSidFromAce\<close> (\<^verbatim>\<open>ntoskrnl/se/sid.c\<close>), the privilege checks (\<^verbatim>\<open>priv.c\<close>), \<open>SepTokenIsOwner\<close> (\<^verbatim>\<open>token.c\<close>), the
    members of a descriptor (\<^verbatim>\<open>ntoskrnl/include/internal/se.h\<close>).
  \<^item> \<open>RtlSd\<close>: \<^verbatim>\<open>sdk/lib/rtl/sd.c\<close> for 32-bit pointers.  \<open>sd_at\<close> is the abstraction of a descriptor to a record;
    the setters are updates of the record and the getters read it.
  \<^item> \<open>RtlSdForms\<close>: what a descriptor stands for in the absolute and in the self-relative form
    (\<open>shows_view\<close>).  The conversions keep it, and so the access check decides the same on both forms.
  \<^item> \<open>SeObjectTypes\<close>: \<^verbatim>\<open>ntoskrnl/se/objtype.c\<close> and the updates of the rights in a hierarchy of objects.
  \<^item> \<open>SeAccess\<close>: \<open>SepAnalyzeAcesFromDacl\<close>, \<open>SepAccessCheckWorker\<close>, \<open>SeAccessCheck\<close> and \<open>SeFastTraverseCheck\<close> of
    \<^verbatim>\<open>ntoskrnl/se/accesschk.c\<close>.
  \<^item> \<open>SeAccessSpec\<close>: the specification.  A DACL is a list of rules, and the first rule that names a right
    decides it; the loops of the kernel are shown to compute these decisions.
  \<^item> \<open>SeChecks\<close>: the decisions of \<open>SeAccessCheck\<close>, the relation of a request for specific rights to a
    request for \<^verbatim>\<open>MAXIMUM_ALLOWED\<close>, and the soundness of the fast check.
  \<^item> \<open>SeSyscalls\<close>: \<open>SepAccessCheck\<close>, \<open>NtAccessCheck\<close> and its two variants for lists of object types, which
    agree with \<open>SeAccessCheck\<close>.

  \<^bold>\<open>Termination and bounds\<close>

  No definition takes fuel.  Loops are structural recursions or functions with a measure, so their
  definitions terminate on every input.  Four kinds of loop of the source may not end and are partial
  functions, where not returning is \<open>None\<close>: some scans of the bitmap, \<open>RtlAddAce\<close> over entries of size 0,
  \<open>RtlUTF8ToUnicodeN\<close> whose index may wrap around, and the search of an index on a damaged disk; the
  theorems on them have a result \<open>Some\<close>.  Bounds in the hypotheses come from the code: UTF-8 sources have
  fewer than 2^32 - 2 bytes because the index after a truncated sequence wraps around, bitmaps have fewer than 2^31 bits because positions are compared after 32-bit sums, expressions have fewer
  than 16384 characters because the matcher stores twice their byte length in 16 bits, and ACLs have
  fewer than 65536 bytes because their size is a 16-bit member.

  \<^bold>\<open>Not modelled\<close>

  \<^item> Tokens: creation, filtering, duplication and adjustment (\<^verbatim>\<open>token.c\<close>, \<^verbatim>\<open>tokenlif.c\<close>, \<^verbatim>\<open>tokenadj.c\<close>,
    \<^verbatim>\<open>tokencls.c\<close>), auditing and logon sessions: kernel objects under locks.  Token locks are left out of the
    access check: the model sees one state of a token throughout a call.
  \<^item> Changes of user memory by another thread during a call.
  \<^item> The heap, the handle, atom and generic tables, and the trees of the run-time library: linked
    structures over raw addresses.
  \<^item> The conversions of \<^verbatim>\<open>unicode.c\<close> to ANSI and OEM code pages, which depend on tables loaded at run time.
  \<^item> The scheduler, memory manager, cache, I/O manager, registry, drivers and the graphics system, whose
    behaviour is concurrent or depends on devices, and the user programs.
\<close>

end
